(* ===== verification/Prelude.thy ===== *)
theory Prelude
  imports Main "HOL-Library.AList" "HOL-Library.Sublist"
begin

text \<open>
  Shared vocabulary of the development.

  \<^item> JavaScript \<open>Map\<close> objects keep their entries in insertion order, and the hub code observes that
    order (snapshots, listings). A map is therefore an association list; \<open>jsSet\<close> overwrites in
    place or appends, exactly as \<open>Map.prototype.set\<close> does, and \<open>jsDelete\<close> drops the entry.
  \<^item> JavaScript \<open>Set\<close> objects are lists without duplicates; \<open>jsAdd\<close> appends a new element.
  \<^item> \<open>invariant_machine\<close> and \<open>latch_machine\<close> are the two contracts that the state machines of
    this code base share: a property every event keeps, and an outcome which, once chosen, no later
    event changes.
\<close>

named_theorems js_simps \<open>rewrite rules for maps, sets and values\<close>

section \<open>Insertion-ordered maps\<close>

type_synonym ('k, 'v) jsmap = "('k \<times> 'v) list"

abbreviation jsGet :: "('k, 'v) jsmap \<Rightarrow> 'k \<Rightarrow> 'v option" where
  "jsGet m k \<equiv> map_of m k"

abbreviation jsHas :: "('k, 'v) jsmap \<Rightarrow> 'k \<Rightarrow> bool" where
  "jsHas m k \<equiv> map_of m k \<noteq> None"

abbreviation jsSet :: "('k, 'v) jsmap \<Rightarrow> 'k \<Rightarrow> 'v \<Rightarrow> ('k, 'v) jsmap" where
  "jsSet m k v \<equiv> AList.update k v m"

abbreviation jsDelete :: "('k, 'v) jsmap \<Rightarrow> 'k \<Rightarrow> ('k, 'v) jsmap" where
  "jsDelete m k \<equiv> AList.delete k m"

abbreviation jsKeys :: "('k, 'v) jsmap \<Rightarrow> 'k list" where
  "jsKeys m \<equiv> map fst m"

abbreviation jsValues :: "('k, 'v) jsmap \<Rightarrow> 'v list" where
  "jsValues m \<equiv> map snd m"

text \<open>A JavaScript map never holds a key twice.\<close>

definition jsmap_ok :: "('k, 'v) jsmap \<Rightarrow> bool" where
  "jsmap_ok m \<longleftrightarrow> distinct (map fst m)"

text \<open>\<open>new Map(entries)\<close> sets the entries one after another.\<close>

definition jsOfEntries :: "('k \<times> 'v) list \<Rightarrow> ('k, 'v) jsmap" where
  "jsOfEntries es = foldl (\<lambda>m e. jsSet m (fst e) (snd e)) [] es"

lemma jsmap_ok_Nil [simp, intro]: "jsmap_ok []"
  by (simp add: jsmap_ok_def)

lemma jsmap_ok_set [simp, intro]: "jsmap_ok m \<Longrightarrow> jsmap_ok (jsSet m k v)"
  by (simp add: jsmap_ok_def distinct_update)

lemma jsmap_ok_delete [simp, intro]: "jsmap_ok m \<Longrightarrow> jsmap_ok (jsDelete m k)"
  by (simp add: jsmap_ok_def distinct_delete)

lemma jsGet_set [js_simps]: "jsGet (jsSet m k v) k' = (if k' = k then Some v else jsGet m k')"
  by (simp add: update_conv')

lemma jsGet_delete [js_simps]: "jsGet (jsDelete m k) k' = (if k' = k then None else jsGet m k')"
  by (simp add: delete_conv')

lemma jsmap_ok_entries_from:
  "jsmap_ok m \<Longrightarrow> jsmap_ok (foldl (\<lambda>m e. jsSet m (fst e) (snd e)) m es)"
  by (induction es arbitrary: m) auto

lemma jsmap_ok_entries [simp, intro]: "jsmap_ok (jsOfEntries es)"
  by (simp add: jsOfEntries_def jsmap_ok_entries_from)

lemma jsGet_entries_from:
  "jsGet (foldl (\<lambda>m e. jsSet m (fst e) (snd e)) m es) k =
     (case jsGet (rev es) k of None \<Rightarrow> jsGet m k | Some v \<Rightarrow> Some v)"
proof (induction es arbitrary: m)
  case Nil
  then show ?case by simp
next
  case (Cons e es)
  then show ?case
    by (auto simp: js_simps map_add_def split: option.splits)
qed

lemma jsGet_entries [js_simps]: "jsGet (jsOfEntries es) k = jsGet (rev es) k"
  by (simp add: jsOfEntries_def jsGet_entries_from split: option.splits)

lemma jsGet_value_in: "jsGet m k = Some v \<Longrightarrow> v \<in> set (jsValues m)"
  by (force dest: map_of_SomeD)

lemma jsmap_ok_entry: "jsmap_ok m \<Longrightarrow> (k, v) \<in> set m \<longleftrightarrow> jsGet m k = Some v"
  by (auto simp: jsmap_ok_def map_of_eq_Some_iff)

lemma set_jsSet_subset: "set (jsSet m k v) \<subseteq> insert (k, v) (set m)"
  by (induction m) auto

lemma set_jsDelete_subset: "set (jsDelete m k) \<subseteq> set m"
  by (auto simp: AList.delete_eq)

lemma list_all_jsSet: "P (k, v) \<Longrightarrow> list_all P m \<Longrightarrow> list_all P (jsSet m k v)"
  using set_jsSet_subset [of k v m] by (auto simp: list_all_iff)

lemma list_all_jsDelete: "list_all P m \<Longrightarrow> list_all P (jsDelete m k)"
  using set_jsDelete_subset [of k m] by (auto simp: list_all_iff)

section \<open>Insertion-ordered sets\<close>

definition jsAdd :: "'a list \<Rightarrow> 'a \<Rightarrow> 'a list" where
  "jsAdd xs x = (if x \<in> set xs then xs else xs @ [x])"

abbreviation jsRemove :: "'a list \<Rightarrow> 'a \<Rightarrow> 'a list" where
  "jsRemove xs x \<equiv> filter (\<lambda>y. y \<noteq> x) xs"

lemma set_jsAdd [simp]: "set (jsAdd xs x) = insert x (set xs)"
  by (auto simp: jsAdd_def)

lemma distinct_jsAdd [simp]: "distinct (jsAdd xs x) = distinct xs"
  by (auto simp: jsAdd_def)

text \<open>\<open>Array.prototype.indexOf\<close>: -1 when the element is absent.\<close>

fun indexOf :: "'a list \<Rightarrow> 'a \<Rightarrow> int" where
  "indexOf [] x = -1"
| "indexOf (y # ys) x = (if y = x then 0 else let i = indexOf ys x in if i < 0 then -1 else i + 1)"

lemma indexOf_lower: "-1 \<le> indexOf xs x"
  by (induction xs) (auto simp: Let_def)

lemma indexOf_upper: "indexOf xs x < int (length xs)"
  by (induction xs) (auto simp: Let_def)

lemma indexOf_nonneg_iff: "0 \<le> indexOf xs x \<longleftrightarrow> x \<in> set xs"
  by (induction xs) (auto simp: Let_def split: if_splits)

lemma nth_indexOf: "x \<in> set xs \<Longrightarrow> xs ! nat (indexOf xs x) = x"
proof (induction xs)
  case Nil
  then show ?case by simp
next
  case (Cons y ys)
  then show ?case
    using indexOf_nonneg_iff [of ys x] by (auto simp: Let_def nat_add_distrib)
qed

lemma indexOf_inj: "indexOf xs x = indexOf xs y \<Longrightarrow> x \<in> set xs \<Longrightarrow> x = y"
  using nth_indexOf [of x xs] nth_indexOf [of y xs] indexOf_nonneg_iff [of xs x] indexOf_nonneg_iff [of xs y]
  by auto

section \<open>Strings\<close>

definition lowerChar :: "char \<Rightarrow> char" where
  "lowerChar c = (let n = of_char c :: nat in if 65 \<le> n \<and> n \<le> 90 then char_of (n + 32) else c)"

definition upperChar :: "char \<Rightarrow> char" where
  "upperChar c = (let n = of_char c :: nat in if 97 \<le> n \<and> n \<le> 122 then char_of (n - 32) else c)"

text \<open>\<open>toLowerCase\<close> and \<open>toUpperCase\<close> on ASCII text.\<close>

definition toLowerCase :: "string \<Rightarrow> string" where
  "toLowerCase = map lowerChar"

definition toUpperCase :: "string \<Rightarrow> string" where
  "toUpperCase = map upperChar"

text \<open>\<open>hay.includes(needle)\<close> and \<open>text.trim() === ''\<close> (on characters below 256).\<close>

fun strIncludes :: "string \<Rightarrow> string \<Rightarrow> bool" where
  "strIncludes [] needle = (needle = [])"
| "strIncludes (c # hay) needle = (prefix needle (c # hay) \<or> strIncludes hay needle)"

definition isJsSpace :: "char \<Rightarrow> bool" where
  "isJsSpace c = (let n = of_char c :: nat in (9 \<le> n \<and> n \<le> 13) \<or> n = 32 \<or> n = 160)"

lemma strIncludes_sublist: "strIncludes hay needle = sublist needle hay"
  by (induction hay) (auto simp: sublist_Cons_right)

text \<open>\<open>a || b\<close> on strings and optional strings: the empty string is falsy.\<close>

definition orElse :: "string option \<Rightarrow> string \<Rightarrow> string" where
  "orElse a b = (case a of Some s \<Rightarrow> if s = [] then b else s | None \<Rightarrow> b)"

section \<open>Results\<close>

text \<open>A call that may throw returns \<open>Inl\<close> of the error or \<open>Inr\<close> of the value.\<close>

definition bindR :: "'e + 'a \<Rightarrow> ('a \<Rightarrow> 'e + 'b) \<Rightarrow> 'e + 'b" where
  "bindR r f = (case r of Inl e \<Rightarrow> Inl e | Inr a \<Rightarrow> f a)"

lemma bindR_simps [simp]: "bindR (Inl e) f = Inl e" "bindR (Inr a) f = f a"
  by (simp_all add: bindR_def)

lemma bindR_eq_Inr: "bindR r f = Inr b \<longleftrightarrow> (\<exists>a. r = Inr a \<and> f a = Inr b)"
  by (cases r) auto

section \<open>Contracts of the state machines\<close>

locale invariant_machine =
  fixes step :: "'s \<Rightarrow> 'e \<Rightarrow> 's"
    and inv :: "'s \<Rightarrow> bool"
  assumes inv_step: "inv s \<Longrightarrow> inv (step s e)"
begin

lemma inv_run: "inv s \<Longrightarrow> inv (foldl step s es)"
  by (induction es arbitrary: s) (auto intro: inv_step)

end

text \<open>The same for a machine whose callers keep a side condition on the events.\<close>

locale guarded_machine =
  fixes step :: "'s \<Rightarrow> 'e \<Rightarrow> 's"
    and ok :: "'e \<Rightarrow> bool"
    and inv :: "'s \<Rightarrow> bool"
  assumes guarded_step: "inv s \<Longrightarrow> ok e \<Longrightarrow> inv (step s e)"
begin

lemma guarded_run: "inv s \<Longrightarrow> list_all ok es \<Longrightarrow> inv (foldl step s es)"
  by (induction es arbitrary: s) (auto intro: guarded_step)

end

sublocale invariant_machine \<subseteq> guarded: guarded_machine step "\<lambda>_. True" inv
  by unfold_locales (rule inv_step)

text \<open>
  The outcome of a machine is an option: \<open>None\<close> while it is undecided. A latch machine never
  changes an outcome it has chosen.
\<close>

locale latch_machine =
  fixes step :: "'s \<Rightarrow> 'e \<Rightarrow> 's"
    and outcome :: "'s \<Rightarrow> 'o option"
  assumes outcome_step: "outcome s = Some r \<Longrightarrow> outcome (step s e) = Some r"
begin

lemma outcome_run: "outcome s = Some r \<Longrightarrow> outcome (foldl step s es) = Some r"
  by (induction es arbitrary: s) (auto intro: outcome_step)

lemma outcome_prefix:
  "outcome (foldl step s es) = Some r \<Longrightarrow> outcome (foldl step s (es @ fs)) = Some r"
  by (simp add: outcome_run)

lemma outcome_undecided_before:
  "outcome (foldl step s (es @ fs)) = None \<Longrightarrow> outcome (foldl step s es) = None"
  using outcome_run [of "foldl step s es" _ fs] by (cases "outcome (foldl step s es)") auto

end

text \<open>
  A machine whose callers keep a contract that looks at the state: the invariant holds along the runs
  that respect it.
\<close>

fun keeps_contract :: "('s \<Rightarrow> 'e \<Rightarrow> 's) \<Rightarrow> ('s \<Rightarrow> 'e \<Rightarrow> bool) \<Rightarrow> 's \<Rightarrow> 'e list \<Rightarrow> bool" where
  "keeps_contract step pre s [] = True"
| "keeps_contract step pre s (e # es) = (pre s e \<and> keeps_contract step pre (step s e) es)"

locale contract_machine =
  fixes step :: "'s \<Rightarrow> 'e \<Rightarrow> 's"
    and pre :: "'s \<Rightarrow> 'e \<Rightarrow> bool"
    and inv :: "'s \<Rightarrow> bool"
  assumes contract_step: "inv s \<Longrightarrow> pre s e \<Longrightarrow> inv (step s e)"
begin

lemma contract_run: "inv s \<Longrightarrow> keeps_contract step pre s es \<Longrightarrow> inv (foldl step s es)"
  by (induction es arbitrary: s) (auto intro: contract_step)

end

sublocale guarded_machine \<subseteq> contract: contract_machine step "\<lambda>_. ok" inv
  by unfold_locales (rule guarded_step)

end
