(* ===== verification/JsValue.thy ===== *)
theory JsValue
  imports Prelude
begin

text \<open>
  JavaScript values as the code receives them when a parameter is typed \<open>unknown\<close>. A number is an
  exact double: an integer, a dyadic fraction \<open>m / 2 ^ k\<close>, an infinity or NaN. An array or object
  carries a \<open>shape\<close>: \<open>Plain\<close> for what \<open>JSON.parse\<close> produces, another one when its prototype, keys,
  property descriptors or a back reference make it unsuitable as JSON data; its properties can be
  read in either case.
\<close>

datatype jsnum = NInt int | NFrac int nat | NInf bool | NNaN

datatype shape = Plain | ForeignPrototype | BadKeys | AccessorOrHole | Cyclic

datatype jsval =
    JUndefined
  | JNull
  | JBool bool
  | JNum jsnum
  | JStr string
  | JOpaque \<comment> \<open>functions, symbols, bigints\<close>
  | JArr shape "jsval list"
  | JObj shape "(string \<times> jsval) list"

datatype js_error = TypeError string | PlainError string

definition isFinite :: "jsnum \<Rightarrow> bool" where
  "isFinite n = (case n of NInt _ \<Rightarrow> True | NFrac _ _ \<Rightarrow> True | _ \<Rightarrow> False)"

definition isSafeInteger :: "jsval \<Rightarrow> bool" where
  "isSafeInteger v = (case v of JNum (NInt i) \<Rightarrow> \<bar>i\<bar> \<le> 9007199254740991 | _ \<Rightarrow> False)"

definition isString :: "jsval \<Rightarrow> bool" where
  "isString v = (case v of JStr _ \<Rightarrow> True | _ \<Rightarrow> False)"

definition isArray :: "jsval \<Rightarrow> bool" where
  "isArray v = (case v of JArr _ _ \<Rightarrow> True | _ \<Rightarrow> False)"

definition strOf :: "jsval \<Rightarrow> string" where
  "strOf v = (case v of JStr s \<Rightarrow> s | _ \<Rightarrow> [])"

definition elemsOf :: "jsval \<Rightarrow> jsval list" where
  "elemsOf v = (case v of JArr _ xs \<Rightarrow> xs | _ \<Rightarrow> [])"

text \<open>Reading a property: \<open>undefined\<close> when the object does not have it.\<close>

definition jsProp :: "jsval \<Rightarrow> string \<Rightarrow> jsval" where
  "jsProp v k = (case v of
      JObj _ fs \<Rightarrow> (case map_of fs k of None \<Rightarrow> JUndefined | Some x \<Rightarrow> x)
    | _ \<Rightarrow> JUndefined)"

text \<open>
  The operator \<open>===\<close>. The code applies it with at least one primitive operand, so two objects
  (which JavaScript compares by identity) never meet here.
\<close>

definition strictEq :: "jsval \<Rightarrow> jsval \<Rightarrow> bool" where
  "strictEq a b = (case a of
      JNum NNaN \<Rightarrow> False
    | JOpaque \<Rightarrow> False
    | JArr _ _ \<Rightarrow> False
    | JObj _ _ \<Rightarrow> False
    | _ \<Rightarrow> a = b)"

lemma strictEq_str [simp]: "strictEq v (JStr s) \<longleftrightarrow> v = JStr s" "strictEq (JStr s) v \<longleftrightarrow> v = JStr s"
  by (auto simp: strictEq_def split: jsval.splits jsnum.splits)

lemma strictEq_int [simp]: "strictEq (JNum (NInt i)) v \<longleftrightarrow> v = JNum (NInt i)"
  by (auto simp: strictEq_def)

lemma isString_iff: "isString v \<longleftrightarrow> (\<exists>s. v = JStr s)"
  by (auto simp: isString_def split: jsval.splits)

lemma isArray_iff: "isArray v \<longleftrightarrow> (\<exists>sh xs. v = JArr sh xs)"
  by (auto simp: isArray_def split: jsval.splits)

lemma isString_JStr [simp]: "isString (JStr s)"
  by (simp add: isString_def)

lemma isArray_JArr [simp]: "isArray (JArr sh xs)"
  by (simp add: isArray_def)

lemma strOf_JStr [simp]: "strOf (JStr s) = s"
  by (simp add: strOf_def)

lemma elemsOf_JArr [simp]: "elemsOf (JArr sh xs) = xs"
  by (simp add: elemsOf_def)

lemma jsProp_JObj [simp]: "jsProp (JObj sh fs) k = (case map_of fs k of None \<Rightarrow> JUndefined | Some x \<Rightarrow> x)"
  by (simp add: jsProp_def)

lemma isSafeInteger_iff:
  "isSafeInteger v \<longleftrightarrow> (\<exists>i. v = JNum (NInt i) \<and> \<bar>i\<bar> \<le> 9007199254740991)"
  by (auto simp: isSafeInteger_def split: jsval.splits jsnum.splits)

text \<open>\<open>{ ...v, k1: x1, k2: x2 }\<close>\<close>

definition spread :: "jsval \<Rightarrow> (string \<times> jsval) list \<Rightarrow> jsval" where
  "spread v gs = (case v of
      JObj _ fs \<Rightarrow> JObj Plain (foldl (\<lambda>m e. jsSet m (fst e) (snd e)) fs gs)
    | _ \<Rightarrow> JObj Plain (jsOfEntries gs))"

text \<open>\<open>({ k, ...rest }) => rest\<close>\<close>

definition withoutKey :: "string \<Rightarrow> jsval \<Rightarrow> jsval" where
  "withoutKey k v = (case v of JObj _ fs \<Rightarrow> JObj Plain (jsDelete fs k) | _ \<Rightarrow> JObj Plain [])"

lemma jsProp_spread:
  "jsProp (spread v gs) k = (case jsGet (rev gs) k of Some x \<Rightarrow> x | None \<Rightarrow>
     (case v of JObj _ fs \<Rightarrow> jsProp v k | _ \<Rightarrow> JUndefined))"
  by (cases v) (simp_all add: spread_def jsGet_entries_from js_simps split: option.splits)

text \<open>\<open>a ?? b\<close>\<close>

definition nullish :: "jsval \<Rightarrow> jsval \<Rightarrow> jsval" where
  "nullish a b = (if a = JUndefined \<or> a = JNull then b else a)"

text \<open>JSON data: what \<open>JSON.parse\<close> can return.\<close>

fun isJson :: "jsval \<Rightarrow> bool" where
  "isJson JUndefined = False"
| "isJson JNull = True"
| "isJson (JBool _) = True"
| "isJson (JNum n) = isFinite n"
| "isJson (JStr _) = True"
| "isJson JOpaque = False"
| "isJson (JArr sh xs) = (sh = Plain \<and> list_all isJson xs)"
| "isJson (JObj sh fs) = (sh = Plain \<and> list_all (\<lambda>f. isJson (snd f)) fs)"

end
