(* ===== verification/HubStateData.thy ===== *)
theory HubStateData
  imports JsValue
begin

text \<open>
  \<open>packages/hub-state/src/hub-state-data.ts\<close>: the JSON copy every value of the replicated hub state
  goes through, and the validators of cursors, mutations and inventories received over the audit
  stream.
\<close>

section \<open>The defensive copy\<close>

definition arrayShapeError :: "shape \<Rightarrow> js_error" where
  "arrayShapeError sh = (case sh of
      Cyclic \<Rightarrow> TypeError ''Hub state values cannot be cyclic''
    | AccessorOrHole \<Rightarrow> TypeError ''Hub state arrays must not contain holes or accessors''
    | _ \<Rightarrow> TypeError ''Hub state arrays must be plain JSON arrays'')"

definition objectShapeError :: "shape \<Rightarrow> js_error" where
  "objectShapeError sh = (case sh of
      Cyclic \<Rightarrow> TypeError ''Hub state values cannot be cyclic''
    | AccessorOrHole \<Rightarrow> TypeError ''Hub state objects must not contain accessors''
    | BadKeys \<Rightarrow> TypeError ''Hub state objects cannot contain symbol keys''
    | _ \<Rightarrow> TypeError ''Hub state objects must be plain JSON objects'')"

text \<open>An object property holding \<open>undefined\<close> is omitted, as JSON serialisation does.\<close>

fun copyJson :: "jsval \<Rightarrow> js_error + jsval"
  and copyElems :: "jsval list \<Rightarrow> js_error + jsval list"
  and copyFields :: "(string \<times> jsval) list \<Rightarrow> js_error + (string \<times> jsval) list" where
  "copyJson JNull = Inr JNull"
| "copyJson (JStr s) = Inr (JStr s)"
| "copyJson (JBool b) = Inr (JBool b)"
| "copyJson (JNum n) =
     (if isFinite n then Inr (JNum n)
      else Inl (TypeError ''Hub state values must contain finite JSON numbers''))"
| "copyJson JUndefined = Inl (TypeError ''Hub state values must be JSON data'')"
| "copyJson JOpaque = Inl (TypeError ''Hub state values must be JSON data'')"
| "copyJson (JArr sh xs) =
     (if sh = Plain then bindR (copyElems xs) (\<lambda>ys. Inr (JArr Plain ys))
      else Inl (arrayShapeError sh))"
| "copyJson (JObj sh fs) =
     (if sh = Plain then bindR (copyFields fs) (\<lambda>gs. Inr (JObj Plain gs))
      else Inl (objectShapeError sh))"
| "copyElems [] = Inr []"
| "copyElems (x # xs) = bindR (copyJson x) (\<lambda>y. bindR (copyElems xs) (\<lambda>ys. Inr (y # ys)))"
| "copyFields [] = Inr []"
| "copyFields (f # fs) =
     (if snd f = JUndefined then copyFields fs
      else bindR (copyJson (snd f)) (\<lambda>y. bindR (copyFields fs) (\<lambda>gs. Inr ((fst f, y) # gs))))"

lemma copy_yields_json:
  shows "copyJson v = Inr w \<Longrightarrow> isJson w"
    and "copyElems xs = Inr ys \<Longrightarrow> list_all isJson ys"
    and "copyFields fs = Inr gs \<Longrightarrow> list_all (\<lambda>f. isJson (snd f)) gs"
  by (induction v and xs and fs arbitrary: w and ys and gs rule: copyJson_copyElems_copyFields.induct)
    (auto simp: bindR_eq_Inr split: if_splits)

lemma copy_of_json:
  shows "isJson v \<Longrightarrow> copyJson v = Inr v"
    and "list_all isJson xs \<Longrightarrow> copyElems xs = Inr xs"
    and "list_all (\<lambda>f. isJson (snd f)) fs \<Longrightarrow> copyFields fs = Inr fs"
  by (induction v and xs and fs rule: copyJson_copyElems_copyFields.induct) auto

lemma copyFields_get:
  "copyFields fs = Inr gs \<Longrightarrow> map_of fs k = Some v \<Longrightarrow> v \<noteq> JUndefined \<Longrightarrow>
     \<exists>w. map_of gs k = Some w \<and> copyJson v = Inr w"
  by (induction fs arbitrary: gs) (auto simp: bindR_eq_Inr split: if_splits)

lemma copyJson_prop:
  assumes "copyJson v = Inr w" and "jsProp v k = x" and "x \<noteq> JUndefined"
  shows "\<exists>y. jsProp w k = y \<and> copyJson x = Inr y"
  using assms
  by (cases v) (auto simp: jsProp_def bindR_eq_Inr split: if_splits option.splits dest: copyFields_get)

lemma copyJson_prop_str: "copyJson v = Inr w \<Longrightarrow> jsProp v k = JStr s \<Longrightarrow> jsProp w k = JStr s"
  by (auto dest: copyJson_prop)

lemma copyJson_prop_int:
  "copyJson v = Inr w \<Longrightarrow> jsProp v k = JNum (NInt i) \<Longrightarrow> jsProp w k = JNum (NInt i)"
  by (auto dest: copyJson_prop simp: isFinite_def)

section \<open>Validators\<close>

definition isObject :: "jsval \<Rightarrow> bool" where
  "isObject v = (case v of JArr _ _ \<Rightarrow> True | JObj _ _ \<Rightarrow> True | _ \<Rightarrow> False)"

definition validSequenceInstances :: "jsval \<Rightarrow> bool" where
  "validSequenceInstances sq \<longleftrightarrow>
     jsProp sq ''instances'' = JUndefined \<or>
     (isArray (jsProp sq ''instances'') \<and> list_all isString (elemsOf (jsProp sq ''instances'')))"

definition validMutation :: "jsval \<Rightarrow> bool" where
  "validMutation m =
    (let p = jsProp m; action = p ''action'' in
     if \<not> isObject m then False
     else if p ''kind'' = JStr ''sequence'' then
       (action = JStr ''upsert'' \<and> isString (p ''sequenceId'') \<and> isObject (p ''value'') \<and> validSequenceInstances (p ''value'')) \<or>
       (action = JStr ''remove'' \<and> isString (p ''sequenceId'') \<and> p ''value'' = JNull) \<or>
       (action = JStr ''manifest'' \<and> isString (p ''sequenceId'') \<and> isString (p ''instanceId'') \<and> isObject (p ''manifestChange''))
     else if p ''kind'' = JStr ''instance'' then
       isString (p ''instanceId'') \<and> isString (p ''sequenceId'') \<and>
       ((action = JStr ''upsert'' \<and> isObject (p ''value'')) \<or> (action = JStr ''remove'' \<and> p ''value'' = JNull))
     else if p ''kind'' = JStr ''topic'' then
       isString (p ''topic'') \<and>
       ((action = JStr ''upsert'' \<and> isObject (p ''value'')) \<or> (action = JStr ''remove'' \<and> p ''value'' = JNull))
     else if p ''kind'' = JStr ''health'' then
       action = JStr ''upsert'' \<and> isObject (p ''value'')
     else False)"

text \<open>The two nested \<open>every\<close> loops of \<open>validSequenceInventory\<close>, with the sets of ids seen so far.\<close>

fun validSequenceManifests :: "jsval \<Rightarrow> string list \<Rightarrow> jsval list \<Rightarrow> bool" where
  "validSequenceManifests sid seen [] = True"
| "validSequenceManifests sid seen (mf # mfs) =
     (if \<not> isObject mf \<or> \<not> isString (jsProp mf ''instanceId'') \<or>
         \<not> strictEq (jsProp mf ''sequenceId'') sid \<or> strOf (jsProp mf ''instanceId'') \<in> set seen
      then False
      else validSequenceManifests sid (jsAdd seen (strOf (jsProp mf ''instanceId''))) mfs)"

fun validSequenceInventory :: "string list \<Rightarrow> jsval list \<Rightarrow> bool" where
  "validSequenceInventory ids [] = True"
| "validSequenceInventory ids (sq # sqs) =
     (if \<not> isObject sq \<or> \<not> isString (jsProp sq ''id'') \<or> \<not> isArray (jsProp sq ''manifests'') \<or>
         \<not> validSequenceInstances sq \<or> strOf (jsProp sq ''id'') \<in> set ids
      then False
      else validSequenceManifests (jsProp sq ''id'') [] (elemsOf (jsProp sq ''manifests'')) \<and>
           validSequenceInventory (jsAdd ids (strOf (jsProp sq ''id''))) sqs)"

fun validInstanceInventory :: "string list \<Rightarrow> jsval list \<Rightarrow> bool" where
  "validInstanceInventory ids [] = True"
| "validInstanceInventory ids (i # is) =
     (if \<not> isObject i \<or> \<not> isString (jsProp i ''id'') \<or> strOf (jsProp i ''id'') \<in> set ids then False
      else if jsProp i ''sequenceId'' \<noteq> JUndefined \<and> \<not> isString (jsProp i ''sequenceId'') then False
      else validInstanceInventory (jsAdd ids (strOf (jsProp i ''id''))) is)"

fun validTopicInventory :: "string list \<Rightarrow> jsval list \<Rightarrow> bool" where
  "validTopicInventory names [] = True"
| "validTopicInventory names (t # ts) =
     (if \<not> isObject t \<or> \<not> isString (jsProp t ''name'') \<or> strOf (jsProp t ''name'') \<in> set names then False
      else validTopicInventory (jsAdd names (strOf (jsProp t ''name''))) ts)"

definition validInventoryAssociations :: "jsval \<Rightarrow> bool" where
  "validInventoryAssociations inventory =
    (if \<not> validSequenceInventory [] (elemsOf (jsProp inventory ''sequences'')) then False
     else if \<not> validInstanceInventory [] (elemsOf (jsProp inventory ''instances'')) then False
     else if \<not> validTopicInventory [] (elemsOf (jsProp inventory ''topics'')) then False
     else isObject (jsProp inventory ''health''))"

definition validCursor :: "jsval \<Rightarrow> bool" where
  "validCursor c \<longleftrightarrow> isObject c \<and>
     isString (jsProp c ''hubId'') \<and> jsProp c ''hubId'' \<noteq> JStr '''' \<and>
     isString (jsProp c ''epoch'') \<and> jsProp c ''epoch'' \<noteq> JStr '''' \<and>
     isSafeInteger (jsProp c ''position'') \<and>
     (case jsProp c ''position'' of JNum (NInt i) \<Rightarrow> 0 \<le> i | _ \<Rightarrow> False)"

definition validMutationAssociations :: "jsval \<Rightarrow> bool" where
  "validMutationAssociations m =
    (let kind = jsProp m ''kind''; action = jsProp m ''action''; val = jsProp m ''value'' in
     if kind = JStr ''sequence'' \<and> action = JStr ''upsert'' then
       strictEq (jsProp val ''id'') (jsProp m ''sequenceId'')
     else if kind = JStr ''sequence'' \<and> action = JStr ''manifest'' then
       strictEq (jsProp (jsProp m ''manifestChange'') ''instanceId'') (jsProp m ''instanceId'') \<and>
       strictEq (jsProp (jsProp m ''manifestChange'') ''sequenceId'') (jsProp m ''sequenceId'')
     else if kind = JStr ''instance'' \<and> action = JStr ''upsert'' then
       strictEq (jsProp val ''id'') (jsProp m ''instanceId'') \<and>
       (jsProp val ''sequenceId'' = JUndefined \<or> strictEq (jsProp val ''sequenceId'') (jsProp m ''sequenceId''))
     else if kind = JStr ''topic'' \<and> action = JStr ''upsert'' then
       strictEq (jsProp val ''name'') (jsProp m ''topic'')
     else True)"

section \<open>What the validators establish\<close>

text \<open>The three fields of a valid cursor.\<close>

definition cursorView :: "jsval \<Rightarrow> string \<times> string \<times> int" where
  "cursorView c = (strOf (jsProp c ''hubId''), strOf (jsProp c ''epoch''),
     (case jsProp c ''position'' of JNum (NInt i) \<Rightarrow> i | _ \<Rightarrow> 0))"

lemma validCursorE:
  assumes "validCursor c"
  obtains h e p where "jsProp c ''hubId'' = JStr h" "jsProp c ''epoch'' = JStr e"
    "jsProp c ''position'' = JNum (NInt p)" "0 \<le> p" "h \<noteq> ''''" "e \<noteq> ''''" "p \<le> 9007199254740991"
    "cursorView c = (h, e, p)"
  using assms
  by (auto simp: validCursor_def isString_iff isSafeInteger_iff cursorView_def split: jsval.splits jsnum.splits)

lemma isObject_copy: "copyJson v = Inr w \<Longrightarrow> isObject v \<Longrightarrow> isObject w"
  by (cases v) (auto simp: isObject_def bindR_eq_Inr split: if_splits)

lemma validCursor_copy:
  assumes "validCursor c" and "copyJson c = Inr d"
  shows "validCursor d \<and> cursorView d = cursorView c"
proof -
  from assms(1) obtain h e p where c: "jsProp c ''hubId'' = JStr h" "jsProp c ''epoch'' = JStr e"
    "jsProp c ''position'' = JNum (NInt p)" "0 \<le> p" "h \<noteq> ''''" "e \<noteq> ''''" "p \<le> 9007199254740991"
    "cursorView c = (h, e, p)"
    by (rule validCursorE)
  have d: "jsProp d ''hubId'' = JStr h" "jsProp d ''epoch'' = JStr e" "jsProp d ''position'' = JNum (NInt p)"
    using c assms(2) by (auto dest: copyJson_prop_str copyJson_prop_int)
  have "isObject c" using assms(1) by (simp add: validCursor_def)
  then have "isObject d" using assms(2) by (rule isObject_copy [rotated])
  with d c show ?thesis by (simp add: validCursor_def isSafeInteger_def cursorView_def)
qed

lemma validSequenceInventory_distinct:
  "validSequenceInventory ids sqs \<Longrightarrow>
     distinct (map (\<lambda>s. strOf (jsProp s ''id'')) sqs) \<and> set ids \<inter> (\<lambda>s. strOf (jsProp s ''id'')) ` set sqs = {}"
  by (induction ids sqs rule: validSequenceInventory.induct) (auto split: if_splits)

lemma validInstanceInventory_distinct:
  "validInstanceInventory ids is \<Longrightarrow>
     distinct (map (\<lambda>s. strOf (jsProp s ''id'')) is) \<and> set ids \<inter> (\<lambda>s. strOf (jsProp s ''id'')) ` set is = {}"
  by (induction ids "is" rule: validInstanceInventory.induct) (auto split: if_splits)

lemma validTopicInventory_distinct:
  "validTopicInventory ids ts \<Longrightarrow>
     distinct (map (\<lambda>s. strOf (jsProp s ''name'')) ts) \<and> set ids \<inter> (\<lambda>s. strOf (jsProp s ''name'')) ` set ts = {}"
  by (induction ids ts rule: validTopicInventory.induct) (auto split: if_splits)

end
