(* ===== verification/HubStateStore.thy ===== *)
theory HubStateStore
  imports HubStateData
begin

text \<open>
  \<open>packages/hub-state/src/hub-state-store.ts\<close>: the replica of a hub's inventory that is rebuilt from
  the audit stream and serves snapshots and change subscriptions.

  Consumer callbacks are the environment: whether a \<open>change\<close> callback throws is the parameter
  \<open>throws\<close>, and the callbacks do not re-enter the store. What a call hands to its subscribers is
  returned as a list of events, and an exception that leaves the call as an optional error.
\<close>

section \<open>State\<close>

datatype hub_source_code = SOURCE_UNAVAILABLE | GAP | RESTARTED

datatype hub_source_error = HubStateSourceError hub_source_code string

record hub_subscriber =
  sb_id :: nat
  sb_kind :: string
  sb_prev :: jsval

record manifest_entry =
  me_sequenceId :: string
  me_value :: jsval

record hub_store =
  hs_available :: bool
  hs_cursor :: "jsval option"
  hs_sequences :: "(string, jsval) jsmap"
  hs_instances :: "(string, jsval) jsmap"
  hs_topics :: "(string, jsval) jsmap"
  hs_manifests :: "(string, manifest_entry) jsmap"
  hs_health :: "jsval option"
  hs_subscribers :: "hub_subscriber list"
  hs_closed :: bool
  hs_next :: nat \<comment> \<open>identity of the next subscriber object\<close>

datatype hub_event = Notify nat jsval | Fail nat hub_source_error

definition newHubStateStore :: hub_store where
  "newHubStateStore = \<lparr>hs_available = False, hs_cursor = None, hs_sequences = [], hs_instances = [],
     hs_topics = [], hs_manifests = [], hs_health = None, hs_subscribers = [], hs_closed = False, hs_next = 0\<rparr>"

section \<open>Helpers\<close>

definition sameCursor :: "jsval \<Rightarrow> jsval \<Rightarrow> bool" where
  "sameCursor a b \<longleftrightarrow> strictEq (jsProp a ''hubId'') (jsProp b ''hubId'') \<and>
     strictEq (jsProp a ''epoch'') (jsProp b ''epoch'') \<and>
     strictEq (jsProp a ''position'') (jsProp b ''position'')"

definition positionOf :: "jsval \<Rightarrow> int" where
  "positionOf c = (case jsProp c ''position'' of JNum (NInt i) \<Rightarrow> i | _ \<Rightarrow> 0)"

text \<open>The copy of a value the store already owns; such a value is JSON, so the copy succeeds.\<close>

definition copied :: "jsval \<Rightarrow> jsval" where
  "copied v = (case copyJson v of Inr w \<Rightarrow> w | Inl _ \<Rightarrow> JUndefined)"

lemma copied_json [simp]: "isJson v \<Longrightarrow> copied v = v"
  by (simp add: copied_def copy_of_json(1))

section \<open>Operations\<close>

definition invalidate :: "hub_store \<Rightarrow> hub_source_error \<Rightarrow> hub_store \<times> hub_event list" where
  "invalidate s err =
    (s\<lparr>hs_available := False, hs_sequences := [], hs_instances := [], hs_topics := [],
       hs_manifests := [], hs_health := None, hs_subscribers := []\<rparr>,
     map (\<lambda>b. Fail (sb_id b) err) (hs_subscribers s))"

definition removeSubscriber :: "hub_store \<Rightarrow> nat \<Rightarrow> hub_store" where
  "removeSubscriber s i = s\<lparr>hs_subscribers := filter (\<lambda>b. sb_id b \<noteq> i) (hs_subscribers s)\<rparr>"

definition manifestValue :: "jsval \<Rightarrow> jsval" where
  "manifestValue change = JObj Plain
     [(''instanceId'', jsProp change ''instanceId''), (''sequenceId'', jsProp change ''sequenceId''),
      (''revision'', jsProp change ''revision''), (''manifest'', jsProp change ''manifest''),
      (''sequence'', jsProp change ''sequence'')]"

text \<open>\<open>apply\<close>: one mutation; a value that cannot be copied throws.\<close>

definition applyMutation :: "hub_store \<Rightarrow> jsval \<Rightarrow> js_error + hub_store" where
  "applyMutation s m =
    (let kind = jsProp m ''kind''; action = jsProp m ''action''; val = jsProp m ''value'';
         sid = strOf (jsProp m ''sequenceId''); iid = strOf (jsProp m ''instanceId'');
         tp = strOf (jsProp m ''topic'') in
     if kind = JStr ''sequence'' then
       (if action = JStr ''upsert'' then bindR (copyJson val) (\<lambda>v. Inr (s\<lparr>hs_sequences := jsSet (hs_sequences s) sid v\<rparr>))
        else if action = JStr ''remove'' then Inr (s\<lparr>hs_sequences := jsDelete (hs_sequences s) sid\<rparr>)
        else bindR (copyJson (jsProp m ''manifestChange'')) (\<lambda>change.
          if jsProp change ''action'' = JStr ''removed'' then Inr (s\<lparr>hs_manifests := jsDelete (hs_manifests s) iid\<rparr>)
          else Inr (s\<lparr>hs_manifests := jsSet (hs_manifests s) iid \<lparr>me_sequenceId = sid, me_value = manifestValue change\<rparr>\<rparr>)))
     else if kind = JStr ''instance'' then
       (if action = JStr ''upsert'' then bindR (copyJson val) (\<lambda>v. Inr (s\<lparr>hs_instances := jsSet (hs_instances s) iid v\<rparr>))
        else Inr (s\<lparr>hs_instances := jsDelete (hs_instances s) iid\<rparr>))
     else if kind = JStr ''topic'' then
       (if action = JStr ''upsert'' then bindR (copyJson val) (\<lambda>v. Inr (s\<lparr>hs_topics := jsSet (hs_topics s) tp v\<rparr>))
        else Inr (s\<lparr>hs_topics := jsDelete (hs_topics s) tp\<rparr>))
     else if kind = JStr ''health'' then bindR (copyJson val) (\<lambda>v. Inr (s\<lparr>hs_health := Some v\<rparr>))
     else Inr s)"

text \<open>The body of the \<open>try\<close> block of \<open>checkpoint\<close>.\<close>

definition manifestsOf :: "jsval list \<Rightarrow> (string, manifest_entry) jsmap" where
  "manifestsOf sqs = jsOfEntries (concat (map (\<lambda>sq.
     map (\<lambda>mf. (strOf (jsProp mf ''instanceId''), \<lparr>me_sequenceId = strOf (jsProp sq ''id''), me_value = mf\<rparr>))
       (elemsOf (jsProp sq ''manifests''))) sqs))"

definition loadInventory :: "hub_store \<Rightarrow> jsval \<Rightarrow> jsval \<Rightarrow> js_error + hub_store" where
  "loadInventory s cur inventory0 =
    bindR (copyJson inventory0) (\<lambda>inventory. bindR (copyJson cur) (\<lambda>c.
      Inr (s\<lparr>hs_sequences := jsOfEntries (map (\<lambda>sq. (strOf (jsProp sq ''id''), withoutKey ''manifests'' sq)) (elemsOf (jsProp inventory ''sequences''))),
             hs_instances := jsOfEntries (map (\<lambda>i. (strOf (jsProp i ''id''), i)) (elemsOf (jsProp inventory ''instances''))),
             hs_topics := jsOfEntries (map (\<lambda>t. (strOf (jsProp t ''name''), t)) (elemsOf (jsProp inventory ''topics''))),
             hs_manifests := manifestsOf (elemsOf (jsProp inventory ''sequences'')),
             hs_health := Some (jsProp inventory ''health''),
             hs_cursor := Some c,
             hs_available := True\<rparr>)))"

definition rebuild :: "hub_store \<Rightarrow> jsval \<Rightarrow> jsval \<Rightarrow> hub_store \<times> hub_event list" where
  "rebuild s cur inventory = (case loadInventory s cur inventory of
      Inr s' \<Rightarrow> (s', [])
    | Inl _ \<Rightarrow> invalidate s (HubStateSourceError GAP ''Invalid Hub state checkpoint''))"

definition checkpoint :: "hub_store \<Rightarrow> jsval \<Rightarrow> hub_store \<times> hub_event list" where
  "checkpoint s audit =
    (let c = jsProp audit ''cursor''; inventory = jsProp audit ''inventory'' in
     if \<not> validCursor c then invalidate s (HubStateSourceError GAP ''Invalid Hub state checkpoint cursor'')
     else case hs_cursor s of
       None \<Rightarrow> rebuild s c inventory
     | Some d \<Rightarrow>
         if \<not> strictEq (jsProp c ''hubId'') (jsProp d ''hubId'') \<or> \<not> strictEq (jsProp c ''epoch'') (jsProp d ''epoch'') then
           (let (s1, es1) = invalidate s (HubStateSourceError RESTARTED ''Hub state identity restarted'');
                (s2, es2) = rebuild s1 c inventory in (s2, es1 @ es2))
         else if positionOf c < positionOf d then (s, [])
         else if hs_available s \<and> positionOf c > positionOf d then
           (let (s1, es1) = invalidate s (HubStateSourceError GAP ''Hub state checkpoint advanced beyond the current cursor'');
                (s2, es2) = rebuild s1 c inventory in (s2, es1 @ es2))
         else rebuild s c inventory)"

text \<open>One subscriber's \<open>notify\<close>: what it is handed, and what remains of it.\<close>

definition selectedChange :: "jsval \<Rightarrow> hub_subscriber \<Rightarrow> jsval" where
  "selectedChange change b = spread change [(''previousCursor'', copied (sb_prev b))]"

definition notifySubscriber :: "(nat \<Rightarrow> jsval \<Rightarrow> bool) \<Rightarrow> jsval \<Rightarrow> hub_subscriber \<Rightarrow> hub_subscriber list" where
  "notifySubscriber throws change b =
    (if throws (sb_id b) (copied (selectedChange change b)) then []
     else [b\<lparr>sb_prev := copied (jsProp change ''cursor'')\<rparr>])"

definition dispatchChange ::
  "(nat \<Rightarrow> jsval \<Rightarrow> bool) \<Rightarrow> hub_store \<Rightarrow> jsval \<Rightarrow> hub_store \<times> hub_event list" where
  "dispatchChange throws s change =
    (let wanted = (\<lambda>b. JStr (sb_kind b) = jsProp change ''kind'') in
     (s\<lparr>hs_subscribers := concat (map (\<lambda>b. if wanted b then notifySubscriber throws change b else [b]) (hs_subscribers s))\<rparr>,
      map (\<lambda>b. Notify (sb_id b) (copied (selectedChange change b))) (filter wanted (hs_subscribers s))))"

definition continues :: "hub_store \<Rightarrow> jsval \<Rightarrow> bool" where
  "continues s audit = (case hs_cursor s of
      None \<Rightarrow> False
    | Some d \<Rightarrow> hs_available s \<and> sameCursor (jsProp audit ''previousCursor'') d \<and>
        strictEq (jsProp (jsProp audit ''cursor'') ''hubId'') (jsProp d ''hubId'') \<and>
        strictEq (jsProp (jsProp audit ''cursor'') ''epoch'') (jsProp d ''epoch'') \<and>
        jsProp (jsProp audit ''cursor'') ''position'' = JNum (NInt (positionOf d + 1)))"

definition changeFrame :: "jsval \<Rightarrow> jsval \<Rightarrow> jsval \<Rightarrow> jsval" where
  "changeFrame mutation cur prev =
    spread mutation [(''type'', JStr ''change''), (''cursor'', cur), (''previousCursor'', prev)]"

definition consumeChange ::
  "(nat \<Rightarrow> jsval \<Rightarrow> bool) \<Rightarrow> hub_store \<Rightarrow> jsval \<Rightarrow> hub_store \<times> hub_event list \<times> js_error option" where
  "consumeChange throws s audit =
    (let mutation = jsProp audit ''mutation'' in
     case applyMutation s mutation of
       Inl _ \<Rightarrow> (let (s', es) = invalidate s (HubStateSourceError GAP ''Invalid Hub state audit mutation'') in (s', es, None))
     | Inr s1 \<Rightarrow>
        (case copyJson (jsProp audit ''cursor'') of
          Inl e \<Rightarrow> (s1, [], Some e)
        | Inr cur \<Rightarrow>
            let s2 = s1\<lparr>hs_cursor := Some cur\<rparr> in
            (case bindR (copyJson mutation) (\<lambda>m. bindR (copyJson (jsProp audit ''previousCursor'')) (\<lambda>p. Inr (changeFrame m cur p))) of
              Inl e \<Rightarrow> (s2, [], Some e)
            | Inr change \<Rightarrow> (let (s3, es) = dispatchChange throws s2 change in (s3, es, None)))))"

definition invalidated :: "hub_store \<Rightarrow> string \<Rightarrow> hub_store \<times> hub_event list \<times> js_error option" where
  "invalidated s msg = (let (s', es) = invalidate s (HubStateSourceError GAP msg) in (s', es, None))"

text \<open>\<open>consume(record)\<close>; \<open>audit\<close> is \<open>record?.hubState\<close>.\<close>

definition consume ::
  "(nat \<Rightarrow> jsval \<Rightarrow> bool) \<Rightarrow> hub_store \<Rightarrow> jsval \<Rightarrow> hub_store \<times> hub_event list \<times> js_error option" where
  "consume throws s audit =
    (if hs_closed s then (s, [], None)
     else if audit = JUndefined then (s, [], None)
     else if \<not> isObject audit then invalidated s ''Invalid Hub state audit record''
     else if jsProp audit ''type'' = JStr ''checkpoint'' then
       (let inventory = jsProp audit ''inventory'' in
        if \<not> validCursor (jsProp audit ''cursor'') \<or> \<not> isObject inventory \<or> \<not> isArray (jsProp inventory ''sequences'') \<or>
           \<not> isArray (jsProp inventory ''instances'') \<or> \<not> isArray (jsProp inventory ''topics'') \<or> \<not> isObject (jsProp inventory ''health'')
        then invalidated s ''Invalid Hub state checkpoint''
        else if \<not> validInventoryAssociations inventory then invalidated s ''Invalid Hub state checkpoint associations''
        else (let (s', es) = checkpoint s audit in (s', es, None)))
     else if jsProp audit ''type'' \<noteq> JStr ''change'' \<or> \<not> validCursor (jsProp audit ''cursor'') \<or>
             \<not> validCursor (jsProp audit ''previousCursor'') \<or> \<not> validMutation (jsProp audit ''mutation'')
       then invalidated s ''Invalid Hub state audit mutation''
     else if \<not> validMutationAssociations (jsProp audit ''mutation'') then invalidated s ''Invalid Hub state audit associations''
     else if \<not> continues s audit then invalidated s ''Hub state audit continuity was lost''
     else consumeChange throws s audit)"

definition assertAvailable :: "hub_store \<Rightarrow> bool" where
  "assertAvailable s \<longleftrightarrow> hs_available s \<and> hs_cursor s \<noteq> None \<and> \<not> hs_closed s"

definition unavailableError :: hub_source_error where
  "unavailableError = HubStateSourceError SOURCE_UNAVAILABLE ''Hub state source is unavailable''"

definition sequenceItems :: "hub_store \<Rightarrow> jsval list" where
  "sequenceItems s = map (\<lambda>sq. spread (copied sq)
      [(''manifests'', JArr Plain (map (\<lambda>e. copied (me_value e))
          (filter (\<lambda>e. JStr (me_sequenceId e) = jsProp sq ''id'') (jsValues (hs_manifests s)))))])
     (jsValues (hs_sequences s))"

definition snapshotItems :: "hub_store \<Rightarrow> string \<Rightarrow> jsval list" where
  "snapshotItems s kind =
    (if kind = ''sequence'' then sequenceItems s
     else if kind = ''instance'' then map copied (jsValues (hs_instances s))
     else if kind = ''topic'' then map copied (jsValues (hs_topics s))
     else case hs_health s of Some h \<Rightarrow> [copied h] | None \<Rightarrow> [])"

definition makeSnapshot :: "hub_store \<Rightarrow> string \<Rightarrow> jsval \<Rightarrow> jsval" where
  "makeSnapshot s kind cur = JObj Plain
     [(''type'', JStr ''snapshot''), (''kind'', JStr kind), (''cursor'', copied cur),
      (''items'', JArr Plain (snapshotItems s kind))]"

definition snapshot :: "hub_store \<Rightarrow> string \<Rightarrow> hub_source_error + jsval" where
  "snapshot s kind = (case hs_cursor s of
      Some cur \<Rightarrow> if assertAvailable s then Inr (makeSnapshot s kind cur) else Inl unavailableError
    | None \<Rightarrow> Inl unavailableError)"

text \<open>\<open>subscribe\<close> returns the snapshot and the identity that \<open>close\<close> removes.\<close>

definition subscribe :: "hub_store \<Rightarrow> string \<Rightarrow> hub_source_error + hub_store \<times> nat \<times> jsval" where
  "subscribe s kind = (case snapshot s kind of
      Inl e \<Rightarrow> Inl e
    | Inr snap \<Rightarrow>
        let b = \<lparr>sb_id = hs_next s, sb_kind = kind, sb_prev = copied (jsProp snap ''cursor'')\<rparr> in
        Inr (s\<lparr>hs_subscribers := hs_subscribers s @ [b], hs_next := Suc (hs_next s)\<rparr>, hs_next s, snap))"

definition closeStore :: "hub_store \<Rightarrow> hub_store \<times> hub_event list" where
  "closeStore s = invalidate (s\<lparr>hs_closed := True\<rparr>)
     (HubStateSourceError SOURCE_UNAVAILABLE ''Hub state source is closed'')"

section \<open>The store invariant\<close>

text \<open>Two cursor positions of one hub identity, in order.\<close>

definition cursorLe :: "string \<times> string \<times> int \<Rightarrow> string \<times> string \<times> int \<Rightarrow> bool" where
  "cursorLe u v \<longleftrightarrow> fst u = fst v \<and> fst (snd u) = fst (snd v) \<and> snd (snd u) \<le> snd (snd v)"

lemma cursorLe_refl [simp]: "cursorLe u u"
  by (simp add: cursorLe_def)

lemma cursorLe_trans: "cursorLe u v \<Longrightarrow> cursorLe v w \<Longrightarrow> cursorLe u w"
  by (simp add: cursorLe_def)

definition sub_ok :: "hub_store \<Rightarrow> hub_subscriber \<Rightarrow> bool" where
  "sub_ok s b \<longleftrightarrow> sb_id b < hs_next s \<and> validCursor (sb_prev b) \<and> isJson (sb_prev b) \<and>
     (\<exists>d. hs_cursor s = Some d \<and> cursorLe (cursorView (sb_prev b)) (cursorView d))"

definition contents_ok :: "hub_store \<Rightarrow> bool" where
  "contents_ok s \<longleftrightarrow>
     jsmap_ok (hs_sequences s) \<and> list_all (\<lambda>e. isJson (snd e)) (hs_sequences s) \<and>
     jsmap_ok (hs_instances s) \<and> list_all (\<lambda>e. isJson (snd e)) (hs_instances s) \<and>
     jsmap_ok (hs_topics s) \<and> list_all (\<lambda>e. isJson (snd e)) (hs_topics s) \<and>
     jsmap_ok (hs_manifests s) \<and>
     (case hs_health s of None \<Rightarrow> True | Some h \<Rightarrow> isJson h)"

definition contents_empty :: "hub_store \<Rightarrow> bool" where
  "contents_empty s \<longleftrightarrow> hs_sequences s = [] \<and> hs_instances s = [] \<and> hs_topics s = [] \<and>
     hs_manifests s = [] \<and> hs_health s = None \<and> hs_subscribers s = []"

definition store_ok :: "hub_store \<Rightarrow> bool" where
  "store_ok s \<longleftrightarrow>
     (\<forall>c. hs_cursor s = Some c \<longrightarrow> validCursor c \<and> isJson c) \<and>
     (hs_available s \<longrightarrow> hs_cursor s \<noteq> None \<and> \<not> hs_closed s) \<and>
     (\<not> hs_available s \<longrightarrow> contents_empty s) \<and>
     contents_ok s \<and> distinct (map sb_id (hs_subscribers s)) \<and> list_all (sub_ok s) (hs_subscribers s)"

lemma store_ok_new: "store_ok newHubStateStore"
  by (simp add: store_ok_def newHubStateStore_def contents_ok_def contents_empty_def)

lemma store_ok_invalidate: "store_ok s \<Longrightarrow> store_ok (fst (invalidate s e))"
  by (auto simp: store_ok_def invalidate_def contents_ok_def contents_empty_def)

lemma store_ok_close: "store_ok s \<Longrightarrow> store_ok (fst (closeStore s))"
  by (auto simp: store_ok_def closeStore_def invalidate_def contents_ok_def contents_empty_def)

lemma sub_ok_cong:
  "hs_next s = hs_next t \<Longrightarrow> hs_cursor s = hs_cursor t \<Longrightarrow> sub_ok s b = sub_ok t b"
  by (simp add: sub_ok_def)

lemma store_ok_remove: "store_ok s \<Longrightarrow> store_ok (removeSubscriber s i)"
  by (auto simp: store_ok_def removeSubscriber_def contents_ok_def contents_empty_def list_all_iff sub_ok_def
      distinct_map_filter)

text \<open>\<open>apply\<close> changes the inventory only.\<close>

lemma applyMutation_frame:
  "applyMutation s m = Inr t \<Longrightarrow>
     hs_available t = hs_available s \<and> hs_cursor t = hs_cursor s \<and> hs_subscribers t = hs_subscribers s \<and>
     hs_closed t = hs_closed s \<and> hs_next t = hs_next s"
  by (auto simp: applyMutation_def Let_def bindR_eq_Inr split: if_splits)

lemma contents_ok_update:
  assumes "contents_ok s"
  shows "isJson v \<Longrightarrow> contents_ok (s\<lparr>hs_sequences := jsSet (hs_sequences s) k v\<rparr>)"
    and "isJson v \<Longrightarrow> contents_ok (s\<lparr>hs_instances := jsSet (hs_instances s) k v\<rparr>)"
    and "isJson v \<Longrightarrow> contents_ok (s\<lparr>hs_topics := jsSet (hs_topics s) k v\<rparr>)"
    and "contents_ok (s\<lparr>hs_manifests := jsSet (hs_manifests s) k e\<rparr>)"
    and "isJson v \<Longrightarrow> contents_ok (s\<lparr>hs_health := Some v\<rparr>)"
    and "contents_ok (s\<lparr>hs_sequences := jsDelete (hs_sequences s) k\<rparr>)"
    and "contents_ok (s\<lparr>hs_instances := jsDelete (hs_instances s) k\<rparr>)"
    and "contents_ok (s\<lparr>hs_topics := jsDelete (hs_topics s) k\<rparr>)"
    and "contents_ok (s\<lparr>hs_manifests := jsDelete (hs_manifests s) k\<rparr>)"
  using assms
  by (simp_all add: contents_ok_def list_all_jsDelete list_all_jsSet [of "\<lambda>e. isJson (snd e)"])

lemma applyMutation_contents: "applyMutation s m = Inr t \<Longrightarrow> contents_ok s \<Longrightarrow> contents_ok t"
  unfolding applyMutation_def Let_def
  by (simp add: bindR_eq_Inr contents_ok_update copy_yields_json(1) split: if_split_asm;
      blast intro: contents_ok_update copy_yields_json(1))

lemma isJson_prop: "isJson v \<Longrightarrow> jsProp v k \<noteq> JUndefined \<Longrightarrow> isJson (jsProp v k)"
  by (cases v) (force simp: jsProp_def list_all_iff dest!: map_of_SomeD split: option.splits)+

lemma isJson_elems: "isJson v \<Longrightarrow> list_all isJson (elemsOf v)"
  by (cases v) (auto simp: elemsOf_def)

lemma isJson_withoutKey: "isJson v \<Longrightarrow> isJson (withoutKey k v)"
  by (cases v) (auto simp: withoutKey_def intro: list_all_jsDelete)

lemma list_all_entries_from:
  "list_all P es \<Longrightarrow> list_all P m \<Longrightarrow> list_all P (foldl (\<lambda>m e. jsSet m (fst e) (snd e)) m es)"
proof (induction es arbitrary: m)
  case Nil
  then show ?case by simp
next
  case (Cons e es)
  then have "list_all P (jsSet m (fst e) (snd e))"
    by (simp add: list_all_jsSet [of P "fst e" "snd e" m])
  with Cons show ?case by simp
qed

lemma list_all_entries: "list_all P es \<Longrightarrow> list_all P (jsOfEntries es)"
  by (simp add: jsOfEntries_def list_all_entries_from)

lemma isJson_spread:
  "isJson v \<Longrightarrow> list_all (\<lambda>f. isJson (snd f)) gs \<Longrightarrow> isJson (spread v gs)"
  by (cases v) (auto simp: spread_def intro: list_all_entries_from list_all_entries)

text \<open>The shape checks of \<open>consume\<close> that guard a checkpoint survive the copy.\<close>

lemma isJson_prop_array:
  "isJson v \<Longrightarrow> list_all isJson (elemsOf (jsProp v k))"
  using isJson_prop [of v k] isJson_elems [of "jsProp v k"]
  by (cases "jsProp v k") (auto simp: elemsOf_def)

lemma loadInventory_ok:
  assumes "loadInventory s c inventory = Inr t" and "store_ok s" and "\<not> hs_closed s"
    and "validCursor c" and "isObject (jsProp inventory ''health'')"
    and "\<forall>d. hs_cursor s = Some d \<longrightarrow> hs_subscribers s \<noteq> [] \<longrightarrow> cursorView d = cursorView c"
  shows "store_ok t \<and> hs_available t \<and> hs_closed t = hs_closed s \<and> hs_next t = hs_next s \<and>
    hs_subscribers t = hs_subscribers s \<and> map_option cursorView (hs_cursor t) = Some (cursorView c)"
proof -
  from assms(1) obtain v d where v: "copyJson inventory = Inr v" and d: "copyJson c = Inr d"
    and t: "t = s\<lparr>hs_sequences := jsOfEntries (map (\<lambda>sq. (strOf (jsProp sq ''id''), withoutKey ''manifests'' sq)) (elemsOf (jsProp v ''sequences''))),
             hs_instances := jsOfEntries (map (\<lambda>i. (strOf (jsProp i ''id''), i)) (elemsOf (jsProp v ''instances''))),
             hs_topics := jsOfEntries (map (\<lambda>t. (strOf (jsProp t ''name''), t)) (elemsOf (jsProp v ''topics''))),
             hs_manifests := manifestsOf (elemsOf (jsProp v ''sequences'')),
             hs_health := Some (jsProp v ''health''), hs_cursor := Some d, hs_available := True\<rparr>"
    by (auto simp: loadInventory_def bindR_eq_Inr)
  have cv: "validCursor d" "cursorView d = cursorView c" and jd: "isJson d"
    using validCursor_copy [OF assms(4) d] copy_yields_json(1) [OF d] by auto
  have jv: "isJson v" using copy_yields_json(1) [OF v] .
  have "jsProp inventory ''health'' \<noteq> JUndefined"
    using assms(5) by (auto simp: isObject_def)
  then have "\<exists>y. jsProp v ''health'' = y \<and> copyJson (jsProp inventory ''health'') = Inr y"
    using copyJson_prop [OF v refl] by blast
  then have jh: "isJson (jsProp v ''health'')" by (auto dest: copy_yields_json(1))
  have "list_all (\<lambda>e. isJson (snd e)) (hs_sequences t)"
    using isJson_prop_array [OF jv, of "''sequences''"]
    by (simp add: t) (rule list_all_entries, auto simp: list_all_iff isJson_withoutKey)
  moreover have "list_all (\<lambda>e. isJson (snd e)) (hs_instances t)"
    using isJson_prop_array [OF jv, of "''instances''"]
    by (simp add: t) (rule list_all_entries, auto simp: list_all_iff)
  moreover have "list_all (\<lambda>e. isJson (snd e)) (hs_topics t)"
    using isJson_prop_array [OF jv, of "''topics''"]
    by (simp add: t) (rule list_all_entries, auto simp: list_all_iff)
  ultimately have contents: "contents_ok t"
    using jh by (simp add: t contents_ok_def manifestsOf_def)
  have subs: "list_all (sub_ok t) (hs_subscribers s)"
  proof (cases "hs_subscribers s")
    case Nil
    then show ?thesis by simp
  next
    case (Cons b bs)
    with assms(2) obtain e where e: "hs_cursor s = Some e"
      by (auto simp: store_ok_def sub_ok_def)
    with Cons assms(6) cv have "cursorView e = cursorView d" by simp
    moreover have "list_all (sub_ok s) (hs_subscribers s)" using assms(2) by (simp add: store_ok_def)
    ultimately show ?thesis
      using cv e by (simp add: list_all_iff sub_ok_def t)
  qed
  show ?thesis
    using assms(2,3) cv jd contents subs by (simp add: store_ok_def t)
qed

lemma rebuild_ok:
  assumes "store_ok s" and "\<not> hs_closed s" and "validCursor c" and "isObject (jsProp inventory ''health'')"
    and "\<forall>d. hs_cursor s = Some d \<longrightarrow> hs_subscribers s \<noteq> [] \<longrightarrow> cursorView d = cursorView c"
  shows "store_ok (fst (rebuild s c inventory))"
proof (cases "loadInventory s c inventory")
  case (Inl e)
  then show ?thesis using store_ok_invalidate [OF assms(1)] by (simp add: rebuild_def)
next
  case (Inr t)
  then show ?thesis using loadInventory_ok [OF Inr assms] by (simp add: rebuild_def)
qed

lemma invalidate_frame:
  "hs_closed (fst (invalidate s e)) = hs_closed s" "hs_cursor (fst (invalidate s e)) = hs_cursor s"
  "hs_subscribers (fst (invalidate s e)) = []" "hs_next (fst (invalidate s e)) = hs_next s"
  "hs_available (fst (invalidate s e)) = False" "contents_empty (fst (invalidate s e))"
  by (simp_all add: invalidate_def contents_empty_def)

lemma invalidate_pair:
  "invalidate s e = (t, es) \<Longrightarrow> store_ok s \<Longrightarrow> store_ok t \<and> hs_closed t = hs_closed s \<and> hs_subscribers t = []"
  using store_ok_invalidate [of s e] invalidate_frame [of s e] by simp

lemma cursorView_eqI:
  assumes "validCursor c" and "validCursor d"
    and "strictEq (jsProp c ''hubId'') (jsProp d ''hubId'')" and "strictEq (jsProp c ''epoch'') (jsProp d ''epoch'')"
    and "positionOf c = positionOf d"
  shows "cursorView c = cursorView d"
  using assms by (auto elim!: validCursorE simp: positionOf_def)

lemma checkpoint_ok:
  assumes ok: "store_ok s" and opn: "\<not> hs_closed s"
    and health: "isObject (jsProp (jsProp audit ''inventory'') ''health'')"
  shows "store_ok (fst (checkpoint s audit))"
proof -
  let ?c = "jsProp audit ''cursor''" and ?i = "jsProp audit ''inventory''"
  show ?thesis
  proof (cases "validCursor ?c")
    case False
    then show ?thesis using store_ok_invalidate [OF ok] by (simp add: checkpoint_def Let_def)
  next
    case c: True
    show ?thesis
    proof (cases "hs_cursor s")
      case None
      then show ?thesis
        using rebuild_ok [OF ok opn c health] c by (simp add: checkpoint_def Let_def)
    next
      case (Some d)
      have d: "validCursor d" using ok Some by (simp add: store_ok_def)
      have after: "store_ok (fst (rebuild (fst (invalidate s e)) ?c ?i))" for e
        using rebuild_ok [OF store_ok_invalidate [OF ok] _ c health, of e] opn
        by (simp add: invalidate_frame)
      have same: "store_ok (fst (rebuild s ?c ?i))"
        if "strictEq (jsProp ?c ''hubId'') (jsProp d ''hubId'')" "strictEq (jsProp ?c ''epoch'') (jsProp d ''epoch'')"
          "\<not> positionOf ?c < positionOf d" "\<not> (hs_available s \<and> positionOf ?c > positionOf d)"
      proof (rule rebuild_ok [OF ok opn c health], intro allI impI)
        fix d' assume d': "hs_cursor s = Some d'" and "hs_subscribers s \<noteq> []"
        then have "hs_available s" using ok by (auto simp: store_ok_def contents_empty_def)
        with that have "positionOf ?c = positionOf d" by simp
        then show "cursorView d' = cursorView ?c"
          using cursorView_eqI [OF c d that(1,2)] d' Some by simp
      qed
      show ?thesis
        using Some c ok after same
        by (auto simp: checkpoint_def Let_def split_beta)
    qed
  qed
qed

section \<open>Dispatching a change\<close>

lemma validCursor_positionOf: "validCursor c \<Longrightarrow> positionOf c = snd (snd (cursorView c))"
  by (auto elim!: validCursorE simp: positionOf_def)

lemma continues_view:
  assumes "continues s audit" and "hs_cursor s = Some d" and "validCursor d"
    and "validCursor (jsProp audit ''cursor'')" and "validCursor (jsProp audit ''previousCursor'')"
  shows "cursorView (jsProp audit ''previousCursor'') = cursorView d \<and>
    cursorView (jsProp audit ''cursor'') = (fst (cursorView d), fst (snd (cursorView d)), snd (snd (cursorView d)) + 1)"
  using assms by (auto simp: continues_def sameCursor_def positionOf_def elim!: validCursorE)

lemma jsGet_foldl_notin:
  "k \<notin> fst ` set gs \<Longrightarrow> jsGet (foldl (\<lambda>m e. jsSet m (fst e) (snd e)) m gs) k = jsGet m k"
  by (induction gs arbitrary: m) (auto simp: js_simps)

lemma changeFrame_props [simp]:
  "jsProp (changeFrame m c p) ''cursor'' = c"
  "jsProp (changeFrame m c p) ''previousCursor'' = p"
  "jsProp (changeFrame m c p) ''type'' = JStr ''change''"
  by (simp_all add: changeFrame_def jsProp_spread)

lemma selectedChange_props [simp]:
  "jsProp (selectedChange f b) ''previousCursor'' = copied (sb_prev b)"
  "\<exists>sh fs. f = JObj sh fs \<Longrightarrow> jsProp (selectedChange f b) ''cursor'' = jsProp f ''cursor''"
  by (auto simp: selectedChange_def jsProp_spread)

lemma dispatch_frame:
  "hs_available (fst (dispatchChange throws s f)) = hs_available s"
  "hs_cursor (fst (dispatchChange throws s f)) = hs_cursor s"
  "hs_closed (fst (dispatchChange throws s f)) = hs_closed s"
  "hs_next (fst (dispatchChange throws s f)) = hs_next s"
  "contents_ok (fst (dispatchChange throws s f)) = contents_ok s"
  by (simp_all add: dispatchChange_def Let_def contents_ok_def)

text \<open>A pass that keeps or drops each subscriber keeps identities distinct.\<close>

lemma concat_map_ids_subset:
  assumes "\<And>b. f b = [] \<or> (\<exists>b'. f b = [b'] \<and> sb_id b' = sb_id b)"
  shows "set (map sb_id (concat (map f bs))) \<subseteq> set (map sb_id bs)"
proof
  fix i assume "i \<in> set (map sb_id (concat (map f bs)))"
  then obtain b b' where "b \<in> set bs" "b' \<in> set (f b)" "i = sb_id b'" by auto
  with assms [of b] show "i \<in> set (map sb_id bs)" by auto
qed

lemma concat_map_ids_distinct:
  assumes "\<And>b. f b = [] \<or> (\<exists>b'. f b = [b'] \<and> sb_id b' = sb_id b)"
  shows "distinct (map sb_id bs) \<Longrightarrow> distinct (map sb_id (concat (map f bs)))"
proof (induction bs)
  case Nil
  then show ?case by simp
next
  case (Cons b bs)
  from assms [of b] show ?case
    using Cons concat_map_ids_subset [OF assms, of bs]
    by (auto simp del: set_concat)
qed

lemma notify_keeps_id:
  "notifySubscriber throws f b = [] \<or> (\<exists>b'. notifySubscriber throws f b = [b'] \<and> sb_id b' = sb_id b)"
  by (simp add: notifySubscriber_def)

lemma dispatch_ok:
  assumes ok: "store_ok s" and cur: "hs_cursor s = Some c" and f: "jsProp f ''cursor'' = c"
  shows "store_ok (fst (dispatchChange throws s f))"
proof -
  let ?g = "\<lambda>b. if JStr (sb_kind b) = jsProp f ''kind'' then notifySubscriber throws f b else [b]"
  have keep: "?g b = [] \<or> (\<exists>b'. ?g b = [b'] \<and> sb_id b' = sb_id b)" for b
    using notify_keeps_id [of throws f b] by simp
  have c: "validCursor c" "isJson c" using ok cur by (simp_all add: store_ok_def)
  let ?t = "fst (dispatchChange throws s f)"
  have subs: "hs_subscribers ?t = concat (map ?g (hs_subscribers s))"
    by (simp add: dispatchChange_def Let_def)
  have "distinct (map sb_id (hs_subscribers ?t))"
    unfolding subs by (rule concat_map_ids_distinct [OF keep]) (use ok in \<open>simp add: store_ok_def\<close>)
  moreover have "sub_ok ?t b'" if "b' \<in> set (hs_subscribers ?t)" for b'
  proof -
    from that obtain b where b: "b \<in> set (hs_subscribers s)" "b' \<in> set (?g b)" by (auto simp: subs)
    then have "sub_ok s b" using ok by (auto simp: store_ok_def list_all_iff)
    then show ?thesis
      using b(2) c cur f
      by (auto simp: sub_ok_def dispatch_frame notifySubscriber_def split: if_splits)
  qed
  moreover have "contents_empty ?t" if "\<not> hs_available s"
    using that ok by (auto simp: store_ok_def contents_empty_def dispatchChange_def Let_def)
  ultimately show ?thesis
    using ok by (simp add: store_ok_def dispatch_frame list_all_iff)
qed

lemma store_ok_advance:
  assumes "store_ok s" and "hs_cursor s = Some d" and "validCursor c" and "isJson c"
    and "cursorLe (cursorView d) (cursorView c)"
  shows "store_ok (s\<lparr>hs_cursor := Some c\<rparr>)"
  using assms
  by (auto simp: store_ok_def contents_ok_def contents_empty_def list_all_iff sub_ok_def intro: cursorLe_trans)

lemma applyMutation_ok:
  assumes "applyMutation s m = Inr t" and "store_ok s" and "hs_available s"
  shows "store_ok t"
  using assms(2,3) applyMutation_frame [OF assms(1)] applyMutation_contents [OF assms(1)]
  by (simp add: store_ok_def list_all_iff sub_ok_def)

lemma consumeChange_ok:
  assumes ok: "store_ok s" and cont: "continues s audit"
    and vc: "validCursor (jsProp audit ''cursor'')" and vp: "validCursor (jsProp audit ''previousCursor'')"
  shows "store_ok (fst (consumeChange throws s audit))"
proof (cases "applyMutation s (jsProp audit ''mutation'')")
  case (Inl e)
  then show ?thesis using store_ok_invalidate [OF ok] by (simp add: consumeChange_def Let_def split_beta)
next
  case (Inr s1)
  from cont obtain d where d: "hs_cursor s = Some d" and av: "hs_available s"
    by (auto simp: continues_def split: option.splits)
  have vd: "validCursor d" using ok d by (simp add: store_ok_def)
  have s1: "store_ok s1" "hs_cursor s1 = Some d"
    using applyMutation_ok [OF Inr ok av] applyMutation_frame [OF Inr] d by auto
  show ?thesis
  proof (cases "copyJson (jsProp audit ''cursor'')")
    case (Inl e)
    then show ?thesis using Inr s1 by (simp add: consumeChange_def Let_def)
  next
    case cur: (Inr c)
    have c: "validCursor c" "cursorView c = cursorView (jsProp audit ''cursor'')" "isJson c"
      using validCursor_copy [OF vc cur] copy_yields_json(1) [OF cur] by auto
    have "cursorLe (cursorView d) (cursorView c)"
      using continues_view [OF cont d vd vc vp] c(2) by (simp add: cursorLe_def)
    then have s2: "store_ok (s1\<lparr>hs_cursor := Some c\<rparr>)"
      using store_ok_advance [OF s1 c(1,3)] by simp
    have "store_ok (fst (dispatchChange throws (s1\<lparr>hs_cursor := Some c\<rparr>) (changeFrame m c p)))" for m p
      by (rule dispatch_ok [OF s2, of c]) simp_all
    then show ?thesis
      using Inr cur s2 by (auto simp: consumeChange_def Let_def bindR_def split_beta split: sum.splits)
  qed
qed

lemma invalidated_ok: "store_ok s \<Longrightarrow> store_ok (fst (invalidated s msg))"
  using store_ok_invalidate [of s] by (simp add: invalidated_def Let_def split_beta)

lemma consume_ok: "store_ok s \<Longrightarrow> store_ok (fst (consume throws s audit))"
  using checkpoint_ok [of s audit]
  by (auto simp: consume_def Let_def invalidated_ok consumeChange_ok split_beta)

lemma subscribe_ok:
  assumes "store_ok s" and "subscribe s kind = Inr (t, i, snap)"
  shows "store_ok t \<and> i = hs_next s \<and> hs_next t = Suc i \<and>
    (\<exists>b c. hs_cursor s = Some c \<and> hs_subscribers t = hs_subscribers s @ [b] \<and> sb_id b = i \<and>
      sb_kind b = kind \<and> sb_prev b = c \<and> snap = makeSnapshot s kind c)"
proof -
  from assms(2) obtain c where c: "hs_cursor s = Some c" and av: "assertAvailable s"
    and snap: "snap = makeSnapshot s kind c" and i: "i = hs_next s"
    and t: "t = s\<lparr>hs_subscribers := hs_subscribers s @ [\<lparr>sb_id = hs_next s, sb_kind = kind,
      sb_prev = copied (jsProp snap ''cursor'')\<rparr>], hs_next := Suc (hs_next s)\<rparr>"
    by (auto simp: subscribe_def snapshot_def Let_def split: sum.splits option.splits if_splits)
  have ok: "validCursor c" "isJson c" using assms(1) c by (simp_all add: store_ok_def)
  have "jsProp snap ''cursor'' = c" using ok by (simp add: snap makeSnapshot_def)
  then have "t = s\<lparr>hs_subscribers := hs_subscribers s @ [\<lparr>sb_id = hs_next s, sb_kind = kind, sb_prev = c\<rparr>],
      hs_next := Suc (hs_next s)\<rparr>"
    using t ok by simp
  then show ?thesis
    using assms(1) c ok av i snap
    by (auto simp: store_ok_def contents_ok_def contents_empty_def assertAvailable_def list_all_iff sub_ok_def
        intro: less_SucI)
qed

end
