(* ===== verification/HubStateFeed.thy ===== *)
theory HubStateFeed
  imports HubStateStore
begin

text \<open>
  Runs of the hub-state store: any interleaving of audit records, subscriptions, closes and shutdown.
  Every run keeps \<open>store_ok\<close>, and the changes one subscription receives form an unbroken chain of
  cursors that starts at its snapshot, whatever kinds the skipped changes had.
\<close>

section \<open>Calls and runs\<close>

datatype store_call =
    Consume "nat \<Rightarrow> jsval \<Rightarrow> bool" jsval
  | Subscribe string
  | CloseSubscription nat
  | CloseStore

fun storeCall :: "hub_store \<Rightarrow> store_call \<Rightarrow> hub_store \<times> hub_event list" where
  "storeCall s (Consume throws audit) = (fst (consume throws s audit), fst (snd (consume throws s audit)))"
| "storeCall s (Subscribe kind) = (case subscribe s kind of Inl _ \<Rightarrow> (s, []) | Inr (t, _, _) \<Rightarrow> (t, []))"
| "storeCall s (CloseSubscription i) = (removeSubscriber s i, [])"
| "storeCall s CloseStore = closeStore s"

definition storeStep :: "hub_store \<Rightarrow> store_call \<Rightarrow> hub_store" where
  "storeStep s c = fst (storeCall s c)"

fun storeEvents :: "hub_store \<Rightarrow> store_call list \<Rightarrow> hub_event list" where
  "storeEvents s [] = []"
| "storeEvents s (c # cs) = snd (storeCall s c) @ storeEvents (storeStep s c) cs"

lemma storeStep_ok: "store_ok s \<Longrightarrow> store_ok (storeStep s c)"
  by (cases c) (auto simp: storeStep_def consume_ok store_ok_remove store_ok_close split: sum.splits dest: subscribe_ok)

interpretation store_runs: invariant_machine storeStep store_ok
  by unfold_locales (rule storeStep_ok)

section \<open>What one subscription receives\<close>

fun framesFor :: "nat \<Rightarrow> hub_event list \<Rightarrow> jsval list" where
  "framesFor i [] = []"
| "framesFor i (Notify j f # es) = (if i = j then f # framesFor i es else framesFor i es)"
| "framesFor i (Fail j e # es) = framesFor i es"

definition cursorLess :: "string \<times> string \<times> int \<Rightarrow> string \<times> string \<times> int \<Rightarrow> bool" where
  "cursorLess u v \<longleftrightarrow> fst u = fst v \<and> fst (snd u) = fst (snd v) \<and> snd (snd u) < snd (snd v)"

fun linked :: "string \<times> string \<times> int \<Rightarrow> jsval list \<Rightarrow> bool" where
  "linked v [] = True"
| "linked v (f # fs) = (cursorView (jsProp f ''previousCursor'') = v \<and>
     cursorLess v (cursorView (jsProp f ''cursor'')) \<and> linked (cursorView (jsProp f ''cursor'')) fs)"

lemma framesFor_append: "framesFor i (es @ fs) = framesFor i es @ framesFor i fs"
  by (induction i es rule: framesFor.induct) auto

lemma framesFor_Fail: "framesFor i (map (\<lambda>b. Fail (g b) e) bs) = []"
  by (induction bs) auto

lemma framesFor_Notify:
  "framesFor i (map (\<lambda>b. Notify (sb_id b) (h b)) bs) = map h (filter (\<lambda>b. sb_id b = i) bs)"
  by (induction bs) auto

lemma framesFor_invalidate: "framesFor i (snd (invalidate s e)) = []"
  by (simp add: invalidate_def framesFor_Fail)

text \<open>
  Calls that hand out no change keep the subscribers and hand out nothing, or drop all of them with
  one error each.
\<close>

definition quiet :: "hub_store \<Rightarrow> hub_store \<times> hub_event list \<Rightarrow> bool" where
  "quiet s r \<longleftrightarrow> hs_next (fst r) = hs_next s \<and>
     (hs_subscribers (fst r) = hs_subscribers s \<and> snd r = [] \<or>
      hs_subscribers (fst r) = [] \<and> (\<exists>e. snd r = map (\<lambda>b. Fail (sb_id b) e) (hs_subscribers s)))"

lemma quiet_frames: "quiet s r \<Longrightarrow> framesFor i (snd r) = []"
  by (auto simp: quiet_def framesFor_Fail)

lemma quiet_invalidate: "quiet s (invalidate s e)"
  by (auto simp: quiet_def invalidate_def)

lemma quiet_self: "quiet s (s, [])"
  by (simp add: quiet_def)

lemma quiet_rebuild: "quiet s (rebuild s c inventory)"
proof (cases "loadInventory s c inventory")
  case (Inl e)
  then show ?thesis by (simp add: rebuild_def quiet_invalidate)
next
  case (Inr t)
  then show ?thesis by (auto simp: rebuild_def quiet_def loadInventory_def bindR_eq_Inr)
qed

lemma quiet_invalidate_rebuild:
  "quiet s (fst (rebuild (fst (invalidate s e)) c inventory),
     snd (invalidate s e) @ snd (rebuild (fst (invalidate s e)) c inventory))"
  using quiet_rebuild [of "fst (invalidate s e)" c inventory]
  by (auto simp: quiet_def invalidate_def)

lemma quiet_checkpoint: "quiet s (checkpoint s audit)"
  by (simp add: checkpoint_def Let_def split_beta quiet_invalidate quiet_self quiet_rebuild
      quiet_invalidate_rebuild split: option.split)

text \<open>The audit either is quiet or dispatches one contiguous change.\<close>

definition dispatches :: "(nat \<Rightarrow> jsval \<Rightarrow> bool) \<Rightarrow> hub_store \<Rightarrow> hub_store \<times> hub_event list \<Rightarrow> bool" where
  "dispatches throws s r \<longleftrightarrow> (\<exists>t d m c p. hs_cursor s = Some d \<and> hs_cursor t = Some c \<and> hs_subscribers t = hs_subscribers s \<and>
     hs_next t = hs_next s \<and> isJson (changeFrame m c p) \<and> isJson c \<and>
     cursorView c = (fst (cursorView d), fst (snd (cursorView d)), snd (snd (cursorView d)) + 1) \<and>
     r = dispatchChange throws t (changeFrame m c p))"

lemma consumeChange_shape:
  assumes ok: "store_ok s" and cont: "continues s audit"
    and vc: "validCursor (jsProp audit ''cursor'')" and vp: "validCursor (jsProp audit ''previousCursor'')"
  shows "quiet s (fst (consumeChange throws s audit), fst (snd (consumeChange throws s audit))) \<or>
    dispatches throws s (fst (consumeChange throws s audit), fst (snd (consumeChange throws s audit)))"
proof (cases "applyMutation s (jsProp audit ''mutation'')")
  case (Inl e)
  then show ?thesis by (simp add: consumeChange_def Let_def split_beta quiet_invalidate)
next
  case (Inr s1)
  note fr = applyMutation_frame [OF Inr]
  from cont obtain d where d: "hs_cursor s = Some d" by (auto simp: continues_def split: option.splits)
  have vd: "validCursor d" using ok d by (simp add: store_ok_def)
  show ?thesis
  proof (cases "copyJson (jsProp audit ''cursor'')")
    case (Inl e)
    then show ?thesis using Inr fr by (simp add: consumeChange_def Let_def quiet_def)
  next
    case cur: (Inr c)
    have c: "cursorView c = cursorView (jsProp audit ''cursor'')" "isJson c"
      using validCursor_copy [OF vc cur] copy_yields_json(1) [OF cur] by auto
    let ?r = "bindR (copyJson (jsProp audit ''mutation'')) (\<lambda>m. bindR (copyJson (jsProp audit ''previousCursor'')) (\<lambda>p. Inr (changeFrame m c p)))"
    show ?thesis
    proof (cases ?r)
      case (Inl e)
      then show ?thesis using Inr cur fr by (simp add: consumeChange_def Let_def quiet_def)
    next
      case fr2: (Inr change)
      then obtain m p where mp: "copyJson (jsProp audit ''mutation'') = Inr m"
        "copyJson (jsProp audit ''previousCursor'') = Inr p" and change: "change = changeFrame m c p"
        by (auto simp: bindR_eq_Inr)
      have js: "isJson change"
        unfolding change changeFrame_def
        by (rule isJson_spread) (use mp c(2) in \<open>auto dest: copy_yields_json(1)\<close>)
      have r: "(fst (consumeChange throws s audit), fst (snd (consumeChange throws s audit))) =
          dispatchChange throws (s1\<lparr>hs_cursor := Some c\<rparr>) change"
        using Inr cur fr2 by (simp add: consumeChange_def Let_def split_beta)
      have "dispatches throws s (dispatchChange throws (s1\<lparr>hs_cursor := Some c\<rparr>) change)"
        unfolding dispatches_def change
        by (rule exI [of _ "s1\<lparr>hs_cursor := Some c\<rparr>"], rule exI [of _ d], rule exI [of _ m],
            rule exI [of _ c], rule exI [of _ p])
          (use d fr js continues_view [OF cont d vd vc vp] c change in simp)
      with r show ?thesis by simp
    qed
  qed
qed

lemma consume_shape:
  assumes ok: "store_ok s"
  shows "quiet s (fst (consume throws s audit), fst (snd (consume throws s audit))) \<or>
    dispatches throws s (fst (consume throws s audit), fst (snd (consume throws s audit)))"
  using consumeChange_shape [OF ok, of audit throws]
  by (auto simp: consume_def Let_def split_beta invalidated_def quiet_self quiet_invalidate quiet_checkpoint)

section \<open>One call seen by one subscriber\<close>

definition present :: "hub_store \<Rightarrow> nat \<Rightarrow> string \<times> string \<times> int \<Rightarrow> bool" where
  "present s i v \<longleftrightarrow> (\<exists>b \<in> set (hs_subscribers s). sb_id b = i \<and> cursorView (sb_prev b) = v)"

definition gone :: "hub_store \<Rightarrow> nat \<Rightarrow> bool" where
  "gone s i \<longleftrightarrow> i < hs_next s \<and> (\<forall>b \<in> set (hs_subscribers s). sb_id b \<noteq> i)"

lemma distinct_ids_filter:
  "distinct (map sb_id bs) \<Longrightarrow> b \<in> set bs \<Longrightarrow> filter (\<lambda>b'. sb_id b' = sb_id b) bs = [b]"
proof (induction bs)
  case Nil
  then show ?case by simp
next
  case (Cons a bs)
  have "filter (\<lambda>b'. sb_id b' = sb_id a) bs = []"
    using Cons.prems(1) by (auto simp: filter_empty_conv image_iff)
  with Cons show ?case by (auto simp: image_iff)
qed

lemma dispatch_subscribers:
  "hs_subscribers (fst (dispatchChange throws t f)) =
     concat (map (\<lambda>b. if JStr (sb_kind b) = jsProp f ''kind'' then notifySubscriber throws f b else [b]) (hs_subscribers t))"
  by (simp add: dispatchChange_def Let_def)

lemma spread_is_object: "\<exists>fs. spread v gs = JObj Plain fs"
  by (cases v) (simp_all add: spread_def)

lemma dispatch_for_subscriber:
  assumes ok: "store_ok s" and dis: "dispatches throws s r" and pres: "present s i v"
  shows "(framesFor i (snd r) = [] \<and> present (fst r) i v) \<or>
    (\<exists>f. framesFor i (snd r) = [f] \<and> cursorView (jsProp f ''previousCursor'') = v \<and>
      cursorLess v (cursorView (jsProp f ''cursor'')) \<and>
      (present (fst r) i (cursorView (jsProp f ''cursor'')) \<or> (\<exists>g. throws i g) \<and> gone (fst r) i))"
proof -
  from dis obtain t d m c p where t: "hs_cursor s = Some d" "hs_subscribers t = hs_subscribers s" "hs_next t = hs_next s"
    and js: "isJson (changeFrame m c p)" and jc: "isJson c"
    and cv: "cursorView c = (fst (cursorView d), fst (snd (cursorView d)), snd (snd (cursorView d)) + 1)"
    and r: "r = dispatchChange throws t (changeFrame m c p)"
    by (auto simp: dispatches_def)
  let ?f = "changeFrame m c p"
  let ?g = "\<lambda>b. if JStr (sb_kind b) = jsProp ?f ''kind'' then notifySubscriber throws ?f b else [b]"
  from pres obtain b where b: "b \<in> set (hs_subscribers s)" "sb_id b = i" "cursorView (sb_prev b) = v"
    by (auto simp: present_def)
  have sub: "sub_ok s b" and dist: "distinct (map sb_id (hs_subscribers s))"
    using ok b(1) by (auto simp: store_ok_def list_all_iff)
  have only: "b' = b" if "b' \<in> set (hs_subscribers s)" "sb_id b' = i" for b'
    using dist that b by (simp add: distinct_map inj_on_def)
  have subs: "hs_subscribers (fst r) = concat (map ?g (hs_subscribers s))"
    by (simp add: r dispatchChange_def Let_def t)
  have "framesFor i (snd r) = map (\<lambda>b. copied (selectedChange ?f b))
      (filter (\<lambda>b. JStr (sb_kind b) = jsProp ?f ''kind'') (filter (\<lambda>b. sb_id b = i) (hs_subscribers s)))"
    by (simp add: r dispatchChange_def Let_def t framesFor_Notify conj_commute)
  also have "filter (\<lambda>b. sb_id b = i) (hs_subscribers s) = [b]"
    using distinct_ids_filter [OF dist b(1)] b(2) by simp
  finally have events: "framesFor i (snd r) = map (\<lambda>b. copied (selectedChange ?f b))
      (filter (\<lambda>b. JStr (sb_kind b) = jsProp ?f ''kind'') [b])" .
  show ?thesis
  proof (cases "JStr (sb_kind b) = jsProp ?f ''kind''")
    case False
    then have "framesFor i (snd r) = []"
      using events by simp
    moreover have "b \<in> set (hs_subscribers (fst r))"
      using False b(1) by (auto simp: subs)
    ultimately show ?thesis using b by (auto simp: present_def)
  next
    case True
    let ?sel = "selectedChange ?f b"
    have sel_json: "isJson ?sel"
      unfolding selectedChange_def by (rule isJson_spread [OF js]) (use sub in \<open>simp add: sub_ok_def\<close>)
    have obj: "\<exists>sh fs. ?f = JObj sh fs"
      using spread_is_object unfolding changeFrame_def by blast
    have props: "jsProp ?sel ''previousCursor'' = sb_prev b" "jsProp ?sel ''cursor'' = c"
      using sub selectedChange_props(2) [OF obj] by (simp_all add: sub_ok_def)
    have fr: "framesFor i (snd r) = [?sel]"
      using events True sel_json by simp
    have less: "cursorLess v (cursorView c)"
      using sub t(1) cv b(3) by (auto simp: sub_ok_def cursorLess_def cursorLe_def)
    have "present (fst r) i (cursorView c) \<or> (\<exists>g. throws i g) \<and> gone (fst r) i"
    proof (cases "throws (sb_id b) (copied ?sel)")
      case False
      then have "b\<lparr>sb_prev := copied c\<rparr> \<in> set (hs_subscribers (fst r))"
        using True b(1) by (auto simp: subs notifySubscriber_def)
      then have "b\<lparr>sb_prev := c\<rparr> \<in> set (hs_subscribers (fst r))" using jc by simp
      then have "present (fst r) i (cursorView c)"
        unfolding present_def by (rule bexI [rotated]) (simp add: b(2))
      then show ?thesis ..
    next
      case throw: True
      have "sb_id b' \<noteq> i" if b': "b' \<in> set (hs_subscribers (fst r))" for b'
      proof
        assume "sb_id b' = i"
        from b' obtain a where a: "a \<in> set (hs_subscribers s)" "b' \<in> set (?g a)" by (auto simp: subs)
        then have "sb_id a = sb_id b'" by (auto simp: notifySubscriber_def split: if_splits)
        with a \<open>sb_id b' = i\<close> only have "a = b" by simp
        with a(2) True throw show False by (simp add: notifySubscriber_def)
      qed
      moreover have "i < hs_next (fst r)" using sub b(2) t(3) by (simp add: r dispatch_frame sub_ok_def)
      ultimately show ?thesis using throw b(2) by (auto simp: gone_def)
    qed
    with fr props less b(3) show ?thesis by auto
  qed
qed

lemma quiet_for_subscriber:
  assumes "store_ok s" and "quiet s r" and "present s i v"
  shows "framesFor i (snd r) = [] \<and> (present (fst r) i v \<or> gone (fst r) i)"
proof -
  have "i < hs_next s" using assms(1,3) by (auto simp: present_def store_ok_def list_all_iff sub_ok_def)
  with assms(2,3) quiet_frames [OF assms(2), of i] show ?thesis by (auto simp: quiet_def present_def gone_def)
qed

lemma call_for_subscriber:
  assumes ok: "store_ok s" and pres: "present s i v"
  shows "(framesFor i (snd (storeCall s c)) = [] \<and> (present (storeStep s c) i v \<or> gone (storeStep s c) i)) \<or>
    (\<exists>f. framesFor i (snd (storeCall s c)) = [f] \<and> cursorView (jsProp f ''previousCursor'') = v \<and>
      cursorLess v (cursorView (jsProp f ''cursor'')) \<and>
      (present (storeStep s c) i (cursorView (jsProp f ''cursor'')) \<or> gone (storeStep s c) i))"
proof (cases c)
  case (Consume throws audit)
  let ?r = "(fst (consume throws s audit), fst (snd (consume throws s audit)))"
  from consume_shape [OF ok, of throws audit] show ?thesis
  proof
    assume "quiet s ?r"
    from quiet_for_subscriber [OF ok this pres] show ?thesis by (simp add: Consume storeStep_def)
  next
    assume "dispatches throws s ?r"
    from dispatch_for_subscriber [OF ok this pres] show ?thesis by (auto simp: Consume storeStep_def)
  qed
next
  case (Subscribe kind)
  then show ?thesis
    using pres by (auto simp: storeStep_def present_def split: sum.splits dest!: subscribe_ok [OF ok])
next
  case (CloseSubscription j)
  have "i < hs_next s" using ok pres by (auto simp: present_def store_ok_def list_all_iff sub_ok_def)
  then show ?thesis
    using pres by (auto simp: CloseSubscription storeStep_def removeSubscriber_def present_def gone_def)
next
  case CloseStore
  have "i < hs_next s" using ok pres by (auto simp: present_def store_ok_def list_all_iff sub_ok_def)
  then show ?thesis
    by (simp add: CloseStore storeStep_def closeStore_def framesFor_invalidate gone_def invalidate_frame)
qed

lemma call_when_gone:
  assumes ok: "store_ok s" and g: "gone s i"
  shows "framesFor i (snd (storeCall s c)) = [] \<and> gone (storeStep s c) i"
proof (cases c)
  case (Consume throws audit)
  let ?r = "(fst (consume throws s audit), fst (snd (consume throws s audit)))"
  from consume_shape [OF ok, of throws audit] show ?thesis
  proof
    assume "quiet s ?r"
    with g quiet_frames [of s ?r i] show ?thesis by (auto simp: Consume storeStep_def quiet_def gone_def)
  next
    assume "dispatches throws s ?r"
    then obtain t m c p where t: "hs_subscribers t = hs_subscribers s" "hs_next t = hs_next s"
      and r: "?r = dispatchChange throws t (changeFrame m c p)"
      by (auto simp: dispatches_def)
    have ids: "set (map sb_id (hs_subscribers (fst ?r))) \<subseteq> set (map sb_id (hs_subscribers s))"
      unfolding r dispatch_subscribers t
      by (rule concat_map_ids_subset) (use notify_keeps_id in auto)
    have nx: "hs_next (fst ?r) = hs_next s" by (subst r) (simp add: dispatch_frame t)
    have "framesFor i (snd ?r) = []"
      by (subst r) (use g in \<open>auto simp: dispatchChange_def Let_def t framesFor_Notify gone_def filter_empty_conv\<close>)
    moreover have "i \<notin> set (map sb_id (hs_subscribers s))" using g by (auto simp: gone_def)
    with ids have "i \<notin> set (map sb_id (hs_subscribers (fst ?r)))" by blast
    then have "gone (fst ?r) i" using nx g by (auto simp: gone_def)
    ultimately show ?thesis by (simp add: Consume storeStep_def)
  qed
next
  case (Subscribe kind)
  then show ?thesis
    using g by (auto simp: storeStep_def gone_def split: sum.splits dest!: subscribe_ok [OF ok])
next
  case (CloseSubscription j)
  then show ?thesis using g by (simp add: storeStep_def removeSubscriber_def gone_def)
next
  case CloseStore
  then show ?thesis
    using g by (simp add: storeStep_def closeStore_def framesFor_invalidate gone_def invalidate_frame)
qed

lemma gone_forever:
  "store_ok s \<Longrightarrow> gone s i \<Longrightarrow> framesFor i (storeEvents s cs) = []"
  by (induction cs arbitrary: s) (auto simp: framesFor_append call_when_gone storeStep_ok)

lemma feed_linked:
  "store_ok s \<Longrightarrow> present s i v \<Longrightarrow> linked v (framesFor i (storeEvents s cs))"
proof (induction cs arbitrary: s v)
  case Nil
  then show ?case by simp
next
  case (Cons c cs)
  let ?t = "storeStep s c"
  have ok: "store_ok ?t" using Cons.prems(1) by (rule storeStep_ok)
  have rest: "linked w (framesFor i (storeEvents ?t cs))" if "present ?t i w \<or> gone ?t i" for w
    using that Cons.IH [OF ok, of w] gone_forever [OF ok, of i cs] by fastforce
  have run: "framesFor i (storeEvents s (c # cs)) = framesFor i (snd (storeCall s c)) @ framesFor i (storeEvents ?t cs)"
    by (simp add: framesFor_append)
  from call_for_subscriber [OF Cons.prems, of c] show ?case
    unfolding run by (elim disjE exE conjE) (simp_all add: rest)
qed

section \<open>Notifications and the error, as one subscriber sees them\<close>

definition eventFor :: "nat \<Rightarrow> hub_event \<Rightarrow> bool" where
  "eventFor i e = (case e of Notify j _ \<Rightarrow> j = i | Fail j _ \<Rightarrow> j = i)"

abbreviation eventsFor :: "nat \<Rightarrow> hub_event list \<Rightarrow> hub_event list" where
  "eventsFor i \<equiv> filter (eventFor i)"

lemma eventsFor_Fail:
  "eventsFor i (map (\<lambda>b. Fail (sb_id b) e) bs) = map (\<lambda>b. Fail (sb_id b) e) (filter (\<lambda>b. sb_id b = i) bs)"
  by (induction bs) (auto simp: eventFor_def)

lemma eventsFor_Notify:
  "eventsFor i (map (\<lambda>b. Notify (sb_id b) (h b)) bs) = map (Notify i) (framesFor i (map (\<lambda>b. Notify (sb_id b) (h b)) bs))"
  by (induction bs) (auto simp: eventFor_def)

lemma quiet_events:
  assumes ok: "store_ok s" and q: "quiet s r" and pres: "present s i v"
  shows "(eventsFor i (snd r) = [] \<and> present (fst r) i v) \<or>
    (\<exists>e. eventsFor i (snd r) = [Fail i e] \<and> gone (fst r) i)"
proof -
  from pres obtain b where b: "b \<in> set (hs_subscribers s)" "sb_id b = i" by (auto simp: present_def)
  have one: "filter (\<lambda>b. sb_id b = i) (hs_subscribers s) = [b]"
    using distinct_ids_filter [OF _ b(1)] ok b(2) by (simp add: store_ok_def)
  have "i < hs_next s" using ok b by (auto simp: store_ok_def list_all_iff sub_ok_def)
  with q pres one b(2) show ?thesis by (auto simp: quiet_def present_def gone_def eventsFor_Fail)
qed

text \<open>A call that neither throws in this subscriber's callback nor closes its subscription.\<close>

definition leaves :: "nat \<Rightarrow> store_call \<Rightarrow> bool" where
  "leaves i c = (case c of
      Consume throws _ \<Rightarrow> (\<forall>f. \<not> throws i f)
    | CloseSubscription j \<Rightarrow> j \<noteq> i
    | _ \<Rightarrow> True)"

lemma call_events:
  assumes ok: "store_ok s" and pres: "present s i v" and lv: "leaves i c"
  shows "(eventsFor i (snd (storeCall s c)) = [] \<and> present (storeStep s c) i v) \<or>
    (\<exists>f. eventsFor i (snd (storeCall s c)) = [Notify i f] \<and> cursorView (jsProp f ''previousCursor'') = v \<and>
      cursorLess v (cursorView (jsProp f ''cursor'')) \<and> present (storeStep s c) i (cursorView (jsProp f ''cursor''))) \<or>
    (\<exists>e. eventsFor i (snd (storeCall s c)) = [Fail i e] \<and> gone (storeStep s c) i)"
proof (cases c)
  case (Consume throws audit)
  let ?r = "(fst (consume throws s audit), fst (snd (consume throws s audit)))"
  from consume_shape [OF ok, of throws audit] show ?thesis
  proof
    assume "quiet s ?r"
    from quiet_events [OF ok this pres] show ?thesis by (auto simp: Consume storeStep_def)
  next
    assume d: "dispatches throws s ?r"
    then have "eventsFor i (snd ?r) = map (Notify i) (framesFor i (snd ?r))"
      unfolding dispatches_def dispatchChange_def Let_def using eventsFor_Notify by auto
    with dispatch_for_subscriber [OF ok d pres] lv show ?thesis
      by (auto simp: Consume storeStep_def leaves_def)
  qed
next
  case (Subscribe kind)
  then show ?thesis
    using pres by (auto simp: storeStep_def present_def split: sum.splits dest!: subscribe_ok [OF ok])
next
  case (CloseSubscription j)
  then show ?thesis
    using pres lv by (auto simp: leaves_def storeStep_def removeSubscriber_def present_def)
next
  case CloseStore
  have "quiet s (closeStore s)"
    by (auto simp: closeStore_def quiet_def invalidate_def)
  from quiet_events [OF ok this pres] show ?thesis by (auto simp: CloseStore storeStep_def)
qed

text \<open>The kind a subscription was opened with is the kind of everything it receives.\<close>

definition kindFor :: "hub_store \<Rightarrow> nat \<Rightarrow> string \<Rightarrow> bool" where
  "kindFor s i k \<longleftrightarrow> i < hs_next s \<and> (\<forall>b \<in> set (hs_subscribers s). sb_id b = i \<longrightarrow> sb_kind b = k)"

lemma dispatch_kind:
  assumes "\<exists>sh fs. f = JObj sh fs" and "isJson f" and "\<forall>b \<in> set bs. isJson (sb_prev b)"
  shows "\<forall>g \<in> set (framesFor i (map (\<lambda>b. Notify (sb_id b) (copied (selectedChange f b)))
      (filter (\<lambda>b. JStr (sb_kind b) = jsProp f ''kind'') bs))).
    \<exists>b \<in> set bs. sb_id b = i \<and> jsProp g ''kind'' = JStr (sb_kind b) \<and> jsProp g ''type'' = jsProp f ''type''"
proof -
  have "isJson (selectedChange f b)" if "b \<in> set bs" for b
    unfolding selectedChange_def using assms that by (intro isJson_spread) auto
  then show ?thesis
    using assms(1) by (auto simp: framesFor_Notify selectedChange_def jsProp_spread)
qed

lemma call_kind:
  assumes ok: "store_ok s" and k: "kindFor s i k"
  shows "kindFor (storeStep s c) i k \<and>
    (\<forall>g \<in> set (framesFor i (snd (storeCall s c))). jsProp g ''kind'' = JStr k \<and> jsProp g ''type'' = JStr ''change'')"
proof (cases c)
  case (Consume throws audit)
  let ?r = "(fst (consume throws s audit), fst (snd (consume throws s audit)))"
  from consume_shape [OF ok, of throws audit] show ?thesis
  proof
    assume q: "quiet s ?r"
    with k quiet_frames [OF q, of i] show ?thesis by (auto simp: Consume storeStep_def quiet_def kindFor_def)
  next
    assume "dispatches throws s ?r"
    then obtain t m c p where t: "hs_subscribers t = hs_subscribers s" "hs_next t = hs_next s"
      and js: "isJson (changeFrame m c p)" and r: "?r = dispatchChange throws t (changeFrame m c p)"
      by (auto simp: dispatches_def)
    have obj: "\<exists>sh fs. changeFrame m c p = JObj sh fs"
      using spread_is_object unfolding changeFrame_def by blast
    have prevs: "\<forall>b \<in> set (hs_subscribers s). isJson (sb_prev b)"
      using ok by (auto simp: store_ok_def list_all_iff sub_ok_def)
    have "kindFor (fst ?r) i k"
      unfolding r using k t
      by (auto simp: kindFor_def dispatch_subscribers dispatch_frame notifySubscriber_def split: if_splits)
    moreover have "\<forall>g \<in> set (framesFor i (snd ?r)). jsProp g ''kind'' = JStr k \<and> jsProp g ''type'' = JStr ''change''"
      unfolding r using dispatch_kind [OF obj js prevs, of i] k
      by (auto simp: dispatchChange_def Let_def t kindFor_def)
    ultimately show ?thesis by (simp add: Consume storeStep_def)
  qed
next
  case (Subscribe kind)
  then show ?thesis
    using k by (auto simp: storeStep_def kindFor_def split: sum.splits dest!: subscribe_ok [OF ok])
next
  case (CloseSubscription j)
  then show ?thesis using k by (auto simp: storeStep_def removeSubscriber_def kindFor_def)
next
  case CloseStore
  then show ?thesis
    using k by (simp add: storeStep_def closeStore_def framesFor_invalidate kindFor_def invalidate_frame)
qed

end
