(* ===== verification/Auditor.thy ===== *)
theory Auditor
  imports HubStateStore
begin

text \<open>
  \<open>packages/host/src/lib/auditor.ts\<close>: the producer of audit records. It numbers the hub-state changes
  and hands each record to its state listeners before writing it to the audit stream. The clock is an
  argument (\<open>now\<close>); \<open>JSON.stringify\<close> failing on a record is the parameter \<open>stringifies\<close>.
\<close>

section \<open>State and records\<close>

record op_record =
  op_state :: string
  op_code :: int
  op_requestId :: "string option"
  op_objectId :: "string option"
  op_requestorId :: string
  op_rx :: "int option"
  op_tx :: "int option"
  op_receivedAt :: int
  op_limits :: jsval
  op_manifestChange :: jsval
  op_hubState :: jsval

record state_identity =
  si_hubId :: string
  si_epoch :: string
  si_position :: int

record auditor =
  au_identity :: "state_identity option"
  au_listeners :: "nat list"
  au_delivered :: "(nat \<times> op_record) list" \<comment> \<open>calls of the state listeners, in order\<close>
  au_stream :: "op_record list" \<comment> \<open>records written to the audit stream\<close>

record audit_data =
  ad_id :: string
  ad_rx :: int
  ad_tx :: int
  ad_requestorId :: string

record audited_request =
  rq_method :: string
  rq_type :: "string option"
  rq_op :: "string option"
  rq_id :: "string option"
  rq_audit :: audit_data

text \<open>\<open>packages/symbols/src/op-record-code.ts\<close>, the codes the auditor writes itself.\<close>

definition HOST_HEARTBEAT :: int where "HOST_HEARTBEAT = 13010"
definition INSTANCE_HEARTBEAT :: int where "INSTANCE_HEARTBEAT = 13012"
definition MANIFEST_CHANGE :: int where "MANIFEST_CHANGE = 13030"
definition HUB_STATE_CHECKPOINT :: int where "HUB_STATE_CHECKPOINT = 13040"
definition HUB_STATE_CHANGE :: int where "HUB_STATE_CHANGE = 13041"
definition NOT_PROCESSABLE :: int where "NOT_PROCESSABLE = 0"
definition INSTANCE_STARTED :: int where "INSTANCE_STARTED = 0"

definition emptyRecord :: "int \<Rightarrow> op_record" where
  "emptyRecord now = \<lparr>op_state = [], op_code = 0, op_requestId = None, op_objectId = None,
     op_requestorId = ''system'', op_rx = None, op_tx = None, op_receivedAt = now,
     op_limits = JUndefined, op_manifestChange = JUndefined, op_hubState = JUndefined\<rparr>"

section \<open>Writing\<close>

text \<open>Listener exceptions are caught one by one, so every listener is called.\<close>

definition auditWrite :: "(op_record \<Rightarrow> bool) \<Rightarrow> auditor \<Rightarrow> op_record \<Rightarrow> auditor" where
  "auditWrite stringifies a msg =
    a\<lparr>au_delivered := au_delivered a @
        (if op_hubState msg = JUndefined then [] else map (\<lambda>l. (l, msg)) (au_listeners a)),
      au_stream := (if stringifies msg then au_stream a @ [msg] else au_stream a)\<rparr>"

definition subscribeState :: "auditor \<Rightarrow> nat \<Rightarrow> auditor" where
  "subscribeState a l = a\<lparr>au_listeners := jsAdd (au_listeners a) l\<rparr>"

definition unsubscribeState :: "auditor \<Rightarrow> nat \<Rightarrow> auditor" where
  "unsubscribeState a l = a\<lparr>au_listeners := jsRemove (au_listeners a) l\<rparr>"

definition resetStateIdentity :: "auditor \<Rightarrow> string \<Rightarrow> string \<Rightarrow> auditor" where
  "resetStateIdentity a h e = a\<lparr>au_identity := Some \<lparr>si_hubId = h, si_epoch = e, si_position = 0\<rparr>\<rparr>"

definition cursorJson :: "state_identity \<Rightarrow> jsval" where
  "cursorJson i = JObj Plain [(''hubId'', JStr (si_hubId i)), (''epoch'', JStr (si_epoch i)),
     (''position'', JNum (NInt (si_position i)))]"

definition requireStateIdentity :: "auditor \<Rightarrow> js_error + state_identity" where
  "requireStateIdentity a = (case au_identity a of
      None \<Rightarrow> Inl (PlainError ''Hub state audit identity has not been initialized'')
    | Some i \<Rightarrow> Inr i)"

text \<open>Returns the identity with the advanced position; the previous cursor is the old identity.\<close>

definition advanceStateCursor :: "state_identity \<Rightarrow> state_identity" where
  "advanceStateCursor i = i\<lparr>si_position := si_position i + 1\<rparr>"

definition checkpointAudit :: "state_identity \<Rightarrow> jsval \<Rightarrow> jsval" where
  "checkpointAudit i inventory = JObj Plain
     [(''type'', JStr ''checkpoint''), (''cursor'', cursorJson i), (''inventory'', inventory)]"

definition changeAudit :: "state_identity \<Rightarrow> jsval \<Rightarrow> jsval" where
  "changeAudit i mutation = JObj Plain
     [(''type'', JStr ''change''), (''previousCursor'', cursorJson i),
      (''cursor'', cursorJson (advanceStateCursor i)), (''mutation'', mutation)]"

definition auditStateCheckpoint :: "(op_record \<Rightarrow> bool) \<Rightarrow> int \<Rightarrow> auditor \<Rightarrow> jsval \<Rightarrow> js_error + auditor" where
  "auditStateCheckpoint stringifies now a inventory =
    bindR (requireStateIdentity a) (\<lambda>i. Inr (auditWrite stringifies a
      ((emptyRecord now)\<lparr>op_code := HUB_STATE_CHECKPOINT, op_objectId := Some (si_hubId i),
        op_hubState := checkpointAudit i inventory\<rparr>)))"

definition auditStateChange :: "(op_record \<Rightarrow> bool) \<Rightarrow> int \<Rightarrow> auditor \<Rightarrow> jsval \<Rightarrow> js_error + auditor" where
  "auditStateChange stringifies now a mutation =
    bindR (requireStateIdentity a) (\<lambda>i. Inr (auditWrite stringifies (a\<lparr>au_identity := Some (advanceStateCursor i)\<rparr>)
      ((emptyRecord now)\<lparr>op_code := HUB_STATE_CHANGE, op_objectId := Some (si_hubId i),
        op_hubState := changeAudit i mutation\<rparr>)))"

definition auditManifestChange :: "(op_record \<Rightarrow> bool) \<Rightarrow> int \<Rightarrow> auditor \<Rightarrow> jsval \<Rightarrow> auditor" where
  "auditManifestChange stringifies now a change =
    (let sid = strOf (jsProp change ''sequenceId''); iid = strOf (jsProp change ''instanceId'');
         base = (emptyRecord now)\<lparr>op_code := MANIFEST_CHANGE, op_objectId := Some iid, op_manifestChange := change\<rparr> in
     case au_identity a of
       Some i \<Rightarrow>
         if sid \<noteq> [] then
           auditWrite stringifies (a\<lparr>au_identity := Some (advanceStateCursor i)\<rparr>)
             (base\<lparr>op_hubState := changeAudit i (JObj Plain [(''kind'', JStr ''sequence''), (''action'', JStr ''manifest''),
                (''sequenceId'', jsProp change ''sequenceId''), (''instanceId'', jsProp change ''instanceId''),
                (''manifestChange'', change)])\<rparr>)
         else auditWrite stringifies a base
     | None \<Rightarrow> auditWrite stringifies a base)"

section \<open>Request records\<close>

definition objectTypes :: "string list" where
  "objectTypes = [''sequence'', ''instance'', ''topic'']"

definition auditMethods :: "string list" where
  "auditMethods = [''post'', ''get'', ''put'', ''delete'']"

definition auditOps :: "string list" where
  "auditOps = [''stdout'', ''stderr'', ''stdin'', ''log'', ''monitoring'', ''output'', ''input'', ''health'',
     ''events'', ''event'', ''once'', ''_monitoring_rate'', ''_event'', ''_stop'', ''_kill'', ''instances'', ''start'']"

definition indexOfOpt :: "string list \<Rightarrow> string option \<Rightarrow> int" where
  "indexOfOpt xs x = (case x of None \<Rightarrow> -1 | Some s \<Rightarrow> indexOf xs s)"

definition getOpCode :: "audited_request \<Rightarrow> int" where
  "getOpCode req =
    (let i = indexOfOpt objectTypes (rq_type req) in
     if i = -1 then 0
     else 10000 + i * 1000 + (indexOf auditMethods (toLowerCase (rq_method req)) + 1) * 100 +
          (indexOfOpt auditOps (rq_op req) + 1))"

definition getRequestorId :: "audited_request option \<Rightarrow> string" where
  "getRequestorId req = orElse (map_option (\<lambda>r. ad_requestorId (rq_audit r)) req) ''system''"

definition auditRequest :: "(op_record \<Rightarrow> bool) \<Rightarrow> int \<Rightarrow> auditor \<Rightarrow> audited_request \<Rightarrow> string \<Rightarrow> auditor" where
  "auditRequest stringifies now a req status =
    (let opCode = getOpCode req in
     if opCode \<noteq> NOT_PROCESSABLE then
       auditWrite stringifies a ((emptyRecord now)\<lparr>op_state := status, op_code := opCode,
         op_requestId := Some (ad_id (rq_audit req)), op_objectId := rq_id req,
         op_requestorId := getRequestorId (Some req),
         op_rx := Some (ad_rx (rq_audit req)), op_tx := Some (ad_tx (rq_audit req))\<rparr>)
     else a)"

definition auditInstanceHeartBeat :: "(op_record \<Rightarrow> bool) \<Rightarrow> int \<Rightarrow> auditor \<Rightarrow> string \<Rightarrow> jsval \<Rightarrow> auditor" where
  "auditInstanceHeartBeat stringifies now a iid lastStats =
    auditWrite stringifies a ((emptyRecord now)\<lparr>op_state := ''ACTIVE'', op_code := INSTANCE_HEARTBEAT,
      op_objectId := Some iid, op_limits := jsProp lastStats ''limits''\<rparr>)"

definition auditHostHeartBeat :: "(op_record \<Rightarrow> bool) \<Rightarrow> int \<Rightarrow> auditor \<Rightarrow> auditor" where
  "auditHostHeartBeat stringifies now a =
    auditWrite stringifies a ((emptyRecord now)\<lparr>op_state := ''ACTIVE'', op_code := HOST_HEARTBEAT, op_objectId := Some []\<rparr>)"

definition auditInstance :: "(op_record \<Rightarrow> bool) \<Rightarrow> int \<Rightarrow> auditor \<Rightarrow> string \<Rightarrow> int \<Rightarrow> audited_request option \<Rightarrow> auditor" where
  "auditInstance stringifies now a iid st req =
    auditWrite stringifies a ((emptyRecord now)\<lparr>op_code := st, op_objectId := Some iid, op_requestorId := getRequestorId req\<rparr>)"

definition auditInstanceStart :: "(op_record \<Rightarrow> bool) \<Rightarrow> int \<Rightarrow> auditor \<Rightarrow> string \<Rightarrow> audited_request \<Rightarrow> jsval \<Rightarrow> auditor" where
  "auditInstanceStart stringifies now a iid req limits =
    auditWrite stringifies a ((emptyRecord now)\<lparr>op_code := INSTANCE_STARTED, op_objectId := Some iid,
      op_requestorId := getRequestorId (Some req), op_limits := limits\<rparr>)"

definition auditSequence :: "(op_record \<Rightarrow> bool) \<Rightarrow> int \<Rightarrow> auditor \<Rightarrow> string \<Rightarrow> int \<Rightarrow> auditor" where
  "auditSequence stringifies now a sid st =
    auditWrite stringifies a ((emptyRecord now)\<lparr>op_code := st, op_objectId := Some sid\<rparr>)"

section \<open>Operation codes decode uniquely\<close>

lemma indexOfOpt_bounds: "-1 \<le> indexOfOpt xs x" "indexOfOpt xs x < int (length xs)"
  using indexOf_lower indexOf_upper by (auto simp: indexOfOpt_def split: option.split)

lemma getOpCode_digits:
  assumes "getOpCode req \<noteq> 0"
  shows "indexOfOpt objectTypes (rq_type req) = (getOpCode req - 10000) div 1000"
    and "indexOf auditMethods (toLowerCase (rq_method req)) + 1 = (getOpCode req - 10000) mod 1000 div 100"
    and "indexOfOpt auditOps (rq_op req) + 1 = (getOpCode req - 10000) mod 100"
proof -
  define i where "i = indexOfOpt objectTypes (rq_type req)"
  define j where "j = indexOf auditMethods (toLowerCase (rq_method req)) + 1"
  define k where "k = indexOfOpt auditOps (rq_op req) + 1"
  have b: "0 \<le> j" "j < 5" "0 \<le> k" "k < 18"
    using indexOf_lower [of auditMethods "toLowerCase (rq_method req)"] indexOf_upper [of auditMethods "toLowerCase (rq_method req)"]
      indexOfOpt_bounds [of auditOps "rq_op req"]
    by (auto simp: j_def k_def auditMethods_def auditOps_def)
  have i: "i \<noteq> -1" using assms by (auto simp: getOpCode_def i_def Let_def split: if_splits)
  then have code: "getOpCode req - 10000 = i * 1000 + j * 100 + k"
    by (simp add: getOpCode_def Let_def i_def j_def k_def)
  define r where "r = j * 100 + k"
  have r: "0 \<le> r" "r < 1000" using b by (auto simp: r_def)
  have code': "getOpCode req - 10000 = 1000 * i + r" using code by (simp add: r_def)
  have d: "(getOpCode req - 10000) div 1000 = i" and m: "(getOpCode req - 10000) mod 1000 = r"
    by (rule int_div_pos_eq [OF code' r], rule int_mod_pos_eq [OF code' r])
  have "getOpCode req - 10000 = 100 * (10 * i + j) + k" using code by simp
  then have m100: "(getOpCode req - 10000) mod 100 = k"
    by (rule int_mod_pos_eq) (use b in auto)
  have "r div 100 = j" by (rule int_div_pos_eq [of r 100 j k]) (use b in \<open>auto simp: r_def\<close>)
  with d m m100 show "indexOfOpt objectTypes (rq_type req) = (getOpCode req - 10000) div 1000"
    and "indexOf auditMethods (toLowerCase (rq_method req)) + 1 = (getOpCode req - 10000) mod 1000 div 100"
    and "indexOfOpt auditOps (rq_op req) + 1 = (getOpCode req - 10000) mod 100"
    by (simp_all add: i_def j_def k_def)
qed

end
