(* ===== verification/HubReplica.thy ===== *)
theory HubReplica
  imports HubStateFeed Auditor
begin

text \<open>
  The audit stream as a replication protocol. The specification is an inventory of partial functions
  and a typed mutation; \<open>encodeMutation\<close> is the JSON the host sends. The store, driven by the
  auditor's records, implements the specification.
\<close>

section \<open>Specification\<close>

datatype hub_mutation =
    SequenceUpsert string jsval
  | SequenceRemove string
  | SequenceManifest string string jsval
  | InstanceUpsert string string jsval
  | InstanceRemove string string
  | TopicUpsert string jsval
  | TopicRemove string
  | HealthUpsert jsval

record hub_view =
  hv_sequences :: "string \<Rightarrow> jsval option"
  hv_instances :: "string \<Rightarrow> jsval option"
  hv_topics :: "string \<Rightarrow> jsval option"
  hv_manifests :: "string \<Rightarrow> manifest_entry option"
  hv_health :: "jsval option"

fun specApply :: "hub_mutation \<Rightarrow> hub_view \<Rightarrow> hub_view" where
  "specApply (SequenceUpsert sid v) w = w\<lparr>hv_sequences := (hv_sequences w)(sid \<mapsto> v)\<rparr>"
| "specApply (SequenceRemove sid) w = w\<lparr>hv_sequences := (hv_sequences w)(sid := None)\<rparr>"
| "specApply (SequenceManifest sid iid change) w = w\<lparr>hv_manifests := (hv_manifests w)(iid :=
     (if jsProp change ''action'' = JStr ''removed'' then None
      else Some \<lparr>me_sequenceId = sid, me_value = manifestValue change\<rparr>))\<rparr>"
| "specApply (InstanceUpsert iid sid v) w = w\<lparr>hv_instances := (hv_instances w)(iid \<mapsto> v)\<rparr>"
| "specApply (InstanceRemove iid sid) w = w\<lparr>hv_instances := (hv_instances w)(iid := None)\<rparr>"
| "specApply (TopicUpsert n v) w = w\<lparr>hv_topics := (hv_topics w)(n \<mapsto> v)\<rparr>"
| "specApply (TopicRemove n) w = w\<lparr>hv_topics := (hv_topics w)(n := None)\<rparr>"
| "specApply (HealthUpsert v) w = w\<lparr>hv_health := Some v\<rparr>"

text \<open>What \<open>HubStateMutation\<close> of \<open>packages/runtime-types/src/hub-state.ts\<close> requires of each case.\<close>

fun wfMutation :: "hub_mutation \<Rightarrow> bool" where
  "wfMutation (SequenceUpsert sid v) = (isJson v \<and> isObject v \<and> validSequenceInstances v \<and> jsProp v ''id'' = JStr sid)"
| "wfMutation (SequenceRemove sid) = True"
| "wfMutation (SequenceManifest sid iid c) = (isJson c \<and> isObject c \<and> jsProp c ''instanceId'' = JStr iid \<and> jsProp c ''sequenceId'' = JStr sid)"
| "wfMutation (InstanceUpsert iid sid v) = (isJson v \<and> isObject v \<and> jsProp v ''id'' = JStr iid \<and>
     (jsProp v ''sequenceId'' = JUndefined \<or> jsProp v ''sequenceId'' = JStr sid))"
| "wfMutation (InstanceRemove iid sid) = True"
| "wfMutation (TopicUpsert n v) = (isJson v \<and> isObject v \<and> jsProp v ''name'' = JStr n)"
| "wfMutation (TopicRemove n) = True"
| "wfMutation (HealthUpsert v) = (isJson v \<and> isObject v)"

fun encodeMutation :: "hub_mutation \<Rightarrow> jsval" where
  "encodeMutation (SequenceUpsert sid v) = JObj Plain [(''kind'', JStr ''sequence''), (''action'', JStr ''upsert''), (''sequenceId'', JStr sid), (''value'', v)]"
| "encodeMutation (SequenceRemove sid) = JObj Plain [(''kind'', JStr ''sequence''), (''action'', JStr ''remove''), (''sequenceId'', JStr sid), (''value'', JNull)]"
| "encodeMutation (SequenceManifest sid iid c) = JObj Plain [(''kind'', JStr ''sequence''), (''action'', JStr ''manifest''), (''sequenceId'', JStr sid), (''instanceId'', JStr iid), (''manifestChange'', c)]"
| "encodeMutation (InstanceUpsert iid sid v) = JObj Plain [(''kind'', JStr ''instance''), (''action'', JStr ''upsert''), (''instanceId'', JStr iid), (''sequenceId'', JStr sid), (''value'', v)]"
| "encodeMutation (InstanceRemove iid sid) = JObj Plain [(''kind'', JStr ''instance''), (''action'', JStr ''remove''), (''instanceId'', JStr iid), (''sequenceId'', JStr sid), (''value'', JNull)]"
| "encodeMutation (TopicUpsert n v) = JObj Plain [(''kind'', JStr ''topic''), (''action'', JStr ''upsert''), (''topic'', JStr n), (''value'', v)]"
| "encodeMutation (TopicRemove n) = JObj Plain [(''kind'', JStr ''topic''), (''action'', JStr ''remove''), (''topic'', JStr n), (''value'', JNull)]"
| "encodeMutation (HealthUpsert v) = JObj Plain [(''kind'', JStr ''health''), (''action'', JStr ''upsert''), (''value'', v)]"

definition viewOf :: "hub_store \<Rightarrow> hub_view" where
  "viewOf s = \<lparr>hv_sequences = map_of (hs_sequences s), hv_instances = map_of (hs_instances s),
     hv_topics = map_of (hs_topics s), hv_manifests = map_of (hs_manifests s), hv_health = hs_health s\<rparr>"

section \<open>One change\<close>

lemma encode_json: "wfMutation m \<Longrightarrow> isJson (encodeMutation m)"
  by (cases m) auto

lemma encode_valid: "wfMutation m \<Longrightarrow> validMutation (encodeMutation m)"
  by (cases m) (auto simp: validMutation_def Let_def isObject_def [of "JObj _ _"])

lemma encode_associations: "wfMutation m \<Longrightarrow> validMutationAssociations (encodeMutation m)"
  by (cases m) (auto simp: validMutationAssociations_def Let_def)

lemma map_of_jsSet: "map_of (jsSet m k v) = (map_of m)(k \<mapsto> v)"
  by (rule ext) (simp add: js_simps)

lemma map_of_jsDelete: "map_of (jsDelete m k) = (map_of m)(k := None)"
  by (rule ext) (simp add: js_simps)

lemma apply_encoded:
  "wfMutation m \<Longrightarrow> \<exists>t. applyMutation s (encodeMutation m) = Inr t \<and> viewOf t = specApply m (viewOf s)"
  by (cases m) (auto simp: applyMutation_def Let_def copy_of_json(1) viewOf_def map_of_jsSet map_of_jsDelete)

text \<open>Store and auditor agree on the cursor.\<close>

definition inSync :: "hub_store \<Rightarrow> state_identity \<Rightarrow> bool" where
  "inSync s i \<longleftrightarrow> store_ok s \<and> hs_available s \<and>
     (\<exists>d. hs_cursor s = Some d \<and> cursorView d = (si_hubId i, si_epoch i, si_position i))"

definition identity_ok :: "state_identity \<Rightarrow> bool" where
  "identity_ok i \<longleftrightarrow> si_hubId i \<noteq> [] \<and> si_epoch i \<noteq> [] \<and> 0 \<le> si_position i \<and> si_position i \<le> 9007199254740991"

lemma cursorJson_valid: "identity_ok i \<Longrightarrow> validCursor (cursorJson i)"
  by (auto simp: cursorJson_def validCursor_def isObject_def isSafeInteger_def identity_ok_def)

lemma cursorJson_json: "isJson (cursorJson i)"
  by (simp add: cursorJson_def isFinite_def)

lemma cursorJson_view: "cursorView (cursorJson i) = (si_hubId i, si_epoch i, si_position i)"
  by (simp add: cursorJson_def cursorView_def)

lemma advance_view [simp]:
  "si_hubId (advanceStateCursor i) = si_hubId i" "si_epoch (advanceStateCursor i) = si_epoch i"
  "si_position (advanceStateCursor i) = si_position i + 1"
  by (simp_all add: advanceStateCursor_def)

lemma cursorJson_props [simp]:
  "jsProp (cursorJson i) ''hubId'' = JStr (si_hubId i)" "jsProp (cursorJson i) ''epoch'' = JStr (si_epoch i)"
  "jsProp (cursorJson i) ''position'' = JNum (NInt (si_position i))"
  by (simp_all add: cursorJson_def)

lemma changeAudit_props [simp]:
  "jsProp (changeAudit i m) ''type'' = JStr ''change''"
  "jsProp (changeAudit i m) ''cursor'' = cursorJson (advanceStateCursor i)"
  "jsProp (changeAudit i m) ''previousCursor'' = cursorJson i"
  "jsProp (changeAudit i m) ''mutation'' = m"
  by (simp_all add: changeAudit_def)

lemma changeAudit_object [simp]: "isObject (changeAudit i m)" "changeAudit i m \<noteq> JUndefined"
  by (simp_all add: changeAudit_def isObject_def)

lemma inSync_continues:
  assumes "inSync s i"
  shows "continues s (changeAudit i m)"
proof -
  from assms obtain d where d: "hs_cursor s = Some d" "hs_available s" "validCursor d"
    "cursorView d = (si_hubId i, si_epoch i, si_position i)"
    by (auto simp: inSync_def store_ok_def)
  from d(3) obtain h e p where "jsProp d ''hubId'' = JStr h" "jsProp d ''epoch'' = JStr e"
    "jsProp d ''position'' = JNum (NInt p)" "cursorView d = (h, e, p)"
    by (rule validCursorE)
  with d show ?thesis by (simp add: continues_def sameCursor_def positionOf_def)
qed

lemma viewOf_dispatch: "viewOf (fst (dispatchChange throws s f)) = viewOf s"
  by (simp add: viewOf_def dispatchChange_def Let_def)

lemma consume_encoded:
  fixes throws
  assumes sync: "inSync s i" and wf: "wfMutation m"
    and i: "identity_ok i" and j: "identity_ok (advanceStateCursor i)"
  defines "r \<equiv> consume throws s (changeAudit i (encodeMutation m))"
  shows "inSync (fst r) (advanceStateCursor i) \<and> viewOf (fst r) = specApply m (viewOf s) \<and> snd (snd r) = None"
proof -
  let ?a = "changeAudit i (encodeMutation m)"
  have opn: "\<not> hs_closed s" and ok: "store_ok s" using sync by (auto simp: inSync_def store_ok_def)
  have r: "r = consumeChange throws s ?a"
    using opn encode_valid [OF wf] encode_associations [OF wf] cursorJson_valid [OF i] cursorJson_valid [OF j]
      inSync_continues [OF sync]
    by (simp add: r_def consume_def)
  obtain s1 where s1: "applyMutation s (encodeMutation m) = Inr s1" "viewOf s1 = specApply m (viewOf s)"
    using apply_encoded [OF wf] by blast
  let ?s2 = "s1\<lparr>hs_cursor := Some (cursorJson (advanceStateCursor i))\<rparr>"
  let ?f = "changeFrame (encodeMutation m) (cursorJson (advanceStateCursor i)) (cursorJson i)"
  have r': "r = (fst (dispatchChange throws ?s2 ?f), snd (dispatchChange throws ?s2 ?f), None)"
    unfolding r using s1(1) encode_json [OF wf] copy_of_json(1) cursorJson_json
    by (simp add: consumeChange_def Let_def split_beta)
  have "store_ok (fst r)"
    unfolding r
    by (rule consumeChange_ok [OF ok inSync_continues [OF sync]]) (simp_all add: cursorJson_valid i j)
  moreover have "hs_available s" using sync by (simp add: inSync_def)
  moreover have "viewOf ?s2 = viewOf s1" by (simp add: viewOf_def)
  ultimately show ?thesis
    using s1(2) applyMutation_frame [OF s1(1)] cursorJson_view [of "advanceStateCursor i"]
    by (simp add: r' inSync_def dispatch_frame viewOf_dispatch)
qed

section \<open>A run of changes\<close>

fun consumeAll :: "(nat \<Rightarrow> jsval \<Rightarrow> bool) \<Rightarrow> hub_store \<Rightarrow> jsval list \<Rightarrow> hub_store" where
  "consumeAll throws s [] = s"
| "consumeAll throws s (r # rs) = consumeAll throws (fst (consume throws s r)) rs"

fun changeAudits :: "state_identity \<Rightarrow> hub_mutation list \<Rightarrow> jsval list" where
  "changeAudits i [] = []"
| "changeAudits i (m # ms) = changeAudit i (encodeMutation m) # changeAudits (advanceStateCursor i) ms"

fun auditChanges :: "(op_record \<Rightarrow> bool) \<Rightarrow> int \<Rightarrow> auditor \<Rightarrow> hub_mutation list \<Rightarrow> js_error + auditor" where
  "auditChanges stringifies now a [] = Inr a"
| "auditChanges stringifies now a (m # ms) =
     bindR (auditStateChange stringifies now a (encodeMutation m)) (\<lambda>b. auditChanges stringifies now b ms)"

definition recordsFor :: "nat \<Rightarrow> auditor \<Rightarrow> jsval list" where
  "recordsFor l a = map (\<lambda>d. op_hubState (snd d)) (filter (\<lambda>d. fst d = l) (au_delivered a))"

lemma filter_own: "distinct ls \<Longrightarrow> l \<in> set ls \<Longrightarrow> filter (\<lambda>d. fst d = l) (map (\<lambda>l. (l, msg)) ls) = [(l, msg)]"
proof (induction ls)
  case Nil
  then show ?case by simp
next
  case (Cons k ls)
  have "filter (\<lambda>d. fst d = k) (map (\<lambda>l. (l, msg)) ls) = []"
    using Cons.prems(1) by (auto simp: filter_empty_conv)
  with Cons show ?case by auto
qed

lemma recordsFor_write:
  "distinct (au_listeners a) \<Longrightarrow> l \<in> set (au_listeners a) \<Longrightarrow> op_hubState msg \<noteq> JUndefined \<Longrightarrow>
     recordsFor l (auditWrite f a msg) = recordsFor l a @ [op_hubState msg]"
  using filter_own [of "au_listeners a" l msg] by (simp add: recordsFor_def auditWrite_def)

lemma auditChanges_records:
  assumes "distinct (au_listeners a)" and "l \<in> set (au_listeners a)" and "au_identity a = Some i"
  shows "\<exists>b. auditChanges stringifies now a ms = Inr b \<and> recordsFor l b = recordsFor l a @ changeAudits i ms"
  using assms
proof (induction ms arbitrary: a i)
  case Nil
  then show ?case by simp
next
  case (Cons m ms)
  let ?msg = "(emptyRecord now)\<lparr>op_code := HUB_STATE_CHANGE, op_objectId := Some (si_hubId i),
        op_hubState := changeAudit i (encodeMutation m)\<rparr>"
  let ?b = "auditWrite stringifies (a\<lparr>au_identity := Some (advanceStateCursor i)\<rparr>) ?msg"
  have step: "auditStateChange stringifies now a (encodeMutation m) = Inr ?b"
    using Cons.prems(3) by (simp add: auditStateChange_def requireStateIdentity_def)
  have b: "distinct (au_listeners ?b)" "l \<in> set (au_listeners ?b)" "au_identity ?b = Some (advanceStateCursor i)"
    using Cons.prems by (simp_all add: auditWrite_def)
  have "recordsFor l ?b = recordsFor l (a\<lparr>au_identity := Some (advanceStateCursor i)\<rparr>) @ [changeAudit i (encodeMutation m)]"
    using Cons.prems by (subst recordsFor_write) simp_all
  then have "recordsFor l ?b = recordsFor l a @ [changeAudit i (encodeMutation m)]"
    by (simp add: recordsFor_def)
  with Cons.IH [OF b] step show ?case by auto
qed

lemma consumeAll_tracks:
  assumes "inSync s i" and "\<forall>m \<in> set ms. wfMutation m" and "identity_ok i"
    and "si_position i + int (length ms) \<le> 9007199254740991"
  shows "inSync (consumeAll throws s (changeAudits i ms)) (i\<lparr>si_position := si_position i + int (length ms)\<rparr>) \<and>
    viewOf (consumeAll throws s (changeAudits i ms)) = fold specApply ms (viewOf s)"
  using assms
proof (induction ms arbitrary: s i)
  case Nil
  then show ?case by simp
next
  case (Cons m ms)
  let ?t = "fst (consume throws s (changeAudit i (encodeMutation m)))" and ?j = "advanceStateCursor i"
  have j: "identity_ok ?j" using Cons.prems(3,4) by (simp add: identity_ok_def)
  have t: "inSync ?t ?j" "viewOf ?t = specApply m (viewOf s)"
    using consume_encoded [OF Cons.prems(1) _ Cons.prems(3) j, of m throws] Cons.prems(2) by auto
  have "inSync (consumeAll throws ?t (changeAudits ?j ms)) (?j\<lparr>si_position := si_position ?j + int (length ms)\<rparr>) \<and>
      viewOf (consumeAll throws ?t (changeAudits ?j ms)) = fold specApply ms (viewOf ?t)"
    by (rule Cons.IH [OF t(1) _ j]) (use Cons.prems in auto)
  with t(2) show ?case by (simp add: advanceStateCursor_def add.commute add.left_commute)
qed

section \<open>The checkpoint\<close>

definition wfInventory :: "jsval \<Rightarrow> bool" where
  "wfInventory inventory \<longleftrightarrow> isJson inventory \<and> isObject inventory \<and> isArray (jsProp inventory ''sequences'') \<and>
     isArray (jsProp inventory ''instances'') \<and> isArray (jsProp inventory ''topics'') \<and>
     isObject (jsProp inventory ''health'') \<and> validInventoryAssociations inventory"

definition inventoryView :: "jsval \<Rightarrow> hub_view" where
  "inventoryView inventory = \<lparr>
     hv_sequences = map_of (map (\<lambda>q. (strOf (jsProp q ''id''), withoutKey ''manifests'' q)) (elemsOf (jsProp inventory ''sequences''))),
     hv_instances = map_of (map (\<lambda>q. (strOf (jsProp q ''id''), q)) (elemsOf (jsProp inventory ''instances''))),
     hv_topics = map_of (map (\<lambda>q. (strOf (jsProp q ''name''), q)) (elemsOf (jsProp inventory ''topics''))),
     hv_manifests = map_of (manifestsOf (elemsOf (jsProp inventory ''sequences''))),
     hv_health = Some (jsProp inventory ''health'')\<rparr>"

lemma map_of_rev_distinct: "distinct (map fst es) \<Longrightarrow> map_of (rev es) = map_of es"
proof (induction es)
  case Nil
  then show ?case by simp
next
  case (Cons e es)
  then have "map_of es (fst e) = None" by (simp add: map_of_eq_None_iff)
  with Cons show ?case by (cases e) (auto simp: fun_eq_iff map_add_def split: option.splits)
qed

lemma map_of_entries_distinct: "distinct (map fst es) \<Longrightarrow> map_of (jsOfEntries es) = map_of es"
  by (rule ext) (simp add: js_simps map_of_rev_distinct)

lemma isObject_not_undefined: "isObject v \<Longrightarrow> v \<noteq> JUndefined"
  by (auto simp: isObject_def)

lemma consume_first_checkpoint:
  fixes throws
  assumes wf: "wfInventory inventory" and i: "identity_ok i"
  defines "t \<equiv> fst (consume throws newHubStateStore (checkpointAudit i inventory))"
  shows "inSync t i \<and> viewOf t = inventoryView inventory"
proof -
  let ?a = "checkpointAudit i inventory"
  have p: "jsProp ?a ''type'' = JStr ''checkpoint''" "jsProp ?a ''cursor'' = cursorJson i"
    "jsProp ?a ''inventory'' = inventory" "isObject ?a" "?a \<noteq> JUndefined"
    by (simp_all add: checkpointAudit_def isObject_def)
  have guard: "isObject inventory" "isArray (jsProp inventory ''sequences'')" "isArray (jsProp inventory ''instances'')"
    "isArray (jsProp inventory ''topics'')" "isObject (jsProp inventory ''health'')" "validInventoryAssociations inventory"
    "isJson inventory"
    using wf by (simp_all add: wfInventory_def)
  have t: "t = fst (rebuild newHubStateStore (cursorJson i) inventory)"
    using guard cursorJson_valid [OF i] p
    by (simp add: t_def consume_def Let_def split_beta checkpoint_def newHubStateStore_def)
  let ?s = "newHubStateStore\<lparr>hs_sequences := jsOfEntries (map (\<lambda>sq. (strOf (jsProp sq ''id''), withoutKey ''manifests'' sq)) (elemsOf (jsProp inventory ''sequences''))),
     hs_instances := jsOfEntries (map (\<lambda>q. (strOf (jsProp q ''id''), q)) (elemsOf (jsProp inventory ''instances''))),
     hs_topics := jsOfEntries (map (\<lambda>q. (strOf (jsProp q ''name''), q)) (elemsOf (jsProp inventory ''topics''))),
     hs_manifests := manifestsOf (elemsOf (jsProp inventory ''sequences'')),
     hs_health := Some (jsProp inventory ''health''), hs_cursor := Some (cursorJson i), hs_available := True\<rparr>"
  have load: "loadInventory newHubStateStore (cursorJson i) inventory = Inr ?s"
    using guard(7) by (simp add: loadInventory_def copy_of_json(1) cursorJson_json)
  then have t': "t = ?s" by (simp add: t rebuild_def)
  have "store_ok t"
    unfolding t by (rule rebuild_ok [OF store_ok_new]) (use guard cursorJson_valid [OF i] in \<open>simp_all add: newHubStateStore_def\<close>)
  then have sync: "inSync t i" by (simp add: t' inSync_def cursorJson_view)
  have d: "distinct (map (\<lambda>q. strOf (jsProp q ''id'')) (elemsOf (jsProp inventory ''sequences'')))"
    "distinct (map (\<lambda>q. strOf (jsProp q ''id'')) (elemsOf (jsProp inventory ''instances'')))"
    "distinct (map (\<lambda>q. strOf (jsProp q ''name'')) (elemsOf (jsProp inventory ''topics'')))"
    using guard(6) validSequenceInventory_distinct validInstanceInventory_distinct validTopicInventory_distinct
    by (auto simp: validInventoryAssociations_def split: if_splits)
  have "viewOf t = inventoryView inventory"
    unfolding t' viewOf_def inventoryView_def
    using d by (simp add: map_of_entries_distinct comp_def)
  with sync show ?thesis ..
qed

section \<open>The whole run\<close>

text \<open>
  A host whose audit stream feeds one store: it initialises the identity, emits a checkpoint of its
  inventory and then one record per change.
\<close>

definition hostAudits :: "(op_record \<Rightarrow> bool) \<Rightarrow> int \<Rightarrow> auditor \<Rightarrow> string \<Rightarrow> string \<Rightarrow> jsval \<Rightarrow> hub_mutation list \<Rightarrow> js_error + auditor" where
  "hostAudits stringifies now a h e inventory ms =
    bindR (auditStateCheckpoint stringifies now (resetStateIdentity a h e) inventory)
      (\<lambda>b. auditChanges stringifies now b ms)"

lemma hostAudits_records:
  fixes h e :: string
  assumes "distinct (au_listeners a)" and "l \<in> set (au_listeners a)"
  defines "i \<equiv> \<lparr>si_hubId = h, si_epoch = e, si_position = 0\<rparr>"
  shows "\<exists>b. hostAudits stringifies now a h e inventory ms = Inr b \<and>
    recordsFor l b = recordsFor l a @ checkpointAudit i inventory # changeAudits i ms"
proof -
  let ?msg = "(emptyRecord now)\<lparr>op_code := HUB_STATE_CHECKPOINT, op_objectId := Some h, op_hubState := checkpointAudit i inventory\<rparr>"
  let ?b = "auditWrite stringifies (resetStateIdentity a h e) ?msg"
  have b: "distinct (au_listeners ?b)" "l \<in> set (au_listeners ?b)" "au_identity ?b = Some i"
    using assms by (simp_all add: auditWrite_def resetStateIdentity_def)
  have "recordsFor l ?b = recordsFor l (resetStateIdentity a h e) @ [checkpointAudit i inventory]"
    using assms(1,2) by (subst recordsFor_write) (simp_all add: resetStateIdentity_def checkpointAudit_def)
  then have "recordsFor l ?b = recordsFor l a @ [checkpointAudit i inventory]"
    by (simp add: recordsFor_def resetStateIdentity_def)
  with auditChanges_records [OF b, of stringifies now ms] show ?thesis
    by (auto simp: hostAudits_def auditStateCheckpoint_def requireStateIdentity_def resetStateIdentity_def i_def)
qed

end
