(* ===== verification/HubWatchServer.thy ===== *)
theory HubWatchServer
  imports HubStateFeed
begin

text \<open>
  \<open>packages/host/src/lib/hub-event-watch.ts\<close>: the server side of a hub event watch. One stream owns a
  subscription of the store, a bounded queue of changes and a pump that writes newline-delimited
  frames under backpressure.

  The environment of a pump run is a record: the frame schema check (\<open>zod\<close>), the write gate, the
  answer of \<open>stream.push\<close> (by the number of frames written) and the cursor \<open>source.snapshot(kind)\<close>
  would report, \<open>None\<close> when it throws. Listener bookkeeping on request, response and socket and the
  logging are left out.
\<close>

datatype watch_code =
    WATCH_OPEN_TIMEOUT | WATCH_SILENCE_TIMEOUT | WATCH_DISCONNECTED | WATCH_GAP | WATCH_OVERFLOW
  | WATCH_RESTARTED | WATCH_PROTOCOL_ERROR | WATCH_HTTP_ERROR | WATCH_SOURCE_UNAVAILABLE

datatype watch_frame =
    SnapshotFrame jsval
  | ChangeFrame jsval
  | HeartbeatFrame string jsval jsval \<comment> \<open>kind, source cursor, delivered cursor\<close>
  | ErrorFrame string watch_code string jsval bool \<comment> \<open>kind, code, message, cursor, server side\<close>

definition HUB_WATCH_QUEUE_CAPACITY :: nat where "HUB_WATCH_QUEUE_CAPACITY = 256"

record pump_env =
  pe_valid :: "watch_frame \<Rightarrow> bool"
  pe_gate :: "watch_frame \<Rightarrow> bool"
  pe_accept :: "nat \<Rightarrow> bool"
  pe_source :: "jsval option"

record watch_server =
  ws_kind :: string
  ws_live :: "jsval list"
  ws_subscribed :: bool
  ws_snapshotCursor :: jsval
  ws_timer :: bool
  ws_terminal :: "watch_frame option"
  ws_detached :: bool
  ws_snapshot :: "jsval option"
  ws_delivered :: "jsval option"
  ws_blocked :: bool
  ws_heartbeatPending :: bool
  ws_destroyed :: bool
  ws_ended :: bool
  ws_resDestroyed :: bool
  ws_out :: "watch_frame list" \<comment> \<open>frames written to the response, in order\<close>

text \<open>The state after a successful \<open>source.subscribe\<close> (\<open>createHubEventWatchStream\<close>).\<close>

definition newWatchServer :: "string \<Rightarrow> jsval \<Rightarrow> watch_server" where
  "newWatchServer kind snap = \<lparr>ws_kind = kind, ws_live = [], ws_subscribed = True,
     ws_snapshotCursor = jsProp snap ''cursor'', ws_timer = True, ws_terminal = None, ws_detached = False,
     ws_snapshot = Some snap, ws_delivered = Some (jsProp snap ''cursor''), ws_blocked = False,
     ws_heartbeatPending = False, ws_destroyed = False, ws_ended = False, ws_resDestroyed = False, ws_out = []\<rparr>"

definition detach :: "watch_server \<Rightarrow> watch_server" where
  "detach s = (if ws_detached s then s
     else s\<lparr>ws_detached := True, ws_subscribed := False, ws_timer := False\<rparr>)"

definition endStream :: "watch_server \<Rightarrow> watch_server" where
  "endStream s = (let t = detach s in if \<not> ws_destroyed t \<and> \<not> ws_ended t then t\<lparr>ws_ended := True\<rparr> else t)"

section \<open>The pump\<close>

text \<open>The next frame by priority: snapshot, queued changes, terminal, heartbeat.\<close>

datatype take_result = NoFrame | TakeThrows watch_server | Taken watch_frame watch_server

definition takeFrame :: "pump_env \<Rightarrow> watch_server \<Rightarrow> take_result" where
  "takeFrame env s = (case ws_snapshot s of
      Some v \<Rightarrow> Taken (SnapshotFrame v) (s\<lparr>ws_snapshot := None\<rparr>)
    | None \<Rightarrow> (case ws_live s of
        c # cs \<Rightarrow> Taken (ChangeFrame c) (s\<lparr>ws_live := cs\<rparr>)
      | [] \<Rightarrow> (case ws_terminal s of
          Some t \<Rightarrow> Taken t (s\<lparr>ws_terminal := None\<rparr>)
        | None \<Rightarrow> (case ws_delivered s of
            Some d \<Rightarrow>
              if ws_heartbeatPending s then
                (case pe_source env of
                  Some c \<Rightarrow> Taken (HeartbeatFrame (ws_kind s) c d) (s\<lparr>ws_heartbeatPending := False\<rparr>)
                | None \<Rightarrow> TakeThrows (s\<lparr>ws_heartbeatPending := False\<rparr>))
              else NoFrame
          | None \<Rightarrow> NoFrame))))"

text \<open>A frame refused by the write gate goes back where it came from.\<close>

fun putBack :: "watch_frame \<Rightarrow> watch_server \<Rightarrow> watch_server" where
  "putBack (SnapshotFrame v) s = s\<lparr>ws_snapshot := Some v\<rparr>"
| "putBack (ChangeFrame c) s = s\<lparr>ws_live := c # ws_live s\<rparr>"
| "putBack (HeartbeatFrame k c d) s = s\<lparr>ws_heartbeatPending := True\<rparr>"
| "putBack (ErrorFrame k code msg c b) s = s\<lparr>ws_terminal := Some (ErrorFrame k code msg c b)\<rparr>"

definition isErrorFrame :: "watch_frame \<Rightarrow> bool" where
  "isErrorFrame f = (case f of ErrorFrame _ _ _ _ _ \<Rightarrow> True | _ \<Rightarrow> False)"

definition writeFrame :: "watch_frame \<Rightarrow> watch_server \<Rightarrow> watch_server" where
  "writeFrame f s =
    (let t = (case f of ChangeFrame c \<Rightarrow> s\<lparr>ws_delivered := Some (jsProp c ''cursor'')\<rparr> | _ \<Rightarrow> s)
     in t\<lparr>ws_out := ws_out t @ [f]\<rparr>)"

definition pumpWork :: "watch_server \<Rightarrow> nat" where
  "pumpWork s = (if ws_snapshot s = None then 0 else 1) + length (ws_live s) +
     (if ws_terminal s = None then 0 else 1) + (if ws_heartbeatPending s then 1 else 0)"

lemma takeFrame_work: "takeFrame env s = Taken f t \<Longrightarrow> pumpWork t < pumpWork s"
  by (auto simp: takeFrame_def pumpWork_def split: option.splits list.splits if_splits)

lemma writeFrame_work [simp]: "pumpWork (writeFrame f s) = pumpWork s"
  by (cases f) (simp_all add: writeFrame_def pumpWork_def Let_def)

function pumpLoop :: "pump_env \<Rightarrow> watch_server \<Rightarrow> watch_server" where
  "pumpLoop env s =
    (if ws_detached s \<or> ws_destroyed s then s
     else case takeFrame env s of
       NoFrame \<Rightarrow> s
     | TakeThrows t \<Rightarrow> endStream t
     | Taken f t \<Rightarrow>
         if \<not> pe_valid env f then endStream t
         else if \<not> pe_gate env f then (putBack f t)\<lparr>ws_blocked := True\<rparr>
         else if isErrorFrame f then endStream (writeFrame f t)
         else if \<not> pe_accept env (length (ws_out (writeFrame f t))) then (writeFrame f t)\<lparr>ws_blocked := True\<rparr>
         else pumpLoop env (writeFrame f t))"
  by pat_completeness auto
termination
  by (relation "measure (\<lambda>(env, s). pumpWork s)") (auto dest: takeFrame_work)

declare pumpLoop.simps [simp del]

definition pump :: "pump_env \<Rightarrow> watch_server \<Rightarrow> watch_server" where
  "pump env s = (if ws_blocked s \<or> ws_detached s \<or> ws_destroyed s then s else pumpLoop env s)"

section \<open>Events\<close>

definition failWatch :: "pump_env \<Rightarrow> watch_server \<Rightarrow> watch_code \<Rightarrow> string \<Rightarrow> jsval \<Rightarrow> watch_server" where
  "failWatch env s code msg cur =
    (if ws_detached s \<or> ws_terminal s \<noteq> None then s
     else pump env (s\<lparr>ws_terminal := Some (ErrorFrame (ws_kind s) code msg cur (code = WATCH_OVERFLOW)),
        ws_live := [], ws_timer := False, ws_subscribed := False\<rparr>))"

definition enqueue :: "pump_env \<Rightarrow> watch_server \<Rightarrow> jsval \<Rightarrow> watch_server" where
  "enqueue env s change =
    (if ws_detached s \<or> ws_terminal s \<noteq> None then s
     else if length (ws_live s) \<ge> HUB_WATCH_QUEUE_CAPACITY then
       failWatch env s WATCH_OVERFLOW ''Hub event watch queue capacity exceeded'' (jsProp change ''cursor'')
     else pump env (s\<lparr>ws_live := ws_live s @ [change]\<rparr>))"

definition unknownCursor :: jsval where
  "unknownCursor = JObj Plain [(''hubId'', JStr ''unknown''), (''epoch'', JStr ''unknown''), (''position'', JNum (NInt 0))]"

definition lastKnownCursor :: "watch_server \<Rightarrow> jsval" where
  "lastKnownCursor s = (case ws_delivered s of Some d \<Rightarrow> d
     | None \<Rightarrow> if ws_subscribed s then ws_snapshotCursor s else unknownCursor)"

text \<open>The subscription's \<open>error\<close> callback.\<close>

definition sourceError :: "pump_env \<Rightarrow> watch_server \<Rightarrow> hub_source_error \<Rightarrow> watch_server" where
  "sourceError env s err = (case err of HubStateSourceError code msg \<Rightarrow>
     failWatch env s
       (case code of GAP \<Rightarrow> WATCH_GAP | RESTARTED \<Rightarrow> WATCH_RESTARTED | SOURCE_UNAVAILABLE \<Rightarrow> WATCH_SOURCE_UNAVAILABLE)
       msg (lastKnownCursor s))"

text \<open>\<open>read()\<close> of the readable.\<close>

definition readPull :: "pump_env \<Rightarrow> watch_server \<Rightarrow> watch_server" where
  "readPull env s = pump env (s\<lparr>ws_blocked := False\<rparr>)"

definition heartbeatTick :: "pump_env \<Rightarrow> watch_server \<Rightarrow> watch_server" where
  "heartbeatTick env s = (if ws_timer s then pump env (s\<lparr>ws_heartbeatPending := True\<rparr>) else s)"

definition onDisconnect :: "bool \<Rightarrow> watch_server \<Rightarrow> watch_server" where
  "onDisconnect resOpen s =
    (let t = detach s;
         u = (if \<not> ws_destroyed t \<and> \<not> ws_ended t then t\<lparr>ws_destroyed := True\<rparr> else t)
     in if resOpen then u\<lparr>ws_resDestroyed := True\<rparr> else u)"

text \<open>\<open>__hubWatch.shutdown\<close>, called by \<open>closeHubEventWatchStreams\<close>.\<close>

definition shutdownWatch :: "pump_env \<Rightarrow> bool \<Rightarrow> watch_server \<Rightarrow> watch_server" where
  "shutdownWatch env resOpen s =
    (if ws_detached s then s
     else let t = (if resOpen then failWatch env s WATCH_SOURCE_UNAVAILABLE ''Hub event watch source is shutting down'' (lastKnownCursor s) else s)
       in if ws_blocked t then
            (let u = (endStream t)\<lparr>ws_destroyed := True\<rparr> in if resOpen then u\<lparr>ws_resDestroyed := True\<rparr> else u)
          else t)"

section \<open>What the other end checks\<close>

text \<open>
  The acceptance rules of the client (\<open>packages/rest-api2/src/hub-event-watch.ts\<close>) for a sequence of
  frames of one kind, as a function of the cursor it holds: \<open>None\<close> before the snapshot. The client
  model of \<open>HubWatchClient\<close> is proved to reject exactly the frames this function rejects.
\<close>

definition frameKind :: "watch_frame \<Rightarrow> jsval" where
  "frameKind f = (case f of
      SnapshotFrame v \<Rightarrow> jsProp v ''kind''
    | ChangeFrame c \<Rightarrow> jsProp c ''kind''
    | HeartbeatFrame k _ _ \<Rightarrow> JStr k
    | ErrorFrame k _ _ _ _ \<Rightarrow> JStr k)"

fun wireNext :: "(string \<times> string \<times> int) option \<Rightarrow> watch_frame \<Rightarrow> (string \<times> string \<times> int) option" where
  "wireNext v (SnapshotFrame s) = Some (cursorView (jsProp s ''cursor''))"
| "wireNext v (ChangeFrame c) = Some (cursorView (jsProp c ''cursor''))"
| "wireNext v (HeartbeatFrame k c d) = v"
| "wireNext v (ErrorFrame k code msg c b) = v"

fun wireAccepts :: "(string \<times> string \<times> int) option \<Rightarrow> watch_frame \<Rightarrow> bool" where
  "wireAccepts v (SnapshotFrame s) = (v = None)"
| "wireAccepts v (ChangeFrame c) = (case v of None \<Rightarrow> False | Some u \<Rightarrow>
     cursorView (jsProp c ''previousCursor'') = u \<and> cursorLess u (cursorView (jsProp c ''cursor'')))"
| "wireAccepts v (HeartbeatFrame k c d) = (case v of None \<Rightarrow> False | Some u \<Rightarrow>
     cursorView d = u \<and> cursorLe u (cursorView c))"
| "wireAccepts v (ErrorFrame k code msg c b) = True"

fun wireOk :: "(string \<times> string \<times> int) option \<Rightarrow> watch_frame list \<Rightarrow> bool" where
  "wireOk v [] = True"
| "wireOk v (f # fs) = (wireAccepts v f \<and> wireOk (wireNext v f) fs)"

definition wireEnd :: "(string \<times> string \<times> int) option \<Rightarrow> watch_frame list \<Rightarrow> (string \<times> string \<times> int) option" where
  "wireEnd v fs = foldl wireNext v fs"

lemma wireOk_append: "wireOk v (fs @ gs) \<longleftrightarrow> wireOk v fs \<and> wireOk (wireEnd v fs) gs"
  by (induction v fs rule: wireOk.induct) (auto simp: wireEnd_def)

lemma wireEnd_snoc [simp]: "wireEnd v (fs @ [f]) = wireNext (wireEnd v fs) f"
  by (simp add: wireEnd_def)

section \<open>The server invariant\<close>

text \<open>
  \<open>feedEnd\<close> is the cursor the next change must link to: that of the last queued change, else of the
  last one written, else of the snapshot.
\<close>

definition deliveredView :: "watch_server \<Rightarrow> string \<times> string \<times> int" where
  "deliveredView s = (case ws_delivered s of Some d \<Rightarrow> cursorView d | None \<Rightarrow> ([], [], 0))"

definition feedEnd :: "watch_server \<Rightarrow> string \<times> string \<times> int" where
  "feedEnd s = (if ws_live s = [] then deliveredView s else cursorView (jsProp (last (ws_live s)) ''cursor''))"

definition server_ok :: "watch_server \<Rightarrow> bool" where
  "server_ok s \<longleftrightarrow> ws_delivered s \<noteq> None \<and> wireOk None (ws_out s) \<and>
     wireEnd None (ws_out s) = (if ws_snapshot s \<noteq> None \<or> ws_out s = [] then None else Some (deliveredView s)) \<and>
     (ws_out s = [] \<longrightarrow> \<not> ws_detached s \<longrightarrow> \<not> ws_destroyed s \<longrightarrow> ws_snapshot s \<noteq> None) \<and>
     (case ws_snapshot s of Some v \<Rightarrow> cursorView (jsProp v ''cursor'') = deliveredView s \<and> ws_out s = [] | None \<Rightarrow> True) \<and>
     (\<not> ws_detached s \<longrightarrow> linked (deliveredView s) (ws_live s)) \<and> length (ws_live s) \<le> HUB_WATCH_QUEUE_CAPACITY \<and>
     (case ws_terminal s of Some f \<Rightarrow> isErrorFrame f \<and> ws_live s = [] \<and> \<not> ws_subscribed s | None \<Rightarrow> True) \<and>
     (\<forall>f \<in> set (butlast (ws_out s)). \<not> isErrorFrame f) \<and>
     (ws_out s \<noteq> [] \<longrightarrow> isErrorFrame (last (ws_out s)) \<longrightarrow> ws_detached s) \<and>
     (ws_subscribed s \<longrightarrow> \<not> ws_detached s) \<and>
     (\<not> ws_detached s \<longrightarrow> ws_terminal s = None \<longrightarrow> ws_subscribed s)"

text \<open>
  While the stream can still write a heartbeat, the source does not report a cursor behind what was
  handed out.
\<close>

definition env_ok :: "pump_env \<Rightarrow> watch_server \<Rightarrow> bool" where
  "env_ok env s \<longleftrightarrow> (ws_terminal s = None \<longrightarrow> \<not> ws_detached s \<longrightarrow>
     (\<forall>c. pe_source env = Some c \<longrightarrow> cursorLe (feedEnd s) (cursorView c)))"

text \<open>Views of the state after the basic steps.\<close>

lemma detach_simps [simp]:
  "ws_detached (detach s)" "ws_out (detach s) = ws_out s" "ws_live (detach s) = ws_live s"
  "ws_delivered (detach s) = ws_delivered s" "ws_snapshot (detach s) = ws_snapshot s"
  "ws_terminal (detach s) = ws_terminal s" "ws_kind (detach s) = ws_kind s"
  "ws_subscribed (detach s) \<longleftrightarrow> ws_detached s \<and> ws_subscribed s"
  by (auto simp: detach_def)

lemma endStream_simps [simp]:
  "ws_detached (endStream s)" "ws_out (endStream s) = ws_out s" "ws_live (endStream s) = ws_live s"
  "ws_delivered (endStream s) = ws_delivered s" "ws_snapshot (endStream s) = ws_snapshot s"
  "ws_terminal (endStream s) = ws_terminal s" "ws_kind (endStream s) = ws_kind s"
  "ws_subscribed (endStream s) \<longleftrightarrow> ws_detached s \<and> ws_subscribed s"
  by (auto simp: endStream_def Let_def)

lemma writeFrame_simps [simp]:
  "ws_out (writeFrame f s) = ws_out s @ [f]" "ws_live (writeFrame f s) = ws_live s"
  "ws_snapshot (writeFrame f s) = ws_snapshot s" "ws_terminal (writeFrame f s) = ws_terminal s"
  "ws_detached (writeFrame f s) = ws_detached s" "ws_subscribed (writeFrame f s) = ws_subscribed s"
  "ws_destroyed (writeFrame f s) = ws_destroyed s" "ws_kind (writeFrame f s) = ws_kind s"
  by (cases f; simp add: writeFrame_def)+

text \<open>A taken frame is acceptable to the client, and handing it back restores the state.\<close>

lemma takeFrame_cases:
  assumes "takeFrame env s = Taken f t"
  obtains
    (snapshot) v where "ws_snapshot s = Some v" "f = SnapshotFrame v" "t = s\<lparr>ws_snapshot := None\<rparr>"
  | (change) c cs where "ws_snapshot s = None" "ws_live s = c # cs" "f = ChangeFrame c" "t = s\<lparr>ws_live := cs\<rparr>"
  | (terminal) "ws_snapshot s = None" "ws_live s = []" "ws_terminal s = Some f" "t = s\<lparr>ws_terminal := None\<rparr>"
  | (heartbeat) c d where "ws_snapshot s = None" "ws_live s = []" "ws_terminal s = None" "ws_delivered s = Some d"
      "pe_source env = Some c" "ws_heartbeatPending s" "f = HeartbeatFrame (ws_kind s) c d"
      "t = s\<lparr>ws_heartbeatPending := False\<rparr>"
  using assms by (auto simp: takeFrame_def split: option.splits list.splits if_splits)

lemma takeFrame_throws:
  "takeFrame env s = TakeThrows t \<Longrightarrow> ws_snapshot s = None \<and> ws_live s = [] \<and> t = s\<lparr>ws_heartbeatPending := False\<rparr>"
  by (auto simp: takeFrame_def split: option.splits list.splits if_splits)

lemma server_ok_endStream:
  "server_ok s \<Longrightarrow> server_ok (endStream s)"
  by (auto simp: server_ok_def deliveredView_def split: option.splits)

lemma server_ok_flags [simp]:
  "server_ok (s\<lparr>ws_blocked := b\<rparr>) = server_ok s"
  "server_ok (s\<lparr>ws_heartbeatPending := b\<rparr>) = server_ok s"
  "server_ok (s\<lparr>ws_resDestroyed := b\<rparr>) = server_ok s"
  "server_ok (s\<lparr>ws_timer := b\<rparr>) = server_ok s"
  "server_ok (s\<lparr>ws_ended := b\<rparr>) = server_ok s"
  by (simp_all add: server_ok_def deliveredView_def cong: option.case_cong)

lemma feedEnd_flags [simp]:
  "feedEnd (s\<lparr>ws_blocked := b\<rparr>) = feedEnd s"
  "feedEnd (s\<lparr>ws_heartbeatPending := b\<rparr>) = feedEnd s"
  by (simp_all add: feedEnd_def deliveredView_def)

lemma server_ok_destroyed: "server_ok s \<Longrightarrow> server_ok (s\<lparr>ws_destroyed := True\<rparr>)"
  by (auto simp: server_ok_def deliveredView_def split: option.splits)

lemma server_ok_detach: "server_ok s \<Longrightarrow> server_ok (detach s)"
  by (auto simp: server_ok_def deliveredView_def split: option.splits)

lemma taken_dropped:
  assumes "takeFrame env s = Taken f t" and "server_ok s" and "\<not> ws_detached s"
  shows "server_ok (endStream t)"
  using assms(1)
proof (cases rule: takeFrame_cases)
  case (snapshot v)
  then show ?thesis using assms(2) by (auto simp: server_ok_def deliveredView_def split: option.splits)
next
  case (change c cs)
  then show ?thesis using assms(2) by (auto simp: server_ok_def deliveredView_def split: option.splits)
next
  case terminal
  then show ?thesis using assms(2) by (auto simp: server_ok_def deliveredView_def split: option.splits)
next
  case (heartbeat c d)
  then show ?thesis using server_ok_endStream [of t] assms(2) by simp
qed

lemma taken_back:
  assumes "takeFrame env s = Taken f t" and "server_ok s"
  shows "putBack f t = s"
  using assms(1)
proof (cases rule: takeFrame_cases)
  case terminal
  then show ?thesis using assms(2) by (cases f) (auto simp: server_ok_def isErrorFrame_def)
qed simp_all

lemma taken_error:
  assumes "takeFrame env s = Taken f t" and "server_ok s" and "\<not> ws_detached s" and "isErrorFrame f"
    and "\<not> ws_destroyed s"
  shows "server_ok (endStream (writeFrame f t))"
  using assms(1)
proof (cases rule: takeFrame_cases)
  case terminal
  obtain k code msg c b where f: "f = ErrorFrame k code msg c b"
    using assms(4) by (cases f) (auto simp: isErrorFrame_def)
  have nonempty: "ws_out s \<noteq> []" using terminal assms by (auto simp: server_ok_def)
  have noerr: "\<forall>g \<in> set (ws_out s). \<not> isErrorFrame g"
    using assms(2,3) by (cases "ws_out s" rule: rev_cases) (auto simp: server_ok_def)
  show ?thesis
    using terminal assms(2,3) nonempty noerr
    by (auto simp: server_ok_def deliveredView_def f writeFrame_def wireOk_append split: option.splits)
qed (use assms in \<open>simp_all add: isErrorFrame_def\<close>)

lemma taken_written:
  assumes tk: "takeFrame env s = Taken f t" and ok: "server_ok s" and live: "\<not> ws_detached s" "\<not> ws_destroyed s"
    and env: "env_ok env s" and noerr: "\<not> isErrorFrame f"
  shows "server_ok (writeFrame f t) \<and> feedEnd (writeFrame f t) = feedEnd s \<and> ws_terminal t = ws_terminal s"
proof -
  have old: "\<forall>g \<in> set (ws_out s). \<not> isErrorFrame g"
    using ok live by (cases "ws_out s" rule: rev_cases) (auto simp: server_ok_def)
  from tk show ?thesis
  proof (cases rule: takeFrame_cases)
    case (snapshot v)
    then show ?thesis using ok old noerr
      by (auto simp: server_ok_def deliveredView_def feedEnd_def writeFrame_def wireOk_append wireEnd_def split: option.splits)
  next
    case (change c cs)
    then show ?thesis using ok old noerr live
      by (auto simp: server_ok_def deliveredView_def feedEnd_def writeFrame_def wireOk_append split: option.splits)
  next
    case terminal
    then show ?thesis using ok noerr by (auto simp: server_ok_def)
  next
    case (heartbeat c d)
    then show ?thesis using ok old noerr live env
      by (auto simp: server_ok_def deliveredView_def feedEnd_def writeFrame_def wireOk_append env_ok_def split: option.splits)
  qed
qed

lemma env_ok_cong:
  "feedEnd t = feedEnd s \<Longrightarrow> ws_terminal t = ws_terminal s \<Longrightarrow> ws_detached t = ws_detached s \<Longrightarrow> env_ok env s \<Longrightarrow>
    env_ok env t"
  by (simp add: env_ok_def)

lemma pumpLoop_ok:
  "server_ok s \<Longrightarrow> env_ok env s \<Longrightarrow>
    server_ok (pumpLoop env s) \<and> (ws_detached (pumpLoop env s) \<or> feedEnd (pumpLoop env s) = feedEnd s)"
proof (induction env s rule: pumpLoop.induct)
  case (1 env s)
  show ?case
  proof (cases "ws_detached s \<or> ws_destroyed s")
    case True
    then show ?thesis using "1.prems" by (simp add: pumpLoop.simps [of env s])
  next
    case False
    show ?thesis
    proof (cases "takeFrame env s")
      case NoFrame
      then show ?thesis using False "1.prems" by (simp add: pumpLoop.simps [of env s])
    next
      case (TakeThrows t)
      then show ?thesis using False "1.prems" takeFrame_throws [OF TakeThrows] server_ok_endStream
        by (simp add: pumpLoop.simps [of env s])
    next
      case (Taken f t)
      note tk = taken_dropped [OF Taken] taken_back [OF Taken] taken_error [OF Taken] taken_written [OF Taken]
      show ?thesis
      proof (cases "pe_valid env f \<and> pe_gate env f \<and> \<not> isErrorFrame f \<and> pe_accept env (length (ws_out (writeFrame f t)))")
        case True
        with False "1.prems" tk(4) have w: "server_ok (writeFrame f t)" "feedEnd (writeFrame f t) = feedEnd s" "ws_terminal t = ws_terminal s"
          by auto
        have "ws_detached t = ws_detached s" using Taken by (cases rule: takeFrame_cases) auto
        with w "1.prems"(2) have "env_ok env (writeFrame f t)" by (simp add: env_ok_def)
        with "1.IH" [OF _ Taken] True False w show ?thesis
          by (simp add: pumpLoop.simps [of env s] Taken)
      next
        case stop: False
        show ?thesis
          using stop False "1.prems" tk
          by (auto simp add: pumpLoop.simps [of env s] Taken)
      qed
    qed
  qed
qed

lemma pump_ok:
  "server_ok s \<Longrightarrow> env_ok env s \<Longrightarrow> server_ok (pump env s) \<and> (ws_detached (pump env s) \<or> feedEnd (pump env s) = feedEnd s)"
  by (simp add: pump_def pumpLoop_ok)

lemma pumpLoop_subscribed: "ws_subscribed (pumpLoop env s) \<Longrightarrow> ws_subscribed s"
proof (induction env s rule: pumpLoop.induct)
  case (1 env s)
  have keep: "takeFrame env s = Taken f t \<Longrightarrow> ws_subscribed t = ws_subscribed s" for f t
    by (auto elim: takeFrame_cases)
  have undo: "ws_subscribed (putBack f t) = ws_subscribed t" for f t
    by (cases f) simp_all
  have ended: "ws_subscribed (endStream t) \<Longrightarrow> ws_subscribed t" for t
    by simp
  show ?case
  proof (cases "takeFrame env s")
    case NoFrame
    then show ?thesis using "1.prems" by (simp add: pumpLoop.simps [of env s] split: if_splits)
  next
    case (TakeThrows t)
    then show ?thesis using "1.prems" takeFrame_throws [OF TakeThrows]
      by (simp add: pumpLoop.simps [of env s] split: if_splits)
  next
    case (Taken f t)
    then show ?thesis using "1.prems" "1.IH" [OF _ Taken] keep [OF Taken]
      by (simp add: pumpLoop.simps [of env s] undo split: if_splits)
  qed
qed

lemma pump_subscribed: "ws_subscribed (pump env s) \<Longrightarrow> ws_subscribed s"
  by (auto simp: pump_def dest: pumpLoop_subscribed split: if_splits)

text \<open>A terminal waits alone; the heartbeat's source cursor no longer matters.\<close>

lemma delivered_le_feedEnd:
  "linked (deliveredView s) (ws_live s) \<Longrightarrow> cursorLe (deliveredView s) (feedEnd s)"
proof -
  have "linked v fs \<Longrightarrow> fs \<noteq> [] \<Longrightarrow> cursorLe v (cursorView (jsProp (last fs) ''cursor''))" for v fs
  proof (induction v fs rule: linked.induct)
    case (2 v f fs)
    then show ?case by (cases fs) (auto simp: cursorLess_def cursorLe_def)
  qed simp
  then show "linked (deliveredView s) (ws_live s) \<Longrightarrow> cursorLe (deliveredView s) (feedEnd s)"
    by (auto simp: feedEnd_def)
qed

lemma linked_snoc:
  "linked v (fs @ [f]) \<longleftrightarrow> linked v fs \<and> (let u = (if fs = [] then v else cursorView (jsProp (last fs) ''cursor''))
     in cursorView (jsProp f ''previousCursor'') = u \<and> cursorLess u (cursorView (jsProp f ''cursor'')))"
  by (induction v fs rule: linked.induct) (auto simp: Let_def)

lemma pump_keeps:
  assumes "server_ok s" and "env_ok env s"
  shows "server_ok (pump env s) \<and> (ws_subscribed (pump env s) \<longrightarrow> ws_subscribed s \<and> feedEnd (pump env s) = feedEnd s)"
  using pump_ok [OF assms] pump_subscribed [of env s] by (auto simp: server_ok_def)

lemma failWatch_ok:
  assumes ok: "server_ok s"
  shows "server_ok (failWatch env s code msg cur) \<and> \<not> ws_subscribed (failWatch env s code msg cur)"
proof (cases "ws_detached s \<or> ws_terminal s \<noteq> None")
  case True
  then show ?thesis using ok by (auto simp: failWatch_def server_ok_def)
next
  case False
  let ?t = "s\<lparr>ws_terminal := Some (ErrorFrame (ws_kind s) code msg cur (code = WATCH_OVERFLOW)),
    ws_live := [], ws_timer := False, ws_subscribed := False\<rparr>"
  have "server_ok ?t"
    using ok False by (auto simp: server_ok_def deliveredView_def isErrorFrame_def split: option.splits)
  moreover have "env_ok env ?t" by (simp add: env_ok_def)
  ultimately show ?thesis
    using pump_keeps [of ?t env] False by (auto simp: failWatch_def)
qed

lemma enqueue_ok:
  assumes ok: "server_ok s" and prev: "cursorView (jsProp change ''previousCursor'') = feedEnd s"
    and less: "cursorLess (feedEnd s) (cursorView (jsProp change ''cursor''))"
    and env: "\<And>c. pe_source env = Some c \<Longrightarrow> cursorLe (cursorView (jsProp change ''cursor'')) (cursorView c)"
  shows "server_ok (enqueue env s change) \<and> (ws_subscribed (enqueue env s change) \<longrightarrow>
    ws_subscribed s \<and> feedEnd (enqueue env s change) = cursorView (jsProp change ''cursor''))"
proof (cases "ws_detached s \<or> ws_terminal s \<noteq> None \<or> length (ws_live s) \<ge> HUB_WATCH_QUEUE_CAPACITY")
  case True
  then have "enqueue env s change = s \<and> \<not> ws_subscribed s \<or>
      (\<exists>code msg cur. enqueue env s change = failWatch env s code msg cur)"
    using ok by (auto simp: enqueue_def server_ok_def)
  then show ?thesis using ok failWatch_ok [OF ok] by (elim disjE exE conjE) simp_all
next
  case False
  let ?t = "s\<lparr>ws_live := ws_live s @ [change]\<rparr>"
  have "linked (deliveredView s) (ws_live s @ [change])"
    using ok False prev less by (auto simp: linked_snoc server_ok_def Let_def feedEnd_def)
  then have "server_ok ?t"
    using ok False by (auto simp: server_ok_def deliveredView_def split: option.splits)
  moreover have "env_ok env ?t" using env by (simp add: env_ok_def feedEnd_def)
  moreover have "feedEnd ?t = cursorView (jsProp change ''cursor'')" by (simp add: feedEnd_def)
  moreover have "enqueue env s change = pump env ?t" using False by (simp add: enqueue_def)
  ultimately show ?thesis
    using pump_keeps [of ?t env] by simp
qed

lemma sourceError_ok: "server_ok s \<Longrightarrow> server_ok (sourceError env s e) \<and> \<not> ws_subscribed (sourceError env s e)"
  by (cases e) (simp add: sourceError_def failWatch_ok)

lemma readPull_ok:
  "server_ok s \<Longrightarrow> env_ok env s \<Longrightarrow> server_ok (readPull env s) \<and>
    (ws_subscribed (readPull env s) \<longrightarrow> ws_subscribed s \<and> feedEnd (readPull env s) = feedEnd s)"
  using pump_keeps [of "s\<lparr>ws_blocked := False\<rparr>" env] by (simp add: readPull_def env_ok_def)

lemma heartbeatTick_ok:
  "server_ok s \<Longrightarrow> env_ok env s \<Longrightarrow> server_ok (heartbeatTick env s) \<and>
    (ws_subscribed (heartbeatTick env s) \<longrightarrow> ws_subscribed s \<and> feedEnd (heartbeatTick env s) = feedEnd s)"
  using pump_keeps [of "s\<lparr>ws_heartbeatPending := True\<rparr>" env] by (simp add: heartbeatTick_def env_ok_def)

lemma onDisconnect_ok: "server_ok s \<Longrightarrow> server_ok (onDisconnect b s) \<and> \<not> ws_subscribed (onDisconnect b s)"
  using server_ok_detach [of s] server_ok_destroyed [OF server_ok_detach [of s]]
  by (auto simp: onDisconnect_def Let_def) (auto simp: server_ok_def)

lemma shutdownWatch_ok:
  assumes "server_ok s"
  shows "server_ok (shutdownWatch env b s) \<and> (ws_subscribed (shutdownWatch env b s) \<longrightarrow>
    ws_subscribed s \<and> feedEnd (shutdownWatch env b s) = feedEnd s)"
proof -
  have e: "server_ok ((endStream t)\<lparr>ws_destroyed := True\<rparr>)" if "server_ok t" for t
    using that by (rule server_ok_destroyed [OF server_ok_endStream])
  have u: "server_ok t \<Longrightarrow> \<not> (ws_detached t \<and> ws_subscribed t)" for t by (auto simp: server_ok_def)
  show ?thesis
    using assms failWatch_ok [OF assms, of env WATCH_SOURCE_UNAVAILABLE] e [of s] e [OF conjunct1 [OF failWatch_ok [OF assms]]] u [OF assms]
    by (simp add: shutdownWatch_def Let_def)
qed

text \<open>Once an error frame is out, nothing follows it.\<close>

lemma ended_stays: "ws_detached s \<Longrightarrow> pump env s = s"
  by (simp add: pump_def)

lemma server_ok_new:
  "server_ok (newWatchServer kind snap)" "feedEnd (newWatchServer kind snap) = cursorView (jsProp snap ''cursor'')"
  by (simp_all add: server_ok_def newWatchServer_def deliveredView_def feedEnd_def wireEnd_def)

end
