(* ===== verification/HubWatchClient.thy ===== *)
theory HubWatchClient
  imports HubWatchServer
begin

text \<open>
  \<open>packages/rest-api2/src/hub-event-watch.ts\<close>: the client side of a hub event watch, an async
  iterator over a newline-delimited stream of frames. Its state is explicit; an event is a callback
  the closure receives (a body chunk, the end of the body, a timer, a call of \<open>next\<close> or \<open>close\<close>).

  Promises are numbered by the order of the \<open>next\<close> calls; \<open>wc_settled\<close> lists the settlements in
  order. The JSON parser with the frame schema, the clock and the health listeners are parameters of
  an event: \<open>ce_parse\<close> classifies one line, \<open>ce_now\<close> is the clock, \<open>ce_closes\<close> says whether some
  listener calls \<open>close()\<close> when it is told of a health record. \<open>wc_accepted\<close> is a ghost log of the
  events the stream has delivered so far; no operation reads it.
\<close>

definition HUB_WATCH_OPEN_TIMEOUT_MS :: int where "HUB_WATCH_OPEN_TIMEOUT_MS = 15000"
definition HUB_WATCH_SILENCE_TIMEOUT_MS :: int where "HUB_WATCH_SILENCE_TIMEOUT_MS = 15000"

section \<open>Helpers (\<open>hub-event-watch-helpers.ts\<close>)\<close>

definition copyCursor :: "jsval \<Rightarrow> jsval" where
  "copyCursor v = JObj Plain [(''hubId'', jsProp v ''hubId''), (''epoch'', jsProp v ''epoch''), (''position'', jsProp v ''position'')]"

definition sameIdentity :: "jsval \<Rightarrow> jsval \<Rightarrow> bool" where
  "sameIdentity a b \<longleftrightarrow> strictEq (jsProp a ''hubId'') (jsProp b ''hubId'') \<and> strictEq (jsProp a ''epoch'') (jsProp b ''epoch'')"

definition sameWatchCursor :: "jsval \<Rightarrow> jsval \<Rightarrow> bool" where
  "sameWatchCursor a b \<longleftrightarrow> sameIdentity a b \<and> strictEq (jsProp a ''position'') (jsProp b ''position'')"

section \<open>State\<close>

datatype watch_terminal = Closed | Aborted | Lost

datatype watch_error =
    HubWatchError watch_code string "jsval option" "string option" "int option"
      \<comment> \<open>code, message, cursor, side, status\<close>
  | AbortError
  | CallerError string \<comment> \<open>what the caller handed to \<open>throw\<close>\<close>

datatype watch_health_state = Opening | Live | Terminated watch_terminal

record watch_health =
  wh_state :: watch_health_state
  wh_cursor :: "jsval option"
  wh_error :: "watch_error option"

datatype settlement = Yield jsval | Done | Reject watch_error

datatype read_phase = Connecting | Reading | Returned

record watch_client =
  wc_kind :: string
  wc_health :: watch_health
  wc_terminal :: "watch_terminal option"
  wc_error :: "watch_error option"
  wc_snapshotPending :: "jsval option"
  wc_queue :: "jsval list"
  wc_pending :: "nat list"
  wc_cursor :: "jsval option"
  wc_gotSnapshot :: bool
  wc_openTimer :: bool
  wc_silence :: "int option" \<comment> \<open>the deadline of the armed silence timer\<close>
  wc_lastFrameAt :: int
  wc_aborted :: bool \<comment> \<open>the request's abort controller has fired\<close>
  wc_hasBody :: bool
  wc_bodyDestroyed :: bool
  wc_phase :: read_phase
  wc_text :: string
  wc_nextId :: nat
  wc_settled :: "(nat \<times> settlement) list"
  wc_accepted :: "jsval list"

datatype line_result = BadJson | BadFrame | Parsed watch_frame

record client_env =
  ce_parse :: "string \<Rightarrow> line_result"
  ce_now :: int
  ce_closes :: "watch_health \<Rightarrow> bool"

definition settle :: "watch_client \<Rightarrow> nat \<Rightarrow> settlement \<Rightarrow> watch_client" where
  "settle s i r = s\<lparr>wc_settled := wc_settled s @ [(i, r)]\<rparr>"

section \<open>Terminal selection\<close>

definition dispose :: "watch_client \<Rightarrow> watch_client" where
  "dispose s = s\<lparr>wc_bodyDestroyed := wc_bodyDestroyed s \<or> wc_hasBody s, wc_aborted := True\<rparr>"

definition terminalSettlement :: "watch_terminal \<Rightarrow> watch_error option \<Rightarrow> settlement" where
  "terminalSettlement t err = (if t = Closed then Done else Reject (case err of Some e \<Rightarrow> e | None \<Rightarrow> AbortError))"

definition terminalHealth :: "watch_client \<Rightarrow> watch_terminal \<Rightarrow> watch_error option \<Rightarrow> watch_health" where
  "terminalHealth s t err = \<lparr>wh_state = Terminated t, wh_cursor = map_option copyCursor (wc_cursor s),
     wh_error = (case err of Some (HubWatchError c m cu sd st) \<Rightarrow> Some (HubWatchError c m cu sd st) | _ \<Rightarrow> None)\<rparr>"

definition selectTerminal :: "watch_client \<Rightarrow> watch_terminal \<Rightarrow> watch_error option \<Rightarrow> watch_client" where
  "selectTerminal s t err =
    (if wc_terminal s \<noteq> None then s
     else dispose (s\<lparr>wc_terminal := Some t, wc_error := err, wc_openTimer := False, wc_silence := None,
       wc_queue := [], wc_snapshotPending := None, wc_pending := [],
       wc_settled := wc_settled s @ map (\<lambda>i. (i, terminalSettlement t err)) (wc_pending s),
       wc_health := terminalHealth s t err\<rparr>))"

text \<open>\<open>lost(code, message, details)\<close>; the cursor defaults to the one the client holds.\<close>

definition lost :: "watch_client \<Rightarrow> watch_code \<Rightarrow> string \<Rightarrow> string option \<Rightarrow> int option \<Rightarrow> watch_client" where
  "lost s code msg side status = selectTerminal s Lost (Some (HubWatchError code msg (wc_cursor s) side status))"

definition closeWatch :: "watch_client \<Rightarrow> watch_client" where
  "closeWatch s = (if wc_terminal s = None then selectTerminal s Closed None else s)"

definition abortListener :: "watch_client \<Rightarrow> watch_client" where
  "abortListener s = selectTerminal s Aborted (Some AbortError)"

definition notifyLive :: "client_env \<Rightarrow> watch_client \<Rightarrow> jsval \<Rightarrow> watch_client" where
  "notifyLive env s cur =
    (let h = \<lparr>wh_state = Live, wh_cursor = Some (copyCursor cur), wh_error = None\<rparr>; t = s\<lparr>wc_health := h\<rparr>
     in if ce_closes env h then closeWatch t else t)"

definition setSilenceDeadline :: "watch_client \<Rightarrow> watch_client" where
  "setSilenceDeadline s = s\<lparr>wc_silence := Some (wc_lastFrameAt s + HUB_WATCH_SILENCE_TIMEOUT_MS)\<rparr>"

definition silenceTimer :: "int \<Rightarrow> watch_client \<Rightarrow> watch_client" where
  "silenceTimer now s = (case wc_silence s of
      Some deadline \<Rightarrow>
        if deadline - now > 0 then s
        else lost s WATCH_SILENCE_TIMEOUT ''No complete watch frame was received'' None None
    | None \<Rightarrow> s)"

definition openTimer :: "watch_client \<Rightarrow> watch_client" where
  "openTimer s = (if wc_openTimer s then lost s WATCH_OPEN_TIMEOUT ''Watch did not produce a complete snapshot'' None None else s)"

definition deliver :: "watch_client \<Rightarrow> jsval \<Rightarrow> watch_client" where
  "deliver s e = (case wc_pending s of
      i # is \<Rightarrow> settle (s\<lparr>wc_pending := is\<rparr>) i (Yield e)
    | [] \<Rightarrow>
        if length (wc_queue s) \<ge> HUB_WATCH_QUEUE_CAPACITY then
          lost s WATCH_OVERFLOW ''Watch client queue capacity exceeded'' (Some ''client'') None
        else s\<lparr>wc_queue := wc_queue s @ [e]\<rparr>)"

section \<open>The read pump\<close>

text \<open>
  One parsed frame. Every \<open>return\<close> of the code's loop leaves a terminal behind and every \<open>continue\<close>
  leaves none, so the caller looks at \<open>wc_terminal\<close> to see whether the pump goes on.
\<close>

definition acceptLog :: "watch_client \<Rightarrow> jsval \<Rightarrow> watch_client" where
  "acceptLog s e = s\<lparr>wc_accepted := wc_accepted s @ [e]\<rparr>"

definition heartbeatFrame :: "watch_client \<Rightarrow> jsval \<Rightarrow> jsval \<Rightarrow> watch_client" where
  "heartbeatFrame s c d = (case wc_cursor s of
      None \<Rightarrow> lost s WATCH_GAP ''Heartbeat delivery cursor differs from parsed cursor'' None None
    | Some cur \<Rightarrow>
        if \<not> sameWatchCursor d cur then lost s WATCH_GAP ''Heartbeat delivery cursor differs from parsed cursor'' None None
        else if \<not> sameIdentity cur c \<or> positionOf c < positionOf cur then
          lost s WATCH_GAP ''Heartbeat cursor regressed or changed identity'' None None
        else setSilenceDeadline s)"

definition snapshotFrame :: "client_env \<Rightarrow> watch_client \<Rightarrow> jsval \<Rightarrow> watch_client" where
  "snapshotFrame env s snap =
    (if wc_gotSnapshot s then lost s WATCH_PROTOCOL_ERROR ''A watch may contain only one snapshot'' None None
     else let cur = copyCursor (jsProp snap ''cursor'');
              t = notifyLive env (s\<lparr>wc_gotSnapshot := True, wc_cursor := Some cur, wc_openTimer := False\<rparr>) cur in
       if wc_terminal t \<noteq> None then t
       else let u = acceptLog (setSilenceDeadline t) snap in
         (case wc_pending u of
            i # is \<Rightarrow> settle (u\<lparr>wc_pending := is\<rparr>) i (Yield snap)
          | [] \<Rightarrow> u\<lparr>wc_snapshotPending := Some snap\<rparr>))"

definition changeFrameIn :: "client_env \<Rightarrow> watch_client \<Rightarrow> jsval \<Rightarrow> watch_client" where
  "changeFrameIn env s change = (case wc_cursor s of
      None \<Rightarrow> lost s WATCH_PROTOCOL_ERROR ''Watch change received before snapshot'' None None
    | Some cur \<Rightarrow>
        if \<not> wc_gotSnapshot s then lost s WATCH_PROTOCOL_ERROR ''Watch change received before snapshot'' None None
        else if \<not> sameIdentity cur (jsProp change ''cursor'') then lost s WATCH_RESTARTED ''Watch cursor identity changed'' None None
        else if \<not> sameWatchCursor cur (jsProp change ''previousCursor'') \<or>
                positionOf (jsProp change ''cursor'') \<le> positionOf cur then
          lost s WATCH_GAP ''Watch change linkage is discontinuous'' None None
        else
          let next = copyCursor (jsProp change ''cursor'');
              t = notifyLive env (s\<lparr>wc_cursor := Some next\<rparr>) next in
          if wc_terminal t \<noteq> None then t
          else let u = deliver (acceptLog t change) change in
            if wc_terminal u \<noteq> None then u else setSilenceDeadline u)"

definition frameStep :: "client_env \<Rightarrow> watch_client \<Rightarrow> watch_frame \<Rightarrow> watch_client" where
  "frameStep env s f =
    (if frameKind f \<noteq> JStr (wc_kind s) then lost s WATCH_PROTOCOL_ERROR ''Watch frame kind does not match request'' None None
     else let t = s\<lparr>wc_lastFrameAt := ce_now env\<rparr> in
       (case f of
          ErrorFrame k code msg c b \<Rightarrow> lost t code msg (if b then Some ''server'' else None) None
        | HeartbeatFrame k c d \<Rightarrow> heartbeatFrame t c d
        | SnapshotFrame v \<Rightarrow> snapshotFrame env t v
        | ChangeFrame c \<Rightarrow> changeFrameIn env t c))"

definition lineStep :: "client_env \<Rightarrow> watch_client \<Rightarrow> string \<Rightarrow> watch_client" where
  "lineStep env s line =
    (if list_all isJsSpace line then lost s WATCH_PROTOCOL_ERROR ''Empty watch frame'' None None
     else case ce_parse env line of
       BadJson \<Rightarrow> lost s WATCH_PROTOCOL_ERROR ''Malformed watch JSON'' None None
     | BadFrame \<Rightarrow> lost s WATCH_PROTOCOL_ERROR ''Invalid watch frame'' None None
     | Parsed f \<Rightarrow> frameStep env s f)"

text \<open>\<open>text.indexOf("\n")\<close> and the two slices around it.\<close>

fun splitLine :: "string \<Rightarrow> (string \<times> string) option" where
  "splitLine [] = None"
| "splitLine (c # cs) = (if c = CHR 0x0A then Some ([], cs)
     else case splitLine cs of None \<Rightarrow> None | Some (line, rest) \<Rightarrow> Some (c # line, rest))"

lemma splitLine_shorter: "splitLine t = Some (line, rest) \<Longrightarrow> length rest < length t"
  by (induction t arbitrary: line) (auto split: if_splits option.splits)

function linesStep :: "client_env \<Rightarrow> watch_client \<Rightarrow> string \<Rightarrow> watch_client" where
  "linesStep env s text = (case splitLine text of
      None \<Rightarrow> s\<lparr>wc_text := text\<rparr>
    | Some (line, rest) \<Rightarrow>
        let t = lineStep env (s\<lparr>wc_text := rest\<rparr>) line in
        if wc_terminal t \<noteq> None then t\<lparr>wc_phase := Returned\<rparr> else linesStep env t rest)"
  by pat_completeness auto
termination
  by (relation "measure (\<lambda>(env, s, text). length text)") (auto dest: splitLine_shorter)

declare linesStep.simps [simp del]

datatype body_kind = NoBody | OtherBody | ReadableBody

definition openedStep :: "watch_client \<Rightarrow> int \<Rightarrow> body_kind \<Rightarrow> string option \<Rightarrow> watch_client" where
  "openedStep s status body contentType =
    (if wc_phase s \<noteq> Connecting then s
     else let t = s\<lparr>wc_hasBody := body \<noteq> NoBody\<rparr> in
       if wc_terminal t \<noteq> None then (dispose t)\<lparr>wc_phase := Returned\<rparr>
       else if status \<noteq> 200 then (lost t WATCH_HTTP_ERROR ''Watch request returned HTTP'' None (Some status))\<lparr>wc_phase := Returned\<rparr>
       else if body \<noteq> ReadableBody then
         (lost t WATCH_PROTOCOL_ERROR ''Watch response body is not a Node Readable'' None None)\<lparr>wc_phase := Returned\<rparr>
       else if \<not> strIncludes (toLowerCase (orElse contentType '''')) ''application/x-ndjson'' then
         (lost t WATCH_PROTOCOL_ERROR ''Watch response content type is not NDJSON'' None None)\<lparr>wc_phase := Returned\<rparr>
       else t\<lparr>wc_phase := Reading\<rparr>)"

definition chunkStep :: "client_env \<Rightarrow> watch_client \<Rightarrow> string \<Rightarrow> watch_client" where
  "chunkStep env s chunk =
    (if wc_phase s \<noteq> Reading then s
     else if wc_terminal s \<noteq> None then s\<lparr>wc_phase := Returned\<rparr>
     else linesStep env s (wc_text s @ chunk))"

text \<open>The end of the body; \<open>rest\<close> says whether the decoder still held an incomplete character.\<close>

definition bodyEnd :: "bool \<Rightarrow> watch_client \<Rightarrow> watch_client" where
  "bodyEnd rest s =
    (if wc_phase s \<noteq> Reading then s
     else (if rest \<or> wc_text s \<noteq> [] then lost s WATCH_DISCONNECTED ''Watch ended with an incomplete frame'' None None
           else if wc_terminal s = None then lost s WATCH_DISCONNECTED ''Watch stream ended unexpectedly'' None None
           else s)\<lparr>wc_phase := Returned\<rparr>)"

text \<open>The rejection of \<open>open\<close> and an error of the body reach the same \<open>catch\<close>.\<close>

definition readFailed :: "watch_client \<Rightarrow> watch_client" where
  "readFailed s = (if wc_phase s = Returned then s
     else (if wc_terminal s = None then lost s WATCH_DISCONNECTED ''Watch stream disconnected'' None None else s)
       \<lparr>wc_phase := Returned\<rparr>)"

section \<open>The iterator\<close>

definition nextCall :: "watch_client \<Rightarrow> watch_client" where
  "nextCall s =
    (let i = wc_nextId s; t = s\<lparr>wc_nextId := Suc i\<rparr> in
     case wc_snapshotPending s of
       Some v \<Rightarrow> settle (t\<lparr>wc_snapshotPending := None\<rparr>) i (Yield v)
     | None \<Rightarrow> (case wc_queue s of
         e # es \<Rightarrow> settle (t\<lparr>wc_queue := es\<rparr>) i (Yield e)
       | [] \<Rightarrow> (case wc_terminal s of
           Some tm \<Rightarrow> settle t i (terminalSettlement tm (wc_error s))
         | None \<Rightarrow> t\<lparr>wc_pending := wc_pending s @ [i]\<rparr>)))"

definition returnCall :: "watch_client \<Rightarrow> watch_client" where
  "returnCall s = (let t = closeWatch s in settle (t\<lparr>wc_nextId := Suc (wc_nextId t)\<rparr>) (wc_nextId t) Done)"

definition throwCall :: "string \<Rightarrow> watch_client \<Rightarrow> watch_client" where
  "throwCall err s = (let t = closeWatch s in settle (t\<lparr>wc_nextId := Suc (wc_nextId t)\<rparr>) (wc_nextId t) (Reject (CallerError err)))"

text \<open>\<open>createHubEventWatch\<close>: \<open>aborted\<close> is the state of the caller's signal.\<close>

definition createHubEventWatch :: "string \<Rightarrow> bool \<Rightarrow> int \<Rightarrow> watch_client" where
  "createHubEventWatch kind aborted now =
    (let s = \<lparr>wc_kind = kind, wc_health = \<lparr>wh_state = Opening, wh_cursor = None, wh_error = None\<rparr>, wc_terminal = None,
       wc_error = None, wc_snapshotPending = None, wc_queue = [], wc_pending = [], wc_cursor = None, wc_gotSnapshot = False,
       wc_openTimer = False, wc_silence = None, wc_lastFrameAt = now, wc_aborted = False, wc_hasBody = False,
       wc_bodyDestroyed = False, wc_phase = Connecting, wc_text = [], wc_nextId = 0, wc_settled = [], wc_accepted = []\<rparr>
     in if aborted then (abortListener s)\<lparr>wc_phase := Returned\<rparr> else s\<lparr>wc_openTimer := True\<rparr>)"

datatype client_event =
    Opened int body_kind "string option"
  | Chunk client_env string
  | BodyEnd bool
  | ReadFailed
  | SilenceTimer int
  | OpenTimer
  | NextCall
  | ReturnCall
  | ThrowCall string
  | CloseCall
  | AbortSignal

definition clientStep :: "watch_client \<Rightarrow> client_event \<Rightarrow> watch_client" where
  "clientStep s e = (case e of
      Opened status body ct \<Rightarrow> openedStep s status body ct
    | Chunk env chunk \<Rightarrow> chunkStep env s chunk
    | BodyEnd rest \<Rightarrow> bodyEnd rest s
    | ReadFailed \<Rightarrow> readFailed s
    | SilenceTimer now \<Rightarrow> silenceTimer now s
    | OpenTimer \<Rightarrow> openTimer s
    | NextCall \<Rightarrow> nextCall s
    | ReturnCall \<Rightarrow> returnCall s
    | ThrowCall err \<Rightarrow> throwCall err s
    | CloseCall \<Rightarrow> closeWatch s
    | AbortSignal \<Rightarrow> abortListener s)"

section \<open>One outcome\<close>

definition clientOutcome :: "watch_client \<Rightarrow> (watch_terminal \<times> watch_error option) option" where
  "clientOutcome s = (case wc_terminal s of None \<Rightarrow> None | Some t \<Rightarrow> Some (t, wc_error s))"

named_theorems client_defs \<open>the operations of the watch client\<close>

lemmas [client_defs] = settle_def dispose_def selectTerminal_def lost_def closeWatch_def abortListener_def
  setSilenceDeadline_def silenceTimer_def openTimer_def deliver_def acceptLog_def

lemma terminal_linesStep: "wc_terminal s \<noteq> None \<Longrightarrow> chunkStep env s chunk = s \<or> chunkStep env s chunk = s\<lparr>wc_phase := Returned\<rparr>"
  by (simp add: chunkStep_def)

lemma clientOutcome_step: "clientOutcome s = Some r \<Longrightarrow> clientOutcome (clientStep s e) = Some r"
  by (cases e)
    (auto simp: clientOutcome_def clientStep_def client_defs openedStep_def chunkStep_def bodyEnd_def readFailed_def
      nextCall_def returnCall_def throwCall_def Let_def split: option.splits list.splits)

interpretation client_latch: latch_machine clientStep clientOutcome
  by unfold_locales (rule clientOutcome_step)

section \<open>The client invariant\<close>

fun yieldsOf :: "(nat \<times> settlement) list \<Rightarrow> jsval list" where
  "yieldsOf [] = []"
| "yieldsOf ((i, Yield v) # rs) = v # yieldsOf rs"
| "yieldsOf ((i, Done) # rs) = yieldsOf rs"
| "yieldsOf ((i, Reject e) # rs) = yieldsOf rs"

lemma yieldsOf_append [simp]: "yieldsOf (rs @ qs) = yieldsOf rs @ yieldsOf qs"
  by (induction rs rule: yieldsOf.induct) auto

lemma yieldsOf_terminal [simp]: "yieldsOf (map (\<lambda>i. (i, terminalSettlement t e)) is) = []"
  by (induction "is") (auto simp: terminalSettlement_def split: option.splits)

text \<open>The i-th promise handed out is settled i-th; the rest wait in order.\<close>

definition promises_ok :: "watch_client \<Rightarrow> bool" where
  "promises_ok s \<longleftrightarrow> map fst (wc_settled s) @ wc_pending s = [0..<wc_nextId s]"

definition buffers_ok :: "watch_client \<Rightarrow> bool" where
  "buffers_ok s \<longleftrightarrow> length (wc_queue s) \<le> HUB_WATCH_QUEUE_CAPACITY \<and>
     (wc_pending s \<noteq> [] \<longrightarrow> wc_snapshotPending s = None \<and> wc_queue s = []) \<and>
     (wc_terminal s \<noteq> None \<longrightarrow> wc_pending s = [] \<and> wc_queue s = [] \<and> wc_snapshotPending s = None \<and>
        wc_silence s = None \<and> \<not> wc_openTimer s \<and> wc_aborted s)"

definition buffered :: "watch_client \<Rightarrow> jsval list" where
  "buffered s = (case wc_snapshotPending s of Some v \<Rightarrow> [v] | None \<Rightarrow> []) @ wc_queue s"

text \<open>What was yielded is what the stream delivered, in order; nothing is lost before the terminal.\<close>

definition order_ok :: "watch_client \<Rightarrow> bool" where
  "order_ok s \<longleftrightarrow> (if wc_terminal s = None then wc_accepted s = yieldsOf (wc_settled s) @ buffered s
     else prefix (yieldsOf (wc_settled s)) (wc_accepted s))"

text \<open>What the stream delivered is one snapshot and then changes without a gap.\<close>

definition chainFrom :: "jsval list \<Rightarrow> bool" where
  "chainFrom vs = (case vs of [] \<Rightarrow> True | snap # cs \<Rightarrow> linked (cursorView (jsProp snap ''cursor'')) cs)"

definition chain_ok :: "watch_client \<Rightarrow> bool" where
  "chain_ok s \<longleftrightarrow> chainFrom (wc_accepted s) \<and>
     (wc_terminal s = None \<longrightarrow>
       (wc_accepted s = [] \<longrightarrow> wc_cursor s = None \<and> \<not> wc_gotSnapshot s) \<and>
       (wc_accepted s \<noteq> [] \<longrightarrow> wc_gotSnapshot s \<and>
          (\<exists>c. wc_cursor s = Some c \<and> cursorView c = cursorView (jsProp (last (wc_accepted s)) ''cursor''))))"

definition client_ok :: "watch_client \<Rightarrow> bool" where
  "client_ok s \<longleftrightarrow> promises_ok s \<and> buffers_ok s \<and> order_ok s \<and> chain_ok s"

lemmas client_ok_defs = client_ok_def promises_ok_def buffers_ok_def order_ok_def chain_ok_def buffered_def

lemma cursorView_copyCursor [simp]: "cursorView (copyCursor c) = cursorView c"
  by (simp add: copyCursor_def cursorView_def)

lemma strictEq_eq: "strictEq a b \<Longrightarrow> a = b"
  by (auto simp: strictEq_def split: jsval.splits jsnum.splits)

lemma sameWatchCursor_view: "sameWatchCursor a b \<Longrightarrow> cursorView a = cursorView b"
  by (auto simp: sameWatchCursor_def sameIdentity_def cursorView_def dest!: strictEq_eq)

lemma cursorLess_view:
  "sameIdentity a b \<Longrightarrow> \<not> positionOf b \<le> positionOf a \<Longrightarrow> cursorLess (cursorView a) (cursorView b)"
  by (auto simp: sameIdentity_def cursorLess_def cursorView_def positionOf_def dest!: strictEq_eq)

lemma selectTerminal_ok: "client_ok s \<Longrightarrow> client_ok (selectTerminal s t e)"
  by (auto simp: client_ok_defs selectTerminal_def dispose_def comp_def split: option.splits)

lemma lost_ok: "client_ok s \<Longrightarrow> client_ok (lost s code msg sd st)"
  by (simp add: lost_def selectTerminal_ok)

lemma lost_terminal: "wc_terminal (lost s code msg sd st) \<noteq> None"
  by (auto simp: client_defs)

lemma closeWatch_ok: "client_ok s \<Longrightarrow> client_ok (closeWatch s)"
  by (simp add: closeWatch_def selectTerminal_ok)

text \<open>Fields the invariant does not read.\<close>

lemma client_ok_fields [simp]:
  "client_ok (s\<lparr>wc_phase := p\<rparr>) = client_ok s"
  "client_ok (s\<lparr>wc_text := x\<rparr>) = client_ok s"
  "client_ok (s\<lparr>wc_health := h\<rparr>) = client_ok s"
  "client_ok (s\<lparr>wc_lastFrameAt := n\<rparr>) = client_ok s"
  "client_ok (s\<lparr>wc_hasBody := b\<rparr>) = client_ok s"
  by (simp_all add: client_ok_defs)

lemma parts_fields [simp]:
  "promises_ok (s\<lparr>wc_silence := d\<rparr>) = promises_ok s"
  "order_ok (s\<lparr>wc_silence := d\<rparr>) = order_ok s"
  "chain_ok (s\<lparr>wc_silence := d\<rparr>) = chain_ok s"
  "promises_ok (dispose s) = promises_ok s"
  "order_ok (dispose s) = order_ok s"
  "chain_ok (dispose s) = chain_ok s"
  by (simp_all add: client_ok_defs dispose_def)

lemma setSilenceDeadline_ok: "client_ok s \<Longrightarrow> wc_terminal s = None \<Longrightarrow> client_ok (setSilenceDeadline s)"
  by (simp add: client_ok_def setSilenceDeadline_def) (simp add: buffers_ok_def)

lemma dispose_ok: "client_ok s \<Longrightarrow> client_ok (dispose s)"
  by (simp add: client_ok_def) (simp add: buffers_ok_def dispose_def)

lemma heartbeatFrame_ok: "client_ok s \<Longrightarrow> wc_terminal s = None \<Longrightarrow> client_ok (heartbeatFrame s c d)"
  by (simp add: heartbeatFrame_def lost_ok setSilenceDeadline_ok split: option.split)

text \<open>A terminal may be chosen while the cursor runs ahead of the log.\<close>

definition ahead_ok :: "watch_client \<Rightarrow> bool" where
  "ahead_ok s \<longleftrightarrow> promises_ok s \<and> buffers_ok s \<and> order_ok s \<and> chainFrom (wc_accepted s)"

lemma client_ahead: "client_ok s \<Longrightarrow> ahead_ok s"
  by (simp add: client_ok_def ahead_ok_def chain_ok_def)

lemma ahead_ok_fields [simp]:
  "ahead_ok (s\<lparr>wc_health := h\<rparr>) = ahead_ok s"
  "ahead_ok (s\<lparr>wc_cursor := c\<rparr>) = ahead_ok s"
  "ahead_ok (s\<lparr>wc_gotSnapshot := g\<rparr>) = ahead_ok s"
  "ahead_ok (s\<lparr>wc_lastFrameAt := n\<rparr>) = ahead_ok s"
  by (simp_all add: ahead_ok_def client_ok_defs)

lemma ahead_close: "ahead_ok s \<Longrightarrow> wc_terminal s = None \<Longrightarrow> client_ok (closeWatch s)"
  by (auto simp: ahead_ok_def client_ok_defs closeWatch_def selectTerminal_def dispose_def comp_def split: option.splits)

lemma ahead_openTimer: "ahead_ok s \<Longrightarrow> ahead_ok (s\<lparr>wc_openTimer := False\<rparr>)"
  by (auto simp: ahead_ok_def client_ok_defs)

lemma closeWatch_terminal: "wc_terminal (closeWatch s) \<noteq> None"
  by (simp add: client_defs)

lemma snapshotFrame_ok:
  assumes ok: "client_ok s" and live: "wc_terminal s = None"
  shows "client_ok (snapshotFrame env s snap)"
proof (cases "wc_gotSnapshot s")
  case True
  then show ?thesis by (simp add: snapshotFrame_def lost_ok [OF ok])
next
  case False
  let ?cur = "copyCursor (jsProp snap ''cursor'')"
  let ?s1 = "s\<lparr>wc_gotSnapshot := True, wc_cursor := Some ?cur, wc_openTimer := False\<rparr>"
  let ?h = "\<lparr>wh_state = Live, wh_cursor = Some (copyCursor ?cur), wh_error = None\<rparr>"
  show ?thesis
  proof (cases "ce_closes env ?h")
    case True
    have "ahead_ok (?s1\<lparr>wc_health := ?h\<rparr>)"
      using ahead_openTimer [of "s\<lparr>wc_gotSnapshot := True, wc_cursor := Some ?cur\<rparr>"] client_ahead [OF ok] by simp
    then have "client_ok (closeWatch (?s1\<lparr>wc_health := ?h\<rparr>))" using live by (intro ahead_close) simp_all
    then show ?thesis
      using False True closeWatch_terminal [of "?s1\<lparr>wc_health := ?h\<rparr>"]
      by (simp add: snapshotFrame_def notifyLive_def Let_def)
  next
    case stay: False
    have empty: "wc_accepted s = []" using ok False live by (auto simp: client_ok_def chain_ok_def)
    then show ?thesis
      using ok False stay live
      by (auto simp: snapshotFrame_def notifyLive_def Let_def client_ok_defs acceptLog_def setSilenceDeadline_def
          settle_def chainFrom_def split: option.splits list.splits)
  qed
qed

text \<open>Handing an event to a waiter, or queueing it.\<close>

lemma deliver_ok:
  assumes ok: "ahead_ok s" and live: "wc_terminal s = None" and got: "wc_gotSnapshot s"
    and cur: "wc_cursor s = Some c" "cursorView c = cursorView (jsProp e ''cursor'')"
    and chain: "chainFrom (wc_accepted s @ [e])"
  shows "client_ok (deliver (acceptLog s e) e)"
proof (cases "wc_pending s")
  case (Cons i "is")
  then show ?thesis
    using assms by (auto simp: deliver_def acceptLog_def settle_def ahead_ok_def client_ok_defs)
next
  case Nil
  show ?thesis
  proof (cases "length (wc_queue s) \<ge> HUB_WATCH_QUEUE_CAPACITY")
    case True
    then show ?thesis
      using assms Nil
      by (auto simp: deliver_def acceptLog_def lost_def selectTerminal_def dispose_def ahead_ok_def client_ok_defs)
  next
    case False
    then show ?thesis
      using assms Nil
      by (auto simp: deliver_def acceptLog_def ahead_ok_def client_ok_defs)
  qed
qed

lemma changeFrameIn_ok:
  assumes ok: "client_ok s" and live: "wc_terminal s = None"
  shows "client_ok (changeFrameIn env s change)"
proof (cases "wc_cursor s")
  case None
  then show ?thesis by (simp add: changeFrameIn_def lost_ok [OF ok])
next
  case (Some cur)
  let ?next = "copyCursor (jsProp change ''cursor'')"
  let ?s1 = "s\<lparr>wc_cursor := Some ?next\<rparr>"
  let ?h = "\<lparr>wh_state = Live, wh_cursor = Some (copyCursor ?next), wh_error = None\<rparr>"
  show ?thesis
  proof (cases "wc_gotSnapshot s \<and> sameIdentity cur (jsProp change ''cursor'') \<and>
      sameWatchCursor cur (jsProp change ''previousCursor'') \<and> \<not> positionOf (jsProp change ''cursor'') \<le> positionOf cur")
    case False
    then show ?thesis using Some by (auto simp: changeFrameIn_def lost_ok [OF ok])
  next
    case True
    have ahead: "ahead_ok (?s1\<lparr>wc_health := ?h\<rparr>)" using client_ahead [OF ok] by simp
    show ?thesis
    proof (cases "ce_closes env ?h")
      case closes: True
      have "client_ok (closeWatch (?s1\<lparr>wc_health := ?h\<rparr>))" using ahead live by (intro ahead_close) simp_all
      then show ?thesis
        using True closes Some closeWatch_terminal [of "?s1\<lparr>wc_health := ?h\<rparr>"]
        by (simp add: changeFrameIn_def notifyLive_def Let_def)
    next
      case stay: False
      obtain snap cs where log: "wc_accepted s = snap # cs"
        using ok True Some live by (cases "wc_accepted s") (auto simp: client_ok_def chain_ok_def)
      have chain: "chainFrom (wc_accepted s @ [change])"
        using ok True Some live log sameWatchCursor_view [of cur] cursorLess_view [of cur "jsProp change ''cursor''"]
        by (auto simp: client_ok_def chain_ok_def chainFrom_def linked_snoc Let_def)
      have "client_ok (deliver (acceptLog (?s1\<lparr>wc_health := ?h\<rparr>) change) change)"
        by (rule deliver_ok [OF ahead, where c = ?next]) (use live True chain in simp_all)
      then show ?thesis
        using True stay Some live
        by (auto simp: changeFrameIn_def notifyLive_def Let_def intro: setSilenceDeadline_ok)
    qed
  qed
qed

lemma lineStep_ok:
  assumes "client_ok s" and "wc_terminal s = None"
  shows "client_ok (lineStep env s line)"
  using assms
  by (simp add: lineStep_def frameStep_def Let_def lost_ok heartbeatFrame_ok snapshotFrame_ok changeFrameIn_ok
      split: line_result.split watch_frame.split)

lemma linesStep_ok: "client_ok s \<Longrightarrow> wc_terminal s = None \<Longrightarrow> client_ok (linesStep env s buf)"
proof (induction env s buf rule: linesStep.induct)
  case (1 env s buf)
  show ?case
  proof (cases "splitLine buf")
    case None
    then show ?thesis using 1 by (simp add: linesStep.simps [of env s buf])
  next
    case (Some lr)
    obtain line rest where lr: "lr = (line, rest)" by (cases lr)
    let ?t = "lineStep env (s\<lparr>wc_text := rest\<rparr>) line"
    have "client_ok ?t" using 1 by (simp add: lineStep_ok)
    then show ?thesis
      using 1 Some lr by (simp add: linesStep.simps [of env s buf] Let_def)
  qed
qed

lemma nextCall_ok: "client_ok s \<Longrightarrow> client_ok (nextCall s)"
  by (auto simp: nextCall_def Let_def client_ok_defs settle_def terminalSettlement_def split: option.splits list.splits)

lemma settle_after_ok:
  "client_ok t \<Longrightarrow> wc_terminal t \<noteq> None \<Longrightarrow> yieldsOf [(wc_nextId t, r)] = [] \<Longrightarrow>
    client_ok (settle (t\<lparr>wc_nextId := Suc (wc_nextId t)\<rparr>) (wc_nextId t) r)"
  by (auto simp: client_ok_defs settle_def)

lemmas settle_closed_ok = settle_after_ok [OF closeWatch_ok closeWatch_terminal]

lemma clientStep_ok: "client_ok s \<Longrightarrow> client_ok (clientStep s e)"
proof (cases e)
  case (Opened status body ct)
  then show "client_ok s \<Longrightarrow> ?thesis"
    by (simp add: clientStep_def openedStep_def Let_def lost_ok dispose_ok)
next
  case (Chunk env chunk)
  then show "client_ok s \<Longrightarrow> ?thesis"
    by (simp add: clientStep_def chunkStep_def linesStep_ok)
next
  case (SilenceTimer now)
  then show "client_ok s \<Longrightarrow> ?thesis"
    by (simp add: clientStep_def silenceTimer_def lost_ok split: option.split)
next
  case ReturnCall
  then show "client_ok s \<Longrightarrow> ?thesis"
    by (simp add: clientStep_def returnCall_def Let_def settle_closed_ok)
next
  case (ThrowCall err)
  then show "client_ok s \<Longrightarrow> ?thesis"
    by (simp add: clientStep_def throwCall_def Let_def settle_closed_ok)
qed (simp_all add: clientStep_def bodyEnd_def readFailed_def openTimer_def lost_ok nextCall_ok closeWatch_ok
    abortListener_def selectTerminal_ok)

interpretation client_runs: invariant_machine clientStep client_ok
  by unfold_locales (rule clientStep_ok)

lemma client_ok_new: "client_ok (createHubEventWatch kind aborted now)"
  by (simp add: createHubEventWatch_def Let_def abortListener_def selectTerminal_def dispose_def client_ok_defs chainFrom_def)

end
