(* ===== verification/HubWatchWire.thy ===== *)
theory HubWatchWire
  imports HubWatchClient
begin

text \<open>
  Client and wire: the read pump is independent of how the body is cut into chunks, and it accepts
  exactly the frame sequences that \<open>wireOk\<close> describes.
\<close>

section \<open>Chunk boundaries do not matter\<close>

lemma text_last:
  "s\<lparr>wc_text := x, wc_health := h\<rparr> = s\<lparr>wc_health := h, wc_text := x\<rparr>"
  "s\<lparr>wc_text := x, wc_cursor := c\<rparr> = s\<lparr>wc_cursor := c, wc_text := x\<rparr>"
  "s\<lparr>wc_text := x, wc_gotSnapshot := g\<rparr> = s\<lparr>wc_gotSnapshot := g, wc_text := x\<rparr>"
  "s\<lparr>wc_text := x, wc_openTimer := b\<rparr> = s\<lparr>wc_openTimer := b, wc_text := x\<rparr>"
  "s\<lparr>wc_text := x, wc_accepted := l\<rparr> = s\<lparr>wc_accepted := l, wc_text := x\<rparr>"
  "s\<lparr>wc_text := x, wc_lastFrameAt := n\<rparr> = s\<lparr>wc_lastFrameAt := n, wc_text := x\<rparr>"
  "s\<lparr>wc_text := x, wc_silence := d\<rparr> = s\<lparr>wc_silence := d, wc_text := x\<rparr>"
  "s\<lparr>wc_text := x, wc_pending := p\<rparr> = s\<lparr>wc_pending := p, wc_text := x\<rparr>"
  "s\<lparr>wc_text := x, wc_snapshotPending := sp\<rparr> = s\<lparr>wc_snapshotPending := sp, wc_text := x\<rparr>"
  "s\<lparr>wc_text := x, wc_queue := q\<rparr> = s\<lparr>wc_queue := q, wc_text := x\<rparr>"
  "s\<lparr>wc_text := x, wc_settled := r\<rparr> = s\<lparr>wc_settled := r, wc_text := x\<rparr>"
  by simp_all

lemma selectTerminal_text: "selectTerminal (s\<lparr>wc_text := x\<rparr>) t e = (selectTerminal s t e)\<lparr>wc_text := x\<rparr>"
  by (simp add: selectTerminal_def dispose_def terminalHealth_def)

lemma lost_text: "lost (s\<lparr>wc_text := x\<rparr>) c m sd st = (lost s c m sd st)\<lparr>wc_text := x\<rparr>"
  by (simp add: lost_def selectTerminal_text)

lemma settle_text: "settle (s\<lparr>wc_text := x\<rparr>) i r = (settle s i r)\<lparr>wc_text := x\<rparr>"
  by (simp add: settle_def)

lemma setSilenceDeadline_text: "setSilenceDeadline (s\<lparr>wc_text := x\<rparr>) = (setSilenceDeadline s)\<lparr>wc_text := x\<rparr>"
  by (simp add: setSilenceDeadline_def)

lemma acceptLog_text: "acceptLog (s\<lparr>wc_text := x\<rparr>) e = (acceptLog s e)\<lparr>wc_text := x\<rparr>"
  by (simp add: acceptLog_def)

lemma notifyLive_text: "notifyLive env (s\<lparr>wc_text := x\<rparr>) c = (notifyLive env s c)\<lparr>wc_text := x\<rparr>"
  by (simp add: notifyLive_def Let_def closeWatch_def text_last selectTerminal_text)

lemma deliver_text: "deliver (s\<lparr>wc_text := x\<rparr>) e = (deliver s e)\<lparr>wc_text := x\<rparr>"
  by (simp add: deliver_def lost_text text_last settle_text split: list.split)

lemmas steps_text = lost_text settle_text setSilenceDeadline_text acceptLog_text notifyLive_text deliver_text text_last

lemma heartbeatFrame_text: "heartbeatFrame (s\<lparr>wc_text := x\<rparr>) c d = (heartbeatFrame s c d)\<lparr>wc_text := x\<rparr>"
  by (simp add: heartbeatFrame_def steps_text split: option.split)

lemma snapshotFrame_text: "snapshotFrame env (s\<lparr>wc_text := x\<rparr>) v = (snapshotFrame env s v)\<lparr>wc_text := x\<rparr>"
  by (simp add: snapshotFrame_def Let_def steps_text split: list.split)

lemma changeFrameIn_text: "changeFrameIn env (s\<lparr>wc_text := x\<rparr>) c = (changeFrameIn env s c)\<lparr>wc_text := x\<rparr>"
  by (simp add: changeFrameIn_def Let_def steps_text split: option.split)

lemma frameStep_text: "frameStep env (s\<lparr>wc_text := x\<rparr>) f = (frameStep env s f)\<lparr>wc_text := x\<rparr>"
  by (simp add: frameStep_def Let_def steps_text heartbeatFrame_text snapshotFrame_text changeFrameIn_text
      split: watch_frame.split)

lemma lineStep_text: "lineStep env (s\<lparr>wc_text := x\<rparr>) l = (lineStep env s l)\<lparr>wc_text := x\<rparr>"
  by (simp add: lineStep_def lost_text frameStep_text split: line_result.split)

lemma linesStep_text: "linesStep env (s\<lparr>wc_text := x\<rparr>) b = linesStep env s b"
  by (subst (1 2) linesStep.simps) (simp split: option.split)

lemma splitLine_append: "splitLine a = Some (l, r) \<Longrightarrow> splitLine (a @ b) = Some (l, r @ b)"
  by (induction a arbitrary: l) (auto split: if_splits option.splits)

lemma lineStep_phase: "wc_terminal (lineStep env s l) = None \<Longrightarrow> wc_phase (lineStep env s l) = wc_phase s"
  by (auto simp: lineStep_def frameStep_def Let_def heartbeatFrame_def snapshotFrame_def changeFrameIn_def
      notifyLive_def client_defs split: line_result.splits watch_frame.splits option.splits list.splits if_splits)

text \<open>Two chunks, or one chunk with the same characters: the client is the same up to its text buffer.\<close>

lemma linesStep_chunk:
  "wc_phase s = Reading \<Longrightarrow> wc_terminal s = None \<Longrightarrow>
    (chunkStep env (linesStep env s a) b)\<lparr>wc_text := x\<rparr> = (linesStep env s (a @ b))\<lparr>wc_text := x\<rparr>"
proof (induction env s a rule: linesStep.induct)
  case (1 env s a)
  show ?case
  proof (cases "splitLine a")
    case None
    then show ?thesis
      using "1.prems" by (simp add: linesStep.simps [of env s a] chunkStep_def linesStep_text)
  next
    case (Some lr)
    then obtain l r where sp: "splitLine a = Some (l, r)" by (cases lr) simp
    let ?t = "lineStep env s l"
    show ?thesis
    proof (cases "wc_terminal ?t")
      case None
      then have "wc_phase ?t = Reading" using lineStep_phase [OF None] "1.prems"(1) by simp
      with None "1.IH" [OF sp refl refl] "1.prems" sp show ?thesis
        by (simp add: linesStep.simps [of env s a] linesStep.simps [of env s "a @ b"] lineStep_text splitLine_append linesStep_text)
    next
      case (Some tm)
      with sp show ?thesis
        by (simp add: linesStep.simps [of env s a] linesStep.simps [of env s "a @ b"] lineStep_text splitLine_append chunkStep_def)
    qed
  qed
qed

lemma chunk_boundaries:
  "wc_phase s = Reading \<Longrightarrow> wc_terminal s = None \<Longrightarrow>
    (chunkStep env (chunkStep env s a) b)\<lparr>wc_text := x\<rparr> = (chunkStep env s (a @ b))\<lparr>wc_text := x\<rparr>"
  using linesStep_chunk [where s = s and env = env and a = "wc_text s @ a" and b = b and x = x] by (simp add: chunkStep_def [of env s])

section \<open>The frames the client accepts\<close>

definition clientView :: "watch_client \<Rightarrow> (string \<times> string \<times> int) option" where
  "clientView s = map_option cursorView (wc_cursor s)"

definition quietEnv :: "client_env \<Rightarrow> bool" where
  "quietEnv env \<longleftrightarrow> (\<forall>h. \<not> ce_closes env h)"

definition frame_valid :: "watch_frame \<Rightarrow> bool" where
  "frame_valid f = (case f of
      SnapshotFrame v \<Rightarrow> validCursor (jsProp v ''cursor'')
    | ChangeFrame c \<Rightarrow> validCursor (jsProp c ''cursor'') \<and> validCursor (jsProp c ''previousCursor'')
    | HeartbeatFrame k c d \<Rightarrow> validCursor c \<and> validCursor d
    | ErrorFrame k code msg c b \<Rightarrow> True)"

definition reader_ok :: "watch_client \<Rightarrow> bool" where
  "reader_ok s \<longleftrightarrow> client_ok s \<and> wc_terminal s = None \<and> (\<forall>c. wc_cursor s = Some c \<longrightarrow> validCursor c)"

definition overflowed :: "watch_client \<Rightarrow> bool" where
  "overflowed s \<longleftrightarrow> wc_terminal s = Some Lost \<and> (\<exists>cur. wc_error s =
     Some (HubWatchError WATCH_OVERFLOW ''Watch client queue capacity exceeded'' cur (Some ''client'') None))"

definition rejected :: "watch_client \<Rightarrow> bool" where
  "rejected s \<longleftrightarrow> wc_terminal s = Some Lost \<and>
     (case wc_error s of Some (HubWatchError c _ _ _ _) \<Rightarrow> c \<in> {WATCH_GAP, WATCH_PROTOCOL_ERROR, WATCH_RESTARTED} | _ \<Rightarrow> False)"

lemma validCursor_copyCursor: "validCursor c \<Longrightarrow> validCursor (copyCursor c)"
  by (auto simp: validCursor_def copyCursor_def isObject_def)

lemma sameIdentity_iff:
  "validCursor a \<Longrightarrow> validCursor b \<Longrightarrow> sameIdentity a b \<longleftrightarrow>
     fst (cursorView a) = fst (cursorView b) \<and> fst (snd (cursorView a)) = fst (snd (cursorView b))"
  by (elim validCursorE) (simp add: sameIdentity_def)

lemma sameWatchCursor_iff:
  "validCursor a \<Longrightarrow> validCursor b \<Longrightarrow> sameWatchCursor a b \<longleftrightarrow> cursorView a = cursorView b"
  by (elim validCursorE) (auto simp: sameWatchCursor_def sameIdentity_def)

lemma positionOf_view: "positionOf c = snd (snd (cursorView c))"
  by (simp add: positionOf_def cursorView_def)

lemma lost_rejected:
  "wc_terminal s = None \<Longrightarrow> code \<in> {WATCH_GAP, WATCH_PROTOCOL_ERROR, WATCH_RESTARTED} \<Longrightarrow> rejected (lost s code m sd st)"
  by (simp add: rejected_def client_defs)

lemma heartbeat_accepts:
  assumes ok: "reader_ok s" and v: "validCursor c" "validCursor d"
  shows "if wireAccepts (clientView s) (HeartbeatFrame k c d)
    then reader_ok (heartbeatFrame s c d) \<and> clientView (heartbeatFrame s c d) = clientView s
    else rejected (heartbeatFrame s c d)"
proof (cases "wc_cursor s")
  case None
  then show ?thesis
    using ok by (simp add: heartbeatFrame_def clientView_def reader_ok_def lost_rejected)
next
  case (Some cur)
  have cv: "validCursor cur" using ok Some by (simp add: reader_ok_def)
  have live: "wc_terminal s = None" using ok by (simp add: reader_ok_def)
  show ?thesis
  proof (cases "wireAccepts (clientView s) (HeartbeatFrame k c d)")
    case True
    then have "cursorView d = cursorView cur" "cursorLe (cursorView cur) (cursorView c)"
      by (simp_all add: clientView_def Some)
    then have "heartbeatFrame s c d = setSilenceDeadline s"
      using cv v by (auto simp: heartbeatFrame_def Some sameWatchCursor_iff sameIdentity_iff positionOf_view cursorLe_def)
    then show ?thesis
      using True ok setSilenceDeadline_ok [of s] by (simp add: reader_ok_def) (simp add: setSilenceDeadline_def clientView_def)
  next
    case False
    then have "\<not> sameWatchCursor d cur \<or> \<not> sameIdentity cur c \<or> positionOf c < positionOf cur"
      using cv v by (auto simp: clientView_def Some sameWatchCursor_iff sameIdentity_iff positionOf_view cursorLe_def)
    then show ?thesis
      using False live by (auto simp: heartbeatFrame_def Some lost_rejected)
  qed
qed

lemma snapshot_accepts:
  assumes ok: "reader_ok s" and v: "validCursor (jsProp snap ''cursor'')" and q: "quietEnv env"
  shows "if wireAccepts (clientView s) (SnapshotFrame snap)
    then reader_ok (snapshotFrame env s snap) \<and> clientView (snapshotFrame env s snap) = Some (cursorView (jsProp snap ''cursor''))
    else rejected (snapshotFrame env s snap)"
proof -
  have live: "wc_terminal s = None" and cok: "client_ok s" using ok by (simp_all add: reader_ok_def)
  have got: "wc_gotSnapshot s \<longleftrightarrow> wc_cursor s \<noteq> None"
    using cok live by (cases "wc_accepted s = []") (auto simp: client_ok_def chain_ok_def)
  show ?thesis
  proof (cases "wc_gotSnapshot s")
    case True
    then show ?thesis using got live by (auto simp: snapshotFrame_def clientView_def lost_rejected)
  next
    case False
    then have "wc_terminal (snapshotFrame env s snap) = None"
      "wc_cursor (snapshotFrame env s snap) = Some (copyCursor (jsProp snap ''cursor''))"
      using q live by (auto simp: snapshotFrame_def notifyLive_def quietEnv_def Let_def acceptLog_def
          setSilenceDeadline_def settle_def split: list.split)
    then show ?thesis
      using False got snapshotFrame_ok [OF cok live] v
      by (simp add: reader_ok_def clientView_def validCursor_copyCursor)
  qed
qed

lemma change_accepts:
  assumes ok: "reader_ok s" and v: "validCursor (jsProp c ''cursor'')" "validCursor (jsProp c ''previousCursor'')"
    and q: "quietEnv env"
  shows "if wireAccepts (clientView s) (ChangeFrame c)
    then (reader_ok (changeFrameIn env s c) \<and> clientView (changeFrameIn env s c) = Some (cursorView (jsProp c ''cursor'')))
      \<or> overflowed (changeFrameIn env s c)
    else rejected (changeFrameIn env s c)"
proof (cases "wc_cursor s")
  case None
  then show ?thesis
    using ok by (simp add: changeFrameIn_def clientView_def reader_ok_def lost_rejected)
next
  case (Some cur)
  have live: "wc_terminal s = None" and cok: "client_ok s" and cv: "validCursor cur"
    using ok Some by (simp_all add: reader_ok_def)
  have got: "wc_gotSnapshot s"
    using cok live Some by (cases "wc_accepted s = []") (auto simp: client_ok_def chain_ok_def)
  show ?thesis
  proof (cases "wireAccepts (clientView s) (ChangeFrame c)")
    case True
    then have "cursorView (jsProp c ''previousCursor'') = cursorView cur" "cursorLess (cursorView cur) (cursorView (jsProp c ''cursor''))"
      by (simp_all add: clientView_def Some)
    then have pass: "sameIdentity cur (jsProp c ''cursor'')" "sameWatchCursor cur (jsProp c ''previousCursor'')"
      "\<not> positionOf (jsProp c ''cursor'') \<le> positionOf cur"
      using cv v by (auto simp: sameWatchCursor_iff sameIdentity_iff positionOf_view cursorLess_def)
    have "overflowed (changeFrameIn env s c) \<or> wc_terminal (changeFrameIn env s c) = None \<and>
        wc_cursor (changeFrameIn env s c) = Some (copyCursor (jsProp c ''cursor''))"
      using pass got live Some q
      by (auto simp: changeFrameIn_def notifyLive_def quietEnv_def Let_def overflowed_def client_defs split: list.split)
    then show ?thesis
      using True changeFrameIn_ok [OF cok live] v by (auto simp: reader_ok_def clientView_def validCursor_copyCursor)
  next
    case False
    then have "\<not> sameIdentity cur (jsProp c ''cursor'') \<or> \<not> sameWatchCursor cur (jsProp c ''previousCursor'') \<or>
        positionOf (jsProp c ''cursor'') \<le> positionOf cur"
      using cv v by (auto simp: clientView_def Some sameWatchCursor_iff sameIdentity_iff positionOf_view cursorLess_def)
    then show ?thesis
      using False live by (auto simp: changeFrameIn_def Some lost_rejected)
  qed
qed

lemma reader_ok_time [simp]: "reader_ok (s\<lparr>wc_lastFrameAt := n\<rparr>) = reader_ok s"
  by (simp add: reader_ok_def)

lemma frame_accepts:
  assumes ok: "reader_ok s" and k: "frameKind f = JStr (wc_kind s)" and v: "frame_valid f" and q: "quietEnv env"
    and noerr: "\<not> isErrorFrame f"
  shows "if wireAccepts (clientView s) f
    then (reader_ok (frameStep env s f) \<and> clientView (frameStep env s f) = wireNext (clientView s) f) \<or> overflowed (frameStep env s f)
    else rejected (frameStep env s f)"
proof -
  let ?t = "s\<lparr>wc_lastFrameAt := ce_now env\<rparr>"
  have ok': "reader_ok ?t" and cv: "clientView ?t = clientView s" using ok by (simp_all add: clientView_def)
  show ?thesis
  proof (cases f)
    case (SnapshotFrame snap)
    then show ?thesis using snapshot_accepts [OF ok' _ q, of snap] v k cv by (auto simp: frameStep_def frame_valid_def)
  next
    case (ChangeFrame c)
    then show ?thesis using change_accepts [OF ok' _ _ q, of c] v k cv by (auto simp: frameStep_def frame_valid_def simp del: wireAccepts.simps)
  next
    case (HeartbeatFrame kd c d)
    then show ?thesis using heartbeat_accepts [OF ok', of c d kd] v k cv
      by (auto simp: frameStep_def frame_valid_def simp del: wireAccepts.simps)
  next
    case (ErrorFrame kd code msg c b)
    then show ?thesis using noerr by (simp add: isErrorFrame_def)
  qed
qed

text \<open>A body, frame by frame; \<open>readFrames\<close> stops like the pump does.\<close>

fun readFrames :: "client_env \<Rightarrow> watch_client \<Rightarrow> watch_frame list \<Rightarrow> watch_client" where
  "readFrames env s [] = s"
| "readFrames env s (f # fs) = (let t = frameStep env s f in if wc_terminal t \<noteq> None then t else readFrames env t fs)"

lemma frameStep_kind: "wc_kind (frameStep env s f) = wc_kind s"
  by (auto simp: frameStep_def heartbeatFrame_def snapshotFrame_def changeFrameIn_def notifyLive_def Let_def client_defs
      split: watch_frame.split option.split list.split)

lemma readFrames_accepts:
  assumes "reader_ok s" and "\<forall>f \<in> set fs. frameKind f = JStr (wc_kind s) \<and> frame_valid f \<and> \<not> isErrorFrame f" and "quietEnv env"
    and "wireOk (clientView s) fs"
  shows "(reader_ok (readFrames env s fs) \<and> clientView (readFrames env s fs) = wireEnd (clientView s) fs) \<or>
    overflowed (readFrames env s fs)"
  using assms
proof (induction env s fs rule: readFrames.induct)
  case (1 env s)
  then show ?case by (simp add: wireEnd_def)
next
  case (2 env s f fs)
  let ?t = "frameStep env s f"
  have step: "(reader_ok ?t \<and> clientView ?t = wireNext (clientView s) f) \<or> overflowed ?t"
    using frame_accepts [of s f env] 2 by simp
  show ?case
  proof (cases "wc_terminal ?t")
    case None
    then have t: "reader_ok ?t" "clientView ?t = wireNext (clientView s) f" using step by (auto simp: overflowed_def)
    with "2.IH" [OF refl] "2.prems" None show ?thesis
      by (simp add: frameStep_kind Let_def wireEnd_def)
  next
    case (Some tm)
    with step show ?thesis by (auto simp: reader_ok_def Let_def)
  qed
qed

text \<open>The lines of a chunk are the frames of \<open>readFrames\<close>, if the parser undoes the renderer.\<close>

definition renders :: "client_env \<Rightarrow> (watch_frame \<Rightarrow> string) \<Rightarrow> watch_frame \<Rightarrow> bool" where
  "renders env render f \<longleftrightarrow> ce_parse env (render f) = Parsed f \<and> CHR 0x0A \<notin> set (render f) \<and>
     \<not> list_all isJsSpace (render f)"

definition bodyOf :: "(watch_frame \<Rightarrow> string) \<Rightarrow> watch_frame list \<Rightarrow> string" where
  "bodyOf render fs = concat (map (\<lambda>f. render f @ [CHR 0x0A]) fs)"

lemma splitLine_line: "CHR 0x0A \<notin> set l \<Longrightarrow> splitLine (l @ CHR 0x0A # r) = Some (l, r)"
  by (induction l) auto

lemma linesStep_frames:
  assumes "\<forall>f \<in> set fs. renders env render f"
  shows "(linesStep env s (bodyOf render fs))\<lparr>wc_text := x, wc_phase := p\<rparr> = (readFrames env s fs)\<lparr>wc_text := x, wc_phase := p\<rparr>"
  using assms
proof (induction fs arbitrary: s)
  case Nil
  then show ?case by (simp add: bodyOf_def linesStep.simps)
next
  case (Cons f fs)
  have b: "bodyOf render (f # fs) = render f @ CHR 0x0A # bodyOf render fs" by (simp add: bodyOf_def)
  have sp: "splitLine (bodyOf render (f # fs)) = Some (render f, bodyOf render fs)"
    using Cons.prems unfolding b by (intro splitLine_line) (simp add: renders_def)
  have st: "lineStep env (s\<lparr>wc_text := y\<rparr>) (render f) = (frameStep env s f)\<lparr>wc_text := y\<rparr>" for y
    using Cons.prems by (simp add: lineStep_def renders_def frameStep_text)
  show ?case
    using Cons by (simp add: linesStep.simps [of env s "bodyOf render (f # fs)"] sp st Let_def linesStep_text)
qed

section \<open>What the client hands on\<close>

definition payloads :: "watch_frame list \<Rightarrow> jsval list" where
  "payloads fs = concat (map (\<lambda>f. case f of SnapshotFrame v \<Rightarrow> [v] | ChangeFrame c \<Rightarrow> [c] | _ \<Rightarrow> []) fs)"

lemma lost_none: "(wc_terminal (lost s code m sd st) = None) = False"
  by (simp add: client_defs)

lemma snapshotFrame_log:
  "wc_terminal (snapshotFrame env s v) = None \<Longrightarrow> wc_accepted (snapshotFrame env s v) = wc_accepted s @ [v]"
  by (auto simp: snapshotFrame_def notifyLive_def Let_def client_defs split: option.splits list.splits if_splits)

lemma deliver_log: "wc_terminal (deliver s e) = None \<Longrightarrow> wc_accepted (deliver s e) = wc_accepted s"
  by (auto simp: client_defs split: list.splits if_splits)

lemma changeFrameIn_log:
  assumes "wc_terminal (changeFrameIn env s c) = None"
  shows "wc_accepted (changeFrameIn env s c) = wc_accepted s @ [c]"
proof -
  have n: "wc_terminal (notifyLive env t d) = None \<Longrightarrow> wc_accepted (notifyLive env t d) = wc_accepted t" for t d
    by (auto simp: notifyLive_def Let_def client_defs split: if_splits)
  show ?thesis
    using assms deliver_log n
    by (auto simp: lost_none changeFrameIn_def Let_def acceptLog_def setSilenceDeadline_def split: option.splits if_splits)
qed

lemma heartbeatFrame_log:
  "wc_terminal (heartbeatFrame s c d) = None \<Longrightarrow> wc_accepted (heartbeatFrame s c d) = wc_accepted s"
  by (auto simp: lost_none heartbeatFrame_def setSilenceDeadline_def split: option.splits if_splits)

lemma frameStep_log:
  assumes "wc_terminal (frameStep env s f) = None"
  shows "wc_accepted (frameStep env s f) = wc_accepted s @ payloads [f]"
  using assms
  by (cases f) (auto simp: lost_none frameStep_def Let_def payloads_def snapshotFrame_log changeFrameIn_log heartbeatFrame_log
      split: if_splits)

lemma readFrames_log:
  "wc_terminal (readFrames env s fs) = None \<Longrightarrow> wc_terminal s = None \<Longrightarrow>
    wc_accepted (readFrames env s fs) = wc_accepted s @ payloads fs"
proof (induction env s fs rule: readFrames.induct)
  case (1 env s)
  then show ?case by (simp add: payloads_def)
next
  case (2 env s f fs)
  then show ?case
    using frameStep_log [of env s f] by (auto simp: Let_def payloads_def split: if_splits)
qed

text \<open>A response whose body is a frame sequence, read in one chunk by a fresh client.\<close>

definition readBody :: "string \<Rightarrow> client_env \<Rightarrow> (watch_frame \<Rightarrow> string) \<Rightarrow> watch_frame list \<Rightarrow> watch_client" where
  "readBody kind env render fs =
    chunkStep env (openedStep (createHubEventWatch kind False (ce_now env)) 200 ReadableBody (Some ''application/x-ndjson''))
      (bodyOf render fs)"

lemma readBody_frames:
  assumes "\<forall>f \<in> set fs. renders env render f"
  shows "\<exists>s0. reader_ok s0 \<and> wc_kind s0 = kind \<and> wc_accepted s0 = [] \<and> wc_cursor s0 = None \<and>
    (readBody kind env render fs)\<lparr>wc_text := x, wc_phase := p\<rparr> = (readFrames env s0 fs)\<lparr>wc_text := x, wc_phase := p\<rparr>"
proof -
  let ?s0 = "openedStep (createHubEventWatch kind False (ce_now env)) 200 ReadableBody (Some ''application/x-ndjson'')"
  have ct: "strIncludes (toLowerCase (orElse (Some ''application/x-ndjson'') '''')) ''application/x-ndjson''"
    by code_simp
  have s0: "?s0 = (createHubEventWatch kind False (ce_now env))\<lparr>wc_hasBody := True, wc_phase := Reading\<rparr>"
    using ct by (simp add: openedStep_def createHubEventWatch_def Let_def)
  have "reader_ok ?s0"
    unfolding reader_ok_def s0 using client_ok_new [of kind False "ce_now env"]
    by (simp only: client_ok_fields) (simp add: createHubEventWatch_def Let_def)
  moreover have "wc_kind ?s0 = kind" "wc_accepted ?s0 = []" "wc_cursor ?s0 = None" "wc_text ?s0 = []"
      "wc_phase ?s0 = Reading" "wc_terminal ?s0 = None"
    by (simp_all only: s0) (simp_all add: createHubEventWatch_def Let_def)
  ultimately show ?thesis
    using linesStep_frames [OF assms, where s = ?s0 and x = x and p = p] by (auto simp: readBody_def chunkStep_def)
qed

end
