(* ===== verification/HubWatchPipeline.thy ===== *)
theory HubWatchPipeline
  imports HubWatchWire
begin

text \<open>
  A watch stream connected to the store (\<open>createHubEventWatchStream\<close> with its \<open>source\<close>): the store's
  callbacks run \<open>enqueue\<close> and the error handler synchronously, the heartbeat reads the store's cursor,
  and closing the stream closes its subscription. Every interleaving of store calls and stream events
  writes a frame sequence the client accepts.
\<close>

record watch_link =
  wl_store :: hub_store
  wl_server :: watch_server
  wl_id :: nat

text \<open>\<open>source.snapshot(kind).cursor\<close>, \<open>None\<close> when it throws.\<close>

definition sourceCursor :: "hub_store \<Rightarrow> string \<Rightarrow> jsval option" where
  "sourceCursor s kind = (case snapshot s kind of Inr snap \<Rightarrow> Some (jsProp snap ''cursor'') | Inl e \<Rightarrow> None)"

text \<open>
  A callback runs while the store has already advanced its cursor (\<open>Notify\<close>) or is unavailable
  (\<open>Fail\<close>).
\<close>

definition runCallback :: "pump_env \<Rightarrow> hub_store \<Rightarrow> watch_server \<Rightarrow> hub_event \<Rightarrow> watch_server" where
  "runCallback env post w e = (case e of
      Notify i change \<Rightarrow> enqueue (env\<lparr>pe_source := sourceCursor post (ws_kind w)\<rparr>) w change
    | Fail i err \<Rightarrow> sourceError (env\<lparr>pe_source := None\<rparr>) w err)"

datatype stream_event = ReadPull | HeartbeatTick | Disconnect bool | Shutdown bool

definition streamStep :: "pump_env \<Rightarrow> watch_server \<Rightarrow> stream_event \<Rightarrow> watch_server" where
  "streamStep env w e = (case e of
      ReadPull \<Rightarrow> readPull env w
    | HeartbeatTick \<Rightarrow> heartbeatTick env w
    | Disconnect b \<Rightarrow> onDisconnect b w
    | Shutdown b \<Rightarrow> shutdownWatch env b w)"

datatype link_event = FromStore pump_env store_call | FromStream pump_env stream_event

definition closeIfLeft :: "hub_store \<Rightarrow> watch_server \<Rightarrow> nat \<Rightarrow> hub_store" where
  "closeIfLeft s w i = (if ws_subscribed w then s else removeSubscriber s i)"

definition linkStep :: "watch_link \<Rightarrow> link_event \<Rightarrow> watch_link" where
  "linkStep l e = (case e of
      FromStore env c \<Rightarrow>
        let r = storeCall (wl_store l) c;
            w = foldl (runCallback env (fst r)) (wl_server l) (eventsFor (wl_id l) (snd r))
        in l\<lparr>wl_store := closeIfLeft (fst r) w (wl_id l), wl_server := w\<rparr>
    | FromStream env ev \<Rightarrow>
        let w = streamStep (env\<lparr>pe_source := sourceCursor (wl_store l) (ws_kind (wl_server l))\<rparr>) (wl_server l) ev
        in l\<lparr>wl_store := closeIfLeft (wl_store l) w (wl_id l), wl_server := w\<rparr>)"

text \<open>\<open>createHubEventWatchStream\<close>: the subscription is taken first and its snapshot is queued.\<close>

definition createHubEventWatchStream :: "hub_store \<Rightarrow> string \<Rightarrow> hub_source_error + watch_link" where
  "createHubEventWatchStream s kind = (case subscribe s kind of
      Inl e \<Rightarrow> Inl e
    | Inr (t, i, snap) \<Rightarrow> Inr \<lparr>wl_store = t, wl_server = newWatchServer kind snap, wl_id = i\<rparr>)"

text \<open>
  Assumed of an event: its schema check lets only frames with well-formed cursors pass, other parties
  leave this subscription alone.
\<close>

definition event_ok :: "nat \<Rightarrow> link_event \<Rightarrow> bool" where
  "event_ok i e = (case e of
      FromStore env c \<Rightarrow> leaves i c \<and> (\<forall>f. pe_valid env f \<longrightarrow> frame_valid f)
    | FromStream env ev \<Rightarrow> (\<forall>f. pe_valid env f \<longrightarrow> frame_valid f))"

section \<open>Cursors along a run\<close>

definition link_ok :: "watch_link \<Rightarrow> bool" where
  "link_ok l \<longleftrightarrow> store_ok (wl_store l) \<and> server_ok (wl_server l) \<and>
     (if ws_subscribed (wl_server l) then present (wl_store l) (wl_id l) (feedEnd (wl_server l))
      else gone (wl_store l) (wl_id l))"

lemma sourceCursor_cursor:
  "store_ok s \<Longrightarrow> sourceCursor s kind = Some c \<Longrightarrow> hs_cursor s = Some c"
  by (auto simp: sourceCursor_def snapshot_def makeSnapshot_def store_ok_def split: sum.splits option.splits if_splits)

lemma present_cursorLe:
  assumes "store_ok s" and "present s i v" and "hs_cursor s = Some c"
  shows "cursorLe v (cursorView c)"
  using assms by (auto simp: present_def store_ok_def list_all_iff sub_ok_def)

lemma present_gone: "present s i v \<Longrightarrow> store_ok s \<Longrightarrow> gone (removeSubscriber s i) i"
  by (auto simp: present_def gone_def removeSubscriber_def store_ok_def list_all_iff sub_ok_def)

lemma gone_remove: "gone s i \<Longrightarrow> gone (removeSubscriber s i) i"
  by (auto simp: gone_def removeSubscriber_def)

lemma quiet_gone: "quiet s r \<Longrightarrow> gone s i \<Longrightarrow> eventsFor i (snd r) = []"
  by (auto simp: quiet_def gone_def eventFor_def filter_empty_conv)

lemma gone_no_events:
  assumes ok: "store_ok s" and g: "gone s i"
  shows "eventsFor i (snd (storeCall s c)) = []"
proof (cases c)
  case (Consume throws audit)
  let ?r = "(fst (consume throws s audit), fst (snd (consume throws s audit)))"
  from consume_shape [OF ok, of throws audit] show ?thesis
  proof
    assume "quiet s ?r"
    from quiet_gone [OF this g] show ?thesis by (simp add: Consume)
  next
    assume d: "dispatches throws s ?r"
    then have "eventsFor i (snd ?r) = map (Notify i) (framesFor i (snd ?r))"
      unfolding dispatches_def dispatchChange_def Let_def using eventsFor_Notify by auto
    with call_when_gone [OF ok g, of c] show ?thesis by (simp add: Consume)
  qed
next
  case CloseStore
  have "quiet s (closeStore s)"
    by (auto simp: closeStore_def quiet_def invalidate_def)
  from quiet_gone [OF this g] show ?thesis by (simp add: CloseStore)
qed (simp_all split: sum.split)

lemma link_env_ok:
  assumes "link_ok l"
  shows "env_ok (env\<lparr>pe_source := sourceCursor (wl_store l) (ws_kind (wl_server l))\<rparr>) (wl_server l)"
proof -
  have "ws_subscribed (wl_server l)" if "\<not> ws_detached (wl_server l)" "ws_terminal (wl_server l) = None"
    using assms that by (simp add: link_ok_def server_ok_def)
  then show ?thesis
    using assms sourceCursor_cursor [of "wl_store l"] present_cursorLe [of "wl_store l" "wl_id l" "feedEnd (wl_server l)"]
    by (auto simp: link_ok_def env_ok_def)
qed

lemma streamStep_ok:
  assumes "server_ok w" and "env_ok env w"
  shows "server_ok (streamStep env w e) \<and>
    (ws_subscribed (streamStep env w e) \<longrightarrow> ws_subscribed w \<and> feedEnd (streamStep env w e) = feedEnd w)"
  using assms readPull_ok [of w env] heartbeatTick_ok [of w env] onDisconnect_ok [of w] shutdownWatch_ok [of w env]
  by (cases e) (simp_all add: streamStep_def)

lemma linkStep_stream_ok:
  assumes ok: "link_ok l"
  shows "link_ok (linkStep l (FromStream env e))"
proof -
  let ?env = "env\<lparr>pe_source := sourceCursor (wl_store l) (ws_kind (wl_server l))\<rparr>"
  let ?w = "streamStep ?env (wl_server l) e"
  have w: "server_ok ?w" "ws_subscribed ?w \<longrightarrow> ws_subscribed (wl_server l) \<and> feedEnd ?w = feedEnd (wl_server l)"
    using streamStep_ok [OF _ link_env_ok [OF ok]] ok by (auto simp: link_ok_def)
  show ?thesis
    using ok w present_gone [of "wl_store l" "wl_id l" "feedEnd (wl_server l)"] gone_remove
    by (auto simp: link_ok_def linkStep_def Let_def closeIfLeft_def store_ok_remove split: if_splits)
qed

lemma linkStep_store_ok:
  assumes ok: "link_ok l" and lv: "leaves (wl_id l) c"
  shows "link_ok (linkStep l (FromStore env c))"
proof -
  let ?s = "wl_store l" let ?w = "wl_server l" let ?i = "wl_id l"
  let ?t = "storeStep ?s c"
  have t: "store_ok ?t" using ok by (simp add: link_ok_def storeStep_ok)
  have step: "linkStep l (FromStore env c) = l\<lparr>wl_store := closeIfLeft ?t w ?i, wl_server := w\<rparr>"
    if "w = foldl (runCallback env ?t) ?w (eventsFor ?i (snd (storeCall ?s c)))" for w
    by (simp add: linkStep_def Let_def that storeStep_def)
  show ?thesis
  proof (cases "ws_subscribed ?w")
    case False
    then have g: "gone ?s ?i" and so: "store_ok ?s" using ok by (simp_all add: link_ok_def)
    then have "eventsFor ?i (snd (storeCall ?s c)) = []" "gone ?t ?i"
      using gone_no_events call_when_gone by auto
    then show ?thesis
      using ok False t step [of ?w] gone_remove by (simp add: link_ok_def closeIfLeft_def store_ok_remove)
  next
    case True
    then have pres: "present ?s ?i (feedEnd ?w)" and so: "store_ok ?s" and wo: "server_ok ?w"
      using ok by (simp_all add: link_ok_def)
    from call_events [OF so pres lv] show ?thesis
    proof (elim disjE exE conjE)
      assume "eventsFor ?i (snd (storeCall ?s c)) = []" "present ?t ?i (feedEnd ?w)"
      then show ?thesis using True t wo step [of ?w] by (simp add: link_ok_def closeIfLeft_def)
    next
      fix f assume ev: "eventsFor ?i (snd (storeCall ?s c)) = [Notify ?i f]"
        and f: "cursorView (jsProp f ''previousCursor'') = feedEnd ?w"
          "cursorLess (feedEnd ?w) (cursorView (jsProp f ''cursor''))"
        and pres': "present ?t ?i (cursorView (jsProp f ''cursor''))"
      let ?env = "env\<lparr>pe_source := sourceCursor ?t (ws_kind ?w)\<rparr>"
      have le: "cursorLe (cursorView (jsProp f ''cursor'')) (cursorView d)" if "pe_source ?env = Some d" for d
        using that present_cursorLe [OF t pres'] sourceCursor_cursor [OF t] by auto
      have w: "server_ok (enqueue ?env ?w f)"
        "ws_subscribed (enqueue ?env ?w f) \<longrightarrow> feedEnd (enqueue ?env ?w f) = cursorView (jsProp f ''cursor'')"
        using enqueue_ok [OF wo f, of ?env] le by blast+
      have st: "linkStep l (FromStore env c) =
          l\<lparr>wl_store := closeIfLeft ?t (enqueue ?env ?w f) ?i, wl_server := enqueue ?env ?w f\<rparr>"
        using step [OF refl] ev by (simp add: runCallback_def)
      show ?thesis
        unfolding st using w t pres' present_gone [OF pres' t] by (auto simp: link_ok_def closeIfLeft_def store_ok_remove)
    next
      fix e assume ev: "eventsFor ?i (snd (storeCall ?s c)) = [Fail ?i e]" and g: "gone ?t ?i"
      let ?env = "env\<lparr>pe_source := None\<rparr>"
      have st: "linkStep l (FromStore env c) =
          l\<lparr>wl_store := closeIfLeft ?t (sourceError ?env ?w e) ?i, wl_server := sourceError ?env ?w e\<rparr>"
        using step [OF refl] ev by (simp add: runCallback_def)
      show ?thesis
        unfolding st using sourceError_ok [OF wo, of ?env e] t gone_remove [OF g]
        by (simp add: link_ok_def closeIfLeft_def store_ok_remove)
    qed
  qed
qed

lemma linkStep_ok: "link_ok l \<Longrightarrow> event_ok (wl_id l) e \<Longrightarrow> link_ok (linkStep l e)"
  using linkStep_store_ok linkStep_stream_ok by (cases e) (auto simp: event_ok_def)

lemma linkStep_id: "wl_id (linkStep l e) = wl_id l"
  by (cases e) (simp_all add: linkStep_def Let_def)

lemma linkRun_ok: "link_ok l \<Longrightarrow> list_all (event_ok (wl_id l)) es \<Longrightarrow> link_ok (foldl linkStep l es)"
  by (induction es arbitrary: l) (simp_all add: linkStep_ok linkStep_id)

lemma createHubEventWatchStream_ok:
  assumes "store_ok s" and "createHubEventWatchStream s kind = Inr l"
  shows "link_ok l \<and> ws_out (wl_server l) = [] \<and> ws_kind (wl_server l) = kind"
proof -
  from assms(2) obtain t i snap where sub: "subscribe s kind = Inr (t, i, snap)"
    and l: "l = \<lparr>wl_store = t, wl_server = newWatchServer kind snap, wl_id = i\<rparr>"
    by (auto simp: createHubEventWatchStream_def split: sum.splits)
  obtain b c where t: "store_ok t" "hs_cursor s = Some c" "hs_subscribers t = hs_subscribers s @ [b]" "sb_id b = i"
      "sb_prev b = c" "snap = makeSnapshot s kind c"
    using subscribe_ok [OF assms(1) sub] by blast
  have "isJson c" using assms(1) t(2) by (simp add: store_ok_def)
  then have "present t i (cursorView (jsProp snap ''cursor''))"
    using t by (auto simp: present_def makeSnapshot_def)
  then show ?thesis
    using t(1) server_ok_new by (simp add: l link_ok_def) (simp add: newWatchServer_def)
qed

section \<open>Kinds and well-formed cursors of the frames\<close>

definition frames_ok :: "watch_server \<Rightarrow> bool" where
  "frames_ok w \<longleftrightarrow> (\<forall>f \<in> set (ws_out w). frameKind f = JStr (ws_kind w) \<and> frame_valid f) \<and>
     (\<forall>v. ws_snapshot w = Some v \<longrightarrow> jsProp v ''kind'' = JStr (ws_kind w)) \<and>
     (\<forall>c \<in> set (ws_live w). jsProp c ''kind'' = JStr (ws_kind w)) \<and>
     (\<forall>t. ws_terminal w = Some t \<longrightarrow> frameKind t = JStr (ws_kind w))"

lemma frames_ok_flags [simp]:
  "frames_ok (w\<lparr>ws_blocked := b\<rparr>) = frames_ok w"
  "frames_ok (w\<lparr>ws_heartbeatPending := b\<rparr>) = frames_ok w"
  "frames_ok (w\<lparr>ws_destroyed := b\<rparr>) = frames_ok w"
  "frames_ok (w\<lparr>ws_resDestroyed := b\<rparr>) = frames_ok w"
  "frames_ok (endStream w) = frames_ok w"
  "frames_ok (detach w) = frames_ok w"
  by (simp_all add: frames_ok_def)

lemma taken_frames:
  assumes "takeFrame env w = Taken f t" and "frames_ok w"
  shows "frames_ok t \<and> ws_kind t = ws_kind w \<and> frameKind f = JStr (ws_kind w) \<and> frames_ok (putBack f t) \<and>
    ws_kind (putBack f t) = ws_kind w"
  using assms(1)
proof (cases rule: takeFrame_cases)
  case terminal
  then show ?thesis using assms(2) by (cases f) (auto simp: frames_ok_def frameKind_def)
qed (use assms(2) in \<open>auto simp: frames_ok_def frameKind_def\<close>)

lemma pumpLoop_frames:
  assumes V: "\<forall>f. pe_valid env f \<longrightarrow> frame_valid f"
  shows "frames_ok w \<Longrightarrow> frames_ok (pumpLoop env w) \<and> ws_kind (pumpLoop env w) = ws_kind w"
  using V
proof (induction env w rule: pumpLoop.induct)
  case (1 env w)
  show ?case
  proof (cases "takeFrame env w")
    case NoFrame
    then show ?thesis using "1.prems" by (simp add: pumpLoop.simps [of env w])
  next
    case (TakeThrows t)
    then show ?thesis using "1.prems" takeFrame_throws [OF TakeThrows] by (simp add: pumpLoop.simps [of env w])
  next
    case (Taken f t)
    note tf = taken_frames [OF Taken "1.prems"(1)]
    have w: "frames_ok (writeFrame f t)" if "pe_valid env f"
    proof -
      have "frame_valid f" using "1.prems"(2) that by blast
      then show ?thesis using tf by (auto simp: frames_ok_def)
    qed
    show ?thesis
      using "1.IH" [OF _ Taken] "1.prems" tf w by (simp add: pumpLoop.simps [of env w] Taken)
  qed
qed

lemma pump_frames:
  "\<forall>f. pe_valid env f \<longrightarrow> frame_valid f \<Longrightarrow> frames_ok w \<Longrightarrow> frames_ok (pump env w) \<and> ws_kind (pump env w) = ws_kind w"
  by (simp add: pump_def pumpLoop_frames)

lemma failWatch_frames:
  assumes "\<forall>f. pe_valid env f \<longrightarrow> frame_valid f" and "frames_ok w"
  shows "frames_ok (failWatch env w code msg cur) \<and> ws_kind (failWatch env w code msg cur) = ws_kind w"
proof -
  let ?t = "w\<lparr>ws_terminal := Some (ErrorFrame (ws_kind w) code msg cur (code = WATCH_OVERFLOW)),
    ws_live := [], ws_timer := False, ws_subscribed := False\<rparr>"
  have "frames_ok ?t" using assms(2) by (simp add: frames_ok_def frameKind_def)
  with pump_frames [OF assms(1), of ?t] assms(2) show ?thesis by (simp add: failWatch_def)
qed

lemma enqueue_frames:
  assumes "\<forall>f. pe_valid env f \<longrightarrow> frame_valid f" and "frames_ok w" and "jsProp c ''kind'' = JStr (ws_kind w)"
  shows "frames_ok (enqueue env w c) \<and> ws_kind (enqueue env w c) = ws_kind w"
proof -
  have "frames_ok (w\<lparr>ws_live := ws_live w @ [c]\<rparr>)" using assms(2,3) by (auto simp: frames_ok_def)
  with pump_frames [OF assms(1), of "w\<lparr>ws_live := ws_live w @ [c]\<rparr>"] failWatch_frames [OF assms(1,2)] assms(2)
  show ?thesis by (simp add: enqueue_def)
qed

lemma streamStep_frames:
  assumes V: "\<forall>f. pe_valid env f \<longrightarrow> frame_valid f" and ok: "frames_ok w"
  shows "frames_ok (streamStep env w e) \<and> ws_kind (streamStep env w e) = ws_kind w"
proof (cases e)
  case ReadPull
  then show ?thesis using pump_frames [OF V, of "w\<lparr>ws_blocked := False\<rparr>"] ok
    by (simp add: streamStep_def readPull_def)
next
  case HeartbeatTick
  then show ?thesis using pump_frames [OF V, of "w\<lparr>ws_heartbeatPending := True\<rparr>"] ok
    by (simp add: streamStep_def heartbeatTick_def)
next
  case (Disconnect b)
  then show ?thesis using ok by (simp add: streamStep_def onDisconnect_def Let_def)
next
  case (Shutdown b)
  have k: "ws_kind (endStream t) = ws_kind t" for t by simp
  show ?thesis
    using failWatch_frames [OF V ok] ok by (simp add: Shutdown streamStep_def shutdownWatch_def Let_def k)
qed

definition link_frames_ok :: "string \<Rightarrow> watch_link \<Rightarrow> bool" where
  "link_frames_ok k l \<longleftrightarrow> link_ok l \<and> frames_ok (wl_server l) \<and> ws_kind (wl_server l) = k \<and> kindFor (wl_store l) (wl_id l) k"

lemma kindFor_close: "kindFor s i k \<Longrightarrow> kindFor (closeIfLeft s w j) i k"
  by (auto simp: kindFor_def closeIfLeft_def removeSubscriber_def)

lemma Notify_frames: "Notify i f \<in> set es \<Longrightarrow> f \<in> set (framesFor i es)"
  by (induction i es rule: framesFor.induct) auto

lemma callbacks_frames:
  assumes "\<forall>f. pe_valid env f \<longrightarrow> frame_valid f"
    and "\<forall>e \<in> set es. \<forall>i f. e = Notify i f \<longrightarrow> jsProp f ''kind'' = JStr (ws_kind w)" and "frames_ok w"
  shows "frames_ok (foldl (runCallback env post) w es) \<and> ws_kind (foldl (runCallback env post) w es) = ws_kind w"
  using assms(2,3)
proof (induction es arbitrary: w)
  case Nil
  then show ?case by simp
next
  case (Cons e es)
  have step: "frames_ok (runCallback env post w e) \<and> ws_kind (runCallback env post w e) = ws_kind w"
  proof (cases e)
    case (Notify i f)
    then show ?thesis
      using Cons.prems assms(1) enqueue_frames [of "env\<lparr>pe_source := sourceCursor post (ws_kind w)\<rparr>" w f]
      by (simp add: runCallback_def)
  next
    case (Fail i err)
    then show ?thesis
      using Cons.prems assms(1) failWatch_frames [of "env\<lparr>pe_source := None\<rparr>" w]
      by (cases err) (simp add: runCallback_def sourceError_def)
  qed
  with Cons show ?case by simp
qed

lemma linkStep_frames:
  assumes ok: "link_frames_ok k l" and ev: "event_ok (wl_id l) e"
  shows "link_frames_ok k (linkStep l e)"
proof -
  have lk: "link_ok (linkStep l e)" using linkStep_ok ok ev by (simp add: link_frames_ok_def)
  have so: "store_ok (wl_store l)" and fr: "frames_ok (wl_server l)" and kd: "ws_kind (wl_server l) = k"
    and kf: "kindFor (wl_store l) (wl_id l) k"
    using ok by (simp_all add: link_frames_ok_def link_ok_def)
  show ?thesis
  proof (cases e)
    case (FromStream env se)
    let ?env = "env\<lparr>pe_source := sourceCursor (wl_store l) (ws_kind (wl_server l))\<rparr>"
    have "\<forall>f. pe_valid ?env f \<longrightarrow> frame_valid f" using ev by (simp add: FromStream event_ok_def)
    from streamStep_frames [OF this fr, of se] show ?thesis
      using lk kd kf by (simp add: FromStream link_frames_ok_def linkStep_def Let_def kindFor_close)
  next
    case (FromStore env c)
    let ?es = "eventsFor (wl_id l) (snd (storeCall (wl_store l) c))"
    have V: "\<forall>f. pe_valid env f \<longrightarrow> frame_valid f" using ev by (simp add: FromStore event_ok_def)
    note ck = call_kind [OF so kf, of c]
    have "\<forall>x \<in> set ?es. \<forall>i f. x = Notify i f \<longrightarrow> jsProp f ''kind'' = JStr (ws_kind (wl_server l))"
      using ck kd by (auto simp: eventFor_def dest: Notify_frames)
    from callbacks_frames [OF V this fr, of "fst (storeCall (wl_store l) c)"] show ?thesis
      using lk kd ck by (simp add: FromStore link_frames_ok_def linkStep_def Let_def kindFor_close storeStep_def)
  qed
qed

lemma linkRun_frames: "link_frames_ok k l \<Longrightarrow> list_all (event_ok (wl_id l)) es \<Longrightarrow> link_frames_ok k (foldl linkStep l es)"
  by (induction es arbitrary: l) (simp_all add: linkStep_frames linkStep_id)

lemma createHubEventWatchStream_frames:
  assumes "store_ok s" and "createHubEventWatchStream s kind = Inr l"
  shows "link_frames_ok kind l"
proof -
  from assms(2) obtain t i snap where sub: "subscribe s kind = Inr (t, i, snap)"
    and l: "l = \<lparr>wl_store = t, wl_server = newWatchServer kind snap, wl_id = i\<rparr>"
    by (auto simp: createHubEventWatchStream_def split: sum.splits)
  obtain b c where t: "hs_subscribers t = hs_subscribers s @ [b]" "sb_id b = i" "sb_kind b = kind" "hs_next t = Suc i"
      "i = hs_next s" "snap = makeSnapshot s kind c"
    using subscribe_ok [OF assms(1) sub] by blast
  have "\<forall>b \<in> set (hs_subscribers s). sb_id b < hs_next s"
    using assms(1) by (simp add: store_ok_def list_all_iff sub_ok_def)
  then have "kindFor t i kind" using t by (auto simp: kindFor_def)
  then show ?thesis
    using createHubEventWatchStream_ok [OF assms] t
    by (simp add: l link_frames_ok_def) (simp add: frames_ok_def newWatchServer_def makeSnapshot_def)
qed

end
