(* ===== verification/RpcPath.thy ===== *)
theory RpcPath
  imports Prelude
begin

text \<open>
  \<open>packages/host/src/lib/rpc-path.ts\<close>: matching an RPC path against the expose path of an instance,
  on segment boundaries, and stripping or prefixing it. An absent \<open>exposePath\<close> is \<open>None\<close>.
\<close>

definition normalizedRpcPath :: "string \<Rightarrow> string" where
  "normalizedRpcPath rpcPath = (if prefix ''/'' rpcPath then rpcPath else ''/'' @ rpcPath)"

definition normalizeRpcForwardPath :: "string \<Rightarrow> string option \<Rightarrow> string option \<Rightarrow> string" where
  "normalizeRpcForwardPath rpcPath exposePath apiVersion =
    (let p = normalizedRpcPath rpcPath in
     if apiVersion = Some ''v1'' \<and> (case exposePath of Some e \<Rightarrow> prefix ''/api/v1'' e | None \<Rightarrow> False) \<and> \<not> prefix ''/api/v1'' p
     then ''/api/v1'' @ p else p)"

definition matchesRpcExposePath :: "string \<Rightarrow> string option \<Rightarrow> bool" where
  "matchesRpcExposePath rpcPath exposePath = (case exposePath of
      None \<Rightarrow> False
    | Some e \<Rightarrow>
        if e = [] then False
        else let p = normalizedRpcPath rpcPath in
          if e = ''/'' then prefix ''/'' p
          else if \<not> prefix e p then False
          else (case drop (length e) p of [] \<Rightarrow> True | c # _ \<Rightarrow> c = CHR ''/'' \<or> c = CHR ''?'' \<or> c = CHR ''#''))"

definition stripRpcExposePath :: "string \<Rightarrow> string option \<Rightarrow> string" where
  "stripRpcExposePath rpcPath exposePath =
    (let p = normalizedRpcPath rpcPath in
     if exposePath = Some ''/'' then orElse (Some p) ''/''
     else (case exposePath of
         Some e \<Rightarrow>
           if e \<noteq> [] \<and> matchesRpcExposePath p (Some e) then
             (let stripped = orElse (Some (drop (length e) p)) ''/'' in
              if prefix ''?'' stripped then ''/'' @ stripped else stripped)
           else orElse (Some p) ''/''
       | None \<Rightarrow> orElse (Some p) ''/''))"

section \<open>What matching means\<close>

lemma normalized_slash: "prefix ''/'' (normalizedRpcPath p)"
  by (simp add: normalizedRpcPath_def)

lemma normalized_idem [simp]: "normalizedRpcPath (normalizedRpcPath p) = normalizedRpcPath p"
  by (simp add: normalizedRpcPath_def)

lemma normalized_nonempty [simp]: "normalizedRpcPath p \<noteq> []"
  by (auto simp: normalizedRpcPath_def)

text \<open>A path below an expose path is the expose path followed by nothing or by a delimiter.\<close>

definition belowPath :: "string \<Rightarrow> string \<Rightarrow> bool" where
  "belowPath e p \<longleftrightarrow> (\<exists>rest. p = e @ rest \<and> (rest = [] \<or> hd rest \<in> {CHR ''/'', CHR ''?'', CHR ''#''}))"

lemma matches_iff:
  "matchesRpcExposePath p (Some e) \<longleftrightarrow> e \<noteq> [] \<and> (e = ''/'' \<or> belowPath e (normalizedRpcPath p))"
proof (cases "e = [] \<or> e = ''/''")
  case True
  then show ?thesis using normalized_slash [of p] by (auto simp: matchesRpcExposePath_def Let_def)
next
  case False
  have "belowPath e q \<longleftrightarrow> prefix e q \<and> (case drop (length e) q of [] \<Rightarrow> True | c # _ \<Rightarrow> c = CHR ''/'' \<or> c = CHR ''?'' \<or> c = CHR ''#'')"
    for q
    by (auto simp: belowPath_def prefix_def split: list.splits)
  with False show ?thesis by (simp add: matchesRpcExposePath_def Let_def)
qed

lemma belowPath_nested: "belowPath e p \<Longrightarrow> belowPath f p \<Longrightarrow> length e \<le> length f \<Longrightarrow> prefix e f"
proof -
  assume b: "belowPath e p" "belowPath f p" and l: "length e \<le> length f"
  have "prefix g p" if "belowPath g p" for g
    using that unfolding belowPath_def prefix_def by blast
  with b have "prefix e p" "prefix f p" by simp_all
  then show "prefix e f" using l by (rule prefix_length_prefix)
qed

lemma strip_rest:
  assumes "matchesRpcExposePath p (Some e)" and "e \<noteq> ''/''"
  shows "\<exists>rest. normalizedRpcPath p = e @ rest \<and> stripRpcExposePath p (Some e) =
    (if rest = [] then ''/'' else if hd rest = CHR ''?'' then CHR ''/'' # rest else rest)"
proof -
  have m: "matchesRpcExposePath (normalizedRpcPath p) (Some e)"
    using assms(1) by (simp add: matches_iff)
  from assms obtain rest where r: "normalizedRpcPath p = e @ rest" "e \<noteq> []"
    by (auto simp: matches_iff belowPath_def)
  show ?thesis
    using r m assms(2) by (cases rest) (auto simp: stripRpcExposePath_def Let_def orElse_def)
qed

end
