(* ===== verification/RuntimeManifest.thy ===== *)
theory RuntimeManifest
  imports JsValue
begin

text \<open>
  \<open>packages/rest-api2/src/runtime-manifest.ts\<close>: the detached copy of a manifest declaration. Unlike the
  copy of the hub state it rejects \<open>undefined\<close> properties and reports where the offending value lies.
  The DTO schema (\<open>zod\<close>) that runs on the copy is a parameter.
\<close>

datatype path_seg = PIndex nat | PKey string

datatype reject_reason =
    NotFinite | NotJsonData | CyclicValue | NotPlainArray | NonIndexProperties | AccessorInArray
  | NotPlainObject | SymbolKeys | AccessorInObject

datatype zod_error = CustomIssue "path_seg list" reject_reason | SchemaIssues

definition arrayReject :: "shape \<Rightarrow> reject_reason" where
  "arrayReject sh = (case sh of Cyclic \<Rightarrow> CyclicValue | ForeignPrototype \<Rightarrow> NotPlainArray
     | BadKeys \<Rightarrow> NonIndexProperties | _ \<Rightarrow> AccessorInArray)"

definition objectReject :: "shape \<Rightarrow> reject_reason" where
  "objectReject sh = (case sh of Cyclic \<Rightarrow> CyclicValue | ForeignPrototype \<Rightarrow> NotPlainObject
     | BadKeys \<Rightarrow> SymbolKeys | _ \<Rightarrow> AccessorInObject)"

fun copyJsonValue :: "jsval \<Rightarrow> path_seg list \<Rightarrow> zod_error + jsval"
  and copyItems :: "jsval list \<Rightarrow> path_seg list \<Rightarrow> nat \<Rightarrow> zod_error + jsval list"
  and copyProps :: "(string \<times> jsval) list \<Rightarrow> path_seg list \<Rightarrow> zod_error + (string \<times> jsval) list" where
  "copyJsonValue JNull path = Inr JNull"
| "copyJsonValue (JStr s) path = Inr (JStr s)"
| "copyJsonValue (JBool b) path = Inr (JBool b)"
| "copyJsonValue (JNum n) path = (if isFinite n then Inr (JNum n) else Inl (CustomIssue path NotFinite))"
| "copyJsonValue JUndefined path = Inl (CustomIssue path NotJsonData)"
| "copyJsonValue JOpaque path = Inl (CustomIssue path NotJsonData)"
| "copyJsonValue (JArr sh xs) path =
     (if sh = Plain then bindR (copyItems xs path 0) (\<lambda>ys. Inr (JArr Plain ys)) else Inl (CustomIssue path (arrayReject sh)))"
| "copyJsonValue (JObj sh fs) path =
     (if sh = Plain then bindR (copyProps fs path) (\<lambda>gs. Inr (JObj Plain gs)) else Inl (CustomIssue path (objectReject sh)))"
| "copyItems [] path i = Inr []"
| "copyItems (x # xs) path i =
     bindR (copyJsonValue x (path @ [PIndex i])) (\<lambda>y. bindR (copyItems xs path (Suc i)) (\<lambda>ys. Inr (y # ys)))"
| "copyProps [] path = Inr []"
| "copyProps (f # fs) path =
     bindR (copyJsonValue (snd f) (path @ [PKey (fst f)])) (\<lambda>y. bindR (copyProps fs path) (\<lambda>gs. Inr ((fst f, y) # gs)))"

definition snapshotUsingSchema :: "(jsval \<Rightarrow> bool) \<Rightarrow> jsval \<Rightarrow> zod_error + jsval" where
  "snapshotUsingSchema schema input =
    bindR (copyJsonValue input []) (\<lambda>c. if schema c then Inr c else Inl SchemaIssues)"

definition snapshotManifestDeclaration :: "(jsval \<Rightarrow> bool) \<Rightarrow> jsval \<Rightarrow> zod_error + jsval" where
  "snapshotManifestDeclaration schema input = snapshotUsingSchema schema input"

definition isManifestDeclaration :: "(jsval \<Rightarrow> bool) \<Rightarrow> jsval \<Rightarrow> bool" where
  "isManifestDeclaration schema input = (case snapshotUsingSchema schema input of Inr _ \<Rightarrow> True | Inl _ \<Rightarrow> False)"

section \<open>The copy accepts JSON data and nothing else\<close>

lemma copyJsonValue_json:
  shows "isJson v \<Longrightarrow> copyJsonValue v p = Inr v"
    and "list_all isJson xs \<Longrightarrow> copyItems xs p i = Inr xs"
    and "list_all (\<lambda>f. isJson (snd f)) fs \<Longrightarrow> copyProps fs p = Inr fs"
  by (induction v p and xs p i and fs p rule: copyJsonValue_copyItems_copyProps.induct) auto

lemma copyJsonValue_Inr:
  shows "copyJsonValue v p = Inr w \<Longrightarrow> w = v \<and> isJson v"
    and "copyItems xs p i = Inr ys \<Longrightarrow> ys = xs \<and> list_all isJson xs"
    and "copyProps fs p = Inr gs \<Longrightarrow> gs = fs \<and> list_all (\<lambda>f. isJson (snd f)) fs"
  by (induction v p and xs p i and fs p arbitrary: w and ys and gs rule: copyJsonValue_copyItems_copyProps.induct)
    (auto simp: bindR_eq_Inr split: if_splits)

text \<open>A value found in another one by following a path.\<close>

inductive at_path :: "jsval \<Rightarrow> path_seg list \<Rightarrow> jsval \<Rightarrow> bool" where
  at_here: "at_path v [] v"
| at_item: "i < length xs \<Longrightarrow> at_path (xs ! i) p w \<Longrightarrow> at_path (JArr Plain xs) (PIndex i # p) w"
| at_key: "(k, x) \<in> set fs \<Longrightarrow> at_path x p w \<Longrightarrow> at_path (JObj Plain fs) (PKey k # p) w"

inductive_cases at_path_NilE: "at_path v [] w"

definition refused :: "jsval \<Rightarrow> bool" where
  "refused v = (case v of JUndefined \<Rightarrow> True | JOpaque \<Rightarrow> True | JNum n \<Rightarrow> \<not> isFinite n
     | JArr sh _ \<Rightarrow> sh \<noteq> Plain | JObj sh _ \<Rightarrow> sh \<noteq> Plain | _ \<Rightarrow> False)"

lemma bindR_eq_Inl: "bindR r f = Inl e \<longleftrightarrow> r = Inl e \<or> (\<exists>a. r = Inr a \<and> f a = Inl e)"
  by (cases r) auto

lemma copyJsonValue_Inl:
  shows "copyJsonValue v p = Inl e \<Longrightarrow> \<exists>q r w. e = CustomIssue (p @ q) r \<and> at_path v q w \<and> refused w"
    and "copyItems xs p i = Inl e \<Longrightarrow>
      \<exists>j q r w. j < length xs \<and> e = CustomIssue (p @ PIndex (i + j) # q) r \<and> at_path (xs ! j) q w \<and> refused w"
    and "copyProps fs p = Inl e \<Longrightarrow>
      \<exists>k x q r w. (k, x) \<in> set fs \<and> e = CustomIssue (p @ PKey k # q) r \<and> at_path x q w \<and> refused w"
proof (induction v p and xs p i and fs p arbitrary: e and e and e rule: copyJsonValue_copyItems_copyProps.induct)
  case (4 n p)
  then have "e = CustomIssue (p @ []) NotFinite \<and> at_path (JNum n) [] (JNum n) \<and> refused (JNum n)"
    by (auto simp: refused_def intro: at_path.at_here split: if_splits)
  then show ?case by blast
next
  case (7 sh xs p)
  show ?case
  proof (cases "sh = Plain")
    case True
    then have "copyItems xs p 0 = Inl e" using "7.prems" by (auto simp: bindR_eq_Inl)
    from "7.IH" [OF True this] True show ?thesis by (force intro: at_path.at_item)
  next
    case False
    then have "e = CustomIssue (p @ []) (arrayReject sh) \<and> at_path (JArr sh xs) [] (JArr sh xs) \<and> refused (JArr sh xs)"
      using "7.prems" by (simp add: refused_def at_path.at_here)
    then show ?thesis by blast
  qed
next
  case (8 sh fs p)
  show ?case
  proof (cases "sh = Plain")
    case True
    then have "copyProps fs p = Inl e" using "8.prems" by (auto simp: bindR_eq_Inl)
    from "8.IH" [OF True this] True show ?thesis by (force intro: at_path.at_key)
  next
    case False
    then have "e = CustomIssue (p @ []) (objectReject sh) \<and> at_path (JObj sh fs) [] (JObj sh fs) \<and> refused (JObj sh fs)"
      using "8.prems" by (simp add: refused_def at_path.at_here)
    then show ?thesis by blast
  qed
next
  case (10 x xs p i)
  from "10.prems" consider "copyJsonValue x (p @ [PIndex i]) = Inl e" | y where "copyJsonValue x (p @ [PIndex i]) = Inr y" "copyItems xs p (Suc i) = Inl e"
    by (auto simp: bindR_eq_Inl)
  then show ?case
  proof cases
    case 1
    from "10.IH"(1) [OF 1] show ?thesis by (intro exI [of _ 0]) auto
  next
    case 2
    from "10.IH"(2) [OF 2(2)] obtain j q r w where "j < length xs" "e = CustomIssue (p @ PIndex (Suc i + j) # q) r"
      "at_path (xs ! j) q w" "refused w" by blast
    then show ?thesis by (intro exI [of _ "Suc j"]) auto
  qed
next
  case (12 f fs p)
  from "12.prems" consider "copyJsonValue (snd f) (p @ [PKey (fst f)]) = Inl e"
    | y where "copyJsonValue (snd f) (p @ [PKey (fst f)]) = Inr y" "copyProps fs p = Inl e"
    by (auto simp: bindR_eq_Inl)
  then show ?case
  proof cases
    case 1
    from "12.IH"(1) [OF 1] show ?thesis by (cases f) auto
  next
    case 2
    from "12.IH"(2) [OF 2(2)] show ?thesis by auto
  qed
qed (auto simp: refused_def intro: at_path.at_here split: if_splits)

section \<open>The copy of a declaration\<close>

text \<open>A declaration is taken over exactly when it is plain JSON data and the schema accepts it; what
  the host keeps then is the declaration itself, value for value.\<close>

theorem manifest_snapshot_exact:
  "snapshotManifestDeclaration schema v = Inr w \<longleftrightarrow> w = v \<and> isJson v \<and> schema v"
proof
  assume "snapshotManifestDeclaration schema v = Inr w"
  then show "w = v \<and> isJson v \<and> schema v"
    using copyJsonValue_Inr(1) [of v "[]"]
    by (auto simp: snapshotManifestDeclaration_def snapshotUsingSchema_def bindR_eq_Inr split: if_splits)
next
  assume "w = v \<and> isJson v \<and> schema v"
  then show "snapshotManifestDeclaration schema v = Inr w"
    by (simp add: snapshotManifestDeclaration_def snapshotUsingSchema_def copyJsonValue_json)
qed

text \<open>A refused value is pinpointed: the path of the error leads from the declaration to a part of it
  that is not JSON data.\<close>

theorem manifest_error_path:
  assumes "copyJsonValue v [] = Inl e"
  shows "\<exists>path reason part. e = CustomIssue path reason \<and> at_path v path part \<and> refused part"
  using copyJsonValue_Inl(1) [OF assms] by simp

lemma manifest_error_path_witness:
  "\<exists>part. at_path (JObj Plain [(''rpc'', JArr Plain [JNull, JUndefined])]) [PKey ''rpc'', PIndex 1] part \<and> refused part"
proof -
  have "copyJsonValue (JObj Plain [(''rpc'', JArr Plain [JNull, JUndefined])]) [] = Inl (CustomIssue [PKey ''rpc'', PIndex 1] NotJsonData)"
    by code_simp
  from manifest_error_path [OF this] show ?thesis by auto
qed

end
