(* ===== verification/InstanceStore.thy ===== *)
theory InstanceStore
  imports RpcPath RuntimeManifest
begin

text \<open>
  \<open>packages/host/src/lib/instance-store.ts\<close>: the host's instances with their reserved ids, stable names,
  RPC expose paths and published manifests.

  An \<open>ICSI\<close> is the record of what the store reads of it; \<open>io_ref\<close> is the identity of the object, so
  that equality of records is \<open>===\<close>. The calls of the two handlers are logged in \<open>is_events\<close> (nothing is
  logged while a handler is unset). \<open>IDProvider.generate()\<close> and the declaration schema are parameters
  of \<open>publishManifest\<close>.
\<close>

record instance_owner =
  io_ref :: nat
  io_id :: string
  io_sequenceId :: "string option"
  io_config :: jsval
  io_sequenceName :: "string option"

record sequence_metadata =
  sm_name :: "string option"
  sm_version :: "string option"
  sm_description :: "string option"

record owner_registration =
  or_owner :: instance_owner
  or_instanceId :: string
  or_sequenceId :: string
  or_sequence :: sequence_metadata
  or_terminated :: bool

record manifest_publication =
  mp_owner :: instance_owner
  mp_declaration :: jsval
  mp_revision :: string

datatype change_action = Published | Updated | Removed
datatype removal_reason = InstanceEnded | InstanceDeleted | InstanceReplaced | HostStopped

record manifest_change =
  mc_action :: change_action
  mc_instanceId :: string
  mc_sequenceId :: string
  mc_revision :: "string option"
  mc_previousRevision :: "string option"
  mc_manifest :: "jsval option"
  mc_sequence :: sequence_metadata
  mc_reason :: "removal_reason option"

datatype instance_event =
    ManifestChanged manifest_change
  | InventoryAudited "instance_owner option" string string

record instances_store =
  is_map :: "(string, instance_owner) jsmap"
  is_expose :: "(string, string list) jsmap"
  is_reserved :: "string list"
  is_nameMap :: "(string, string) jsmap"
  is_nameReverse :: "(string, string) jsmap"
  is_owners :: "(string, owner_registration) jsmap"
  is_manifests :: "(string, manifest_publication) jsmap"
  is_manifestHandler :: bool
  is_auditHandler :: bool
  is_events :: "instance_event list"

definition newInstancesStore :: "bool \<Rightarrow> bool \<Rightarrow> instances_store" where
  "newInstancesStore manifestHandler auditHandler = \<lparr>is_map = [], is_expose = [], is_reserved = [], is_nameMap = [],
     is_nameReverse = [], is_owners = [], is_manifests = [], is_manifestHandler = manifestHandler,
     is_auditHandler = auditHandler, is_events = []\<rparr>"

definition emitManifestChange :: "instances_store \<Rightarrow> manifest_change \<Rightarrow> instances_store" where
  "emitManifestChange s c = (if is_manifestHandler s then s\<lparr>is_events := is_events s @ [ManifestChanged c]\<rparr> else s)"

definition auditInventory :: "instances_store \<Rightarrow> instance_owner option \<Rightarrow> string \<Rightarrow> string \<Rightarrow> instances_store" where
  "auditInventory s owner iid sid =
    (if is_auditHandler s then s\<lparr>is_events := is_events s @ [InventoryAudited owner iid sid]\<rparr> else s)"

definition sequenceIdOf :: "instance_owner \<Rightarrow> string" where
  "sequenceIdOf owner = orElse (io_sequenceId owner) ''''"

definition auditCurrentInstance :: "instances_store \<Rightarrow> instance_owner \<Rightarrow> instances_store" where
  "auditCurrentInstance s owner =
    (if jsGet (is_map s) (io_id owner) \<noteq> Some owner then s
     else auditInventory s (Some owner) (io_id owner) (sequenceIdOf owner))"

section \<open>Manifests\<close>

definition stringOption :: "jsval \<Rightarrow> string option" where
  "stringOption v = (case v of JStr s \<Rightarrow> Some s | _ \<Rightarrow> None)"

definition captureManifestOwner :: "string \<Rightarrow> instance_owner \<Rightarrow> owner_registration" where
  "captureManifestOwner iid owner =
    (let config = io_config owner in
     \<lparr>or_owner = owner, or_instanceId = iid, or_sequenceId = sequenceIdOf owner,
      or_sequence = \<lparr>sm_name = (case stringOption (jsProp config ''name'') of Some n \<Rightarrow> Some n | None \<Rightarrow> io_sequenceName owner),
        sm_version = stringOption (jsProp config ''version''), sm_description = stringOption (jsProp config ''description'')\<rparr>,
      or_terminated = False\<rparr>)"

datatype publication_error = INSTANCE_NOT_ACTIVE | InvalidDeclaration zod_error

text \<open>\<open>x || null\<close>\<close>

definition truthyString :: "string option \<Rightarrow> string option" where
  "truthyString x = (if x = Some [] then None else x)"

record manifest_receipt =
  rc_instanceId :: string
  rc_sequenceId :: string
  rc_revision :: string

definition publishManifest ::
  "(jsval \<Rightarrow> bool) \<Rightarrow> string \<Rightarrow> instances_store \<Rightarrow> instance_owner \<Rightarrow> jsval \<Rightarrow>
    publication_error + instances_store \<times> manifest_receipt" where
  "publishManifest schema revision s owner declaration = (case jsGet (is_owners s) (io_id owner) of
      None \<Rightarrow> Inl INSTANCE_NOT_ACTIVE
    | Some r \<Rightarrow>
        if or_owner r \<noteq> owner \<or> or_terminated r \<or> jsGet (is_map s) (or_instanceId r) \<noteq> Some owner then Inl INSTANCE_NOT_ACTIVE
        else (case snapshotManifestDeclaration schema declaration of
            Inl e \<Rightarrow> Inl (InvalidDeclaration e)
          | Inr snap \<Rightarrow>
              let previous = jsGet (is_manifests s) (or_instanceId r);
                  previousPublication = (case previous of Some p \<Rightarrow> if mp_owner p = owner then Some p else None | None \<Rightarrow> None)
              in Inr (emitManifestChange
                (s\<lparr>is_manifests := jsSet (is_manifests s) (or_instanceId r)
                     \<lparr>mp_owner = owner, mp_declaration = snap, mp_revision = revision\<rparr>\<rparr>)
                \<lparr>mc_action = (if previousPublication = None then Published else Updated),
                 mc_instanceId = or_instanceId r, mc_sequenceId = or_sequenceId r, mc_revision = Some revision,
                 mc_previousRevision = truthyString (map_option mp_revision previousPublication),
                 mc_manifest = Some snap, mc_sequence = or_sequence r, mc_reason = None\<rparr>,
                \<lparr>rc_instanceId = or_instanceId r, rc_sequenceId = or_sequenceId r, rc_revision = revision\<rparr>)))"

record manifest_response =
  mr_instanceId :: string
  mr_sequenceId :: string
  mr_revision :: "string option"
  mr_manifest :: "jsval option"
  mr_sequence :: sequence_metadata

definition getManifest :: "instances_store \<Rightarrow> instance_owner \<Rightarrow> manifest_response option" where
  "getManifest s owner = (case jsGet (is_owners s) (io_id owner) of
      None \<Rightarrow> None
    | Some r \<Rightarrow>
        if or_owner r \<noteq> owner \<or> jsGet (is_map s) (or_instanceId r) \<noteq> Some owner then None
        else let current = (case jsGet (is_manifests s) (or_instanceId r) of
               Some p \<Rightarrow> if mp_owner p = owner \<and> \<not> or_terminated r then Some p else None | None \<Rightarrow> None)
             in Some \<lparr>mr_instanceId = or_instanceId r, mr_sequenceId = or_sequenceId r,
                  mr_revision = map_option mp_revision current, mr_manifest = map_option mp_declaration current,
                  mr_sequence = or_sequence r\<rparr>)"

definition getSequenceManifests :: "instances_store \<Rightarrow> string \<Rightarrow> manifest_response list" where
  "getSequenceManifests s sid = concat (map (\<lambda>r.
      if or_sequenceId r \<noteq> sid \<or> or_terminated r \<or> jsGet (is_map s) (or_instanceId r) \<noteq> Some (or_owner r) then []
      else (case jsGet (is_manifests s) (or_instanceId r) of
          Some p \<Rightarrow> if mp_owner p \<noteq> or_owner r then []
            else [\<lparr>mr_instanceId = or_instanceId r, mr_sequenceId = or_sequenceId r, mr_revision = Some (mp_revision p),
                   mr_manifest = Some (mp_declaration p), mr_sequence = or_sequence r\<rparr>]
        | None \<Rightarrow> [])) (jsValues (is_owners s)))"

definition removeManifest :: "instances_store \<Rightarrow> instance_owner \<Rightarrow> removal_reason \<Rightarrow> instances_store \<times> bool" where
  "removeManifest s owner reason = (case jsGet (is_owners s) (io_id owner) of
      None \<Rightarrow> (s, False)
    | Some r \<Rightarrow>
        if or_owner r \<noteq> owner \<or> or_terminated r then (s, False)
        else let t = s\<lparr>is_owners := jsSet (is_owners s) (io_id owner) (r\<lparr>or_terminated := True\<rparr>)\<rparr> in
          (case jsGet (is_manifests s) (or_instanceId r) of
             None \<Rightarrow> (t, False)
           | Some p \<Rightarrow>
               if mp_owner p \<noteq> owner then (t, False)
               else (emitManifestChange (t\<lparr>is_manifests := jsDelete (is_manifests t) (or_instanceId r)\<rparr>)
                  \<lparr>mc_action = Removed, mc_instanceId = or_instanceId r, mc_sequenceId = or_sequenceId r, mc_revision = None,
                   mc_previousRevision = Some (mp_revision p), mc_manifest = None, mc_sequence = or_sequence r,
                   mc_reason = Some reason\<rparr>, True)))"

section \<open>RPC paths\<close>

definition registerRpc :: "instances_store \<Rightarrow> string \<Rightarrow> string \<Rightarrow> instances_store" where
  "registerRpc s path iid = s\<lparr>is_expose := jsSet (is_expose s) path
     (jsAdd (case jsGet (is_expose s) path of Some ids \<Rightarrow> ids | None \<Rightarrow> []) iid)\<rparr>"

definition unregisterRpc :: "instances_store \<Rightarrow> string \<Rightarrow> string \<Rightarrow> instances_store" where
  "unregisterRpc s path iid = (case jsGet (is_expose s) path of
      None \<Rightarrow> s
    | Some ids \<Rightarrow> let ids' = jsRemove ids iid in
        s\<lparr>is_expose := (if ids' = [] then jsDelete (is_expose s) path else jsSet (is_expose s) path ids')\<rparr>)"

text \<open>
  \<open>Array.prototype.sort\<close> by descending length is stable: the first element of the result is the first
  of the longest.
\<close>

fun longestFirst :: "(string \<times> 'v) list \<Rightarrow> (string \<times> 'v) option" where
  "longestFirst [] = None"
| "longestFirst (e # es) = (case longestFirst es of
      None \<Rightarrow> Some e
    | Some f \<Rightarrow> if length (fst f) > length (fst e) then Some f else Some e)"

definition getByExposePath :: "instances_store \<Rightarrow> string \<Rightarrow> instance_owner list" where
  "getByExposePath s exposePath =
    (case longestFirst (filter (\<lambda>e. matchesRpcExposePath exposePath (Some (fst e))) (is_expose s)) of
       None \<Rightarrow> []
     | Some (path, ids) \<Rightarrow> concat (map (\<lambda>iid. case jsGet (is_map s) iid of Some v \<Rightarrow> [v] | None \<Rightarrow> []) ids))"

section \<open>Ids and names\<close>

definition reserveId :: "instances_store \<Rightarrow> string \<Rightarrow> instances_store \<times> bool" where
  "reserveId s iid = (if jsHas (is_map s) iid \<or> iid \<in> set (is_reserved s) then (s, False)
     else (s\<lparr>is_reserved := jsAdd (is_reserved s) iid\<rparr>, True))"

definition releaseId :: "instances_store \<Rightarrow> string \<Rightarrow> instances_store" where
  "releaseId s iid = s\<lparr>is_reserved := jsRemove (is_reserved s) iid\<rparr>"

definition hasReservedId :: "instances_store \<Rightarrow> string \<Rightarrow> bool" where
  "hasReservedId s iid \<longleftrightarrow> iid \<in> set (is_reserved s)"

definition clearNameForInstance :: "instances_store \<Rightarrow> string \<Rightarrow> instances_store" where
  "clearNameForInstance s iid = (case jsGet (is_nameReverse s) iid of
      None \<Rightarrow> s
    | Some n \<Rightarrow>
        if n = [] then s
        else let t = s\<lparr>is_nameReverse := jsDelete (is_nameReverse s) iid\<rparr> in
          if jsGet (is_nameMap t) n = Some iid then t\<lparr>is_nameMap := jsDelete (is_nameMap t) n\<rparr> else t)"

definition reserveName :: "instances_store \<Rightarrow> string \<Rightarrow> string \<Rightarrow> instances_store \<times> bool" where
  "reserveName s n iid =
    (if (case jsGet (is_nameMap s) n of Some e \<Rightarrow> e \<noteq> [] \<and> e \<noteq> iid | None \<Rightarrow> False) then (s, False)
     else let t = (case jsGet (is_nameReverse s) iid of
             Some c \<Rightarrow> if c \<noteq> [] \<and> c \<noteq> n then clearNameForInstance s iid else s
           | None \<Rightarrow> s)
       in (t\<lparr>is_nameMap := jsSet (is_nameMap t) n iid, is_nameReverse := jsSet (is_nameReverse t) iid n\<rparr>, True))"

definition registerName :: "instances_store \<Rightarrow> string \<Rightarrow> string \<Rightarrow> instances_store" where
  "registerName s n iid = (if \<not> jsHas (is_map s) iid then s else fst (reserveName s n iid))"

definition unregisterName :: "instances_store \<Rightarrow> string \<Rightarrow> string \<Rightarrow> instances_store" where
  "unregisterName s n iid = (case jsGet (is_nameMap s) n of
      Some m \<Rightarrow> if m \<noteq> [] \<and> m = iid then
          s\<lparr>is_nameMap := jsDelete (is_nameMap s) n, is_nameReverse := jsDelete (is_nameReverse s) iid\<rparr> else s
    | None \<Rightarrow> s)"

definition instanceByName :: "instances_store \<Rightarrow> string \<Rightarrow> instance_owner option" where
  "instanceByName s n = (case jsGet (is_nameMap s) n of
      Some iid \<Rightarrow> if iid = [] then None else jsGet (is_map s) iid
    | None \<Rightarrow> None)"

definition hasName :: "instances_store \<Rightarrow> string \<Rightarrow> bool" where
  "hasName s n \<longleftrightarrow> jsHas (is_nameMap s) n"

definition instanceByNameOrId :: "instances_store \<Rightarrow> string \<Rightarrow> instance_owner option" where
  "instanceByNameOrId s token = (case jsGet (is_map s) token of Some v \<Rightarrow> Some v | None \<Rightarrow> instanceByName s token)"

section \<open>set, delete and clear\<close>

text \<open>The part of \<open>set\<close> up to the release of the reserved id.\<close>

definition storeOwner :: "instances_store \<Rightarrow> string \<Rightarrow> instance_owner \<Rightarrow> instances_store" where
  "storeOwner s iid v =
    (let current = jsGet (is_map s) iid;
         s1 = (case current of
             Some c \<Rightarrow> if c \<noteq> v then (let t = fst (removeManifest s c InstanceReplaced) in t\<lparr>is_owners := jsDelete (is_owners t) iid\<rparr>) else s
           | None \<Rightarrow> s);
         s2 = s1\<lparr>is_map := jsSet (is_map s1) iid v\<rparr>;
         s3 = (if current \<noteq> Some v \<or> \<not> jsHas (is_owners s2) iid
               then s2\<lparr>is_owners := jsSet (is_owners s2) iid (captureManifestOwner iid v)\<rparr> else s2)
     in releaseId s3 iid)"

definition setInstance :: "instances_store \<Rightarrow> string \<Rightarrow> instance_owner \<Rightarrow> instances_store" where
  "setInstance s iid v =
    (let t = storeOwner s iid v;
         u = (case jsGet (is_nameReverse t) iid of
             Some n \<Rightarrow> if n = [] then t else t\<lparr>is_nameMap := jsSet (is_nameMap t) n iid\<rparr>
           | None \<Rightarrow> t)
     in auditInventory u (Some v) iid (sequenceIdOf v))"

definition dropFromPaths :: "string \<Rightarrow> (string, string list) jsmap \<Rightarrow> (string, string list) jsmap" where
  "dropFromPaths iid m = concat (map (\<lambda>e.
      if iid \<in> set (snd e) then (let ids = jsRemove (snd e) iid in if ids = [] then [] else [(fst e, ids)]) else [e]) m)"

text \<open>The part of \<open>delete\<close> up to the release of the reserved id.\<close>

definition dropOwner :: "instances_store \<Rightarrow> string \<Rightarrow> instances_store" where
  "dropOwner s iid =
    (let s1 = (case jsGet (is_map s) iid of Some c \<Rightarrow> fst (removeManifest s c InstanceDeleted) | None \<Rightarrow> s)
     in releaseId (s1\<lparr>is_owners := jsDelete (is_owners s1) iid, is_manifests := jsDelete (is_manifests s1) iid\<rparr>) iid)"

definition deleteInstance :: "instances_store \<Rightarrow> string \<Rightarrow> instances_store \<times> bool" where
  "deleteInstance s iid =
    (let t = clearNameForInstance (dropOwner s iid) iid;
         u = t\<lparr>is_expose := dropFromPaths iid (is_expose t), is_map := jsDelete (is_map t) iid\<rparr>
     in case jsGet (is_map s) iid of
          None \<Rightarrow> (u, False)
        | Some c \<Rightarrow> (auditInventory u None iid (sequenceIdOf c), True))"

definition clearInstances :: "instances_store \<Rightarrow> instances_store" where
  "clearInstances s =
    (let s1 = foldl (\<lambda>t r. fst (removeManifest t (or_owner r) HostStopped)) s (jsValues (is_owners s));
         s2 = s1\<lparr>is_owners := [], is_manifests := [], is_reserved := [], is_nameMap := [], is_nameReverse := [],
           is_expose := [], is_map := []\<rparr>
     in foldl (\<lambda>t e. auditInventory t None (fst e) (sequenceIdOf (snd e))) s2 (is_map s1))"

section \<open>Runs\<close>

datatype store_op =
    PublishManifest string instance_owner jsval
  | RemoveManifest instance_owner removal_reason
  | RegisterRpc string string
  | UnregisterRpc string string
  | ReserveId string
  | ReleaseId string
  | ReserveName string string
  | RegisterName string string
  | UnregisterName string string
  | AuditCurrent instance_owner
  | SetInstance string instance_owner
  | DeleteInstance string
  | ClearInstances

definition instanceStep :: "(jsval \<Rightarrow> bool) \<Rightarrow> instances_store \<Rightarrow> store_op \<Rightarrow> instances_store" where
  "instanceStep schema s op = (case op of
      PublishManifest revision owner decl \<Rightarrow> (case publishManifest schema revision s owner decl of Inr p \<Rightarrow> fst p | Inl e \<Rightarrow> s)
    | RemoveManifest owner reason \<Rightarrow> fst (removeManifest s owner reason)
    | RegisterRpc path iid \<Rightarrow> registerRpc s path iid
    | UnregisterRpc path iid \<Rightarrow> unregisterRpc s path iid
    | ReserveId iid \<Rightarrow> fst (reserveId s iid)
    | ReleaseId iid \<Rightarrow> releaseId s iid
    | ReserveName n iid \<Rightarrow> fst (reserveName s n iid)
    | RegisterName n iid \<Rightarrow> registerName s n iid
    | UnregisterName n iid \<Rightarrow> unregisterName s n iid
    | AuditCurrent owner \<Rightarrow> auditCurrentInstance s owner
    | SetInstance iid v \<Rightarrow> setInstance s iid v
    | DeleteInstance iid \<Rightarrow> fst (deleteInstance s iid)
    | ClearInstances \<Rightarrow> clearInstances s)"

text \<open>How the host calls it: ids, names and revisions are not empty, an instance is stored under its own id.\<close>

definition op_ok :: "store_op \<Rightarrow> bool" where
  "op_ok op = (case op of
      PublishManifest revision owner decl \<Rightarrow> revision \<noteq> []
    | ReserveName n iid \<Rightarrow> n \<noteq> [] \<and> iid \<noteq> []
    | RegisterName n iid \<Rightarrow> n \<noteq> [] \<and> iid \<noteq> []
    | SetInstance iid v \<Rightarrow> io_id v = iid \<and> iid \<noteq> []
    | _ \<Rightarrow> True)"

section \<open>Names and ids stay consistent\<close>

definition names_ok :: "instances_store \<Rightarrow> bool" where
  "names_ok s \<longleftrightarrow> (\<forall>n iid. jsGet (is_nameMap s) n = Some iid \<longleftrightarrow> jsGet (is_nameReverse s) iid = Some n) \<and>
     (\<forall>n iid. jsGet (is_nameMap s) n = Some iid \<longrightarrow> n \<noteq> [] \<and> iid \<noteq> [])"

definition ids_ok :: "instances_store \<Rightarrow> bool" where
  "ids_ok s \<longleftrightarrow> distinct (is_reserved s) \<and> (\<forall>iid \<in> set (is_reserved s). jsGet (is_map s) iid = None)"

definition manifests_ok :: "instances_store \<Rightarrow> bool" where
  "manifests_ok s \<longleftrightarrow>
     jsmap_ok (is_map s) \<and> jsmap_ok (is_owners s) \<and>
     (\<forall>iid v. jsGet (is_map s) iid = Some v \<longrightarrow> io_id v = iid) \<and>
     (\<forall>iid r. jsGet (is_owners s) iid = Some r \<longrightarrow> or_instanceId r = iid \<and> jsGet (is_map s) iid = Some (or_owner r)) \<and>
     (\<forall>iid p. jsGet (is_manifests s) iid = Some p \<longrightarrow> mp_revision p \<noteq> [] \<and>
        (\<exists>r. jsGet (is_owners s) iid = Some r \<and> or_owner r = mp_owner p \<and> \<not> or_terminated r))"

text \<open>Fields that the groups of operations leave alone.\<close>

lemma emit_fields [simp]:
  "is_map (emitManifestChange s c) = is_map s" "is_expose (emitManifestChange s c) = is_expose s"
  "is_reserved (emitManifestChange s c) = is_reserved s" "is_nameMap (emitManifestChange s c) = is_nameMap s"
  "is_nameReverse (emitManifestChange s c) = is_nameReverse s" "is_owners (emitManifestChange s c) = is_owners s"
  "is_manifests (emitManifestChange s c) = is_manifests s" "is_manifestHandler (emitManifestChange s c) = is_manifestHandler s"
  "is_auditHandler (emitManifestChange s c) = is_auditHandler s"
  by (simp_all add: emitManifestChange_def)

lemma audit_fields [simp]:
  "is_map (auditInventory s v i q) = is_map s" "is_expose (auditInventory s v i q) = is_expose s"
  "is_reserved (auditInventory s v i q) = is_reserved s" "is_nameMap (auditInventory s v i q) = is_nameMap s"
  "is_nameReverse (auditInventory s v i q) = is_nameReverse s" "is_owners (auditInventory s v i q) = is_owners s"
  "is_manifests (auditInventory s v i q) = is_manifests s" "is_manifestHandler (auditInventory s v i q) = is_manifestHandler s"
  "is_auditHandler (auditInventory s v i q) = is_auditHandler s"
  by (simp_all add: auditInventory_def)

lemma removeManifest_fields [simp]:
  "is_map (fst (removeManifest s v r)) = is_map s" "is_expose (fst (removeManifest s v r)) = is_expose s"
  "is_reserved (fst (removeManifest s v r)) = is_reserved s" "is_nameMap (fst (removeManifest s v r)) = is_nameMap s"
  "is_nameReverse (fst (removeManifest s v r)) = is_nameReverse s"
  "is_manifestHandler (fst (removeManifest s v r)) = is_manifestHandler s"
  "is_auditHandler (fst (removeManifest s v r)) = is_auditHandler s"
  by (simp_all add: removeManifest_def Let_def split: option.split)

lemma clearName_fields [simp]:
  "is_map (clearNameForInstance s i) = is_map s" "is_expose (clearNameForInstance s i) = is_expose s"
  "is_reserved (clearNameForInstance s i) = is_reserved s" "is_owners (clearNameForInstance s i) = is_owners s"
  "is_manifests (clearNameForInstance s i) = is_manifests s" "is_events (clearNameForInstance s i) = is_events s"
  "is_manifestHandler (clearNameForInstance s i) = is_manifestHandler s"
  "is_auditHandler (clearNameForInstance s i) = is_auditHandler s"
  by (simp_all add: clearNameForInstance_def Let_def split: option.split)

lemma reserveName_fields [simp]:
  "is_map (fst (reserveName s n i)) = is_map s" "is_expose (fst (reserveName s n i)) = is_expose s"
  "is_reserved (fst (reserveName s n i)) = is_reserved s" "is_owners (fst (reserveName s n i)) = is_owners s"
  "is_manifests (fst (reserveName s n i)) = is_manifests s" "is_events (fst (reserveName s n i)) = is_events s"
  "is_manifestHandler (fst (reserveName s n i)) = is_manifestHandler s" "is_auditHandler (fst (reserveName s n i)) = is_auditHandler s"
  by (simp_all add: reserveName_def Let_def split: option.split)

lemma releaseId_fields [simp]:
  "is_map (releaseId s i) = is_map s" "is_expose (releaseId s i) = is_expose s" "is_owners (releaseId s i) = is_owners s"
  "is_manifests (releaseId s i) = is_manifests s" "is_events (releaseId s i) = is_events s"
  "is_nameMap (releaseId s i) = is_nameMap s" "is_nameReverse (releaseId s i) = is_nameReverse s"
  by (simp_all add: releaseId_def)

text \<open>Two partial maps that are inverse to each other stay so under paired updates and deletions.\<close>

definition inverse_maps :: "('a \<Rightarrow> 'b option) \<Rightarrow> ('b \<Rightarrow> 'a option) \<Rightarrow> bool" where
  "inverse_maps f g \<longleftrightarrow> (\<forall>x y. f x = Some y \<longleftrightarrow> g y = Some x)"

lemma inverse_maps_inj: "inverse_maps f g \<Longrightarrow> g y = Some x \<Longrightarrow> g z = Some x \<Longrightarrow> y = z"
  unfolding inverse_maps_def by (metis option.inject)

lemma inverse_mapsD: "inverse_maps f g \<Longrightarrow> f x = Some y \<longleftrightarrow> g y = Some x"
  by (simp add: inverse_maps_def)

lemma inverse_maps_delete:
  assumes i: "inverse_maps f g" and y: "g y = Some x"
  shows "inverse_maps (f(x := None)) (g(y := None))"
proof -
  have fx: "f x = Some y" using inverse_mapsD [OF i, of x y] y by blast
  have "(f(x := None)) a = Some b \<longleftrightarrow> (g(y := None)) b = Some a" for a b
  proof (cases "a = x")
    case True
    then show ?thesis using fx inverse_mapsD [OF i, of a b] by (cases "b = y") simp_all
  next
    case False
    then show ?thesis using y inverse_mapsD [OF i, of a b] by (cases "b = y") simp_all
  qed
  then show ?thesis by (simp add: inverse_maps_def)
qed

lemma inverse_maps_update:
  assumes i: "inverse_maps f g" and x: "f x = None \<or> f x = Some y" and y: "g y = None \<or> g y = Some x"
  shows "inverse_maps (f(x \<mapsto> y)) (g(y \<mapsto> x))"
proof -
  have "(f(x \<mapsto> y)) a = Some b \<longleftrightarrow> (g(y \<mapsto> x)) b = Some a" for a b
  proof (cases "a = x")
    case True
    then show ?thesis using x inverse_mapsD [OF i, of a b] by (cases "b = y") auto
  next
    case False
    then show ?thesis using y inverse_mapsD [OF i, of a b] by (cases "b = y") auto
  qed
  then show ?thesis by (simp add: inverse_maps_def)
qed

lemma names_ok_alt:
  "names_ok s \<longleftrightarrow> inverse_maps (map_of (is_nameMap s)) (map_of (is_nameReverse s)) \<and>
     (\<forall>n iid. jsGet (is_nameMap s) n = Some iid \<longrightarrow> n \<noteq> [] \<and> iid \<noteq> [])"
  by (simp add: names_ok_def inverse_maps_def)

lemma map_of_set: "map_of (jsSet m k v) = (map_of m)(k \<mapsto> v)"
  by (rule ext) (simp add: js_simps)

lemma map_of_del: "map_of (jsDelete m k) = (map_of m)(k := None)"
  by (rule ext) (simp add: js_simps)

lemma names_ok_clearName:
  assumes "names_ok s"
  shows "names_ok (clearNameForInstance s i)" and "jsGet (is_nameReverse (clearNameForInstance s i)) i = None"
proof -
  have both: "names_ok (clearNameForInstance s i) \<and> jsGet (is_nameReverse (clearNameForInstance s i)) i = None"
  proof (cases "jsGet (is_nameReverse s) i")
    case None
    then show ?thesis using assms by (simp add: clearNameForInstance_def)
  next
    case (Some n)
    then have n: "jsGet (is_nameMap s) n = Some i" "n \<noteq> []" using assms by (auto simp: names_ok_def)
    have "inverse_maps ((map_of (is_nameMap s))(n := None)) ((map_of (is_nameReverse s))(i := None))"
      by (rule inverse_maps_delete) (use assms Some in \<open>auto simp: names_ok_alt\<close>)
    then show ?thesis
      using assms Some n by (auto simp: names_ok_alt clearNameForInstance_def Let_def map_of_del)
  qed
  from both show "names_ok (clearNameForInstance s i)" "jsGet (is_nameReverse (clearNameForInstance s i)) i = None"
    by simp_all
qed

lemma names_ok_put:
  assumes "names_ok t" and "jsGet (is_nameMap t) n = None \<or> jsGet (is_nameMap t) n = Some i"
    and "jsGet (is_nameReverse t) i = None \<or> jsGet (is_nameReverse t) i = Some n" and "n \<noteq> []" "i \<noteq> []"
  shows "names_ok (t\<lparr>is_nameMap := jsSet (is_nameMap t) n i, is_nameReverse := jsSet (is_nameReverse t) i n\<rparr>)"
  using assms inverse_maps_update [of "map_of (is_nameMap t)" "map_of (is_nameReverse t)" n i]
  by (auto simp: names_ok_alt map_of_set)

lemma names_ok_reserveName:
  assumes ok: "names_ok s" and n: "n \<noteq> []" "i \<noteq> []"
  shows "names_ok (fst (reserveName s n i))"
proof (cases "case jsGet (is_nameMap s) n of Some e \<Rightarrow> e \<noteq> [] \<and> e \<noteq> i | None \<Rightarrow> False")
  case True
  then show ?thesis using ok by (simp add: reserveName_def)
next
  case False
  let ?t = "case jsGet (is_nameReverse s) i of Some c \<Rightarrow> if c \<noteq> [] \<and> c \<noteq> n then clearNameForInstance s i else s | None \<Rightarrow> s"
  have free: "jsGet (is_nameMap s) n = None \<or> jsGet (is_nameMap s) n = Some i"
    using False ok by (auto simp: names_ok_def split: option.splits)
  have t: "names_ok ?t" "jsGet (is_nameReverse ?t) i = None \<or> jsGet (is_nameReverse ?t) i = Some n"
    using ok names_ok_clearName [OF ok, of i] by (auto simp: names_ok_def split: option.split)
  have free': "jsGet (is_nameMap ?t) n = None \<or> jsGet (is_nameMap ?t) n = Some i"
    using free by (auto simp: clearNameForInstance_def Let_def js_simps split: option.split)
  have "fst (reserveName s n i) = ?t\<lparr>is_nameMap := jsSet (is_nameMap ?t) n i, is_nameReverse := jsSet (is_nameReverse ?t) i n\<rparr>"
    using False by (simp add: reserveName_def Let_def)
  then show ?thesis using names_ok_put [OF t(1) free' t(2) n] by simp
qed

lemma names_ok_cong:
  "is_nameMap t = is_nameMap s \<Longrightarrow> is_nameReverse t = is_nameReverse s \<Longrightarrow> names_ok t = names_ok s"
  by (simp add: names_ok_def)

lemma storeOwner_fields [simp]:
  "is_map (storeOwner s i v) = jsSet (is_map s) i v" "is_nameMap (storeOwner s i v) = is_nameMap s"
  "is_nameReverse (storeOwner s i v) = is_nameReverse s" "is_expose (storeOwner s i v) = is_expose s"
  "is_reserved (storeOwner s i v) = jsRemove (is_reserved s) i"
  "is_auditHandler (storeOwner s i v) = is_auditHandler s" "is_manifestHandler (storeOwner s i v) = is_manifestHandler s"
  by (simp_all add: storeOwner_def Let_def releaseId_def split: option.split)

lemma dropOwner_fields [simp]:
  "is_map (dropOwner s i) = is_map s" "is_nameMap (dropOwner s i) = is_nameMap s"
  "is_nameReverse (dropOwner s i) = is_nameReverse s" "is_expose (dropOwner s i) = is_expose s"
  "is_reserved (dropOwner s i) = jsRemove (is_reserved s) i"
  "is_auditHandler (dropOwner s i) = is_auditHandler s" "is_manifestHandler (dropOwner s i) = is_manifestHandler s"
  by (simp_all add: dropOwner_def Let_def releaseId_def split: option.split)

lemma names_ok_set:
  assumes ok: "names_ok s"
  shows "names_ok (setInstance s i v)"
proof (cases "jsGet (is_nameReverse s) i")
  case (Some n)
  then have "jsGet (is_nameMap s) n = Some i" using ok by (simp add: names_ok_def)
  then have "map_of (jsSet (is_nameMap s) n i) = map_of (is_nameMap s)" by (auto simp: map_of_set)
  then show ?thesis using ok Some by (simp add: setInstance_def Let_def names_ok_alt)
qed (use ok in \<open>simp add: setInstance_def Let_def names_ok_def\<close>)

lemma names_ok_delete: "names_ok s \<Longrightarrow> names_ok (fst (deleteInstance s i))"
proof -
  assume "names_ok s"
  then have "names_ok (dropOwner s i)" by (simp add: names_ok_def)
  then have "names_ok (clearNameForInstance (dropOwner s i) i)" by (rule names_ok_clearName)
  then show ?thesis by (simp add: deleteInstance_def Let_def names_ok_def split: option.split)
qed

lemma audit_fold_fields [simp]:
  "is_map (foldl (\<lambda>t e. auditInventory t None (fst e) (g e)) s es) = is_map s"
  "is_nameMap (foldl (\<lambda>t e. auditInventory t None (fst e) (g e)) s es) = is_nameMap s"
  "is_nameReverse (foldl (\<lambda>t e. auditInventory t None (fst e) (g e)) s es) = is_nameReverse s"
  "is_reserved (foldl (\<lambda>t e. auditInventory t None (fst e) (g e)) s es) = is_reserved s"
  "is_owners (foldl (\<lambda>t e. auditInventory t None (fst e) (g e)) s es) = is_owners s"
  "is_manifests (foldl (\<lambda>t e. auditInventory t None (fst e) (g e)) s es) = is_manifests s"
  "is_expose (foldl (\<lambda>t e. auditInventory t None (fst e) (g e)) s es) = is_expose s"
  by (induction es arbitrary: s) simp_all

lemma names_ok_step: "names_ok s \<Longrightarrow> op_ok op \<Longrightarrow> names_ok (instanceStep schema s op)"
proof (cases op)
  case (PublishManifest rev owner decl)
  then show "names_ok s \<Longrightarrow> ?thesis"
    by (auto simp: instanceStep_def publishManifest_def Let_def names_ok_def split: option.split sum.split)
next
  case (UnregisterName n iid)
  assume ok: "names_ok s"
  show ?thesis
  proof (cases "jsGet (is_nameMap s) n = Some iid \<and> iid \<noteq> []")
    case True
    then have "jsGet (is_nameReverse s) iid = Some n" using ok by (simp add: names_ok_def)
    then have "inverse_maps ((map_of (is_nameMap s))(n := None)) ((map_of (is_nameReverse s))(iid := None))"
      by (intro inverse_maps_delete) (use ok in \<open>auto simp: names_ok_alt\<close>)
    then show ?thesis
      using ok True by (auto simp: UnregisterName instanceStep_def unregisterName_def names_ok_alt map_of_del)
  next
    case False
    then show ?thesis using ok by (auto simp: UnregisterName instanceStep_def unregisterName_def split: option.split)
  qed
next
  case ClearInstances
  then show ?thesis by (simp add: instanceStep_def clearInstances_def Let_def names_ok_def)
next
  case (RegisterName n iid)
  then show "names_ok s \<Longrightarrow> op_ok op \<Longrightarrow> ?thesis"
    by (simp add: instanceStep_def registerName_def op_ok_def names_ok_reserveName)
next
  case (ReserveName n iid)
  then show "names_ok s \<Longrightarrow> op_ok op \<Longrightarrow> ?thesis"
    by (simp add: instanceStep_def op_ok_def names_ok_reserveName)
next
  case (UnregisterRpc path iid)
  then show "names_ok s \<Longrightarrow> ?thesis"
    by (simp add: instanceStep_def unregisterRpc_def Let_def names_ok_def split: option.split)
next
  case (SetInstance iid v)
  then show "names_ok s \<Longrightarrow> ?thesis" by (simp add: instanceStep_def names_ok_set)
next
  case (DeleteInstance iid)
  then show "names_ok s \<Longrightarrow> ?thesis" by (simp add: instanceStep_def names_ok_delete)
qed (simp_all add: instanceStep_def names_ok_def registerRpc_def reserveId_def releaseId_def auditCurrentInstance_def)

section \<open>Manifests and the logs\<close>

text \<open>Replaying the manifest changes: the current revision of every instance.\<close>

fun applyChange :: "(string \<Rightarrow> string option) \<Rightarrow> instance_event \<Rightarrow> (string \<Rightarrow> string option)" where
  "applyChange m (ManifestChanged c) = m(mc_instanceId c := mc_revision c)"
| "applyChange m (InventoryAudited v i q) = m"

fun change_ok :: "(string \<Rightarrow> string option) \<Rightarrow> instance_event \<Rightarrow> bool" where
  "change_ok m (ManifestChanged c) = (mc_previousRevision c = m (mc_instanceId c) \<and>
     (mc_action c = Published \<longleftrightarrow> m (mc_instanceId c) = None) \<and> (mc_action c = Removed \<longleftrightarrow> mc_revision c = None))"
| "change_ok m (InventoryAudited v i q) = True"

fun changes_ok :: "(string \<Rightarrow> string option) \<Rightarrow> instance_event list \<Rightarrow> bool" where
  "changes_ok m [] = True"
| "changes_ok m (e # es) = (change_ok m e \<and> changes_ok (applyChange m e) es)"

text \<open>Replaying the inventory audits: the live instances.\<close>

fun applyInventory :: "(string \<Rightarrow> instance_owner option) \<Rightarrow> instance_event \<Rightarrow> (string \<Rightarrow> instance_owner option)" where
  "applyInventory m (InventoryAudited v i q) = m(i := v)"
| "applyInventory m (ManifestChanged c) = m"

lemma changes_ok_append: "changes_ok m (es @ fs) \<longleftrightarrow> changes_ok m es \<and> changes_ok (foldl applyChange m es) fs"
  by (induction m es rule: changes_ok.induct) auto

definition revisions :: "instances_store \<Rightarrow> string \<Rightarrow> string option" where
  "revisions s = (\<lambda>iid. map_option mp_revision (jsGet (is_manifests s) iid))"

definition log_ok :: "instances_store \<Rightarrow> bool" where
  "log_ok s \<longleftrightarrow> is_manifestHandler s \<and> is_auditHandler s \<and> changes_ok (\<lambda>_. None) (is_events s) \<and>
     foldl applyChange (\<lambda>_. None) (is_events s) = revisions s \<and>
     foldl applyInventory (\<lambda>_. None) (is_events s) = map_of (is_map s)"

definition registry_ok :: "instances_store \<Rightarrow> bool" where
  "registry_ok s \<longleftrightarrow> manifests_ok s \<and> log_ok s"

lemma registry_ok_new: "registry_ok (newInstancesStore True True)"
  by (simp add: registry_ok_def manifests_ok_def log_ok_def newInstancesStore_def revisions_def)

lemma registry_cong:
  "is_map t = is_map s \<Longrightarrow> is_owners t = is_owners s \<Longrightarrow> is_manifests t = is_manifests s \<Longrightarrow> is_events t = is_events s \<Longrightarrow>
    is_manifestHandler t = is_manifestHandler s \<Longrightarrow> is_auditHandler t = is_auditHandler s \<Longrightarrow> registry_ok t = registry_ok s"
  by (simp add: registry_ok_def manifests_ok_def log_ok_def revisions_def)

text \<open>Logging a change that fits.\<close>

lemma log_ok_emit:
  assumes "log_ok s" and "revisions t = (revisions s)(mc_instanceId c := mc_revision c)" and "change_ok (revisions s) (ManifestChanged c)"
    and "is_map t = is_map s" and "is_events t = is_events s" and "is_manifestHandler t" "is_auditHandler t"
  shows "log_ok (emitManifestChange t c)"
  using assms by (auto simp: log_ok_def emitManifestChange_def revisions_def changes_ok_append)

lemma log_ok_audit:
  assumes "log_ok s" and "revisions t = revisions s" and "map_of (is_map t) = (map_of (is_map s))(i := v)"
    and "is_events t = is_events s" and "is_manifestHandler t" "is_auditHandler t"
  shows "log_ok (auditInventory t v i q)"
  using assms by (auto simp: log_ok_def auditInventory_def revisions_def changes_ok_append)

lemma manifests_ok_owner:
  "manifests_ok s \<Longrightarrow> jsGet (is_owners s) i = Some r \<Longrightarrow> or_instanceId r = i \<and> jsGet (is_map s) i = Some (or_owner r)"
  by (simp add: manifests_ok_def)

lemma manifests_ok_pub:
  "manifests_ok s \<Longrightarrow> jsGet (is_manifests s) i = Some p \<Longrightarrow>
    mp_revision p \<noteq> [] \<and> (\<exists>r. jsGet (is_owners s) i = Some r \<and> or_owner r = mp_owner p \<and> \<not> or_terminated r)"
  by (simp add: manifests_ok_def)

lemma publish_ok:
  assumes ok: "registry_ok s" and rev: "revision \<noteq> []" and pub: "publishManifest schema revision s owner decl = Inr (t, receipt)"
  shows "registry_ok t"
proof -
  from pub obtain r snap where r: "jsGet (is_owners s) (io_id owner) = Some r" "or_owner r = owner" "\<not> or_terminated r"
      "jsGet (is_map s) (or_instanceId r) = Some owner"
    and t: "t = emitManifestChange (s\<lparr>is_manifests := jsSet (is_manifests s) (or_instanceId r)
          \<lparr>mp_owner = owner, mp_declaration = snap, mp_revision = revision\<rparr>\<rparr>)
        \<lparr>mc_action = (if (case jsGet (is_manifests s) (or_instanceId r) of Some p \<Rightarrow> if mp_owner p = owner then Some p else None | None \<Rightarrow> None) = None
            then Published else Updated),
         mc_instanceId = or_instanceId r, mc_sequenceId = or_sequenceId r, mc_revision = Some revision,
         mc_previousRevision = truthyString (map_option mp_revision
            (case jsGet (is_manifests s) (or_instanceId r) of Some p \<Rightarrow> if mp_owner p = owner then Some p else None | None \<Rightarrow> None)),
         mc_manifest = Some snap, mc_sequence = or_sequence r, mc_reason = None\<rparr>"
    by (auto simp: publishManifest_def Let_def split: option.splits if_splits sum.splits)
  have m: "manifests_ok s" and l: "log_ok s" using ok by (simp_all add: registry_ok_def)
  have iid: "or_instanceId r = io_id owner" using manifests_ok_owner [OF m r(1)] by simp
  have own: "mp_owner p = owner \<and> mp_revision p \<noteq> []" if "jsGet (is_manifests s) (io_id owner) = Some p" for p
    using manifests_ok_pub [OF m that] r iid by auto
  have h: "is_manifestHandler s" "is_auditHandler s" using l by (simp_all add: log_ok_def)
  have "log_ok t"
  proof (cases "jsGet (is_manifests s) (io_id owner)")
    case None
    show ?thesis
      unfolding t by (rule log_ok_emit [OF l]) (use None h in \<open>auto simp: iid revisions_def truthyString_def update_conv'\<close>)
  next
    case (Some p)
    show ?thesis
      unfolding t by (rule log_ok_emit [OF l]) (use Some own [OF Some] h in \<open>auto simp: iid revisions_def truthyString_def update_conv'\<close>)
  qed
  moreover have "manifests_ok t"
    unfolding manifests_ok_def
  proof (intro conjI allI impI)
    fix i p assume "jsGet (is_manifests t) i = Some p"
    then have "i = io_id owner \<and> mp_revision p = revision \<and> mp_owner p = owner \<or> i \<noteq> io_id owner \<and> jsGet (is_manifests s) i = Some p"
      by (auto simp: t js_simps iid split: if_splits)
    then show "mp_revision p \<noteq> []" "\<exists>r. jsGet (is_owners t) i = Some r \<and> or_owner r = mp_owner p \<and> \<not> or_terminated r"
      using r rev manifests_ok_pub [OF m, of i p] by (auto simp: t)
  qed (use m in \<open>simp_all add: t manifests_ok_def\<close>)
  ultimately show ?thesis by (simp add: registry_ok_def)
qed

lemma remove_ok:
  assumes ok: "registry_ok s"
  shows "registry_ok (fst (removeManifest s v reason)) \<and>
    (jsGet (is_map s) (io_id v) = Some v \<longrightarrow> jsGet (is_manifests (fst (removeManifest s v reason))) (io_id v) = None) \<and>
    (\<forall>i. i \<noteq> io_id v \<longrightarrow> jsGet (is_manifests (fst (removeManifest s v reason))) i = jsGet (is_manifests s) i)"
proof -
  have m: "manifests_ok s" and l: "log_ok s" using ok by (simp_all add: registry_ok_def)
  show ?thesis
  proof (cases "jsGet (is_owners s) (io_id v)")
    case None
    then have "jsGet (is_manifests s) (io_id v) = None"
      using manifests_ok_pub [OF m, of "io_id v"] by (cases "jsGet (is_manifests s) (io_id v)") auto
    then show ?thesis using ok None by (simp add: removeManifest_def)
  next
    case (Some r)
    have iid: "or_instanceId r = io_id v" "jsGet (is_map s) (io_id v) = Some (or_owner r)"
      using manifests_ok_owner [OF m Some] by simp_all
    show ?thesis
    proof (cases "or_owner r \<noteq> v \<or> or_terminated r")
      case True
      then have "jsGet (is_map s) (io_id v) = Some v \<Longrightarrow> jsGet (is_manifests s) (io_id v) = None"
        using manifests_ok_pub [OF m, of "io_id v"] Some iid by (cases "jsGet (is_manifests s) (io_id v)") auto
      then show ?thesis using True Some ok by (auto simp: removeManifest_def)
    next
      case False
      let ?t = "s\<lparr>is_owners := jsSet (is_owners s) (io_id v) (r\<lparr>or_terminated := True\<rparr>)\<rparr>"
      show ?thesis
      proof (cases "jsGet (is_manifests s) (io_id v)")
        case None
        then have "registry_ok ?t"
          using m l False iid Some
          by (auto simp: registry_ok_def manifests_ok_def js_simps log_ok_def revisions_def fun_eq_iff)
        then show ?thesis using None False Some iid by (simp add: removeManifest_def)
      next
        case pub: (Some p)
        have p: "mp_owner p = v" "mp_revision p \<noteq> []" using manifests_ok_pub [OF m pub] Some False by auto
        let ?c = "\<lparr>mc_action = Removed, mc_instanceId = io_id v, mc_sequenceId = or_sequenceId r, mc_revision = None,
          mc_previousRevision = Some (mp_revision p), mc_manifest = None, mc_sequence = or_sequence r, mc_reason = Some reason\<rparr>"
        let ?u = "?t\<lparr>is_manifests := jsDelete (is_manifests ?t) (io_id v)\<rparr>"
        have rm: "fst (removeManifest s v reason) = emitManifestChange ?u ?c"
          using Some False pub p iid by (simp add: removeManifest_def)
        have "log_ok (emitManifestChange ?u ?c)"
          by (rule log_ok_emit [OF l]) (use pub l in \<open>auto simp: revisions_def js_simps fun_eq_iff log_ok_def\<close>)
        moreover have "manifests_ok (emitManifestChange ?u ?c)"
          using m False iid Some by (auto simp: manifests_ok_def js_simps)
        ultimately show ?thesis unfolding rm by (simp add: registry_ok_def js_simps)
      qed
    qed
  qed
qed

lemma registry_fields:
  "registry_ok s \<Longrightarrow> is_manifestHandler s \<and> is_auditHandler s"
  by (simp add: registry_ok_def log_ok_def)

lemma no_manifest_if_absent: "manifests_ok s \<Longrightarrow> jsGet (is_map s) i = None \<Longrightarrow> jsGet (is_manifests s) i = None"
  using manifests_ok_pub [of s i] manifests_ok_owner [of s i] by (cases "jsGet (is_manifests s) i") auto

lemma manifests_cong:
  "is_map t = is_map s \<Longrightarrow> is_owners t = is_owners s \<Longrightarrow> is_manifests t = is_manifests s \<Longrightarrow> manifests_ok t = manifests_ok s"
  by (simp add: manifests_ok_def)

text \<open>Storing an owner whose predecessor's manifest has been withdrawn.\<close>

lemma manifests_ok_store:
  assumes m: "manifests_ok s" and id: "io_id v = i" and none: "jsGet (is_manifests s) i = None"
  shows "manifests_ok (s\<lparr>is_map := jsSet (is_map s) i v, is_owners := jsSet (jsDelete (is_owners s) i) i (captureManifestOwner i v)\<rparr>)"
    and "manifests_ok (s\<lparr>is_map := jsSet (is_map s) i v, is_owners := jsSet (is_owners s) i (captureManifestOwner i v)\<rparr>)"
proof -
  have c: "or_instanceId (captureManifestOwner i v) = i" "or_owner (captureManifestOwner i v) = v"
    by (simp_all add: captureManifestOwner_def Let_def)
  have other: "jsGet (is_owners s) j = Some r \<Longrightarrow> or_instanceId r = j \<and> jsGet (is_map s) j = Some (or_owner r)"
    "jsGet (is_manifests s) j = Some p \<Longrightarrow> mp_revision p \<noteq> [] \<and> (\<exists>r. jsGet (is_owners s) j = Some r \<and> or_owner r = mp_owner p \<and> \<not> or_terminated r)"
    for j r p
    using manifests_ok_owner [OF m, of j r] manifests_ok_pub [OF m, of j p] by auto
  have ids: "\<forall>j w. jsGet (is_map s) j = Some w \<longrightarrow> io_id w = j" "jsmap_ok (is_map s)" "jsmap_ok (is_owners s)"
    using m by (simp_all add: manifests_ok_def)
  show "manifests_ok (s\<lparr>is_map := jsSet (is_map s) i v, is_owners := jsSet (jsDelete (is_owners s) i) i (captureManifestOwner i v)\<rparr>)"
    unfolding manifests_ok_def using c other ids none id by (simp add: js_simps)
  show "manifests_ok (s\<lparr>is_map := jsSet (is_map s) i v, is_owners := jsSet (is_owners s) i (captureManifestOwner i v)\<rparr>)"
    unfolding manifests_ok_def using c other ids none id by (simp add: js_simps)
qed

lemma set_registry_ok:
  assumes ok: "registry_ok s" and id: "io_id v = i"
  shows "registry_ok (setInstance s i v)"
proof -
  have m: "manifests_ok s" and l: "log_ok s" using ok by (simp_all add: registry_ok_def)
  have "\<exists>t. registry_ok t \<and> manifests_ok (storeOwner s i v) \<and> is_events (storeOwner s i v) = is_events t \<and> is_map t = is_map s \<and>
      is_manifests (storeOwner s i v) = is_manifests t"
  proof (cases "jsGet (is_map s) i")
    case None
    have "manifests_ok (storeOwner s i v)"
      using manifests_ok_store(2) [OF m id no_manifest_if_absent [OF m None]]
      by (simp add: storeOwner_def None Let_def releaseId_def manifests_ok_def)
    then show ?thesis using ok None by (intro exI [of _ s]) (simp add: storeOwner_def Let_def)
  next
    case (Some c)
    have cid: "io_id c = i" using m Some by (simp add: manifests_ok_def)
    show ?thesis
    proof (cases "c = v")
      case True
      show ?thesis
      proof (cases "jsHas (is_owners s) i")
        case True
        then obtain r where has: "jsGet (is_owners s) i = Some r" by auto
        have same: "map_of (jsSet (is_map s) i v) = map_of (is_map s)" using Some \<open>c = v\<close> by (auto simp: map_of_set)
        have "manifests_ok (storeOwner s i v)"
          using m Some \<open>c = v\<close> has by (simp add: storeOwner_def Let_def releaseId_def manifests_ok_def same)
        then show ?thesis using ok Some \<open>c = v\<close> has by (intro exI [of _ s]) (simp add: storeOwner_def Let_def)
      next
        case False
        then have "jsGet (is_manifests s) i = None"
          using manifests_ok_pub [OF m, of i] by (cases "jsGet (is_manifests s) i") auto
        from manifests_ok_store(2) [OF m id this] have "manifests_ok (storeOwner s i v)"
          using Some True False by (simp add: storeOwner_def Let_def releaseId_def manifests_ok_def)
        then show ?thesis using ok Some True False by (intro exI [of _ s]) (simp add: storeOwner_def Let_def)
      qed
    next
      case False
      let ?t = "fst (removeManifest s c InstanceReplaced)"
      have t: "registry_ok ?t" "jsGet (is_manifests ?t) i = None"
        using remove_ok [OF ok, of c InstanceReplaced] cid Some by auto
      then have "manifests_ok ?t" by (simp add: registry_ok_def)
      from manifests_ok_store(1) [OF this id t(2)] have "manifests_ok (storeOwner s i v)"
        using Some False by (simp add: storeOwner_def Let_def releaseId_def manifests_ok_def)
      then show ?thesis using t(1) Some False by (intro exI [of _ ?t]) (simp add: storeOwner_def Let_def)
    qed
  qed
  then obtain t where t: "registry_ok t" "manifests_ok (storeOwner s i v)" "is_events (storeOwner s i v) = is_events t"
    "is_map t = is_map s" "is_manifests (storeOwner s i v) = is_manifests t" by blast
  let ?u = "case jsGet (is_nameReverse (storeOwner s i v)) i of
      Some n \<Rightarrow> if n = [] then storeOwner s i v else (storeOwner s i v)\<lparr>is_nameMap := jsSet (is_nameMap (storeOwner s i v)) n i\<rparr>
    | None \<Rightarrow> storeOwner s i v"
  have u: "is_map ?u = jsSet (is_map s) i v" "is_events ?u = is_events t" "is_manifests ?u = is_manifests t"
    "is_owners ?u = is_owners (storeOwner s i v)" "is_manifestHandler ?u" "is_auditHandler ?u"
    using t registry_fields [OF ok] by (simp_all split: option.split)
  have set: "setInstance s i v = auditInventory ?u (Some v) i (sequenceIdOf v)"
    by (simp add: setInstance_def Let_def)
  have "log_ok (auditInventory ?u (Some v) i (sequenceIdOf v))"
    by (rule log_ok_audit [of t]) (use t u in \<open>simp_all add: registry_ok_def revisions_def map_of_set\<close>)
  moreover have "manifests_ok (auditInventory ?u (Some v) i (sequenceIdOf v))"
    using t(2,5) u by (simp add: manifests_ok_def)
  ultimately show ?thesis unfolding set by (simp add: registry_ok_def)
qed

lemma manifests_ok_drop:
  assumes m: "manifests_ok s"
  shows "manifests_ok (s\<lparr>is_owners := jsDelete (is_owners s) i, is_manifests := jsDelete (is_manifests s) i, is_map := jsDelete (is_map s) i\<rparr>)"
proof -
  have other: "jsGet (is_owners s) j = Some r \<Longrightarrow> or_instanceId r = j \<and> jsGet (is_map s) j = Some (or_owner r)"
    "jsGet (is_manifests s) j = Some p \<Longrightarrow> mp_revision p \<noteq> [] \<and> (\<exists>r. jsGet (is_owners s) j = Some r \<and> or_owner r = mp_owner p \<and> \<not> or_terminated r)"
    for j r p
    using manifests_ok_owner [OF m, of j r] manifests_ok_pub [OF m, of j p] by auto
  have ids: "\<forall>j w. jsGet (is_map s) j = Some w \<longrightarrow> io_id w = j" "jsmap_ok (is_map s)" "jsmap_ok (is_owners s)"
    using m by (simp_all add: manifests_ok_def)
  show ?thesis
    unfolding manifests_ok_def using other ids by (simp add: js_simps)
qed

lemma delete_registry_ok:
  assumes ok: "registry_ok s"
  shows "registry_ok (fst (deleteInstance s i))"
proof -
  have m: "manifests_ok s" using ok by (simp add: registry_ok_def)
  define t where "t = (case jsGet (is_map s) i of Some c \<Rightarrow> fst (removeManifest s c InstanceDeleted) | None \<Rightarrow> s)"
  have t: "registry_ok t \<and> jsGet (is_manifests t) i = None"
  proof (cases "jsGet (is_map s) i")
    case None
    then show ?thesis using ok no_manifest_if_absent [OF m None] by (simp add: t_def)
  next
    case (Some c)
    then have "io_id c = i" using m by (simp add: manifests_ok_def)
    then show ?thesis using remove_ok [OF ok, of c InstanceDeleted] Some by (simp add: t_def)
  qed
  have tm: "is_map t = is_map s" by (simp add: t_def split: option.split)
  have noop: "jsDelete (is_manifests t) i = is_manifests t"
    using t by (intro delete_id) (simp add: map_of_eq_None_iff)
  define d where "d = clearNameForInstance (dropOwner s i) i"
  have d: "is_owners d = jsDelete (is_owners t) i" "is_manifests d = is_manifests t" "is_events d = is_events t"
    "is_map d = is_map s" "is_manifestHandler d" "is_auditHandler d"
    using registry_fields [OF ok] by (simp_all add: d_def) (simp_all add: dropOwner_def Let_def t_def [symmetric] noop)
  define u where "u = d\<lparr>is_expose := dropFromPaths i (is_expose d), is_map := jsDelete (is_map d) i\<rparr>"
  have mu: "manifests_ok u"
  proof -
    have "manifests_ok (t\<lparr>is_owners := jsDelete (is_owners t) i, is_manifests := jsDelete (is_manifests t) i, is_map := jsDelete (is_map t) i\<rparr>)"
      using manifests_ok_drop [of t i] t by (simp add: registry_ok_def)
    then show ?thesis by (simp add: manifests_ok_def u_def d noop tm)
  qed
  have lt: "log_ok t" using t by (simp add: registry_ok_def)
  have del: "fst (deleteInstance s i) = (case jsGet (is_map s) i of None \<Rightarrow> u | Some c \<Rightarrow> auditInventory u None i (sequenceIdOf c))"
    by (simp add: deleteInstance_def Let_def u_def d_def split: option.split)
  show ?thesis
  proof (cases "jsGet (is_map s) i")
    case None
    then have "jsDelete (is_map s) i = is_map s" by (intro delete_id) (simp add: map_of_eq_None_iff)
    then have "log_ok u" using lt d tm by (simp add: log_ok_def revisions_def u_def)
    then show ?thesis using mu None by (simp add: del registry_ok_def)
  next
    case (Some c)
    have "log_ok (auditInventory u None i (sequenceIdOf c))"
      by (rule log_ok_audit [OF lt]) (use d tm in \<open>simp_all add: revisions_def map_of_del u_def\<close>)
    moreover have "manifests_ok (auditInventory u None i (sequenceIdOf c))" using mu by (simp add: manifests_ok_def)
    ultimately show ?thesis using Some by (simp add: del registry_ok_def)
  qed
qed

text \<open>\<open>clear\<close>: every manifest is withdrawn, then every instance is reported gone.\<close>

lemma remove_all_ok:
  "registry_ok s \<Longrightarrow> registry_ok (foldl (\<lambda>t r. fst (removeManifest t (or_owner r) reason)) s rs) \<and>
    is_map (foldl (\<lambda>t r. fst (removeManifest t (or_owner r) reason)) s rs) = is_map s \<and>
    (\<forall>i. jsGet (is_manifests s) i = None \<longrightarrow> jsGet (is_manifests (foldl (\<lambda>t r. fst (removeManifest t (or_owner r) reason)) s rs)) i = None)"
proof (induction rs arbitrary: s)
  case Nil
  then show ?case by simp
next
  case (Cons r rs)
  let ?t = "fst (removeManifest s (or_owner r) reason)"
  have t: "registry_ok ?t" using remove_ok [OF Cons.prems] by blast
  have keep: "jsGet (is_manifests s) i = None \<Longrightarrow> jsGet (is_manifests ?t) i = None" for i
    by (auto simp: removeManifest_def Let_def js_simps split: option.split)
  from Cons.IH [OF t] keep show ?case by auto
qed

lemma withdrawn_all:
  assumes "registry_ok s" and "r \<in> set rs" and "jsGet (is_map s) (io_id (or_owner r)) = Some (or_owner r)"
  shows "jsGet (is_manifests (foldl (\<lambda>t r. fst (removeManifest t (or_owner r) reason)) s rs)) (io_id (or_owner r)) = None"
  using assms
proof (induction rs arbitrary: s)
  case Nil
  then show ?case by simp
next
  case (Cons q rs)
  let ?t = "fst (removeManifest s (or_owner q) reason)"
  have t: "registry_ok ?t" using remove_ok [OF Cons.prems(1)] by blast
  show ?case
  proof (cases "r = q")
    case True
    then have "jsGet (is_manifests ?t) (io_id (or_owner r)) = None"
      using remove_ok [OF Cons.prems(1), of "or_owner q" reason, THEN conjunct2, THEN conjunct1] Cons.prems(3) by simp
    then show ?thesis using remove_all_ok [OF t, of reason rs] by simp
  next
    case False
    have mp: "is_map ?t = is_map s" by simp
    have "r \<in> set rs" using False Cons.prems(2) by simp
    from Cons.IH [OF t this] Cons.prems(3) show ?thesis by (simp only: mp foldl.simps)
  qed
qed

lemma audit_gone:
  "is_auditHandler s \<Longrightarrow> is_manifestHandler s \<Longrightarrow>
    is_events (foldl (\<lambda>t e. auditInventory t None (fst e) (g e)) s es) =
      is_events s @ map (\<lambda>e. InventoryAudited None (fst e) (g e)) es \<and>
    is_auditHandler (foldl (\<lambda>t e. auditInventory t None (fst e) (g e)) s es) \<and>
    is_manifestHandler (foldl (\<lambda>t e. auditInventory t None (fst e) (g e)) s es)"
  by (induction es arbitrary: s) (simp_all, simp add: auditInventory_def)

lemma inventory_events_neutral:
  "foldl applyChange m (map (\<lambda>e. InventoryAudited None (fst e) (g e)) es) = m"
  "changes_ok m (map (\<lambda>e. InventoryAudited None (fst e) (g e)) es)"
  "foldl applyInventory f (map (\<lambda>e. InventoryAudited None (fst e) (g e)) es) k = (if k \<in> fst ` set es then None else f k)"
  by (induction es arbitrary: m f) (auto split: if_splits)

lemma clear_registry_ok:
  assumes ok: "registry_ok s"
  shows "registry_ok (clearInstances s)"
proof -
  define t where "t = foldl (\<lambda>t r. fst (removeManifest t (or_owner r) HostStopped)) s (jsValues (is_owners s))"
  have t: "registry_ok t" "is_map t = is_map s" and gone0: "\<And>i. jsGet (is_manifests s) i = None \<Longrightarrow> jsGet (is_manifests t) i = None"
    using remove_all_ok [OF ok, of HostStopped "jsValues (is_owners s)"] by (simp_all add: t_def)
  have m: "manifests_ok s" using ok by (simp add: registry_ok_def)
  have none: "jsGet (is_manifests t) i = None" for i
  proof (cases "jsGet (is_manifests s) i")
    case None
    then show ?thesis by (rule gone0)
  next
    case (Some p)
    then obtain r where r: "jsGet (is_owners s) i = Some r" using manifests_ok_pub [OF m Some] by blast
    then have mp: "jsGet (is_map s) i = Some (or_owner r)" using manifests_ok_owner [OF m r] by simp
    then have "io_id (or_owner r) = i" using m by (simp add: manifests_ok_def)
    with withdrawn_all [OF ok jsGet_value_in [OF r], of HostStopped] mp show ?thesis by (simp add: t_def)
  qed
  let ?u = "t\<lparr>is_owners := [], is_manifests := [], is_reserved := [], is_nameMap := [], is_nameReverse := [], is_expose := [], is_map := []\<rparr>"
  have h: "is_auditHandler ?u" "is_manifestHandler ?u" using registry_fields [OF t(1)] by simp_all
  have clear: "clearInstances s = foldl (\<lambda>t e. auditInventory t None (fst e) (sequenceIdOf (snd e))) ?u (is_map t)"
    by (simp add: clearInstances_def Let_def t_def)
  have lt: "changes_ok (\<lambda>_. None) (is_events t)" "foldl applyChange (\<lambda>_. None) (is_events t) = revisions t"
    "foldl applyInventory (\<lambda>_. None) (is_events t) = map_of (is_map t)"
    using t(1) by (simp_all add: registry_ok_def log_ok_def)
  have rev: "revisions t = (\<lambda>_. None)" by (simp add: revisions_def none)
  have inv: "foldl applyInventory (map_of (is_map t)) (map (\<lambda>e. InventoryAudited None (fst e) (sequenceIdOf (snd e))) (is_map t)) = (\<lambda>_. None)"
    by (rule ext) (simp add: inventory_events_neutral map_of_eq_None_iff)
  have "log_ok (clearInstances s)"
    using audit_gone [OF h, of "\<lambda>e. sequenceIdOf (snd e)" "is_map t"] lt rev inv
    unfolding clear log_ok_def by (simp add: changes_ok_append inventory_events_neutral revisions_def)
  moreover have "manifests_ok (clearInstances s)"
    unfolding clear by (simp add: manifests_ok_def)
  ultimately show ?thesis by (simp add: registry_ok_def)
qed

lemma registry_ok_step:
  assumes ok: "registry_ok s" and op: "op_ok op"
  shows "registry_ok (instanceStep schema s op)"
proof (cases op)
  case (PublishManifest revision owner decl)
  then show ?thesis using ok op publish_ok [OF ok] by (auto simp: instanceStep_def op_ok_def split: sum.split)
next
  case (RemoveManifest owner reason)
  then show ?thesis using remove_ok [OF ok] by (simp add: instanceStep_def)
next
  case (SetInstance iid v)
  then show ?thesis using set_registry_ok [OF ok, of v iid] op by (simp add: instanceStep_def op_ok_def)
next
  case (DeleteInstance iid)
  then show ?thesis using delete_registry_ok [OF ok] by (simp add: instanceStep_def)
next
  case ClearInstances
  then show ?thesis using clear_registry_ok [OF ok] by (simp add: instanceStep_def)
next
  case (AuditCurrent owner)
  show ?thesis
  proof (cases "jsGet (is_map s) (io_id owner) = Some owner")
    case True
    then have "(map_of (is_map s))(io_id owner \<mapsto> owner) = map_of (is_map s)" by (simp add: fun_upd_idem)
    then have "log_ok (auditInventory s (Some owner) (io_id owner) (sequenceIdOf owner))"
      by (intro log_ok_audit [of s]) (use ok in \<open>simp_all add: registry_ok_def log_ok_def\<close>)
    moreover have "manifests_ok (auditInventory s (Some owner) (io_id owner) (sequenceIdOf owner)) = manifests_ok s"
      by (rule manifests_cong) simp_all
    ultimately show ?thesis
      using True ok by (simp add: AuditCurrent instanceStep_def auditCurrentInstance_def registry_ok_def)
  next
    case False
    then show ?thesis using ok by (simp add: AuditCurrent instanceStep_def auditCurrentInstance_def)
  qed
next
  case (UnregisterRpc path iid)
  have "registry_ok (instanceStep schema s op) = registry_ok s"
    by (rule registry_cong) (simp_all add: UnregisterRpc instanceStep_def unregisterRpc_def Let_def split: option.split)
  then show ?thesis using ok by simp
next
  case (RegisterName n iid)
  have "registry_ok (instanceStep schema s op) = registry_ok s"
    by (rule registry_cong) (simp_all add: RegisterName instanceStep_def registerName_def)
  then show ?thesis using ok by simp
next
  case (ReserveName n iid)
  have "registry_ok (instanceStep schema s op) = registry_ok s"
    by (rule registry_cong) (simp_all add: ReserveName instanceStep_def)
  then show ?thesis using ok by simp
next
  case (UnregisterName n iid)
  have "registry_ok (instanceStep schema s op) = registry_ok s"
    by (rule registry_cong) (simp_all add: UnregisterName instanceStep_def unregisterName_def split: option.split)
  then show ?thesis using ok by simp
next
  case (RegisterRpc path iid)
  have "registry_ok (instanceStep schema s op) = registry_ok s"
    by (rule registry_cong) (simp_all add: RegisterRpc instanceStep_def registerRpc_def)
  then show ?thesis using ok by simp
next
  case (ReserveId iid)
  have "registry_ok (instanceStep schema s op) = registry_ok s"
    by (rule registry_cong) (simp_all add: ReserveId instanceStep_def reserveId_def)
  then show ?thesis using ok by simp
next
  case (ReleaseId iid)
  have "registry_ok (instanceStep schema s op) = registry_ok s"
    by (rule registry_cong) (simp_all add: ReleaseId instanceStep_def releaseId_def)
  then show ?thesis using ok by simp
qed

section \<open>Ids\<close>

lemma ids_ok_step:
  assumes ok: "ids_ok s"
  shows "ids_ok (instanceStep schema s op)"
proof -
  have cong: "ids_ok t = ids_ok s" if "is_reserved t = is_reserved s" "is_map t = is_map s" for t
    using that by (simp add: ids_ok_def)
  show ?thesis
  proof (cases op)
    case (PublishManifest revision owner decl)
    have "is_reserved (instanceStep schema s op) = is_reserved s \<and> is_map (instanceStep schema s op) = is_map s"
      by (auto simp: PublishManifest instanceStep_def publishManifest_def Let_def split: option.splits sum.splits)
    then show ?thesis using ok cong by blast
  next
    case (ReserveId iid)
    then show ?thesis using ok by (auto simp: instanceStep_def reserveId_def ids_ok_def)
  next
    case (SetInstance iid v)
    have "is_reserved (setInstance s iid v) = jsRemove (is_reserved s) iid" "is_map (setInstance s iid v) = jsSet (is_map s) iid v"
      by (simp_all add: setInstance_def Let_def split: option.split)
    then show ?thesis using ok by (auto simp: SetInstance instanceStep_def ids_ok_def js_simps)
  next
    case (DeleteInstance iid)
    have "is_reserved (fst (deleteInstance s iid)) = jsRemove (is_reserved s) iid"
      "is_map (fst (deleteInstance s iid)) = jsDelete (is_map s) iid"
      by (simp_all add: deleteInstance_def Let_def split: option.split)
    then show ?thesis using ok by (auto simp: DeleteInstance instanceStep_def ids_ok_def js_simps)
  next
    case ClearInstances
    then show ?thesis by (simp add: instanceStep_def clearInstances_def Let_def ids_ok_def)
  next
    case (UnregisterRpc path iid)
    then show ?thesis using ok by (simp add: instanceStep_def unregisterRpc_def Let_def ids_ok_def split: option.split)
  next
    case (UnregisterName n iid)
    then show ?thesis using ok by (simp add: instanceStep_def unregisterName_def ids_ok_def split: option.split)
  qed (use ok in \<open>simp_all add: instanceStep_def ids_ok_def registerRpc_def releaseId_def registerName_def auditCurrentInstance_def\<close>)
qed

section \<open>Expose paths\<close>

lemma longestFirst_in: "longestFirst es = Some e \<Longrightarrow> e \<in> set es \<and> (\<forall>f \<in> set es. length (fst f) \<le> length (fst e))"
proof (induction es arbitrary: e)
  case Nil
  then show ?case by simp
next
  case (Cons x es)
  show ?case
  proof (cases "longestFirst es")
    case None
    then have "es = []" by (cases es) (auto split: option.splits if_splits)
    then show ?thesis using Cons.prems by simp
  next
    case (Some f)
    with Cons.IH [OF Some] Cons.prems show ?thesis by (auto split: if_splits intro: order_trans less_imp_le)
  qed
qed

text \<open>After \<open>delete\<close> nothing in the store leads to the instance.\<close>

lemma dropFromPaths_gone: "(p, ids) \<in> set (dropFromPaths iid m) \<Longrightarrow> iid \<notin> set ids"
  by (auto simp: dropFromPaths_def Let_def split: if_splits)

section \<open>Properties\<close>

definition store_names :: "instances_store \<Rightarrow> bool" where
  "store_names s \<longleftrightarrow> names_ok s \<and> ids_ok s"

lemma store_names_step: "store_names s \<Longrightarrow> op_ok op \<Longrightarrow> store_names (instanceStep schema s op)"
  by (simp add: store_names_def names_ok_step ids_ok_step)

lemma store_names_new: "store_names (newInstancesStore a b)"
  by (simp add: store_names_def names_ok_def ids_ok_def newInstancesStore_def)

interpretation instance_names: guarded_machine "instanceStep schema" op_ok store_names for schema
  by unfold_locales (rule store_names_step)

interpretation instance_registry: guarded_machine "instanceStep schema" op_ok registry_ok for schema
  by unfold_locales (rule registry_ok_step)

text \<open>C20: Along every run, stable names and instance ids are in one-to-one correspondence, and an id is
  never both reserved and in use.\<close>

theorem instance_names_unique:
  assumes "list_all op_ok ops"
  shows "inverse_maps (map_of (is_nameMap (foldl (instanceStep schema) (newInstancesStore a b) ops)))
      (map_of (is_nameReverse (foldl (instanceStep schema) (newInstancesStore a b) ops))) \<and>
    list_all (\<lambda>iid. jsGet (is_map (foldl (instanceStep schema) (newInstancesStore a b) ops)) iid = None)
      (is_reserved (foldl (instanceStep schema) (newInstancesStore a b) ops))"
  using instance_names.guarded_run [OF store_names_new assms, of schema a b]
  by (simp add: store_names_def names_ok_alt ids_ok_def list_all_iff)

definition demoOwner :: "nat \<Rightarrow> string \<Rightarrow> instance_owner" where
  "demoOwner n iid = \<lparr>io_ref = n, io_id = iid, io_sequenceId = Some ''seq'', io_config = JObj Plain [], io_sequenceName = None\<rparr>"

definition demoOps :: "store_op list" where
  "demoOps = [ReserveId ''i1'', ReserveName ''main'' ''i1'', SetInstance ''i1'' (demoOwner 0 ''i1''),
     PublishManifest ''r1'' (demoOwner 0 ''i1'') (JObj Plain []), PublishManifest ''r2'' (demoOwner 0 ''i1'') (JObj Plain []),
     SetInstance ''i1'' (demoOwner 1 ''i1''), ReserveName ''other'' ''i1'', DeleteInstance ''i1'']"

lemma demoOps_ok: "list_all op_ok demoOps"
  by code_simp

lemma instance_names_unique_witness:
  "inverse_maps (map_of (is_nameMap (foldl (instanceStep (\<lambda>_. True)) (newInstancesStore True True) demoOps)))
      (map_of (is_nameReverse (foldl (instanceStep (\<lambda>_. True)) (newInstancesStore True True) demoOps)))"
  using instance_names_unique [OF demoOps_ok] by blast

text \<open>C19: The manifest changes the store emits form, for every instance, a revision chain: published
  when there is no current manifest, updated from and removed at exactly the current revision. The
  inventory audits replay to the store's live instances. Both hold after every operation, \<open>clear\<close> and
  the replacement of an instance included.\<close>

theorem instance_audit_replay:
  assumes "list_all op_ok ops"
  shows "changes_ok (\<lambda>_. None) (is_events (foldl (instanceStep schema) (newInstancesStore True True) ops)) \<and>
    foldl applyChange (\<lambda>_. None) (is_events (foldl (instanceStep schema) (newInstancesStore True True) ops)) =
      revisions (foldl (instanceStep schema) (newInstancesStore True True) ops) \<and>
    foldl applyInventory (\<lambda>_. None) (is_events (foldl (instanceStep schema) (newInstancesStore True True) ops)) =
      map_of (is_map (foldl (instanceStep schema) (newInstancesStore True True) ops))"
  using instance_registry.guarded_run [OF registry_ok_new assms, of schema]
  by (simp add: registry_ok_def log_ok_def)

lemma instance_audit_replay_witness:
  "length (is_events (foldl (instanceStep (\<lambda>_. True)) (newInstancesStore True True) demoOps)) = 6 \<and>
    changes_ok (\<lambda>_. None) (is_events (foldl (instanceStep (\<lambda>_. True)) (newInstancesStore True True) demoOps))"
proof -
  have "length (is_events (foldl (instanceStep (\<lambda>_. True)) (newInstancesStore True True) demoOps)) = 6" by code_simp
  then show ?thesis using instance_audit_replay [OF demoOps_ok, of "\<lambda>_. True"] by blast
qed

text \<open>A deleted instance cannot be reached any more: not by id, name, reservation, expose path or
  manifest.\<close>

theorem deleted_unreachable:
  assumes "list_all op_ok ops"
  shows "let s = fst (deleteInstance (foldl (instanceStep schema) (newInstancesStore True True) ops) iid) in
    jsGet (is_map s) iid = None \<and> \<not> hasReservedId s iid \<and> jsGet (is_nameReverse s) iid = None \<and>
    jsGet (is_owners s) iid = None \<and> jsGet (is_manifests s) iid = None \<and>
    list_all (\<lambda>e. iid \<notin> set (snd e)) (is_expose s) \<and> list_all (\<lambda>o'. io_id o' \<noteq> iid) (getByExposePath s path)"
proof -
  let ?r = "foldl (instanceStep schema) (newInstancesStore True True) ops"
  define s where "s = fst (deleteInstance ?r iid)"
  have names: "names_ok ?r" using instance_names.guarded_run [OF store_names_new assms] by (simp add: store_names_def)
  have reg: "registry_ok s" unfolding s_def using instance_registry.guarded_run [OF registry_ok_new assms] delete_registry_ok by blast
  have "names_ok (dropOwner ?r iid)" using names by (simp add: names_ok_def)
  from names_ok_clearName(2) [OF this, of iid]
  have parts: "jsGet (is_map s) iid = None" "\<not> hasReservedId s iid" "jsGet (is_nameReverse s) iid = None"
    "is_expose s = dropFromPaths iid (is_expose ?r)"
    by (simp_all add: s_def deleteInstance_def Let_def hasReservedId_def js_simps split: option.split)
  have m: "manifests_ok s" using reg by (simp add: registry_ok_def)
  have "jsGet (is_owners s) iid = None" using manifests_ok_owner [OF m, of iid] parts(1) by (cases "jsGet (is_owners s) iid") auto
  moreover have "jsGet (is_manifests s) iid = None" by (rule no_manifest_if_absent [OF m parts(1)])
  moreover have "list_all (\<lambda>e. iid \<notin> set (snd e)) (is_expose s)"
    using dropFromPaths_gone [of _ _ iid "is_expose ?r"] by (auto simp: list_all_iff parts(4))
  moreover have "list_all (\<lambda>o'. io_id o' \<noteq> iid) (getByExposePath s path)"
    using m parts(1) by (auto simp: getByExposePath_def list_all_iff manifests_ok_def split: option.splits)
  ultimately show ?thesis using parts by (simp add: s_def [symmetric] Let_def)
qed

lemma deleted_unreachable_witness:
  "jsGet (is_nameReverse (fst (deleteInstance (foldl (instanceStep (\<lambda>_. True)) (newInstancesStore True True) demoOps) ''i1''))) ''i1'' = None"
  using deleted_unreachable [OF demoOps_ok, of "\<lambda>_. True" "''i1''" "''/''"] by (simp add: Let_def)

text \<open>Expose paths are matched on segment boundaries and the most specific path wins: an instance
  found for a request is registered under a path the request lies below, and no registered path the
  request lies below is longer.\<close>

theorem expose_path_most_specific:
  assumes "v \<in> set (getByExposePath s request)"
  shows "\<exists>path ids iid. (path, ids) \<in> set (is_expose s) \<and> iid \<in> set ids \<and> jsGet (is_map s) iid = Some v \<and>
    path \<noteq> [] \<and> (path = ''/'' \<or> belowPath path (normalizedRpcPath request)) \<and>
    (\<forall>q \<in> fst ` set (is_expose s). q \<noteq> [] \<and> (q = ''/'' \<or> belowPath q (normalizedRpcPath request)) \<longrightarrow> length q \<le> length path)"
proof -
  from assms obtain path ids iid where e: "longestFirst (filter (\<lambda>e. matchesRpcExposePath request (Some (fst e))) (is_expose s)) = Some (path, ids)"
    and iid: "iid \<in> set ids" "jsGet (is_map s) iid = Some v"
    by (auto simp: getByExposePath_def dest: sym [of "Some _"] split: option.splits)
  from longestFirst_in [OF e] iid show ?thesis
    by (intro exI [of _ path] exI [of _ ids] exI [of _ iid]) (auto simp: matches_iff)
qed

lemma expose_path_most_specific_witness:
  "\<exists>s. demoOwner 0 ''i1'' \<in> set (getByExposePath s ''/api/v1/items'') \<and>
    (\<exists>path ids. (path, ids) \<in> set (is_expose s) \<and> belowPath path ''/api/v1/items'')"
proof -
  let ?s = "foldl (instanceStep (\<lambda>_. True)) (newInstancesStore True True)
    [SetInstance ''i1'' (demoOwner 0 ''i1''), RegisterRpc ''/api'' ''i0'', RegisterRpc ''/api/v1'' ''i1'']"
  have "getByExposePath ?s ''/api/v1/items'' = [demoOwner 0 ''i1'']" by code_simp
  then have v: "demoOwner 0 ''i1'' \<in> set (getByExposePath ?s ''/api/v1/items'')" by simp
  have p: "map fst (is_expose ?s) = [''/api'', ''/api/v1'']" by code_simp
  obtain path ids where q: "(path, ids) \<in> set (is_expose ?s)"
    "path = ''/'' \<or> belowPath path (normalizedRpcPath ''/api/v1/items'')"
    using expose_path_most_specific [OF v] by (elim exE conjE) simp
  have "path \<in> set (map fst (is_expose ?s))" using q(1) by force
  then have "path \<noteq> ''/''" unfolding p by auto
  then have "belowPath path ''/api/v1/items''" using q(2) by (simp add: normalizedRpcPath_def)
  with v q(1) show ?thesis by (intro exI [of _ ?s]) blast
qed

text \<open>Stripping an expose path inverts it: the request is the expose path followed by a rest, and
  what is forwarded is that rest (with a slash where it would be empty or start with the query).\<close>

theorem strip_expose_path:
  assumes "matchesRpcExposePath request (Some e)" and "e \<noteq> ''/''"
  shows "\<exists>rest. normalizedRpcPath request = e @ rest \<and> stripRpcExposePath request (Some e) =
    (if rest = [] then ''/'' else if hd rest = CHR ''?'' then CHR ''/'' # rest else rest)"
  using assms by (rule strip_rest)

lemma strip_expose_path_witness: "\<exists>rest. ''/svc?x=1'' = ''/svc'' @ rest \<and> stripRpcExposePath ''svc?x=1'' (Some ''/svc'') = CHR ''/'' # rest"
proof -
  have "matchesRpcExposePath ''svc?x=1'' (Some ''/svc'')" by code_simp
  from strip_expose_path [OF this] show ?thesis by (auto simp: normalizedRpcPath_def)
qed

end
