(* ===== verification/JsText.thy ===== *)
theory JsText
  imports Prelude
begin

text \<open>
  The text operations of the language the program uses: decimal numerals, \<open>trim\<close>, \<open>split\<close>, \<open>join\<close>,
  \<open>slice\<close> and the line ends of the wire formats. A string is a list of characters below 256, the part
  of the UTF-16 code units that \<open>char\<close> has.
\<close>

section \<open>Numerals\<close>

text \<open>A natural number and an integer in a template string.\<close>

fun decimalDigits :: "nat \<Rightarrow> string" where
  "decimalDigits n = (if n < 10 then [char_of (48 + n)] else decimalDigits (n div 10) @ [char_of (48 + n mod 10)])"

declare decimalDigits.simps [simp del]

definition decimal :: "int \<Rightarrow> string" where
  "decimal i = (if i < 0 then CHR ''-'' # decimalDigits (nat (- i)) else decimalDigits (nat i))"

definition isDigit :: "char \<Rightarrow> bool" where
  "isDigit c \<longleftrightarrow> 48 \<le> (of_char c :: nat) \<and> (of_char c :: nat) \<le> 57"

definition digitValue :: "char \<Rightarrow> nat" where
  "digitValue c = of_char c - 48"

text \<open>\<open>Number(s)\<close> for a text of decimal digits.\<close>

definition digitsValue :: "string \<Rightarrow> nat" where
  "digitsValue s = foldl (\<lambda>n c. 10 * n + digitValue c) 0 s"

lemma digit_char [simp]: "d < 10 \<Longrightarrow> isDigit (char_of (48 + d))" "d < 10 \<Longrightarrow> digitValue (char_of (48 + d)) = d"
  by (simp_all add: isDigit_def digitValue_def)

lemma decimalDigits_digits: "list_all isDigit (decimalDigits n) \<and> decimalDigits n \<noteq> [] \<and> digitsValue (decimalDigits n) = n"
proof (induction n rule: decimalDigits.induct)
  case (1 n)
  show ?case
  proof (cases "n < 10")
    case True
    then show ?thesis by (simp add: decimalDigits.simps [of n] digitsValue_def)
  next
    case False
    from 1 [OF this] False show ?thesis by (simp add: decimalDigits.simps [of n] digitsValue_def)
  qed
qed

lemma digits_no_space: "list_all isDigit s \<Longrightarrow> \<forall>c \<in> set s. \<not> isJsSpace c"
  by (auto simp: list_all_iff isDigit_def isJsSpace_def Let_def)

section \<open>trim\<close>

definition jsTrim :: "string \<Rightarrow> string" where
  "jsTrim s = rev (dropWhile isJsSpace (rev (dropWhile isJsSpace s)))"

lemma jsTrim_id: "s = [] \<or> \<not> isJsSpace (hd s) \<and> \<not> isJsSpace (last s) \<Longrightarrow> jsTrim s = s"
proof -
  have stay: "t = [] \<or> \<not> isJsSpace (hd t) \<Longrightarrow> dropWhile isJsSpace t = t" for t by (cases t) auto
  assume "s = [] \<or> \<not> isJsSpace (hd s) \<and> \<not> isJsSpace (last s)"
  then show ?thesis using stay [of s] stay [of "rev s"] by (auto simp: jsTrim_def hd_rev)
qed

lemma jsTrim_digits: "list_all isDigit s \<Longrightarrow> jsTrim s = s"
  using digits_no_space [of s] by (intro jsTrim_id) (cases "s = []"; simp)

lemma dropWhile_hd: "dropWhile P s \<noteq> [] \<Longrightarrow> \<not> P (hd (dropWhile P s))"
  by (induction s) auto

lemma jsTrim_ends: "jsTrim s \<noteq> [] \<Longrightarrow> \<not> isJsSpace (hd (jsTrim s)) \<and> \<not> isJsSpace (last (jsTrim s))"
proof -
  let ?a = "dropWhile isJsSpace s" and ?b = "dropWhile isJsSpace (rev (dropWhile isJsSpace s))"
  assume b: "jsTrim s \<noteq> []"
  then have nb: "?b \<noteq> []" by (simp add: jsTrim_def)
  then have l: "\<not> isJsSpace (hd ?b)" by (rule dropWhile_hd)
  obtain p where p: "rev ?a = p @ ?b" using takeWhile_dropWhile_id [of isJsSpace "rev ?a"] by metis
  then have a: "?a = rev ?b @ rev p" by (metis rev_append rev_rev_ident)
  then have "?a \<noteq> []" using nb by (metis append_is_Nil_conv rev_is_Nil_conv)
  then have "\<not> isJsSpace (hd ?a)" by (rule dropWhile_hd)
  moreover have "hd ?a = hd (rev ?b)" using a nb by (metis hd_append2 rev_is_Nil_conv)
  ultimately show ?thesis using l nb by (simp add: jsTrim_def last_rev)
qed

lemma jsTrim_idem [simp]: "jsTrim (jsTrim s) = jsTrim s"
  using jsTrim_ends [of s] by (intro jsTrim_id) blast

section \<open>split and join\<close>

text \<open>\<open>text.split(c)\<close> for a one-character separator, and \<open>parts.join(sep)\<close>.\<close>

fun splitOn :: "char \<Rightarrow> string \<Rightarrow> string list" where
  "splitOn sep [] = [[]]"
| "splitOn sep (c # s) = (if c = sep then [] # splitOn sep s
     else case splitOn sep s of p # ps \<Rightarrow> (c # p) # ps | [] \<Rightarrow> [[c]])"

fun joinWith :: "string \<Rightarrow> string list \<Rightarrow> string" where
  "joinWith sep [] = []"
| "joinWith sep [p] = p"
| "joinWith sep (p # q # ps) = p @ sep @ joinWith sep (q # ps)"

lemma splitOn_nonempty [simp]: "splitOn sep s \<noteq> []"
  by (induction s) (auto split: list.split)

lemma splitOn_free: "sep \<notin> set p \<Longrightarrow> splitOn sep p = [p]"
  by (induction p) auto

lemma splitOn_cons: "sep \<notin> set p \<Longrightarrow> splitOn sep (p @ sep # s) = p # splitOn sep s"
  by (induction p) (auto split: list.split)

lemma join_split: "joinWith [sep] (splitOn sep s) = s"
proof (induction s)
  case (Cons c s)
  obtain p ps where s: "splitOn sep s = p # ps" using splitOn_nonempty [of sep s] by (cases "splitOn sep s") auto
  then show ?case using Cons by (cases ps) auto
qed simp

lemma split_join: "ps \<noteq> [] \<Longrightarrow> list_all (\<lambda>p. sep \<notin> set p) ps \<Longrightarrow> splitOn sep (joinWith [sep] ps) = ps"
  by (induction "[sep]" ps rule: joinWith.induct) (simp_all add: splitOn_free splitOn_cons)

lemma splitOn_parts_free: "p \<in> set (splitOn sep s) \<Longrightarrow> sep \<notin> set p"
  by (induction s arbitrary: p) (auto split: list.splits if_splits)

section \<open>Line ends\<close>

definition LF :: char where
  "LF = CHR 0x0A"

definition CR :: char where
  "CR = CHR 0x0D"

definition CRLF :: string where
  "CRLF = [CR, LF]"

text \<open>\<open>Buffer.byteLength\<close>: one byte below 128, two bytes up to 255.\<close>

definition byteLength :: "char \<Rightarrow> nat" where
  "byteLength c = (if of_char c < (128::nat) then 1 else 2)"

definition bytesOf :: "string \<Rightarrow> nat" where
  "bytesOf s = sum_list (map byteLength s)"

lemma byteLength_pos: "1 \<le> byteLength c" "byteLength c \<le> 2"
  by (simp_all add: byteLength_def)

lemma bytesOf_simps [simp]: "bytesOf [] = 0" "bytesOf (c # s) = byteLength c + bytesOf s" "bytesOf (s @ t) = bytesOf s + bytesOf t"
  by (simp_all add: bytesOf_def)

lemma bytes_short: "2 * length l \<le> n \<Longrightarrow> bytesOf l \<le> n"
proof (induction l arbitrary: n)
  case (Cons c l)
  from Cons.IH [of "n - 2"] Cons.prems byteLength_pos [of c] show ?case by simp arith
qed simp

end
