(* ===== verification/RunnerExit.thy ===== *)
theory RunnerExit
  imports JsValue JsText
begin

text \<open>
  The numbers the runner, the host and the manager exchange (\<open>packages/symbols/src/runner-exit-code.ts\<close>,
  \<open>runner-message-code.ts\<close>, \<open>cpm-message-code.ts\<close>, \<open>runtime-kind.ts\<close>), what a closed child process
  means (\<open>packages/runner/src/executor/exit-translation.ts\<close>) and what the host reports for the exit
  code of a runner (\<open>packages/host/src/lib/utils.ts\<close>). An enum is the list of its members; a code that
  the process API gives as \<open>number | null\<close> is an \<open>int option\<close>.
\<close>

section \<open>Enums\<close>

definition runnerExitCodes :: "(string \<times> int) list" where
  "runnerExitCodes =
    [(''INVALID_ENV_VARS'', 20), (''INVALID_SEQUENCE_PATH'', 21), (''SEQUENCE_FAILED_ON_START'', 22),
     (''SEQUENCE_FAILED_DURING_EXECUTION'', 23), (''SEQUENCE_UNPACK_FAILED'', 10), (''KILLED'', 137), (''STOPPED'', 138),
     (''DISCONNECTED'', 139), (''SUCCESS'', 0), (''CLEANUP_FAILED'', 223), (''PODS_LIMIT_REACHED'', 24),
     (''UNCAUGHT_EXCEPTION'', 101)]"

definition runnerMessageCodes :: "(string \<times> int) list" where
  "runnerMessageCodes =
    [(''PING'', 3000), (''MONITORING'', 3001), (''DESCRIBE_SEQUENCE'', 3002), (''ERROR'', 3003), (''SEQUENCE_STOPPED'', 3006),
     (''STATUS'', 3007), (''ALIVE'', 3010), (''ACKNOWLEDGE'', 3004), (''SEQUENCE_COMPLETED'', 3011), (''PANG'', 3012),
     (''INPUT_CONTENT_TYPE'', 3013), (''READY'', 3014), (''MANIFEST_DECLARE'', 3015),
     (''PONG'', 4000), (''STOP'', 4001), (''KILL'', 4002), (''MONITORING_RATE'', 4003), (''MONITORING_REPLY'', 4004),
     (''SET'', 4005), (''MANIFEST_RESULT'', 4006), (''EVENT'', 5001), (''STORAGE'', 5002), (''STORAGE_UPDATE'', 5003)]"

definition cpmMessageCodes :: "(string \<times> int) list" where
  "cpmMessageCodes =
    [(''STH_ID'', 7000), (''LOAD'', 7001), (''NETWORK_INFO'', 7002), (''INSTANCES'', 7003), (''SEQUENCES'', 7004),
     (''INSTANCE'', 7005), (''SEQUENCE'', 7006), (''TOPIC'', 7007), (''EVENT'', 7008), (''CONFIRM_MSG'', 8000),
     (''KEY_REVOKED'', 9001), (''LIMIT_EXCEEDED'', 9002), (''ID_DROP'', 9003), (''DO_RECONNECT'', 9004)]"

definition exitCode :: "string \<Rightarrow> int" where
  "exitCode name = (case map_of runnerExitCodes name of Some c \<Rightarrow> c | None \<Rightarrow> -1)"

definition messageCode :: "string \<Rightarrow> int" where
  "messageCode name = (case map_of runnerMessageCodes name of Some c \<Rightarrow> c | None \<Rightarrow> -1)"

text \<open>The set of all numbers a control or monitoring frame may start with.\<close>

definition knownCodes :: "int list" where
  "knownCodes = map snd runnerMessageCodes @ map snd cpmMessageCodes"

lemma exit_codes [simp]:
  "exitCode ''INVALID_ENV_VARS'' = 20" "exitCode ''INVALID_SEQUENCE_PATH'' = 21" "exitCode ''SEQUENCE_FAILED_ON_START'' = 22"
  "exitCode ''SEQUENCE_FAILED_DURING_EXECUTION'' = 23" "exitCode ''SEQUENCE_UNPACK_FAILED'' = 10" "exitCode ''KILLED'' = 137"
  "exitCode ''STOPPED'' = 138" "exitCode ''DISCONNECTED'' = 139" "exitCode ''SUCCESS'' = 0" "exitCode ''PODS_LIMIT_REACHED'' = 24"
  by (simp_all add: exitCode_def runnerExitCodes_def)

lemma message_codes [simp]:
  "messageCode ''SEQUENCE_STOPPED'' = 3006" "messageCode ''SEQUENCE_COMPLETED'' = 3011" "messageCode ''READY'' = 3014"
  "messageCode ''STOP'' = 4001" "messageCode ''KILL'' = 4002"
  by (simp_all add: messageCode_def runnerMessageCodes_def)

section \<open>A closed child\<close>

record sequence_error =
  se_message :: string
  se_exitCode :: "int option"
  se_signal :: "string option"

record translated_close =
  tc_exitCode :: int
  tc_messageCode :: int
  tc_sequenceError :: "sequence_error option"

definition translateChildClose :: "int option \<Rightarrow> string option \<Rightarrow> translated_close" where
  "translateChildClose code signal = (case signal of
      Some sig \<Rightarrow>
        \<lparr>tc_exitCode = (if sig = ''SIGKILL'' then exitCode ''KILLED'' else if sig = ''SIGTERM'' then exitCode ''STOPPED''
           else exitCode ''DISCONNECTED''),
         tc_messageCode = messageCode ''SEQUENCE_STOPPED'',
         tc_sequenceError = Some \<lparr>se_message = ''Child terminated by signal '' @ sig, se_exitCode = code, se_signal = Some sig\<rparr>\<rparr>
    | None \<Rightarrow>
        if code = Some 0 then
          \<lparr>tc_exitCode = exitCode ''SUCCESS'', tc_messageCode = messageCode ''SEQUENCE_COMPLETED'', tc_sequenceError = None\<rparr>
        else
          \<lparr>tc_exitCode = (case code of
               Some c \<Rightarrow> if c \<in> set (map snd runnerExitCodes) then c else exitCode ''SEQUENCE_FAILED_DURING_EXECUTION''
             | None \<Rightarrow> exitCode ''SEQUENCE_FAILED_DURING_EXECUTION''),
           tc_messageCode = messageCode ''SEQUENCE_STOPPED'',
           tc_sequenceError = Some \<lparr>se_message = ''Child exited with code '' @ (case code of Some c \<Rightarrow> decimal c | None \<Rightarrow> ''null''),
             se_exitCode = code, se_signal = None\<rparr>\<rparr>)"

definition requiresHardChildTeardown :: "translated_close \<Rightarrow> bool" where
  "requiresHardChildTeardown t \<longleftrightarrow>
    (case tc_sequenceError t of Some e \<Rightarrow> se_signal e \<noteq> None | None \<Rightarrow> False) \<or>
    tc_exitCode t = exitCode ''KILLED'' \<or> tc_exitCode t = exitCode ''STOPPED'' \<or> tc_exitCode t = exitCode ''DISCONNECTED''"

text \<open>
  The terminal frame as the value given to \<open>JSON.stringify\<close>; \<open>stringify\<close> and the result of \<open>write\<close> are
  the stream's. The result is the text written, if any, and what the function returns.
\<close>

definition nullable :: "('a \<Rightarrow> jsval) \<Rightarrow> 'a option \<Rightarrow> jsval" where
  "nullable f x = (case x of Some a \<Rightarrow> f a | None \<Rightarrow> JNull)"

definition terminalFrame :: "translated_close \<Rightarrow> jsval" where
  "terminalFrame t = JArr Plain [JNum (NInt (tc_messageCode t)), JObj Plain (case tc_sequenceError t of
      None \<Rightarrow> []
    | Some e \<Rightarrow> [(''sequenceError'', JObj Plain [(''message'', JStr (se_message e)),
        (''exitCode'', nullable (\<lambda>c. JNum (NInt c)) (se_exitCode e)), (''signal'', nullable JStr (se_signal e))])])]"

definition writeTerminalLifecycleFrame :: "(jsval \<Rightarrow> string) \<Rightarrow> bool \<Rightarrow> bool \<Rightarrow> translated_close \<Rightarrow> string option \<times> bool" where
  "writeTerminalLifecycleFrame stringify writable writeResult t =
    (if \<not> writable then (None, False) else (Some (stringify (terminalFrame t) @ CRLF), writeResult))"

section \<open>What the host reports\<close>

datatype instance_status = INITIALIZING | STARTING | RUNNING | STOPPING | KILLING | COMPLETED | ERRORED | GONE

record exit_report =
  er_message :: string
  er_exitcode :: int
  er_status :: instance_status

text \<open>\<open>Inl\<close> is a rejected promise, \<open>Inr\<close> a resolved one.\<close>

definition mapRunnerExitCode :: "int \<Rightarrow> string \<Rightarrow> exit_report + exit_report" where
  "mapRunnerExitCode c entrypointPath =
    (let failed = (\<lambda>m. Inl \<lparr>er_message = m, er_exitcode = c, er_status = ERRORED\<rparr>) in
     if c = exitCode ''INVALID_ENV_VARS'' then failed ''Runner was started with invalid configuration. This is probably a bug in STH.''
     else if c = exitCode ''PODS_LIMIT_REACHED'' then failed ''Instance limit reached''
     else if c = exitCode ''INVALID_SEQUENCE_PATH'' then
       failed (''Sequence entrypoint path '' @ entrypointPath @ '' is invalid. Check `main` field in Sequence package.json'')
     else if c = exitCode ''SEQUENCE_FAILED_ON_START'' then failed ''Sequence failed on start''
     else if c = exitCode ''SEQUENCE_FAILED_DURING_EXECUTION'' then failed ''Sequence failed during execution''
     else if c = exitCode ''SEQUENCE_UNPACK_FAILED'' then failed ''Sequence unpack failed''
     else if c = exitCode ''KILLED'' then failed ''Instance killed''
     else if c = exitCode ''STOPPED'' then Inr \<lparr>er_message = ''Instance stopped'', er_exitcode = c, er_status = COMPLETED\<rparr>
     else if c \<noteq> 0 then failed ''Runner failed''
     else Inr \<lparr>er_message = ''Instance completed'', er_exitcode = c, er_status = COMPLETED\<rparr>)"

section \<open>Runtime kinds\<close>

datatype runtime_kind = Node | Python3 | Bun

definition selectRuntimeKind :: "string list option \<Rightarrow> runtime_kind" where
  "selectRuntimeKind engines = (case engines of
      None \<Rightarrow> Node
    | Some names \<Rightarrow> if ''node'' \<in> set names then Node else if ''bun'' \<in> set names then Bun
        else if ''python3'' \<in> set names then Python3 else Node)"

section \<open>Facts\<close>

lemma translate_signal [simp]:
  "tc_sequenceError (translateChildClose code signal) = None \<longleftrightarrow> signal = None \<and> code = Some 0"
  by (simp add: translateChildClose_def split: option.split)

lemma translate_exit:
  "tc_exitCode (translateChildClose code signal) = (case signal of
     Some sig \<Rightarrow> if sig = ''SIGKILL'' then 137 else if sig = ''SIGTERM'' then 138 else 139
   | None \<Rightarrow> (case code of Some c \<Rightarrow> if c \<in> set (map snd runnerExitCodes) then c else 23 | None \<Rightarrow> 23))"
  by (simp add: translateChildClose_def runnerExitCodes_def split: option.split)

lemma translate_in_codes: "tc_exitCode (translateChildClose code signal) \<in> set (map snd runnerExitCodes)"
  by (simp add: translate_exit runnerExitCodes_def split: option.split)

lemma hard_teardown_iff:
  "requiresHardChildTeardown (translateChildClose code signal) \<longleftrightarrow> signal \<noteq> None \<or> code \<in> {Some 137, Some 138, Some 139}"
  by (auto simp: requiresHardChildTeardown_def translateChildClose_def runnerExitCodes_def split: option.split)

lemma map_exit_ok:
  "(\<exists>r. mapRunnerExitCode c p = Inr r) \<longleftrightarrow> c = 0 \<or> c = 138"
  by (auto simp: mapRunnerExitCode_def Let_def)

lemma map_exit_report:
  "(case mapRunnerExitCode c p of Inl r \<Rightarrow> er_exitcode r = c \<and> er_status r = ERRORED
     | Inr r \<Rightarrow> er_exitcode r = c \<and> er_status r = COMPLETED)"
  by (simp add: mapRunnerExitCode_def Let_def)

section \<open>The outcome of a child\<close>

text \<open>What the host reports for a child process follows from how it closed: whatever the exit code or
  signal, the translated code is one of the enum; the terminal frame says completed exactly for exit
  code 0 without a signal; the teardown is hard exactly for a signal or one of the codes 137, 138,
  139; and the host resolves, with status completed, exactly for exit code 0 or 138 and for SIGTERM.\<close>

theorem child_close_outcome:
  "let t = translateChildClose code signal in
    tc_exitCode t \<in> set (map snd runnerExitCodes) \<and>
    (tc_messageCode t = messageCode ''SEQUENCE_COMPLETED'' \<longleftrightarrow> signal = None \<and> code = Some 0) \<and>
    (tc_sequenceError t = None \<longleftrightarrow> tc_messageCode t = messageCode ''SEQUENCE_COMPLETED'') \<and>
    (requiresHardChildTeardown t \<longleftrightarrow> signal \<noteq> None \<or> code \<in> {Some 137, Some 138, Some 139}) \<and>
    ((\<exists>r. mapRunnerExitCode (tc_exitCode t) p = Inr r) \<longleftrightarrow>
      signal = Some ''SIGTERM'' \<or> signal = None \<and> code \<in> {Some 0, Some 138})"
proof -
  have "tc_messageCode (translateChildClose code signal) = 3011 \<longleftrightarrow> signal = None \<and> code = Some 0"
    by (simp add: translateChildClose_def split: option.split)
  moreover have "(\<exists>r. mapRunnerExitCode (tc_exitCode (translateChildClose code signal)) p = Inr r) \<longleftrightarrow>
      signal = Some ''SIGTERM'' \<or> signal = None \<and> code \<in> {Some 0, Some 138}"
    unfolding map_exit_ok by (auto simp: translate_exit runnerExitCodes_def split: option.split)
  ultimately show ?thesis using translate_in_codes hard_teardown_iff by (simp add: Let_def)
qed

lemma child_close_outcome_witness:
  "requiresHardChildTeardown (translateChildClose None (Some ''SIGTERM'')) \<and>
    (\<exists>r. mapRunnerExitCode (tc_exitCode (translateChildClose None (Some ''SIGTERM''))) [] = Inr r)"
  using child_close_outcome [of None "Some ''SIGTERM''" "[]"] by (simp add: Let_def)

end
