(* ===== verification/LifecycleObserver.thy ===== *)
theory LifecycleObserver
  imports RunnerExit
begin

text \<open>
  \<open>packages/runner/src/executor/lifecycle-observer.ts\<close>: the observer of a child's monitoring stream.
  \<open>parse\<close> stands for \<open>JSON.parse\<close> (\<open>None\<close>: it throws). A character takes one byte below 128 and two
  bytes up to 255, which is all that \<open>char\<close> has. A chunk is the text it decodes to.
\<close>

definition MAX_BUFFER_BYTES :: nat where
  "MAX_BUFFER_BYTES = 65536"

text \<open>A line without the CR it may end with.\<close>

definition stripCr :: "string \<Rightarrow> string" where
  "stripCr line = (if line \<noteq> [] \<and> last line = CR then butlast line else line)"

definition inspectLine :: "(string \<Rightarrow> jsval option) \<Rightarrow> string \<Rightarrow> bool" where
  "inspectLine parse line =
    (if line = [] \<or> hd line \<noteq> CHR ''['' then False
     else case parse line of
         Some (JArr sh (JNum (NInt c) # rest)) \<Rightarrow> c = messageCode ''SEQUENCE_COMPLETED'' \<or> c = messageCode ''SEQUENCE_STOPPED''
       | _ \<Rightarrow> False)"

record lifecycle_observer =
  lo_observed :: bool
  lo_legacyPending :: string
  lo_pending :: string
  lo_bytes :: nat
  lo_readySeen :: bool
  lo_readyErrored :: bool
  lo_completed :: bool
  lo_stopped :: bool
  lo_valid :: bool
  lo_ended :: bool
  lo_disposed :: bool

definition observeChildLifecycleFrames :: lifecycle_observer where
  "observeChildLifecycleFrames = \<lparr>lo_observed = False, lo_legacyPending = [], lo_pending = [], lo_bytes = 0,
     lo_readySeen = False, lo_readyErrored = False, lo_completed = False, lo_stopped = False, lo_valid = True,
     lo_ended = False, lo_disposed = False\<rparr>"

text \<open>What a complete line says: the cases of \<open>classifyLine\<close>.\<close>

datatype line_class = Invalid | ReadyFrame | ReadyErrored | CompletedFrame | StoppedFrame | OtherFrame

definition lineClass :: "(string \<Rightarrow> jsval option) \<Rightarrow> string \<Rightarrow> line_class" where
  "lineClass parse line = (case parse line of
      Some (JArr sh [JNum n, payload]) \<Rightarrow>
        if \<not> isSafeInteger (JNum n) \<or> n \<notin> set (map NInt knownCodes) then Invalid
        else if n = NInt (messageCode ''READY'') then
          (case payload of
             JObj _ fs \<Rightarrow>
               if map_of fs ''state'' = None then Invalid
               else if map_of fs ''state'' = Some (JStr ''ready'') then ReadyFrame
               else if map_of fs ''state'' = Some (JStr ''errored'') then ReadyErrored
               else Invalid
           | _ \<Rightarrow> Invalid)
        else if n = NInt (messageCode ''SEQUENCE_COMPLETED'') then CompletedFrame
        else if n = NInt (messageCode ''SEQUENCE_STOPPED'') then StoppedFrame
        else OtherFrame
    | _ \<Rightarrow> Invalid)"

definition classifyLine :: "(string \<Rightarrow> jsval option) \<Rightarrow> lifecycle_observer \<Rightarrow> string \<Rightarrow> lifecycle_observer" where
  "classifyLine parse s line = (case lineClass parse line of
      Invalid \<Rightarrow> s\<lparr>lo_valid := False\<rparr>
    | ReadyFrame \<Rightarrow> s\<lparr>lo_readySeen := True\<rparr>
    | ReadyErrored \<Rightarrow> s\<lparr>lo_readyErrored := True\<rparr>
    | CompletedFrame \<Rightarrow> s\<lparr>lo_completed := True\<rparr>
    | StoppedFrame \<Rightarrow> s\<lparr>lo_stopped := True\<rparr>
    | OtherFrame \<Rightarrow> s)"

text \<open>One turn of the loop of \<open>classifyText\<close>; after a return the state is not valid and stays as it is.\<close>

definition classifyChar :: "(string \<Rightarrow> jsval option) \<Rightarrow> lifecycle_observer \<Rightarrow> char \<Rightarrow> lifecycle_observer" where
  "classifyChar parse s c =
    (if \<not> lo_valid s then s
     else if c = LF then
       (if lo_bytes s + 1 > MAX_BUFFER_BYTES then s\<lparr>lo_valid := False, lo_pending := [], lo_bytes := 0\<rparr>
        else (classifyLine parse s (stripCr (lo_pending s)))\<lparr>lo_pending := [], lo_bytes := 0\<rparr>)
     else if lo_bytes s + byteLength c > MAX_BUFFER_BYTES then s\<lparr>lo_valid := False, lo_pending := [], lo_bytes := 0\<rparr>
     else s\<lparr>lo_pending := lo_pending s @ [c], lo_bytes := lo_bytes s + byteLength c\<rparr>)"

definition classifyText :: "(string \<Rightarrow> jsval option) \<Rightarrow> lifecycle_observer \<Rightarrow> string \<Rightarrow> lifecycle_observer" where
  "classifyText parse s text0 = foldl (classifyChar parse) s text0"

lemma rest_shorter: "LF \<in> set w \<Longrightarrow> length (tl (dropWhile (\<lambda>c. c \<noteq> LF) w)) < length w"
  using length_dropWhile_le [of "\<lambda>c. c \<noteq> LF" w]
  by (cases "dropWhile (\<lambda>c. c \<noteq> LF) w") (auto simp: dropWhile_eq_Nil_conv)

text \<open>The loop over the legacy window: the first terminal line ends it.\<close>

function scanLegacy :: "(string \<Rightarrow> jsval option) \<Rightarrow> string \<Rightarrow> bool \<times> string" where
  "scanLegacy parse window =
    (if LF \<notin> set window then (False, window)
     else if inspectLine parse (stripCr (takeWhile (\<lambda>c. c \<noteq> LF) window)) then (True, [])
     else scanLegacy parse (tl (dropWhile (\<lambda>c. c \<noteq> LF) window)))"
  by auto
termination
  by (relation "measure (length \<circ> snd)") (use rest_shorter in auto)

declare scanLegacy.simps [simp del]

definition legacyWindow :: "string \<Rightarrow> string" where
  "legacyWindow w = (if length w > MAX_BUFFER_BYTES then drop (length w - MAX_BUFFER_BYTES) w else w)"

definition observerData :: "(string \<Rightarrow> jsval option) \<Rightarrow> lifecycle_observer \<Rightarrow> string \<Rightarrow> lifecycle_observer" where
  "observerData parse s text0 =
    (if lo_disposed s then s
     else let t = (if lo_observed s then s
            else case scanLegacy parse (legacyWindow (lo_legacyPending s @ text0)) of
              (found, rest) \<Rightarrow> s\<lparr>lo_observed := found, lo_legacyPending := rest\<rparr>)
       in classifyText parse t text0)"

definition observerEnd :: "lifecycle_observer \<Rightarrow> lifecycle_observer" where
  "observerEnd s = (if lo_disposed s then s
     else s\<lparr>lo_ended := True, lo_valid := (if lo_bytes s > 0 then False else lo_valid s)\<rparr>)"

record lifecycle_snapshot =
  ls_ready :: bool
  ls_completed :: bool
  ls_stopped :: bool
  ls_valid :: bool

definition observerSnapshot :: "lifecycle_observer \<Rightarrow> lifecycle_snapshot" where
  "observerSnapshot s = \<lparr>ls_ready = (lo_readySeen s \<and> \<not> lo_readyErrored s), ls_completed = lo_completed s,
     ls_stopped = lo_stopped s, ls_valid = (lo_valid s \<and> lo_ended s \<and> lo_bytes s = 0)\<rparr>"

definition observerDispose :: "lifecycle_observer \<Rightarrow> lifecycle_observer" where
  "observerDispose s = (if lo_disposed s then s
     else s\<lparr>lo_disposed := True, lo_legacyPending := [], lo_pending := [], lo_bytes := 0\<rparr>)"

section \<open>Lines\<close>

text \<open>The complete lines of a text and what is left behind the last of them.\<close>

function completeLines :: "string \<Rightarrow> string list" where
  "completeLines w = (if LF \<notin> set w then [] else takeWhile (\<lambda>c. c \<noteq> LF) w # completeLines (tl (dropWhile (\<lambda>c. c \<noteq> LF) w)))"
  by auto
termination
  by (relation "measure length") (use rest_shorter in auto)

function afterLines :: "string \<Rightarrow> string" where
  "afterLines w = (if LF \<notin> set w then w else afterLines (tl (dropWhile (\<lambda>c. c \<noteq> LF) w)))"
  by auto
termination
  by (relation "measure length") (use rest_shorter in auto)

declare completeLines.simps [simp del] afterLines.simps [simp del]

lemma lines_no_LF [simp]: "LF \<notin> set w \<Longrightarrow> completeLines w = []" "LF \<notin> set w \<Longrightarrow> afterLines w = w"
  by (simp_all add: completeLines.simps afterLines.simps)

lemma line_parts [simp]:
  "LF \<notin> set l \<Longrightarrow> takeWhile (\<lambda>c. c \<noteq> LF) (l @ LF # w) = l"
  "LF \<notin> set l \<Longrightarrow> dropWhile (\<lambda>c. c \<noteq> LF) (l @ LF # w) = LF # w"
  by (induction l) auto

lemma lines_cons [simp]:
  "LF \<notin> set l \<Longrightarrow> completeLines (l @ LF # w) = l # completeLines w"
  "LF \<notin> set l \<Longrightarrow> afterLines (l @ LF # w) = afterLines w"
  by (simp_all add: completeLines.simps [of "l @ LF # w"] afterLines.simps [of "l @ LF # w"])

lemma split_at_LF: "LF \<in> set w \<Longrightarrow> \<exists>l v. w = l @ LF # v \<and> LF \<notin> set l"
  using split_list_first [of LF w] by auto

lemma lines_induct [case_names none line]:
  assumes none: "\<And>w. LF \<notin> set w \<Longrightarrow> P w" and line: "\<And>l w. LF \<notin> set l \<Longrightarrow> P w \<Longrightarrow> P (l @ LF # w)"
  shows "P w"
proof (induction w rule: length_induct)
  case (1 w)
  then show ?case using none line split_at_LF [of w] by (cases "LF \<in> set w") fastforce+
qed

lemma lines_append:
  "completeLines (w @ v) = completeLines w @ completeLines (afterLines w @ v)"
  "afterLines (w @ v) = afterLines (afterLines w @ v)"
  by (induction w rule: lines_induct) simp_all

lemma lines_join: "concat (map (\<lambda>l. l @ [LF]) (completeLines w)) @ afterLines w = w"
  by (induction w rule: lines_induct) simp_all

lemma lines_of_join: "list_all (\<lambda>l. LF \<notin> set l) ls \<Longrightarrow> completeLines (concat (map (\<lambda>l. l @ [LF]) ls)) = ls"
  by (induction ls) simp_all

lemma afterLines_free: "LF \<notin> set (afterLines w)"
  by (induction w rule: lines_induct) simp_all

lemma lines_free: "l \<in> set (completeLines w) \<Longrightarrow> LF \<notin> set l"
  by (induction w rule: lines_induct) auto

lemma scanLegacy_spec:
  "scanLegacy parse w = (if \<exists>l \<in> set (completeLines w). inspectLine parse (stripCr l) then (True, []) else (False, afterLines w))"
proof (induction w rule: lines_induct)
  case (none w)
  then show ?case by (simp add: scanLegacy.simps)
next
  case (line l w)
  then show ?case by (simp add: scanLegacy.simps [of parse "l @ LF # w"])
qed

section \<open>The legacy flag\<close>

lemma classifyChar_legacy [simp]:
  "lo_observed (classifyChar parse s c) = lo_observed s" "lo_legacyPending (classifyChar parse s c) = lo_legacyPending s"
  "lo_ended (classifyChar parse s c) = lo_ended s" "lo_disposed (classifyChar parse s c) = lo_disposed s"
  by (simp_all add: classifyChar_def classifyLine_def split: line_class.split)

lemma classifyText_legacy [simp]:
  "lo_observed (classifyText parse s t) = lo_observed s" "lo_legacyPending (classifyText parse s t) = lo_legacyPending s"
  "lo_ended (classifyText parse s t) = lo_ended s" "lo_disposed (classifyText parse s t) = lo_disposed s"
  by (induction t arbitrary: s) (simp_all add: classifyText_def)

text \<open>No chunk pushes the unfinished line before it out of the window.\<close>

fun windows_fit :: "string \<Rightarrow> string list \<Rightarrow> bool" where
  "windows_fit rest [] = True"
| "windows_fit rest (c # cs) = (length (rest @ c) \<le> MAX_BUFFER_BYTES \<and> windows_fit (afterLines (rest @ c)) cs)"

lemma observed_latched: "lo_observed s \<Longrightarrow> lo_observed (foldl (observerData parse) s cs)"
  by (induction cs arbitrary: s) (simp_all add: observerData_def Let_def)

lemma observed_spec:
  assumes "\<not> lo_observed s" and "\<not> lo_disposed s" and "LF \<notin> set (lo_legacyPending s)" and "windows_fit (lo_legacyPending s) cs"
  shows "lo_observed (foldl (observerData parse) s cs) \<longleftrightarrow>
    (\<exists>l \<in> set (completeLines (lo_legacyPending s @ concat cs)). inspectLine parse (stripCr l))"
  using assms
proof (induction cs arbitrary: s)
  case Nil
  then show ?case by simp
next
  case (Cons c cs)
  let ?w = "lo_legacyPending s @ c"
  let ?t = "observerData parse s c"
  have w: "legacyWindow ?w = ?w" using Cons.prems(4) by (simp add: legacyWindow_def)
  have lines: "completeLines (?w @ concat cs) = completeLines ?w @ completeLines (afterLines ?w @ concat cs)"
    by (rule lines_append)
  show ?case
  proof (cases "\<exists>l \<in> set (completeLines ?w). inspectLine parse (stripCr l)")
    case True
    then have "lo_observed ?t" using Cons.prems(1,2) w by (simp add: observerData_def scanLegacy_spec)
    then show ?thesis using True lines observed_latched by auto
  next
    case False
    then have t: "\<not> lo_observed ?t" "\<not> lo_disposed ?t" "lo_legacyPending ?t = afterLines ?w"
      using Cons.prems(1,2) w by (simp_all add: observerData_def scanLegacy_spec)
    then have "lo_observed (foldl (observerData parse) ?t cs) \<longleftrightarrow>
        (\<exists>l \<in> set (completeLines (lo_legacyPending ?t @ concat cs)). inspectLine parse (stripCr l))"
      using Cons.prems(4) by (intro Cons.IH) (simp_all add: afterLines_free)
    then show ?thesis using False lines t(3) by auto
  qed
qed

section \<open>The classifier\<close>

text \<open>What the classifier makes of whole lines, and of the first of them that is not a frame.\<close>

definition classOf :: "(string \<Rightarrow> jsval option) \<Rightarrow> string \<Rightarrow> line_class" where
  "classOf parse l = lineClass parse (stripCr l)"

definition accepted :: "(string \<Rightarrow> jsval option) \<Rightarrow> string list \<Rightarrow> string list" where
  "accepted parse ls = takeWhile (\<lambda>l. classOf parse l \<noteq> Invalid) ls"

lemma classify_invalid: "\<not> lo_valid s \<Longrightarrow> classifyText parse s t = s"
  by (induction t arbitrary: s) (simp_all add: classifyText_def classifyChar_def)

lemma classify_append: "classifyText parse s (t @ u) = classifyText parse (classifyText parse s t) u"
  by (simp add: classifyText_def)

lemma classify_unfinished:
  assumes "lo_valid s" and "LF \<notin> set l" and "lo_bytes s + bytesOf l \<le> MAX_BUFFER_BYTES"
  shows "classifyText parse s l = s\<lparr>lo_pending := lo_pending s @ l, lo_bytes := lo_bytes s + bytesOf l\<rparr>"
  using assms by (induction l arbitrary: s) (auto simp: classifyText_def classifyChar_def)

lemma classify_line:
  assumes "lo_valid s" and "lo_pending s = []" and "lo_bytes s = 0" and "LF \<notin> set l" and "bytesOf l < MAX_BUFFER_BYTES"
  shows "classifyText parse s (l @ [LF]) = classifyLine parse s (stripCr l)"
  using assms by (simp add: classify_append classify_unfinished)
    (simp add: classifyText_def classifyChar_def classifyLine_def split: line_class.split)

lemma classifyLine_buffers [simp]:
  "lo_pending (classifyLine parse s l) = lo_pending s" "lo_bytes (classifyLine parse s l) = lo_bytes s"
  "lo_valid (classifyLine parse s l) \<longleftrightarrow> lo_valid s \<and> lineClass parse l \<noteq> Invalid"
  "lo_readySeen (classifyLine parse s l) \<longleftrightarrow> lo_readySeen s \<or> lineClass parse l = ReadyFrame"
  "lo_readyErrored (classifyLine parse s l) \<longleftrightarrow> lo_readyErrored s \<or> lineClass parse l = ReadyErrored"
  "lo_completed (classifyLine parse s l) \<longleftrightarrow> lo_completed s \<or> lineClass parse l = CompletedFrame"
  "lo_stopped (classifyLine parse s l) \<longleftrightarrow> lo_stopped s \<or> lineClass parse l = StoppedFrame"
  "lo_ended (classifyLine parse s l) = lo_ended s"
  by (simp_all add: classifyLine_def split: line_class.split)

lemma classify_lines:
  fixes parse :: "string \<Rightarrow> jsval option"
  assumes "lo_valid s" and "lo_pending s = []" and "lo_bytes s = 0"
    and "list_all (\<lambda>l. LF \<notin> set l \<and> bytesOf l < MAX_BUFFER_BYTES) ls"
  defines "t \<equiv> classifyText parse s (concat (map (\<lambda>l. l @ [LF]) ls))"
  shows "lo_bytes t = 0 \<and> (lo_valid t \<longleftrightarrow> accepted parse ls = ls) \<and>
    (lo_readySeen t \<longleftrightarrow> lo_readySeen s \<or> ReadyFrame \<in> classOf parse ` set (accepted parse ls)) \<and>
    (lo_readyErrored t \<longleftrightarrow> lo_readyErrored s \<or> ReadyErrored \<in> classOf parse ` set (accepted parse ls)) \<and>
    (lo_completed t \<longleftrightarrow> lo_completed s \<or> CompletedFrame \<in> classOf parse ` set (accepted parse ls)) \<and>
    (lo_stopped t \<longleftrightarrow> lo_stopped s \<or> StoppedFrame \<in> classOf parse ` set (accepted parse ls))"
  using assms(1-4) unfolding t_def
proof (induction ls arbitrary: s)
  case Nil
  then show ?case by (simp add: classifyText_def accepted_def)
next
  case (Cons l ls)
  let ?s = "classifyLine parse s (stripCr l)"
  have l: "classifyText parse s (concat (map (\<lambda>l. l @ [LF]) (l # ls))) = classifyText parse ?s (concat (map (\<lambda>l. l @ [LF]) ls))"
  proof -
    have "concat (map (\<lambda>l. l @ [LF]) (l # ls)) = (l @ [LF]) @ concat (map (\<lambda>l. l @ [LF]) ls)" by simp
    moreover have "classifyText parse s (l @ [LF]) = ?s" using Cons.prems by (intro classify_line) simp_all
    ultimately show ?thesis by (simp only: classify_append)
  qed
  show ?case
  proof (cases "classOf parse l = Invalid")
    case True
    then have "classifyText parse ?s (concat (map (\<lambda>l. l @ [LF]) ls)) = ?s"
      by (intro classify_invalid) (simp add: classOf_def)
    then show ?thesis unfolding l using True Cons.prems by (simp add: accepted_def classOf_def)
  next
    case False
    then have "lo_valid ?s" using Cons.prems by (simp add: classOf_def)
    note IH = Cons.IH [OF this]
    have a: "accepted parse (l # ls) = l # accepted parse ls" using False by (simp add: accepted_def)
    have c: "lineClass parse (stripCr l) = classOf parse l" by (simp add: classOf_def)
    have e: "(a \<in> classOf parse ` set (l # ms)) \<longleftrightarrow> classOf parse l = a \<or> a \<in> classOf parse ` set ms" for a ms by auto
    have "lo_pending ?s = []" "lo_bytes ?s = 0" "list_all (\<lambda>l. LF \<notin> set l \<and> bytesOf l < MAX_BUFFER_BYTES) ls"
      using Cons.prems by simp_all
    from IH [OF this] show ?thesis unfolding l a e classifyLine_buffers c by (simp add: disj_assoc)
  qed
qed

text \<open>Everything the snapshot reads: it does not depend on how the text came in chunks.\<close>

definition classState :: "lifecycle_observer \<Rightarrow> string \<times> nat \<times> bool \<times> bool \<times> bool \<times> bool \<times> bool" where
  "classState s = (lo_pending s, lo_bytes s, lo_readySeen s, lo_readyErrored s, lo_completed s, lo_stopped s, lo_valid s)"

lemma classifyChar_state: "classState s = classState s' \<Longrightarrow> classState (classifyChar parse s c) = classState (classifyChar parse s' c)"
  by (simp add: classState_def classifyChar_def classifyLine_def split: line_class.split)

lemma classifyText_state: "classState s = classState s' \<Longrightarrow> classState (classifyText parse s t) = classState (classifyText parse s' t)"
proof (induction t arbitrary: s s')
  case (Cons c t)
  from Cons.IH [OF classifyChar_state [OF Cons.prems]] show ?case by (simp add: classifyText_def)
qed (simp add: classifyText_def)

lemma observerData_state:
  assumes "\<not> lo_disposed s"
  shows "classState (observerData parse s c) = classState (classifyText parse s c)" "\<not> lo_disposed (observerData parse s c)"
    "lo_ended (observerData parse s c) = lo_ended s"
  using assms by (auto simp: observerData_def Let_def split: prod.split intro!: classifyText_state) (simp_all add: classState_def)

lemma observer_chunks:
  assumes "\<not> lo_disposed s"
  shows "classState (foldl (observerData parse) s cs) = classState (classifyText parse s (concat cs))
    \<and> \<not> lo_disposed (foldl (observerData parse) s cs)"
  using assms
proof (induction cs arbitrary: s)
  case (Cons c cs)
  from Cons.IH [OF observerData_state(2) [OF Cons.prems]]
    classifyText_state [OF observerData_state(1) [OF Cons.prems, where parse = parse and c = c], where parse = parse and t = "concat cs"]
  show ?case by (simp add: classify_append)
qed (simp add: classifyText_def)

section \<open>Properties\<close>

text \<open>The snapshot taken after the stream has ended says what the frames say, however the bytes were
  cut into chunks: for lines within the bound, it is valid exactly when every line is a frame, and ready,
  completed and stopped tell whether such a frame occurs before the first line that is none (ready: and
  no errored one).\<close>

theorem lifecycle_snapshot_spec:
  assumes "concat chunks = concat (map (\<lambda>l. l @ [LF]) ls)"
    and "list_all (\<lambda>l. LF \<notin> set l \<and> bytesOf l < MAX_BUFFER_BYTES) ls"
  shows "observerSnapshot (observerEnd (foldl (observerData parse) observeChildLifecycleFrames chunks)) =
    (let good = classOf parse ` set (accepted parse ls) in
     \<lparr>ls_ready = (ReadyFrame \<in> good \<and> ReadyErrored \<notin> good), ls_completed = (CompletedFrame \<in> good),
      ls_stopped = (StoppedFrame \<in> good), ls_valid = (accepted parse ls = ls)\<rparr>)"
proof -
  let ?o = "observeChildLifecycleFrames" and ?t = "foldl (observerData parse) observeChildLifecycleFrames chunks"
  have o: "\<not> lo_disposed ?o" "lo_valid ?o" "lo_pending ?o = []" "lo_bytes ?o = 0" "\<not> lo_readySeen ?o"
    "\<not> lo_readyErrored ?o" "\<not> lo_completed ?o" "\<not> lo_stopped ?o"
    by (simp_all add: observeChildLifecycleFrames_def)
  from observer_chunks [OF o(1), of parse chunks] assms(1)
  have t: "classState ?t = classState (classifyText parse ?o (concat (map (\<lambda>l. l @ [LF]) ls)))" "\<not> lo_disposed ?t" by simp_all
  from classify_lines [OF o(2-4) assms(2), of parse] o t show ?thesis
    by (simp add: observerSnapshot_def observerEnd_def classState_def Let_def)
qed

text \<open>The flag that suppresses a second terminal frame is raised exactly when a complete line is a
  terminal frame, as long as no unfinished line outgrows the window.\<close>

theorem lifecycle_observed_spec:
  assumes "windows_fit [] chunks"
  shows "lo_observed (foldl (observerData parse) observeChildLifecycleFrames chunks) \<longleftrightarrow>
    (\<exists>l \<in> set (completeLines (concat chunks)). inspectLine parse (stripCr l))"
  using observed_spec [of observeChildLifecycleFrames chunks parse] assms
  by (simp add: observeChildLifecycleFrames_def)

definition demoParse :: "string \<Rightarrow> jsval option" where
  "demoParse l = (if l = ''[3014,{\"state\":\"ready\"}]'' then Some (JArr Plain [JNum (NInt 3014), JObj Plain [(''state'', JStr ''ready'')]])
     else if l = ''[3011,{}]'' then Some (JArr Plain [JNum (NInt 3011), JObj Plain []]) else None)"

definition demoLines :: "string list" where
  "demoLines = [''[3014,{\"state\":\"ready\"}]'' @ [CR], ''[3011,{}]'' @ [CR]]"

lemma demo_lines_ok: "list_all (\<lambda>l. LF \<notin> set l \<and> bytesOf l < MAX_BUFFER_BYTES) demoLines"
proof -
  have "list_all (\<lambda>l. LF \<notin> set l \<and> length l \<le> 50) demoLines" by code_simp
  then show ?thesis by (auto simp: list_all_iff MAX_BUFFER_BYTES_def intro!: le_less_trans [OF bytes_short [of _ 100]])
qed

lemma lifecycle_snapshot_spec_witness:
  "observerSnapshot (observerEnd (foldl (observerData demoParse) observeChildLifecycleFrames
      [''[3014,{\"state\":\"rea'', ''dy\"}]'' @ CRLF @ ''[3011,{}]'' @ CRLF])) =
    \<lparr>ls_ready = True, ls_completed = True, ls_stopped = False, ls_valid = True\<rparr>"
proof -
  have c: "concat [''[3014,{\"state\":\"rea'', ''dy\"}]'' @ CRLF @ ''[3011,{}]'' @ CRLF] = concat (map (\<lambda>l. l @ [LF]) demoLines)"
    by code_simp
  have "accepted demoParse demoLines = demoLines" "map (classOf demoParse) demoLines = [ReadyFrame, CompletedFrame]" by code_simp+
  then have "accepted demoParse demoLines = demoLines" "classOf demoParse ` set demoLines = {ReadyFrame, CompletedFrame}"
    by (auto simp flip: set_map)
  then show ?thesis unfolding lifecycle_snapshot_spec [OF c demo_lines_ok, of demoParse] by (simp add: Let_def)
qed

lemma lifecycle_observed_spec_witness:
  "lo_observed (foldl (observerData demoParse) observeChildLifecycleFrames [''[3011,'', ''{}]'' @ CRLF])"
proof -
  have "windows_fit [] [''[3011,'', ''{}]'' @ CRLF]"
    by (simp add: MAX_BUFFER_BYTES_def CRLF_def LF_def)
  from lifecycle_observed_spec [OF this, of demoParse]
  have "lo_observed (foldl (observerData demoParse) observeChildLifecycleFrames [''[3011,'', ''{}]'' @ CRLF]) \<longleftrightarrow>
    inspectLine demoParse ''[3011,{}]''"
    using lines_cons(1) [of "''[3011,{}]'' @ [CR]" "[]"]
    by (simp add: CRLF_def LF_def CR_def stripCr_def)
  then show ?thesis by (simp add: inspectLine_def demoParse_def)
qed

end
