(* ===== verification/ShutdownControl.thy ===== *)
theory ShutdownControl
  imports LifecycleObserver
begin

text \<open>
  \<open>packages/runner/src/executor/shutdown-grace.ts\<close>: the grace window of a runner whose child has closed.
  \<open>parse\<close> stands for \<open>JSON.parse\<close>; what the streaming \<open>TextDecoder\<close> returns (\<open>None\<close>: it throws) and
  how the timer settles are part of the events. The abort signal is \<open>sc_aborted\<close>.
\<close>

section \<open>The setting\<close>

definition DEFAULT_RUNNER_SHUTDOWN_GRACE_MS :: nat where
  "DEFAULT_RUNNER_SHUTDOWN_GRACE_MS = 100"

definition invalidGrace :: js_error where
  "invalidGrace = PlainError ''Invalid SCRAMJET_RUNNER_SHUTDOWN_GRACE_MS''"

definition parseRunnerShutdownGraceMs :: "jsval \<Rightarrow> js_error + nat" where
  "parseRunnerShutdownGraceMs raw = (case raw of
      JUndefined \<Rightarrow> Inr DEFAULT_RUNNER_SHUTDOWN_GRACE_MS
    | JStr s \<Rightarrow>
        (let value = jsTrim s in
         if value = [] \<or> \<not> list_all isDigit value then Inl invalidGrace
         else let duration = digitsValue value in
           if \<not> isSafeInteger (JNum (NInt (int duration))) \<or> duration > 2147483647 then Inl invalidGrace
           else Inr duration)
    | _ \<Rightarrow> Inl invalidGrace)"

text \<open>\<open>onInvalid\<close> never returns: \<open>Inl\<close>.\<close>

definition prepareRunnerShutdownGraceStartup :: "jsval \<Rightarrow> (nat \<Rightarrow> 'r) \<Rightarrow> unit + nat \<times> 'r" where
  "prepareRunnerShutdownGraceStartup raw createResource = (case parseRunnerShutdownGraceMs raw of
      Inl e \<Rightarrow> Inl ()
    | Inr durationMs \<Rightarrow> Inr (durationMs, createResource durationMs))"

section \<open>Eligibility\<close>

record grace_candidate =
  gc_runtimeKind :: string
  gc_connectionFulfilled :: bool
  gc_rawChildCode :: "int option"
  gc_signal :: "string option"
  gc_translatedExitCode :: int
  gc_hardTeardown :: bool
  gc_lifecycle :: lifecycle_snapshot
  gc_stderrEnded :: bool
  gc_stderrErrored :: bool

definition isRunnerShutdownGraceEligible :: "grace_candidate \<Rightarrow> bool" where
  "isRunnerShutdownGraceEligible c =
    (if gc_runtimeKind c \<notin> {''node'', ''bun'', ''python3''} \<or> \<not> gc_connectionFulfilled c \<or> gc_signal c \<noteq> None \<or>
        gc_hardTeardown c \<or> \<not> ls_valid (gc_lifecycle c) \<or> \<not> ls_ready (gc_lifecycle c) \<or> ls_stopped (gc_lifecycle c) \<or>
        \<not> gc_stderrEnded c \<or> gc_stderrErrored c then False
     else if gc_rawChildCode c = Some 0 then gc_translatedExitCode c = exitCode ''SUCCESS''
     else if gc_rawChildCode c = Some 1 \<or> gc_rawChildCode c = Some (exitCode ''SEQUENCE_FAILED_DURING_EXECUTION'') then
       gc_translatedExitCode c = exitCode ''SEQUENCE_FAILED_DURING_EXECUTION'' \<and> \<not> ls_completed (gc_lifecycle c)
     else False)"

section \<open>Observing control\<close>

definition MAX_CONTROL_FRAME_BYTES :: nat where
  "MAX_CONTROL_FRAME_BYTES = 65536"

datatype cancel_reason = Stop | Kill | ControlEnded | ControlError | ObservationInvalid

record shutdown_control =
  sc_reason :: "cancel_reason option"
  sc_aborted :: bool
  sc_pending :: string
  sc_bytes :: nat
  sc_decoderBytes :: int
  sc_disposed :: bool
  sc_dataAttached :: bool
  sc_listening :: bool
  sc_pipeRetired :: bool
  sc_takenOver :: bool

definition cancel :: "shutdown_control \<Rightarrow> cancel_reason \<Rightarrow> shutdown_control" where
  "cancel s v = (if sc_reason s \<noteq> None \<or> sc_disposed s then s else s\<lparr>sc_reason := Some v, sc_aborted := True\<rparr>)"

text \<open>What a complete control frame asks for: the cases of \<open>parseFrame\<close>.\<close>

definition frameVerdict :: "(string \<Rightarrow> jsval option) \<Rightarrow> string \<Rightarrow> cancel_reason option" where
  "frameVerdict parse line = (case parse line of
      Some (JArr sh [JNum n, payload]) \<Rightarrow>
        if \<not> isSafeInteger (JNum n) \<or> n \<notin> set (map NInt knownCodes) then Some ObservationInvalid
        else if n = NInt (messageCode ''STOP'') then Some Stop
        else if n = NInt (messageCode ''KILL'') then Some Kill
        else None
    | _ \<Rightarrow> Some ObservationInvalid)"

definition parseFrame :: "(string \<Rightarrow> jsval option) \<Rightarrow> shutdown_control \<Rightarrow> string \<Rightarrow> shutdown_control" where
  "parseFrame parse s line = (case frameVerdict parse line of Some v \<Rightarrow> cancel s v | None \<Rightarrow> s)"

text \<open>One turn of the loop of \<open>acceptText\<close>: after a return there is a reason, and nothing changes.\<close>

definition acceptChar :: "(string \<Rightarrow> jsval option) \<Rightarrow> shutdown_control \<Rightarrow> char \<Rightarrow> shutdown_control" where
  "acceptChar parse s c =
    (if sc_reason s \<noteq> None \<or> sc_disposed s then s
     else if c = LF then
       (if sc_pending s = [] \<or> last (sc_pending s) \<noteq> CR \<or> sc_bytes s + 1 > MAX_CONTROL_FRAME_BYTES then cancel s ObservationInvalid
        else (parseFrame parse s (butlast (sc_pending s)))\<lparr>sc_pending := [], sc_bytes := 0\<rparr>)
     else let t = s\<lparr>sc_pending := sc_pending s @ [c], sc_bytes := sc_bytes s + byteLength c\<rparr> in
       if sc_bytes t \<ge> MAX_CONTROL_FRAME_BYTES then cancel t ObservationInvalid else t)"

definition acceptText :: "(string \<Rightarrow> jsval option) \<Rightarrow> shutdown_control \<Rightarrow> string \<Rightarrow> shutdown_control" where
  "acceptText parse s t = foldl (acceptChar parse) s t"

text \<open>A chunk as it arrives: text with what the decoder still had, or bytes with what they decode to.\<close>

datatype control_chunk = TextChunk "string option" string | BytesChunk nat "string option"

definition controlData :: "(string \<Rightarrow> jsval option) \<Rightarrow> shutdown_control \<Rightarrow> control_chunk \<Rightarrow> shutdown_control" where
  "controlData parse s chunk =
    (if sc_reason s \<noteq> None \<or> sc_disposed s then s
     else case chunk of
         TextChunk None _ \<Rightarrow> cancel s ObservationInvalid
       | TextChunk (Some flushed) t \<Rightarrow>
           (let s1 = (if sc_decoderBytes s > 0 then cancel s ObservationInvalid else s);
                s2 = s1\<lparr>sc_decoderBytes := 0\<rparr>
            in acceptText parse s2 (flushed @ t))
       | BytesChunk n None \<Rightarrow> cancel s ObservationInvalid
       | BytesChunk n (Some t) \<Rightarrow>
           (let s1 = s\<lparr>sc_decoderBytes := sc_decoderBytes s + int n - int (bytesOf t)\<rparr> in
            if sc_decoderBytes s1 < 0 then cancel s1 ObservationInvalid else acceptText parse s1 t))"

definition controlEnd :: "(string \<Rightarrow> jsval option) \<Rightarrow> shutdown_control \<Rightarrow> string option \<Rightarrow> shutdown_control" where
  "controlEnd parse s final =
    (if sc_reason s \<noteq> None \<or> sc_disposed s then s
     else case final of
         None \<Rightarrow> cancel s ObservationInvalid
       | Some t \<Rightarrow>
           if sc_decoderBytes s > 0 then cancel s ObservationInvalid
           else let u = acceptText parse s t in
             if sc_pending u \<noteq> [] \<or> sc_bytes u > 0 then cancel u ObservationInvalid else cancel u ControlEnded)"

definition targetUnpipe :: "shutdown_control \<Rightarrow> bool \<Rightarrow> shutdown_control" where
  "targetUnpipe s sameSource = (if \<not> sameSource then s
     else s\<lparr>sc_pipeRetired := True, sc_dataAttached := (if sc_takenOver s then sc_dataAttached s else False)\<rparr>)"

definition finishGraceWindow :: "shutdown_control \<Rightarrow> shutdown_control" where
  "finishGraceWindow s =
    (if sc_reason s = None \<and> (sc_bytes s > 0 \<or> sc_decoderBytes s > 0) then cancel s ObservationInvalid else s)"

text \<open>
  The streams as \<open>takeOverAfterChildClose\<close> finds them: whether the target is retired (\<open>None\<close>: reading it
  throws), whether the source is destroyed or ended, whether the calls on the source succeed.
\<close>

record takeover_env =
  te_targetRetired :: "bool option"
  te_sourceGone :: bool
  te_prepends :: bool
  te_resumes :: bool

text \<open>The result \<open>None\<close>: the call throws.\<close>

definition takeOverAfterChildClose :: "takeover_env \<Rightarrow> shutdown_control \<Rightarrow> shutdown_control \<times> bool option" where
  "takeOverAfterChildClose env s =
    (if sc_disposed s \<or> sc_reason s \<noteq> None \<or> sc_takenOver s then (s, Some False)
     else case te_targetRetired env of
         None \<Rightarrow> (cancel s ObservationInvalid, Some False)
       | Some retired \<Rightarrow>
           if \<not> sc_pipeRetired s \<or> \<not> retired \<or> te_sourceGone env then (cancel s ObservationInvalid, Some False)
           else let t = s\<lparr>sc_takenOver := True\<rparr> in
             if \<not> sc_dataAttached t \<and> \<not> te_prepends env then (t, None)
             else let u = t\<lparr>sc_dataAttached := True\<rparr> in
               if \<not> te_resumes env then (cancel u ObservationInvalid, Some False) else (u, Some True))"

definition disposeControl :: "shutdown_control \<Rightarrow> shutdown_control" where
  "disposeControl s = (if sc_disposed s then s
     else s\<lparr>sc_disposed := True, sc_aborted := True, sc_dataAttached := False, sc_listening := False,
       sc_pending := [], sc_bytes := 0, sc_decoderBytes := 0\<rparr>)"

text \<open>\<open>attaches\<close>: the listeners can be attached; \<open>gone\<close>: the source is destroyed or ended already.\<close>

definition observeShutdownControl :: "bool \<Rightarrow> bool \<Rightarrow> shutdown_control" where
  "observeShutdownControl attaches gone =
    (let s = \<lparr>sc_reason = None, sc_aborted = False, sc_pending = [], sc_bytes = 0, sc_decoderBytes = 0, sc_disposed = False,
          sc_dataAttached = False, sc_listening = False, sc_pipeRetired = False, sc_takenOver = False\<rparr>
     in if \<not> attaches then disposeControl (cancel s ObservationInvalid)
        else let t = s\<lparr>sc_dataAttached := True, sc_listening := True\<rparr> in if gone then cancel t ControlEnded else t)"

section \<open>Events\<close>

datatype control_event =
    ControlData control_chunk
  | SourceEnd "string option"
  | SourceError
  | SourceClose
  | TargetError
  | TargetUnpipe bool

text \<open>An event reaches the observer while its listener is attached.\<close>

definition controlStep :: "(string \<Rightarrow> jsval option) \<Rightarrow> shutdown_control \<Rightarrow> control_event \<Rightarrow> shutdown_control" where
  "controlStep parse s e = (case e of
      ControlData c \<Rightarrow> if sc_dataAttached s then controlData parse s c else s
    | SourceEnd final \<Rightarrow> if sc_listening s then controlEnd parse s final else s
    | SourceError \<Rightarrow> if sc_listening s then cancel s ControlError else s
    | SourceClose \<Rightarrow> if sc_listening s then cancel s ControlEnded else s
    | TargetError \<Rightarrow> if sc_listening s then cancel s ControlError else s
    | TargetUnpipe same \<Rightarrow> if sc_listening s then targetUnpipe s same else s)"

section \<open>The grace window\<close>

datatype grace_status = Elapsed | Cancelled | Skipped
datatype grace_reason = WindowElapsed | Disabled | Ineligible | Cancellation cancel_reason

record grace_result =
  gr_status :: grace_status
  gr_reason :: grace_reason

definition skippedInvalid :: grace_result where
  "skippedInvalid = \<lparr>gr_status = Skipped, gr_reason = Cancellation ObservationInvalid\<rparr>"

text \<open>\<open>delay\<close> throws, or the events of the window arrive before its promise resolves or is rejected.\<close>

datatype grace_timer = DelayThrows | DelaySettles "control_event list" bool

definition settleGrace :: "(string \<Rightarrow> jsval option) \<Rightarrow> grace_timer \<Rightarrow> shutdown_control \<Rightarrow> shutdown_control \<times> grace_result" where
  "settleGrace parse timer s = (case timer of
      DelayThrows \<Rightarrow> (s, skippedInvalid)
    | DelaySettles events resolved \<Rightarrow>
        let t = foldl (controlStep parse) s events in
        if resolved then
          (let u = finishGraceWindow t in
           (u, case sc_reason u of
               Some ObservationInvalid \<Rightarrow> skippedInvalid
             | Some r \<Rightarrow> \<lparr>gr_status = Cancelled, gr_reason = Cancellation r\<rparr>
             | None \<Rightarrow> \<lparr>gr_status = Elapsed, gr_reason = WindowElapsed\<rparr>))
        else (t, case sc_reason t of
            Some r \<Rightarrow> \<lparr>gr_status = Cancelled, gr_reason = Cancellation r\<rparr>
          | None \<Rightarrow> skippedInvalid))"

text \<open>The result \<open>None\<close>: the call throws.\<close>

definition waitForRunnerShutdownGrace ::
  "(string \<Rightarrow> jsval option) \<Rightarrow> nat \<Rightarrow> bool \<Rightarrow> takeover_env \<Rightarrow> grace_timer \<Rightarrow> bool \<Rightarrow> shutdown_control \<Rightarrow>
    shutdown_control \<times> grace_result option" where
  "waitForRunnerShutdownGrace parse durationMs eligible env timer alreadyTakenOver s =
    (if durationMs = 0 then (s, Some \<lparr>gr_status = Skipped, gr_reason = Disabled\<rparr>)
     else if \<not> eligible then (s, Some \<lparr>gr_status = Skipped, gr_reason = Ineligible\<rparr>)
     else case sc_reason s of
         Some r \<Rightarrow> (s, Some \<lparr>gr_status = Cancelled, gr_reason = Cancellation r\<rparr>)
       | None \<Rightarrow>
           (case (if alreadyTakenOver then (s, Some True) else takeOverAfterChildClose env s) of
              (t, None) \<Rightarrow> (t, None)
            | (t, Some False) \<Rightarrow> (t, Some \<lparr>gr_status = Skipped,
                gr_reason = Cancellation (case sc_reason t of Some r \<Rightarrow> r | None \<Rightarrow> ObservationInvalid)\<rparr>)
            | (t, Some True) \<Rightarrow>
                (case sc_reason t of
                   Some r \<Rightarrow> (t, Some \<lparr>gr_status = Cancelled, gr_reason = Cancellation r\<rparr>)
                 | None \<Rightarrow> (case settleGrace parse timer t of (u, r) \<Rightarrow> (u, Some r)))))"

text \<open>The effects of \<open>finish\<close>, in order.\<close>

datatype grace_action = Disposed | Reported grace_result nat | Disconnected

definition finishGrace :: "shutdown_control option \<Rightarrow> grace_result \<Rightarrow> nat \<Rightarrow> shutdown_control option \<times> grace_action list" where
  "finishGrace control r elapsedMs = (map_option disposeControl control,
     (if control = None then [] else [Disposed]) @ [Reported r elapsedMs, Disconnected])"

definition disconnectAfterRunnerShutdownGrace ::
  "(string \<Rightarrow> jsval option) \<Rightarrow> nat \<Rightarrow> bool \<Rightarrow> takeover_env \<Rightarrow> grace_timer \<Rightarrow> nat \<times> nat \<Rightarrow> shutdown_control option \<Rightarrow>
    shutdown_control option \<times> grace_action list" where
  "disconnectAfterRunnerShutdownGrace parse durationMs eligible env timer hrtime control =
    (let elapsedMs = fst hrtime * 1000 + snd hrtime div 1000000;
         outcome = (\<lambda>r. if r = ObservationInvalid then skippedInvalid else \<lparr>gr_status = Cancelled, gr_reason = Cancellation r\<rparr>)
     in if durationMs = 0 then finishGrace control \<lparr>gr_status = Skipped, gr_reason = Disabled\<rparr> 0
     else case control of
         None \<Rightarrow> if \<not> eligible then finishGrace None \<lparr>gr_status = Skipped, gr_reason = Ineligible\<rparr> 0
           else finishGrace None skippedInvalid 0
       | Some s \<Rightarrow>
           (case sc_reason s of
              Some r \<Rightarrow> finishGrace (Some s) (outcome r) 0
            | None \<Rightarrow>
                if \<not> eligible then finishGrace (Some s) \<lparr>gr_status = Skipped, gr_reason = Ineligible\<rparr> 0
                else (case takeOverAfterChildClose env s of
                    (t, None) \<Rightarrow> finishGrace (Some t) skippedInvalid 0
                  | (t, Some False) \<Rightarrow> finishGrace (Some t) \<lparr>gr_status = Skipped,
                      gr_reason = Cancellation (case sc_reason t of Some r \<Rightarrow> r | None \<Rightarrow> ObservationInvalid)\<rparr> 0
                  | (t, Some True) \<Rightarrow>
                      (case sc_reason t of
                         Some r \<Rightarrow> finishGrace (Some t) (outcome r) 0
                       | None \<Rightarrow>
                           (case waitForRunnerShutdownGrace parse durationMs True env timer True t of
                              (u, Some r) \<Rightarrow> finishGrace (Some u) r elapsedMs
                            | (u, None) \<Rightarrow> finishGrace (Some u) skippedInvalid elapsedMs)))))"

section \<open>The first reason stays\<close>

lemma cancel_fields [simp]:
  "sc_pending (cancel s v) = sc_pending s" "sc_bytes (cancel s v) = sc_bytes s" "sc_disposed (cancel s v) = sc_disposed s"
  "sc_takenOver (cancel s v) = sc_takenOver s" "sc_dataAttached (cancel s v) = sc_dataAttached s"
  "sc_listening (cancel s v) = sc_listening s" "sc_decoderBytes (cancel s v) = sc_decoderBytes s"
  by (simp_all add: cancel_def)

lemma cancel_reason [simp]: "sc_reason (cancel s v) = (if sc_reason s = None \<and> \<not> sc_disposed s then Some v else sc_reason s)"
  by (simp add: cancel_def)

lemma cancel_decided: "sc_reason s = Some r \<Longrightarrow> cancel s v = s"
  by (simp add: cancel_def)

lemma acceptText_done: "sc_reason s \<noteq> None \<or> sc_disposed s \<Longrightarrow> acceptText parse s t = s"
  by (induction t) (simp_all add: acceptText_def acceptChar_def)

lemma controlStep_decided:
  "sc_reason s = Some r \<Longrightarrow> sc_reason (controlStep parse s e) = Some r"
  by (cases e) (simp_all add: controlStep_def controlData_def controlEnd_def cancel_decided targetUnpipe_def)

lemma acceptText_reason:
  "sc_disposed (acceptText parse s t) = sc_disposed s \<and> sc_listening (acceptText parse s t) = sc_listening s \<and>
   sc_dataAttached (acceptText parse s t) = sc_dataAttached s \<and> sc_decoderBytes (acceptText parse s t) = sc_decoderBytes s"
  by (induction t arbitrary: s)
    (simp_all add: acceptText_def acceptChar_def parseFrame_def Let_def split: option.split)

lemma controlStep_disposed: "sc_disposed (controlStep parse s e) = sc_disposed s"
  by (cases e) (simp_all add: controlStep_def controlData_def controlEnd_def targetUnpipe_def acceptText_reason Let_def
      split: control_chunk.split option.split)

lemma controlRun_disposed [simp]: "sc_disposed (foldl (controlStep parse) s es) = sc_disposed s"
  by (induction es arbitrary: s) (simp_all add: controlStep_disposed)

interpretation control_latch: latch_machine "controlStep parse" sc_reason for parse
  by unfold_locales (rule controlStep_decided)

section \<open>Frames\<close>

text \<open>What the first decisive of some complete frames asks for.\<close>

fun firstVerdict :: "(string \<Rightarrow> jsval option) \<Rightarrow> string list \<Rightarrow> cancel_reason option" where
  "firstVerdict parse [] = None"
| "firstVerdict parse (l # ls) = (case frameVerdict parse l of Some v \<Rightarrow> Some v | None \<Rightarrow> firstVerdict parse ls)"

lemma accept_append: "acceptText parse s (t @ u) = acceptText parse (acceptText parse s t) u"
  by (simp add: acceptText_def)

lemma accept_unfinished:
  assumes "sc_reason s = None" and "\<not> sc_disposed s" and "LF \<notin> set l" and "sc_bytes s + bytesOf l < MAX_CONTROL_FRAME_BYTES"
  shows "acceptText parse s l = s\<lparr>sc_pending := sc_pending s @ l, sc_bytes := sc_bytes s + bytesOf l\<rparr>"
  using assms by (induction l arbitrary: s) (auto simp: acceptText_def acceptChar_def Let_def)

lemma CR_not_LF [simp]: "CR \<noteq> LF" "LF \<noteq> CR"
  by (simp_all add: CR_def LF_def)

lemma accept_line:
  assumes "sc_reason s = None" and "\<not> sc_disposed s" and "sc_pending s = []" and "sc_bytes s = 0"
    and "LF \<notin> set l" and "bytesOf (l @ [CR]) < MAX_CONTROL_FRAME_BYTES"
  shows "acceptText parse s (l @ CRLF) = (case frameVerdict parse l of Some v \<Rightarrow> cancel s v | None \<Rightarrow> s)"
proof -
  have "acceptText parse s (l @ [CR]) = s\<lparr>sc_pending := l @ [CR], sc_bytes := bytesOf (l @ [CR])\<rparr>"
    using assms by (subst accept_unfinished) simp_all
  moreover have "l @ CRLF = (l @ [CR]) @ [LF]" by (simp add: CRLF_def)
  ultimately show ?thesis using assms
    by (simp only: accept_append) (simp add: acceptText_def acceptChar_def parseFrame_def cancel_def split: option.split)
qed

lemma accept_lines:
  assumes "sc_reason s = None" and "\<not> sc_disposed s" and "sc_pending s = []" and "sc_bytes s = 0"
    and "list_all (\<lambda>l. LF \<notin> set l \<and> bytesOf (l @ [CR]) < MAX_CONTROL_FRAME_BYTES) ls"
  shows "acceptText parse s (concat (map (\<lambda>l. l @ CRLF) ls)) = (case firstVerdict parse ls of Some v \<Rightarrow> cancel s v | None \<Rightarrow> s)"
  using assms
proof (induction ls)
  case Nil
  then show ?case by (simp add: acceptText_def)
next
  case (Cons l ls)
  have l: "acceptText parse s (l @ CRLF) = (case frameVerdict parse l of Some v \<Rightarrow> cancel s v | None \<Rightarrow> s)"
    using Cons.prems by (intro accept_line) simp_all
  have "concat (map (\<lambda>l. l @ CRLF) (l # ls)) = (l @ CRLF) @ concat (map (\<lambda>l. l @ CRLF) ls)" by simp
  then have "acceptText parse s (concat (map (\<lambda>l. l @ CRLF) (l # ls))) =
      acceptText parse (case frameVerdict parse l of Some v \<Rightarrow> cancel s v | None \<Rightarrow> s) (concat (map (\<lambda>l. l @ CRLF) ls))"
    by (simp only: accept_append [of parse s "l @ CRLF"] l)
  then show ?case using Cons by (cases "frameVerdict parse l") (simp_all add: acceptText_done)
qed

text \<open>Chunks the decoder turns into text without losing a byte: what is not yet decoded is carried over.\<close>

fun decoded_fully :: "int \<Rightarrow> (nat \<times> string) list \<Rightarrow> bool" where
  "decoded_fully d [] = (d = 0)"
| "decoded_fully d ((n, t) # cs) = (let e = d + int n - int (bytesOf t) in 0 \<le> e \<and> decoded_fully e cs)"

definition bytesEvent :: "nat \<times> string \<Rightarrow> control_event" where
  "bytesEvent c = ControlData (BytesChunk (fst c) (Some (snd c)))"

lemma accept_decoder:
  "acceptText parse (s\<lparr>sc_decoderBytes := d\<rparr>) t = (acceptText parse s t)\<lparr>sc_decoderBytes := d\<rparr>"
proof (induction t arbitrary: s)
  case (Cons c t)
  have "acceptChar parse (s\<lparr>sc_decoderBytes := d\<rparr>) c = (acceptChar parse s c)\<lparr>sc_decoderBytes := d\<rparr>"
    by (simp add: acceptChar_def parseFrame_def cancel_def Let_def split: option.split)
  with Cons [of "acceptChar parse s c"] show ?case by (simp add: acceptText_def)
qed (simp add: acceptText_def)

lemma control_bytes:
  assumes "\<not> sc_disposed s" and "sc_dataAttached s" and "decoded_fully (sc_decoderBytes s) cs"
  shows "sc_reason (foldl (controlStep parse) s (map bytesEvent cs)) = sc_reason (acceptText parse s (concat (map snd cs))) \<and>
    (sc_reason s = None \<longrightarrow> sc_reason (acceptText parse s (concat (map snd cs))) = None \<longrightarrow>
      foldl (controlStep parse) s (map bytesEvent cs) = (acceptText parse s (concat (map snd cs)))\<lparr>sc_decoderBytes := 0\<rparr>)"
  using assms
proof (induction cs arbitrary: s)
  case Nil
  then show ?case by (simp add: acceptText_def)
next
  case (Cons c cs)
  obtain n t where c: "c = (n, t)" by (cases c)
  let ?d = "sc_decoderBytes s + int n - int (bytesOf t)"
  have d: "0 \<le> ?d" "decoded_fully ?d cs" using Cons.prems(3) by (simp_all add: c Let_def)
  show ?case
  proof (cases "sc_reason s")
    case (Some r)
    then have "sc_reason (foldl (controlStep parse) s (map bytesEvent (c # cs))) = Some r" by (rule control_latch.outcome_run)
    with Some show ?thesis by (simp add: acceptText_done)
  next
    case None
    let ?t = "acceptText parse (s\<lparr>sc_decoderBytes := ?d\<rparr>) t"
    have step: "controlStep parse s (bytesEvent c) = ?t"
      using None Cons.prems(1,2) d(1) by (simp add: c bytesEvent_def controlStep_def controlData_def Let_def)
    have all: "acceptText parse s (concat (map snd (c # cs))) = acceptText parse (acceptText parse s t) (concat (map snd cs))"
      by (simp add: c accept_append)
    have t: "?t = (acceptText parse s t)\<lparr>sc_decoderBytes := ?d\<rparr>" by (rule accept_decoder)
    have "\<not> sc_disposed ?t" "sc_dataAttached ?t" "decoded_fully (sc_decoderBytes ?t) cs"
      using Cons.prems(1,2) d(2) acceptText_reason [of parse s t] by (simp_all add: t)
    note IH = Cons.IH [OF this]
    have rest: "acceptText parse ?t (concat (map snd cs)) =
        (acceptText parse (acceptText parse s t) (concat (map snd cs)))\<lparr>sc_decoderBytes := ?d\<rparr>"
      unfolding t by (rule accept_decoder)
    have undecided: "sc_reason (acceptText parse (acceptText parse s t) u) = None \<Longrightarrow> sc_reason (acceptText parse s t) = None" for u
      by (cases "sc_reason (acceptText parse s t)") (simp_all add: acceptText_done)
    show ?thesis using IH undecided [of "concat (map snd cs)"]
      unfolding all list.map foldl_Cons step rest by (simp add: t c accept_append)
  qed
qed

section \<open>The window\<close>

lemma takeover_fresh:
  assumes "takeOverAfterChildClose env s = (t, Some True)"
  shows "sc_reason t = sc_reason s \<and> sc_reason s = None \<and> sc_pipeRetired s \<and> te_targetRetired env = Some True \<and>
    \<not> te_sourceGone env \<and> \<not> sc_disposed t \<and> sc_dataAttached t \<and> sc_takenOver t \<and> sc_pending t = sc_pending s \<and>
    sc_bytes t = sc_bytes s \<and> sc_decoderBytes t = sc_decoderBytes s \<and> sc_listening t = sc_listening s"
  using assms by (auto simp: takeOverAfterChildClose_def Let_def split: if_splits option.splits)

lemma finishGrace_log [simp]: "finishGrace control r e = (map_option disposeControl control, (if control = None then [] else [Disposed]) @ [Reported r e, Disconnected])"
  by (simp add: finishGrace_def)

text \<open>Every path of the window ends in one \<open>finish\<close>.\<close>

definition finished :: "shutdown_control option \<Rightarrow> shutdown_control option \<times> grace_action list \<Rightarrow> bool" where
  "finished control out \<longleftrightarrow> (\<exists>u r e. out = finishGrace u r e \<and> (u = None \<longleftrightarrow> control = None))"

lemma finished_finish [simp]: "(u = None \<longleftrightarrow> control = None) \<Longrightarrow> finished control (finishGrace u r e)"
  unfolding finished_def by blast

lemma grace_finishes: "finished control (disconnectAfterRunnerShutdownGrace parse d eligible env timer hr control)"
  by (simp add: disconnectAfterRunnerShutdownGrace_def Let_def del: finishGrace_log split: option.split prod.split bool.split)

text \<open>The window proper: what is reported once control has been taken over.\<close>

lemma grace_after_takeover:
  assumes "d \<noteq> 0" and "eligible" and "sc_reason s = None" and "takeOverAfterChildClose env s = (t, Some True)"
  shows "disconnectAfterRunnerShutdownGrace parse d eligible env timer hr (Some s) =
    (case settleGrace parse timer t of (u, r) \<Rightarrow> finishGrace (Some u) r (fst hr * 1000 + snd hr div 1000000))"
  using assms takeover_fresh [OF assms(4)]
  by (simp add: disconnectAfterRunnerShutdownGrace_def waitForRunnerShutdownGrace_def Let_def split: prod.split)

lemma settle_elapsed:
  "gr_status (snd (settleGrace parse timer t)) = Elapsed \<longleftrightarrow>
    (\<exists>es. timer = DelaySettles es True \<and> sc_reason (finishGraceWindow (foldl (controlStep parse) t es)) = None)"
  by (auto simp: settleGrace_def skippedInvalid_def Let_def split: grace_timer.split option.split cancel_reason.split)

definition reports :: "grace_action list \<Rightarrow> grace_result list" where
  "reports log = concat (map (\<lambda>a. case a of Reported r _ \<Rightarrow> [r] | _ \<Rightarrow> []) log)"

definition reported_status :: "shutdown_control option \<times> grace_action list \<Rightarrow> grace_status list" where
  "reported_status out = map gr_status (reports (snd out))"

lemma reported_finish [simp]: "reported_status (finishGrace u r e) = [gr_status r]"
  by (simp add: reported_status_def reports_def)

section \<open>Bounds\<close>

definition control_ok :: "shutdown_control \<Rightarrow> bool" where
  "control_ok s \<longleftrightarrow> sc_bytes s = bytesOf (sc_pending s) \<and> sc_bytes s \<le> MAX_CONTROL_FRAME_BYTES + 1 \<and>
     (sc_aborted s \<longleftrightarrow> sc_reason s \<noteq> None \<or> sc_disposed s) \<and>
     (sc_reason s = None \<longrightarrow> sc_bytes s < MAX_CONTROL_FRAME_BYTES \<and> 0 \<le> sc_decoderBytes s)"

lemma control_ok_cancel: "control_ok s \<Longrightarrow> control_ok (cancel s v)"
  by (auto simp: control_ok_def cancel_def)

lemma acceptChar_ok: "control_ok s \<Longrightarrow> control_ok (acceptChar parse s c)"
  using byteLength_pos [of c]
  by (auto simp: control_ok_def acceptChar_def parseFrame_def cancel_def Let_def MAX_CONTROL_FRAME_BYTES_def split: option.split)

lemma acceptText_ok: "control_ok s \<Longrightarrow> control_ok (acceptText parse s t)"
  by (induction t arbitrary: s) (simp_all add: acceptText_def acceptChar_ok)

lemma controlData_ok: "control_ok s \<Longrightarrow> control_ok (controlData parse s c)"
proof (cases c)
  case (TextChunk f t)
  assume "control_ok s"
  then show ?thesis unfolding TextChunk controlData_def
    by (auto simp: control_ok_cancel Let_def split: option.split intro!: acceptText_ok) (auto simp: control_ok_def cancel_def)
next
  case (BytesChunk n t)
  assume "control_ok s"
  then show ?thesis unfolding BytesChunk controlData_def
    by (auto simp: control_ok_cancel Let_def split: option.split intro!: acceptText_ok) (auto simp: control_ok_def cancel_def)
qed

lemma targetUnpipe_ok: "control_ok s \<Longrightarrow> control_ok (targetUnpipe s same)"
  by (auto simp: targetUnpipe_def control_ok_def)

lemma controlStep_ok: "control_ok s \<Longrightarrow> control_ok (controlStep parse s e)"
  by (cases e) (auto simp: controlStep_def controlData_ok controlEnd_def control_ok_cancel acceptText_ok targetUnpipe_ok Let_def
      split: option.split)

interpretation control_bounds: invariant_machine "controlStep parse" control_ok for parse
  by unfold_locales (rule controlStep_ok)

lemma control_ok_new: "control_ok (observeShutdownControl attaches gone)"
  by (simp add: observeShutdownControl_def control_ok_def cancel_def disposeControl_def Let_def MAX_CONTROL_FRAME_BYTES_def)

section \<open>Properties\<close>

text \<open>C40: What the observer holds is bounded whatever arrives, its abort signal is raised exactly when a
  reason has been found or it was disposed, and the first reason is never replaced.\<close>

theorem control_bounded_and_latched:
  "let s = foldl (controlStep parse) (observeShutdownControl attaches gone) es;
       t = foldl (controlStep parse) (observeShutdownControl attaches gone) (es @ fs) in
    length (sc_pending s) \<le> MAX_CONTROL_FRAME_BYTES + 1 \<and> (sc_aborted s \<longleftrightarrow> sc_reason s \<noteq> None \<or> sc_disposed s) \<and>
    (sc_reason s = None \<or> sc_reason t = sc_reason s)"
proof -
  let ?s = "foldl (controlStep parse) (observeShutdownControl attaches gone) es"
  have ok: "control_ok ?s" by (rule control_bounds.inv_run [OF control_ok_new])
  have "length p \<le> bytesOf p" for p
  proof (induction p)
    case (Cons c p)
    then show ?case using byteLength_pos [of c] by simp
  qed simp
  from this [of "sc_pending ?s"] ok show ?thesis
    using control_latch.outcome_prefix [of parse "observeShutdownControl attaches gone" es _ fs]
    by (cases "sc_reason ?s") (simp_all add: control_ok_def Let_def)
qed

text \<open>The shutdown always reaches the launcher's disconnect: on every path the observer is disposed
  (its signal aborted, its buffers empty), one outcome is reported, and then disconnect runs, once.\<close>

theorem grace_always_disconnects:
  "\<exists>u r e. disconnectAfterRunnerShutdownGrace parse d eligible env timer hr control =
      (u, (if control = None then [] else [Disposed]) @ [Reported r e, Disconnected]) \<and>
    (u = None \<longleftrightarrow> control = None) \<and> (case u of Some s \<Rightarrow> sc_disposed s | None \<Rightarrow> True)"
proof -
  obtain u r e where "disconnectAfterRunnerShutdownGrace parse d eligible env timer hr control = finishGrace u r e"
    "u = None \<longleftrightarrow> control = None"
    using grace_finishes [of control parse d eligible env timer hr] unfolding finished_def by blast
  then show ?thesis by (cases u) (auto simp: disposeControl_def)
qed

text \<open>The window is reported as elapsed exactly when it was open (a duration, an eligible run, an
  observer without a reason that could take control over) and the timer resolved with no reason found
  and no unfinished frame or character left.\<close>

theorem grace_elapsed_iff:
  "reported_status (disconnectAfterRunnerShutdownGrace parse d eligible env timer hr control) = [Elapsed] \<longleftrightarrow>
    d \<noteq> 0 \<and> eligible \<and> (\<exists>s t es. control = Some s \<and> takeOverAfterChildClose env s = (t, Some True) \<and>
      timer = DelaySettles es True \<and> (let u = foldl (controlStep parse) t es in
        sc_reason u = None \<and> sc_bytes u = 0 \<and> sc_decoderBytes u \<le> 0))"
proof -
  have fin: "sc_reason (finishGraceWindow u) = None \<longleftrightarrow> sc_reason u = None \<and> sc_bytes u = 0 \<and> sc_decoderBytes u \<le> 0"
    if "\<not> sc_disposed u" for u
    using that by (auto simp: finishGraceWindow_def)
  show ?thesis
  proof (cases "d = 0 \<or> \<not> eligible \<or> control = None \<or> (\<exists>s. control = Some s \<and> snd (takeOverAfterChildClose env s) \<noteq> Some True)")
    case True
    then show ?thesis
      by (auto simp: disconnectAfterRunnerShutdownGrace_def skippedInvalid_def Let_def simp del: finishGrace_log
          split: option.splits if_splits prod.splits bool.splits)
  next
    case False
    then obtain s t where s: "control = Some s" "takeOverAfterChildClose env s = (t, Some True)" "d \<noteq> 0" eligible
      by (metis option.exhaust prod.collapse)
    then have "sc_reason s = None" using takeover_fresh by blast
    note out = grace_after_takeover [OF s(3,4) this s(2), of parse timer hr]
    have "reported_status (disconnectAfterRunnerShutdownGrace parse d eligible env timer hr control) =
        [gr_status (snd (settleGrace parse timer t))]"
      unfolding s(1) out by (simp del: finishGrace_log split: prod.split)
    moreover have "\<not> sc_disposed t" using takeover_fresh [OF s(2)] by blast
    ultimately show ?thesis using s settle_elapsed [of parse timer t] by (auto simp: fin Let_def)
  qed
qed

text \<open>C35: The frames that arrive in the window decide it: for complete frames within the bound, cut into
  chunks and split inside characters in any way, a STOP or KILL cancels it with that reason, whether
  its timer is aborted or still resolves; without any of them and without a malformed frame it elapses
  with its timer. (A malformed frame is reported as skipped when the timer resolved, as cancelled when
  it was aborted.)\<close>

theorem grace_decided_by_frames:
  assumes "d \<noteq> 0" and "sc_pending s = []" and "sc_bytes s = 0" and "sc_decoderBytes s = 0"
    and "takeOverAfterChildClose env s = (t, Some True)" and "decoded_fully 0 cs"
    and "concat (map snd cs) = concat (map (\<lambda>l. l @ CRLF) ls)"
    and "list_all (\<lambda>l. LF \<notin> set l \<and> bytesOf (l @ [CR]) < MAX_CONTROL_FRAME_BYTES) ls"
  shows "reports (snd (disconnectAfterRunnerShutdownGrace parse d True env (DelaySettles (map bytesEvent cs) resolved) hr (Some s))) =
    [case firstVerdict parse ls of
       None \<Rightarrow> if resolved then \<lparr>gr_status = Elapsed, gr_reason = WindowElapsed\<rparr> else skippedInvalid
     | Some ObservationInvalid \<Rightarrow> \<lparr>gr_status = (if resolved then Skipped else Cancelled), gr_reason = Cancellation ObservationInvalid\<rparr>
     | Some r \<Rightarrow> \<lparr>gr_status = Cancelled, gr_reason = Cancellation r\<rparr>]"
proof -
  note fresh = takeover_fresh [OF assms(5)]
  let ?u = "foldl (controlStep parse) t (map bytesEvent cs)"
  have t: "sc_reason t = None" "\<not> sc_disposed t" "sc_pending t = []" "sc_bytes t = 0" "sc_decoderBytes t = 0" "sc_dataAttached t"
    using fresh assms(2-4) by simp_all
  have acc: "acceptText parse t (concat (map snd cs)) = (case firstVerdict parse ls of Some v \<Rightarrow> cancel t v | None \<Rightarrow> t)"
    unfolding assms(7) using t(1-4) assms(8) by (rule accept_lines)
  have run: "sc_reason ?u = firstVerdict parse ls"
      "firstVerdict parse ls = None \<Longrightarrow> ?u = t"
    using control_bytes [of t cs parse] t assms(6) unfolding acc by (auto split: option.splits)
  have "settleGrace parse (DelaySettles (map bytesEvent cs) resolved) t = (if resolved then finishGraceWindow ?u else ?u, case firstVerdict parse ls of
       None \<Rightarrow> if resolved then \<lparr>gr_status = Elapsed, gr_reason = WindowElapsed\<rparr> else skippedInvalid
     | Some ObservationInvalid \<Rightarrow> \<lparr>gr_status = (if resolved then Skipped else Cancelled), gr_reason = Cancellation ObservationInvalid\<rparr>
     | Some r \<Rightarrow> \<lparr>gr_status = Cancelled, gr_reason = Cancellation r\<rparr>)"
    using run t by (cases "firstVerdict parse ls") (simp_all add: settleGrace_def finishGraceWindow_def skippedInvalid_def Let_def
      split: cancel_reason.split)
  then show ?thesis
    using grace_after_takeover [OF assms(1) TrueI _ assms(5), of parse] fresh by (simp add: reports_def)
qed

text \<open>A run is eligible for the window exactly when it used a known runtime, connected, closed without
  a signal with code 0, or with code 1 or 23 before completing, and its frames say ready and not stopped on a
  valid stream with an orderly end of its error output.\<close>

theorem grace_eligible_iff:
  "isRunnerShutdownGraceEligible \<lparr>gc_runtimeKind = kind, gc_connectionFulfilled = connected, gc_rawChildCode = code,
      gc_signal = signal, gc_translatedExitCode = tc_exitCode (translateChildClose code signal),
      gc_hardTeardown = requiresHardChildTeardown (translateChildClose code signal), gc_lifecycle = lc,
      gc_stderrEnded = ended, gc_stderrErrored = errored\<rparr> \<longleftrightarrow>
    kind \<in> {''node'', ''bun'', ''python3''} \<and> connected \<and> signal = None \<and> ended \<and> \<not> errored \<and>
    ls_valid lc \<and> ls_ready lc \<and> \<not> ls_stopped lc \<and> (code = Some 0 \<or> code \<in> {Some 1, Some 23} \<and> \<not> ls_completed lc)"
  by (auto simp: isRunnerShutdownGraceEligible_def hard_teardown_iff translate_exit runnerExitCodes_def split: option.split)

text \<open>The setting: a duration is read back from its decimal text (with blanks around it) exactly up to
  the largest timer, 2147483647; everything the parser accepts is within that bound.\<close>

theorem grace_setting_roundtrip:
  "(parseRunnerShutdownGraceMs (JStr (decimal (int n))) = Inr n \<longleftrightarrow> n \<le> 2147483647) \<and>
    (case parseRunnerShutdownGraceMs raw of Inr m \<Rightarrow> m \<le> 2147483647 | Inl e \<Rightarrow> e = invalidGrace)"
proof -
  have "parseRunnerShutdownGraceMs (JStr (decimal (int n))) = Inr n \<longleftrightarrow> n \<le> 2147483647"
    using decimalDigits_digits [of n]
    by (auto simp: parseRunnerShutdownGraceMs_def decimal_def jsTrim_digits isSafeInteger_def Let_def)
  moreover have "case parseRunnerShutdownGraceMs raw of Inr m \<Rightarrow> m \<le> 2147483647 | Inl e \<Rightarrow> e = invalidGrace"
    by (simp add: parseRunnerShutdownGraceMs_def DEFAULT_RUNNER_SHUTDOWN_GRACE_MS_def Let_def split: jsval.split)
  ultimately show ?thesis by blast
qed

section \<open>A window at work\<close>

definition demoControl :: shutdown_control where
  "demoControl = targetUnpipe (observeShutdownControl True False) True"

definition demoTakeover :: takeover_env where
  "demoTakeover = \<lparr>te_targetRetired = Some True, te_sourceGone = False, te_prepends = True, te_resumes = True\<rparr>"

definition demoStop :: "string \<Rightarrow> jsval option" where
  "demoStop l = (if l = ''[4001,{}]'' then Some (JArr Plain [JNum (NInt 4001), JObj Plain []]) else None)"

lemma grace_decided_by_frames_witness:
  "reports (snd (disconnectAfterRunnerShutdownGrace demoStop 100 True demoTakeover
      (DelaySettles (map bytesEvent [(6, ''[4001,''), (5, ''{}]'' @ CRLF)]) False) (0, 7) (Some demoControl))) =
    [\<lparr>gr_status = Cancelled, gr_reason = Cancellation Stop\<rparr>]"
proof -
  have t: "takeOverAfterChildClose demoTakeover demoControl = (fst (takeOverAfterChildClose demoTakeover demoControl), Some True)"
    by (simp add: takeOverAfterChildClose_def demoTakeover_def demoControl_def observeShutdownControl_def targetUnpipe_def Let_def)
  have s: "sc_pending demoControl = []" "sc_bytes demoControl = 0" "sc_decoderBytes demoControl = 0"
    by (simp_all add: demoControl_def observeShutdownControl_def targetUnpipe_def Let_def)
  have c: "decoded_fully 0 [(6, ''[4001,''), (5, ''{}]'' @ CRLF)]"
    "concat (map snd [(6::nat, ''[4001,''), (5, ''{}]'' @ CRLF)]) = concat (map (\<lambda>l. l @ CRLF) [''[4001,{}]''])"
    by code_simp+
  have l: "list_all (\<lambda>l. LF \<notin> set l \<and> bytesOf (l @ [CR]) < MAX_CONTROL_FRAME_BYTES) [''[4001,{}]'']"
    using bytes_short [of "''[4001,{}]'' @ [CR]" 50] by (simp add: MAX_CONTROL_FRAME_BYTES_def LF_def)
  have v: "firstVerdict demoStop [''[4001,{}]''] = Some Stop"
    by code_simp
  show ?thesis using grace_decided_by_frames [OF _ s t c l, of 100 demoStop False "(0, 7)"] by (simp add: v del: firstVerdict.simps)
qed

lemma control_bounded_and_latched_witness:
  "sc_reason (foldl (controlStep demoStop) (observeShutdownControl True False) [SourceError, SourceClose]) = Some ControlError"
proof -
  have "sc_reason (foldl (controlStep demoStop) (observeShutdownControl True False) [SourceError]) = Some ControlError"
    by (simp add: controlStep_def observeShutdownControl_def Let_def)
  then show ?thesis
    using control_bounded_and_latched [of demoStop True False "[SourceError]" "[SourceClose]"] by (simp add: Let_def del: foldl_Cons)
qed

end
