(* ===== verification/ManagerRoutes.thy ===== *)
theory ManagerRoutes
  imports JsText
begin

text \<open>
  \<open>packages/manager/src/lib/route-classifier.ts\<close> and \<open>route-forwarding-policy.ts\<close>: which requests the
  manager answers itself, which it multiplexes and which it forwards, and where to. The optional fields
  of a target are options. \<open>decode\<close> stands for \<open>decodeURIComponent\<close> (\<open>None\<close>: it throws).
\<close>

section \<open>Paths\<close>

definition DEFAULT_API_BASE :: string where
  "DEFAULT_API_BASE = ''/api/v1''"

definition normalizePath :: "string option \<Rightarrow> string" where
  "normalizePath url = (let path = orElse (Some (takeWhile (\<lambda>c. c \<noteq> CHR ''?'') (orElse url ''/''))) ''/''
     in if prefix ''/'' path then path else CHR ''/'' # path)"

definition normalizeBase :: "string \<Rightarrow> string" where
  "normalizeBase apiBase = (let base = (if suffix ''/'' apiBase then butlast apiBase else apiBase)
     in if prefix ''/'' base then base else CHR ''/'' # base)"

definition stripApiBase :: "string \<Rightarrow> string \<Rightarrow> string" where
  "stripApiBase path apiBase = (if path = apiBase then ''/''
     else if prefix (apiBase @ ''/'') path then drop (length apiBase) path else path)"

definition applyOriginalQuery :: "string \<Rightarrow> string option \<Rightarrow> string" where
  "applyOriginalQuery targetPath currentUrl = (case currentUrl of
      None \<Rightarrow> targetPath
    | Some url \<Rightarrow> if url = [] \<or> CHR ''?'' \<in> set targetPath then targetPath
        else targetPath @ dropWhile (\<lambda>c. c \<noteq> CHR ''?'') url)"

definition createVerserRouteLocation :: "string option \<Rightarrow> string \<Rightarrow> string" where
  "createVerserRouteLocation routeDomain targetPath =
    (let path = (if prefix ''/'' targetPath then targetPath else CHR ''/'' # targetPath)
     in case routeDomain of
          Some d \<Rightarrow> if d = [] then path else ''http://'' @ d @ path
        | None \<Rightarrow> path)"

section \<open>Decisions\<close>

datatype route_kind = Follow | ManagerMultiplex | ManagerOwned | UnsupportedBidirectional

record route_target =
  rt_sthId :: "string option"
  rt_instanceId :: "string option"
  rt_topicName :: "string option"
  rt_routeDomain :: "string option"
  rt_targetPath :: "string option"

record route_decision =
  rd_kind :: route_kind
  rd_family :: string
  rd_reason :: string
  rd_target :: "route_target option"

definition emptyTarget :: route_target where
  "emptyTarget = \<lparr>rt_sthId = None, rt_instanceId = None, rt_topicName = None, rt_routeDomain = None, rt_targetPath = None\<rparr>"

definition follow :: "string \<Rightarrow> string \<Rightarrow> route_target option \<Rightarrow> route_decision" where
  "follow family reason target = \<lparr>rd_kind = Follow, rd_family = family, rd_reason = reason, rd_target = target\<rparr>"

definition managerMultiplex :: "string \<Rightarrow> string \<Rightarrow> route_target option \<Rightarrow> route_decision" where
  "managerMultiplex family reason target = \<lparr>rd_kind = ManagerMultiplex, rd_family = family, rd_reason = reason, rd_target = target\<rparr>"

definition managerOwned :: "string \<Rightarrow> string \<Rightarrow> route_target option \<Rightarrow> route_decision" where
  "managerOwned family reason target = \<lparr>rd_kind = ManagerOwned, rd_family = family, rd_reason = reason, rd_target = target\<rparr>"

definition unsupportedBidirectional :: "string \<Rightarrow> string \<Rightarrow> route_target option \<Rightarrow> route_decision" where
  "unsupportedBidirectional family reason target =
    \<lparr>rd_kind = UnsupportedBidirectional, rd_family = family, rd_reason = reason, rd_target = target\<rparr>"

text \<open>\<open>segments[i]\<close>\<close>

definition segmentAt :: "string list \<Rightarrow> nat \<Rightarrow> string option" where
  "segmentAt segments i = (if i < length segments then Some (segments ! i) else None)"

definition slashed :: "string list \<Rightarrow> string" where
  "slashed segments = CHR ''/'' # joinWith ''/'' segments"

definition classifyInstanceRoute :: "string \<Rightarrow> string list \<Rightarrow> string \<Rightarrow> route_target \<Rightarrow> route_decision" where
  "classifyInstanceRoute method segments targetPath baseTarget =
    (let instanceId = (if segmentAt segments 1 = Some ''instance'' then segmentAt segments 2 else segmentAt segments 1);
         opIndex = (if segmentAt segments 0 = Some ''instance'' then 2 else 1);
         op = orElse (segmentAt segments opIndex) '''';
         target = Some (baseTarget\<lparr>rt_instanceId := instanceId, rt_targetPath := Some targetPath\<rparr>)
     in if op = ''inout'' then
          unsupportedBidirectional ''instance-inout'' ''Instance /inout is a coupled duplex stream requiring a dedicated protocol'' target
        else if op \<in> {''stdout'', ''stderr'', ''log'', ''monitoring'', ''output'', ''stdin'', ''input'', ''events''} then
          follow ''instance-stream'' ''Explicit instance streams target one selected instance'' target
        else if op = ''rpc'' then
          follow ''instance-rpc'' ''Instance RPC routes target one selected exposed instance'' target
        else if op \<in> {''_stop'', ''_kill'', ''_event'', ''_monitoring_rate'', ''set''} \<and> method = ''POST'' then
          follow ''instance-control'' ''Instance control actions mutate one selected instance'' target
        else if op \<in> {'''', ''health'', ''event'', ''once''} then
          follow ''instance-read'' ''Instance read/event routes target one selected instance'' target
        else follow ''instance-generic'' ''Unknown instance routes are single-target only after an owner is resolved'' target)"

definition classifyHostRoute :: "string \<Rightarrow> string list \<Rightarrow> route_target \<Rightarrow> route_decision" where
  "classifyHostRoute method segments target =
    (let family = orElse (segmentAt segments 0) ''host-root''; t = Some target
     in if family = ''platform'' then
          unsupportedBidirectional ''host-platform'' ''Host /platform is a duplex Manager/STH control stream'' t
        else if family = ''topic'' then follow ''host-topic'' ''Explicit STH topic routes target one selected STH'' t
        else if family = ''log'' \<or> family = ''audit'' then
          follow (''host-'' @ family) (''Explicit STH '' @ family @ '' routes target one selected STH'') t
        else if family = ''instance'' then
          classifyInstanceRoute method segments (orElse (rt_targetPath target) (slashed segments)) target
        else if family = ''rpc'' then follow ''host-rpc'' ''Host RPC routes target one selected exposed instance'' t
        else if family = ''sequence'' then
          (if method = ''POST'' \<or> method = ''PUT'' \<or> method = ''DELETE'' then
             follow ''host-sequence-write'' ''Sequence writes are single-owner STH actions'' t
           else follow ''host-sequence-read'' ''Sequence reads target one selected STH'' t)
        else if family \<in> {''sequences'', ''instances'', ''entities'', ''load-check'', ''version'', ''config'', ''status'', ''topics''} then
          follow ''host-state-read'' ''Host state reads target one selected STH'' t
        else follow ''host-generic'' ''Generic /sth/:id route targets one selected STH and remains redirect-ready'' t)"

definition sthDomain :: "string \<Rightarrow> string" where
  "sthDomain sthId = ''sth.'' @ sthId @ ''.scramjet.internal''"

definition classifySthRoute :: "string \<Rightarrow> string list \<Rightarrow> route_decision" where
  "classifySthRoute method segments = (case segmentAt segments 1 of
      None \<Rightarrow> managerOwned ''sth-registry'' ''Manager owns the connected-STH registry'' None
    | Some sthId \<Rightarrow>
        if sthId = [] then managerOwned ''sth-registry'' ''Manager owns the connected-STH registry'' None
        else if length segments = 3 \<and> segmentAt segments 2 = Some ''info'' then
          managerOwned ''sth-info'' ''Manager owns connected-STH registry metadata'' (Some (emptyTarget\<lparr>rt_sthId := Some sthId\<rparr>))
        else if length segments = 2 \<and> method = ''DELETE'' then
          managerOwned ''sth-disconnect'' ''Manager owns STH disconnect policy'' (Some (emptyTarget\<lparr>rt_sthId := Some sthId\<rparr>))
        else
          let hostSegments = drop 2 segments
          in classifyHostRoute method hostSegments
               (emptyTarget\<lparr>rt_sthId := Some sthId, rt_routeDomain := Some (sthDomain sthId), rt_targetPath := Some (slashed hostSegments)\<rparr>))"

definition classifyManagerOwnedRoute :: "string \<Rightarrow> string list \<Rightarrow> route_decision" where
  "classifyManagerOwnedRoute method segments =
    (let family = orElse (segmentAt segments 0) ''''
     in if family \<in> {''version'', ''config'', ''health'', ''list'', ''instances'', ''sequences'', ''all_sequences'', ''entities'', ''topics'', ''load''} then
          managerOwned ''manager-state'' ''Manager owns aggregate state and metadata responses'' None
        else if family = ''load-stream'' then managerMultiplex ''manager-load-stream'' ''Manager owns the live load stream'' None
        else if family = ''log'' \<or> family = ''audit'' then
          managerMultiplex (''manager-'' @ family) (''Manager '' @ family @ '' route aggregates multiple sources'') None
        else if family = ''store'' \<and> method = ''DELETE'' then managerOwned ''manager-store'' ''Manager owns store index cleanup'' None
        else if family = ''disconnect'' \<and> method = ''POST'' then managerOwned ''manager-disconnect'' ''Manager owns disconnect policy'' None
        else managerOwned ''manager-unknown'' ''Unrecognized Manager routes remain Manager-owned until explicitly classified'' None)"

text \<open>\<open>split("/").filter(Boolean).map(decodeURIComponent)\<close>\<close>

fun decodeAll :: "(string \<Rightarrow> string option) \<Rightarrow> string list \<Rightarrow> string list option" where
  "decodeAll decode [] = Some []"
| "decodeAll decode (s # ss) = (case decode s of
      None \<Rightarrow> None
    | Some d \<Rightarrow> (case decodeAll decode ss of None \<Rightarrow> None | Some ds \<Rightarrow> Some (d # ds)))"

definition pathSegments :: "string \<Rightarrow> string list" where
  "pathSegments path = filter (\<lambda>s. s \<noteq> []) (splitOn (CHR ''/'') path)"

text \<open>The classification of the decoded segments, and of a request. The result \<open>None\<close>: the call throws.\<close>

definition classifySegments :: "string \<Rightarrow> string list \<Rightarrow> route_decision" where
  "classifySegments method segments =
    (if segments = [] then managerOwned ''manager-root'' ''Manager owns the API root response'' None
     else if hd segments = ''sth'' then classifySthRoute method segments
     else if hd segments = ''topic'' then
       managerMultiplex ''manager-topic'' ''Manager topic routes are live fan-in/fan-out multiplexers''
         (Some (emptyTarget\<lparr>rt_topicName := segmentAt segments 1\<rparr>))
     else if hd segments = ''instance'' then classifyInstanceRoute method segments (slashed segments) emptyTarget
     else if hd segments = ''s3'' then managerOwned ''manager-storage'' ''Manager owns sequence package storage state'' None
     else if hd segments = ''rpc'' then
       follow ''host-rpc'' ''RPC requests target one selected exposed instance'' (Some (emptyTarget\<lparr>rt_targetPath := Some (slashed segments)\<rparr>))
     else classifyManagerOwnedRoute method segments)"

definition classifyManagerRoute ::
  "(string \<Rightarrow> string option) \<Rightarrow> string option \<Rightarrow> string option \<Rightarrow> string option \<Rightarrow> route_decision option" where
  "classifyManagerRoute decode method url apiBaseOption =
    (let apiBase = normalizeBase (orElse apiBaseOption DEFAULT_API_BASE);
         requestMethod = toUpperCase (orElse method ''GET'')
     in map_option (classifySegments requestMethod) (decodeAll decode (pathSegments (stripApiBase (normalizePath url) apiBase))))"

datatype forwarding =
    Redirect string "string option" string
  | DirectRouteMetadata "string option" string

definition prepareManagerFollowForwarding :: "route_decision \<Rightarrow> string option \<Rightarrow> (string \<times> string) list \<Rightarrow> forwarding" where
  "prepareManagerFollowForwarding decision currentUrl headers =
    (let routeDomain = (case rd_target decision of Some t \<Rightarrow> rt_routeDomain t | None \<Rightarrow> None);
         wanted = (case rd_target decision of Some t \<Rightarrow> rt_targetPath t | None \<Rightarrow> None);
         targetPath = applyOriginalQuery (orElse wanted (orElse currentUrl ''/'')) currentUrl
     in if map_of headers ''cpm'' = Some ''true'' then DirectRouteMetadata routeDomain targetPath
        else Redirect (createVerserRouteLocation routeDomain targetPath) routeDomain targetPath)"

section \<open>The forwarding policy\<close>

datatype forwarding_origin = ExternalApi | LocalApi | ManagerDownward | RuntimeSequence
datatype forwarding_direction = Upward | Downward | Local | Unknown



section \<open>Facts\<close>

lemmas decision_defs = follow_def managerMultiplex_def managerOwned_def unsupportedBidirectional_def

lemma segments_of_path:
  assumes "list_all (\<lambda>s. s \<noteq> [] \<and> CHR ''/'' \<notin> set s) segments"
  shows "pathSegments (slashed segments) = segments"
proof (cases "segments = []")
  case True
  then show ?thesis by (simp add: pathSegments_def slashed_def)
next
  case False
  have "list_all (\<lambda>p. CHR ''/'' \<notin> set p) segments" using assms by (simp add: list_all_iff)
  then have "splitOn (CHR ''/'') (slashed segments) = [] # segments"
    using split_join [OF False] by (simp add: slashed_def)
  moreover have "filter (\<lambda>s. s \<noteq> []) segments = segments" using assms by (simp add: list_all_iff filter_id_conv)
  ultimately show ?thesis by (simp add: pathSegments_def)
qed

lemma decodeAll_plain: "list_all (\<lambda>s. decode s = Some s) ss \<Longrightarrow> decodeAll decode ss = Some ss"
  by (induction ss) auto

lemma slashed_chars: "c \<in> set (slashed ss) \<Longrightarrow> c = CHR ''/'' \<or> (\<exists>s \<in> set ss. c \<in> set s)"
proof -
  have "c \<in> set (joinWith ''/'' ss) \<Longrightarrow> c = CHR ''/'' \<or> (\<exists>s \<in> set ss. c \<in> set s)" for c
    by (induction "''/''" ss rule: joinWith.induct) auto
  then show "c \<in> set (slashed ss) \<Longrightarrow> ?thesis" by (auto simp: slashed_def)
qed

lemma slashed_append: "ss \<noteq> [] \<Longrightarrow> slashed (ps @ ss) = (if ps = [] then slashed ss else slashed ps @ slashed ss)"
proof -
  have "ss \<noteq> [] \<Longrightarrow> ps \<noteq> [] \<Longrightarrow> joinWith ''/'' (ps @ ss) = joinWith ''/'' ps @ slashed ss" for ps
  proof (induction "''/''" ps rule: joinWith.induct)
    case (2 p)
    then show ?case by (cases ss) (simp_all add: slashed_def)
  qed (simp_all add: slashed_def)
  then show "ss \<noteq> [] \<Longrightarrow> ?thesis" by (simp add: slashed_def)
qed

lemma takeWhile_query: "CHR ''?'' \<notin> set p \<Longrightarrow> takeWhile (\<lambda>c. c \<noteq> CHR ''?'') (p @ CHR ''?'' # q) = p"
  by (induction p) auto

lemma dropWhile_query: "CHR ''?'' \<notin> set p \<Longrightarrow> dropWhile (\<lambda>c. c \<noteq> CHR ''?'') (p @ CHR ''?'' # q) = CHR ''?'' # q"
  by (induction p) auto

lemma takeWhile_no_query: "CHR ''?'' \<notin> set p \<Longrightarrow> takeWhile (\<lambda>c. c \<noteq> CHR ''?'') p = p"
  by (induction p) auto


text \<open>The target and the kind of a decision, without its wording.\<close>

lemma decision_fields [simp]:
  "rd_target (follow f r t) = t" "rd_target (managerMultiplex f r t) = t" "rd_target (managerOwned f r t) = t"
  "rd_target (unsupportedBidirectional f r t) = t" "rd_kind (follow f r t) = Follow" "rd_kind (managerMultiplex f r t) = ManagerMultiplex"
  "rd_kind (managerOwned f r t) = ManagerOwned" "rd_kind (unsupportedBidirectional f r t) = UnsupportedBidirectional"
  by (simp_all add: decision_defs)

lemmas decision_if = if_distrib [of rd_target] if_distrib [of rd_kind]

lemma instance_target:
  "\<exists>t'. rd_target (classifyInstanceRoute m ss p t) = Some t' \<and> rt_sthId t' = rt_sthId t \<and> rt_routeDomain t' = rt_routeDomain t \<and>
    rt_targetPath t' = Some p"
  unfolding classifyInstanceRoute_def Let_def decision_if decision_fields if_cancel by simp

lemma instance_kind: "rd_kind (classifyInstanceRoute m ss p t) \<in> {Follow, UnsupportedBidirectional}"
  unfolding classifyInstanceRoute_def Let_def decision_if decision_fields if_cancel by simp

lemma host_target:
  "\<exists>t'. rd_target (classifyHostRoute m ss t) = Some t' \<and> rt_sthId t' = rt_sthId t \<and> rt_routeDomain t' = rt_routeDomain t \<and>
    rt_targetPath t' = (if orElse (segmentAt ss 0) ''host-root'' = ''instance'' then Some (orElse (rt_targetPath t) (slashed ss)) else rt_targetPath t)"
  using instance_target [of m ss "orElse (rt_targetPath t) (slashed ss)" t]
  unfolding classifyHostRoute_def Let_def decision_if decision_fields if_cancel
  by (cases "orElse (segmentAt ss 0) ''host-root'' = ''instance''") (simp_all only:, simp_all)

lemma host_kind: "rd_kind (classifyHostRoute m ss t) \<in> {Follow, UnsupportedBidirectional}"
  using instance_kind [of m ss "orElse (rt_targetPath t) (slashed ss)" t]
  unfolding classifyHostRoute_def Let_def decision_if decision_fields if_cancel by (simp split: if_split)




lemma prepare_redirect:
  assumes "rd_target d = Some t" and "rt_routeDomain t = Some dmn" and "dmn \<noteq> []" and "rt_targetPath t = Some p" and "p \<noteq> []"
    and "applyOriginalQuery p url = CHR ''/'' # r" and "map_of headers ''cpm'' \<noteq> Some ''true''"
  shows "prepareManagerFollowForwarding d url headers = Redirect (''http://'' @ dmn @ CHR ''/'' # r) (Some dmn) (CHR ''/'' # r)"
  using assms by (simp add: prepareManagerFollowForwarding_def orElse_def createVerserRouteLocation_def Let_def)

section \<open>Properties\<close>

text \<open>The decision on a request for a hub's API names the hub's domain and the rest of the path.\<close>

lemma sth_request_classified:
  assumes "list_all (\<lambda>s. s \<noteq> [] \<and> CHR ''/'' \<notin> set s \<and> CHR ''?'' \<notin> set s \<and> decode s = Some s) (i # segments)"
    and "segments \<noteq> []" and "segments \<noteq> [''info'']" and "decode ''sth'' = Some ''sth''"
    and base: "normalizeBase (orElse apiBase DEFAULT_API_BASE) = ''/api/v1''"
  shows "\<exists>d t. classifyManagerRoute decode method (Some (''/api/v1/sth'' @ slashed (i # segments) @ CHR ''?'' # query)) apiBase = Some d \<and>
    rd_kind d \<in> {Follow, UnsupportedBidirectional} \<and> rd_target d = Some t \<and> rt_routeDomain t = Some (sthDomain i) \<and>
    rt_targetPath t = Some (slashed segments)"
proof -
  let ?path = "''/api/v1/sth'' @ slashed (i # segments)" and ?m = "toUpperCase (orElse method ''GET'')"
  let ?t = "emptyTarget\<lparr>rt_sthId := Some i, rt_routeDomain := Some (sthDomain i), rt_targetPath := Some (slashed segments)\<rparr>"
  have noq: "CHR ''?'' \<notin> set (slashed (i # segments))"
    using slashed_chars assms(1) by (fastforce simp: list_all_iff)
  have path: "normalizePath (Some (?path @ CHR ''?'' # query)) = ?path"
    using takeWhile_query [of ?path query] noq by (simp add: normalizePath_def orElse_def Let_def)
  have sth: "slashed (''sth'' # i # segments) = ''/sth'' @ slashed (i # segments)"
    using slashed_append [of "i # segments" "[''sth'']"] by (simp add: slashed_def)
  have strip: "stripApiBase ?path ''/api/v1'' = slashed (''sth'' # i # segments)"
    by (simp add: stripApiBase_def sth)
  have segs: "pathSegments (slashed (''sth'' # i # segments)) = ''sth'' # i # segments"
    using assms(1) by (intro segments_of_path) (auto simp: list_all_iff)
  have dec: "decodeAll decode (''sth'' # i # segments) = Some (''sth'' # i # segments)"
    using assms(1,4) by (intro decodeAll_plain) (auto simp: list_all_iff)
  have "classifySthRoute ?m (''sth'' # i # segments) = classifyHostRoute ?m segments ?t"
    using assms by (cases segments) (auto simp: classifySthRoute_def segmentAt_def Let_def)
  then have d: "classifyManagerRoute decode method (Some (?path @ CHR ''?'' # query)) apiBase = Some (classifyHostRoute ?m segments ?t)"
    by (simp only: classifyManagerRoute_def path strip base segs dec Let_def) (simp add: classifySegments_def)
  show ?thesis
    using d host_kind [of ?m segments ?t] host_target [of ?m segments ?t] by (auto simp: orElse_def slashed_def append_assoc)
qed

lemma default_base: "normalizeBase (orElse None DEFAULT_API_BASE) = ''/api/v1''" "normalizeBase (orElse (Some ''/api/v1'') DEFAULT_API_BASE) = ''/api/v1''"
  by (simp_all add: normalizeBase_def DEFAULT_API_BASE_def orElse_def Let_def suffix_def)

lemma query_restored:
  assumes "CHR ''?'' \<notin> set p" and "list_all (\<lambda>s. CHR ''?'' \<notin> set s) segments" and "p \<noteq> []"
  shows "applyOriginalQuery (slashed segments) (Some (p @ CHR ''?'' # query)) = CHR ''/'' # joinWith ''/'' segments @ CHR ''?'' # query"
proof -
  have "CHR ''?'' \<notin> set (slashed segments)" using slashed_chars assms(2) by (fastforce simp: list_all_iff)
  then show ?thesis using dropWhile_query [of p query] assms by (simp add: applyOriginalQuery_def) (simp add: slashed_def)
qed

text \<open>A request for a hub's API is redirected to that hub and nothing of it is lost: for a path of
  plain segments under \<open>/sth/<id>\<close> that the manager does not own, the location is the hub's domain with
  the rest of the path and the original query.\<close>

theorem sth_request_redirected:
  assumes "list_all (\<lambda>s. s \<noteq> [] \<and> CHR ''/'' \<notin> set s \<and> CHR ''?'' \<notin> set s \<and> decode s = Some s) (i # segments)"
    and "segments \<noteq> []" and "segments \<noteq> [''info'']" and "decode ''sth'' = Some ''sth''"
    and "map_of headers ''cpm'' \<noteq> Some ''true''"
  shows "\<exists>d. classifyManagerRoute decode method (Some (''/api/v1/sth'' @ slashed (i # segments) @ CHR ''?'' # query)) None = Some d \<and>
    (rd_kind d = Follow \<or> rd_kind d = UnsupportedBidirectional) \<and>
    prepareManagerFollowForwarding d (Some (''/api/v1/sth'' @ slashed (i # segments) @ CHR ''?'' # query)) headers =
      Redirect (''http://'' @ sthDomain i @ slashed segments @ CHR ''?'' # query) (Some (sthDomain i)) (slashed segments @ CHR ''?'' # query)"
proof -
  let ?path = "''/api/v1/sth'' @ slashed (i # segments)"
  obtain d t where d: "classifyManagerRoute decode method (Some (?path @ CHR ''?'' # query)) None = Some d"
      "rd_kind d \<in> {Follow, UnsupportedBidirectional}"
    and t: "rd_target d = Some t" "rt_routeDomain t = Some (sthDomain i)" "rt_targetPath t = Some (slashed segments)"
    using sth_request_classified [OF assms(1-4) default_base(1), of "method" query] by (auto simp: append_assoc)
  have "CHR ''?'' \<notin> set ?path"
    using slashed_chars assms(1) by (fastforce simp: list_all_iff)
  then have "applyOriginalQuery (slashed segments) (Some (?path @ CHR ''?'' # query)) = CHR ''/'' # joinWith ''/'' segments @ CHR ''?'' # query"
    using assms(1) by (intro query_restored) (auto simp: list_all_iff)
  from prepare_redirect [OF t(1,2) _ t(3) _ this assms(5)]
  have "prepareManagerFollowForwarding d (Some (?path @ CHR ''?'' # query)) headers =
      Redirect (''http://'' @ sthDomain i @ slashed segments @ CHR ''?'' # query) (Some (sthDomain i)) (slashed segments @ CHR ''?'' # query)"
    by (simp add: slashed_def sthDomain_def)
  with d show ?thesis by (auto simp: append_assoc)
qed

lemma sth_request_redirected_witness:
  "\<exists>d. classifyManagerRoute Some (Some ''get'') (Some ''/api/v1/sth/h1/instance/i1/output?x=1'') None = Some d \<and>
    prepareManagerFollowForwarding d (Some ''/api/v1/sth/h1/instance/i1/output?x=1'') [] =
      Redirect ''http://sth.h1.scramjet.internal/instance/i1/output?x=1'' (Some ''sth.h1.scramjet.internal'') ''/instance/i1/output?x=1''"
  using sth_request_redirected [of Some "''h1''" "[''instance'', ''i1'', ''output'']" "[]" "Some ''get''" "''x=1''"]
  by (auto simp: slashed_def sthDomain_def)



text \<open>The query does not take part in the classification: a request is classified like its path.\<close>

theorem classification_ignores_query:
  assumes "CHR ''?'' \<notin> set p" and "p \<noteq> []"
  shows "classifyManagerRoute decode method (Some (p @ CHR ''?'' # q)) base = classifyManagerRoute decode method (Some p) base"
  using assms by (simp add: classifyManagerRoute_def normalizePath_def orElse_def takeWhile_query takeWhile_no_query)

lemma classification_ignores_query_witness:
  "classifyManagerRoute Some None (Some ''/api/v1/topics?sth=1'') None = classifyManagerRoute Some None (Some ''/api/v1/topics'') None"
  using classification_ignores_query [of "''/api/v1/topics''" Some None "''sth=1''" None] by simp

end
