(* ===== verification/HubRegister.thy ===== *)
theory HubRegister
  imports JsValue
begin

text \<open>
  \<open>packages/manager/src/lib/sth-info-register.ts\<close>: what the manager knows of the sequences and instances
  of its hubs, and \<open>sth-connection-store.ts\<close>: the controllers of the connected hubs. An \<open>Instance\<close> and a
  sequence config are values; a \<open>Set\<close> is the list of its members in insertion order.
\<close>

section \<open>The register\<close>

record sequence_info =
  si_id :: string
  si_config :: jsval
  si_location :: string
  si_instances :: "string list"

record hub_register =
  hr_hosts :: "(string, (string, string list) jsmap) jsmap"
  hr_sequences :: "(string, sequence_info list) jsmap"
  hr_instances :: "(string, jsval) jsmap"

definition newHubRegister :: hub_register where
  "newHubRegister = \<lparr>hr_hosts = [], hr_sequences = [], hr_instances = []\<rparr>"

definition addHub :: "hub_register \<Rightarrow> string \<Rightarrow> hub_register" where
  "addHub r h = (if jsGet (hr_hosts r) h = None then r\<lparr>hr_hosts := jsSet (hr_hosts r) h []\<rparr> else r)"

definition getInstanceStoreKey :: "string \<Rightarrow> string \<Rightarrow> string" where
  "getInstanceStoreKey h i = h @ CHR '':'' # i"

text \<open>\<open>seqConfig\<close> is an object or missing.\<close>

definition addSequence :: "hub_register \<Rightarrow> string \<Rightarrow> string \<Rightarrow> jsval option \<Rightarrow> hub_register" where
  "addSequence r h sid seqConfig = (case jsGet (hr_hosts r) h of
      None \<Rightarrow> r
    | Some sequencesMap \<Rightarrow>
        if jsHas sequencesMap sid then r
        else let t = r\<lparr>hr_hosts := jsSet (hr_hosts r) h (jsSet sequencesMap sid [])\<rparr> in
          (case seqConfig of
             None \<Rightarrow> t
           | Some config \<Rightarrow>
               let existing = (case jsGet (hr_sequences t) h of Some infos \<Rightarrow> infos | None \<Rightarrow> [])
               in t\<lparr>hr_sequences := jsSet (hr_sequences t) h
                 (existing @ [\<lparr>si_id = sid, si_config = config, si_location = h, si_instances = []\<rparr>])\<rparr>))"

definition deleteSequence :: "hub_register \<Rightarrow> string \<Rightarrow> string \<Rightarrow> hub_register" where
  "deleteSequence r h sid =
    (let t = (case jsGet (hr_hosts r) h of
           Some m \<Rightarrow> r\<lparr>hr_hosts := jsSet (hr_hosts r) h (jsDelete m sid)\<rparr>
         | None \<Rightarrow> r)
     in case jsGet (hr_sequences r) h of
          Some infos \<Rightarrow>
            (let updated = filter (\<lambda>info. si_id info \<noteq> sid) infos
             in t\<lparr>hr_sequences := (if updated = [] then jsDelete (hr_sequences t) h else jsSet (hr_sequences t) h updated)\<rparr>)
        | None \<Rightarrow> t)"

definition instanceId :: "jsval \<Rightarrow> string" where
  "instanceId v = strOf (jsProp v ''id'')"

definition instanceSequenceId :: "jsval \<Rightarrow> string" where
  "instanceSequenceId v = strOf (jsProp (jsProp v ''sequence'') ''id'')"

definition withAggregationMetadata :: "hub_register \<Rightarrow> string \<Rightarrow> jsval \<Rightarrow> jsval" where
  "withAggregationMetadata r h inst =
    (let sequence = jsProp inst ''sequence'';
         sid = jsProp sequence ''id'';
         info = (case jsGet (hr_sequences r) h of Some infos \<Rightarrow> List.find (\<lambda>i. JStr (si_id i) = sid) infos | None \<Rightarrow> None);
         configOf = (\<lambda>k. case info of Some i \<Rightarrow> jsProp (si_config i) k | None \<Rightarrow> JUndefined);
         infoLocation = (case info of Some i \<Rightarrow> JStr (si_location i) | None \<Rightarrow> JUndefined)
     in spread inst
          [(''hubId'', nullish (jsProp inst ''hubId'') (JStr h)),
           (''location'', nullish (jsProp inst ''location'') (JStr h)),
           (''sequenceId'', nullish (jsProp inst ''sequenceId'') sid),
           (''sequence'', spread sequence
              [(''name'', nullish (jsProp sequence ''name'') (nullish (configOf ''name'') (nullish (configOf ''id'') sid))),
               (''location'', nullish (jsProp sequence ''location'') (nullish infoLocation (JStr h)))])])"

text \<open>\<open>find\<close> and \<open>push\<close> on the first info of a sequence.\<close>

fun updateFirst :: "('a \<Rightarrow> bool) \<Rightarrow> ('a \<Rightarrow> 'a) \<Rightarrow> 'a list \<Rightarrow> 'a list" where
  "updateFirst P f [] = []"
| "updateFirst P f (x # xs) = (if P x then f x # xs else x # updateFirst P f xs)"

definition updateInfo :: "hub_register \<Rightarrow> string \<Rightarrow> string \<Rightarrow> (string list \<Rightarrow> string list) \<Rightarrow> hub_register" where
  "updateInfo r h sid f = (case jsGet (hr_sequences r) h of
      None \<Rightarrow> r
    | Some infos \<Rightarrow> r\<lparr>hr_sequences := jsSet (hr_sequences r) h
        (updateFirst (\<lambda>info. si_id info = sid) (\<lambda>info. info\<lparr>si_instances := f (si_instances info)\<rparr>) infos)\<rparr>)"

datatype register_error = NoHost string | NoSequence string

definition addInstance :: "hub_register \<Rightarrow> string \<Rightarrow> jsval \<Rightarrow> register_error + hub_register" where
  "addInstance r h inst = (case jsGet (hr_hosts r) h of
      None \<Rightarrow> Inl (NoHost h)
    | Some m \<Rightarrow>
        (case jsGet m (instanceSequenceId inst) of
           None \<Rightarrow> Inl (NoSequence (instanceSequenceId inst))
         | Some ids \<Rightarrow>
             if instanceId inst \<in> set ids then Inr r
             else
               let t = r\<lparr>hr_hosts := jsSet (hr_hosts r) h (jsSet m (instanceSequenceId inst) (jsAdd ids (instanceId inst)))\<rparr>;
                   u = updateInfo t h (instanceSequenceId inst) (\<lambda>is. is @ [instanceId inst])
               in Inr (u\<lparr>hr_instances := jsSet (hr_instances u) (getInstanceStoreKey h (instanceId inst))
                    (withAggregationMetadata u h inst)\<rparr>)))"

definition deleteInstanceInfo :: "hub_register \<Rightarrow> string \<Rightarrow> string \<Rightarrow> string \<Rightarrow> hub_register" where
  "deleteInstanceInfo r h sid iid = (case jsGet (hr_hosts r) h of
      None \<Rightarrow> r
    | Some m \<Rightarrow>
        (case jsGet m sid of
           None \<Rightarrow> r
         | Some ids \<Rightarrow>
             if iid \<notin> set ids then r
             else
               let t = r\<lparr>hr_hosts := jsSet (hr_hosts r) h (jsSet m sid (jsRemove ids iid))\<rparr>;
                   u = updateInfo t h sid (\<lambda>is. filter (\<lambda>item. item \<noteq> iid) is)
               in u\<lparr>hr_instances := jsDelete (hr_instances u) (getInstanceStoreKey h iid)\<rparr>))"

definition clearHostEntities :: "hub_register \<Rightarrow> string \<Rightarrow> hub_register" where
  "clearHostEntities r h = (case jsGet (hr_hosts r) h of
      None \<Rightarrow> r
    | Some m \<Rightarrow> r\<lparr>hr_instances := foldl (\<lambda>s iid. jsDelete s (getInstanceStoreKey h iid)) (hr_instances r) (concat (jsValues m)),
        hr_sequences := jsDelete (hr_sequences r) h, hr_hosts := jsSet (hr_hosts r) h []\<rparr>)"

definition handleHubDisconnect :: "hub_register \<Rightarrow> string \<Rightarrow> hub_register" where
  "handleHubDisconnect r h = clearHostEntities r h"

definition removeHub :: "hub_register \<Rightarrow> string \<Rightarrow> hub_register" where
  "removeHub r h = (let t = clearHostEntities r h in t\<lparr>hr_hosts := jsDelete (hr_hosts t) h\<rparr>)"

definition getHubs :: "hub_register \<Rightarrow> string list" where
  "getHubs r = jsKeys (hr_hosts r)"

text \<open>\<open>getSequences\<close> drops the container from the configs it returns, in the register too.\<close>

definition publicConfig :: "jsval \<Rightarrow> jsval" where
  "publicConfig c = (case c of
      JObj _ fs \<Rightarrow> if jsHas fs ''container''
        then spread (withoutKey ''container'' (withoutKey ''config'' (withoutKey ''type'' c))) [(''type'', jsProp c ''type'')] else c
    | _ \<Rightarrow> c)"

definition getSequences :: "hub_register \<Rightarrow> hub_register \<times> sequence_info list" where
  "getSequences r =
    (let stripped = map (\<lambda>e. (fst e, map (\<lambda>i. i\<lparr>si_config := publicConfig (si_config i)\<rparr>) (snd e))) (hr_sequences r)
     in (r\<lparr>hr_sequences := stripped\<rparr>, concat (jsValues stripped)))"

definition getSequencesByHub :: "hub_register \<Rightarrow> string \<Rightarrow> register_error + string list" where
  "getSequencesByHub r h = (case jsGet (hr_hosts r) h of None \<Rightarrow> Inl (NoHost h) | Some m \<Rightarrow> Inr (jsKeys m))"

definition getInstances :: "hub_register \<Rightarrow> jsval list" where
  "getInstances r = jsValues (hr_instances r)"

definition getInstancesByHub :: "hub_register \<Rightarrow> string \<Rightarrow> register_error + string list" where
  "getInstancesByHub r h = (case jsGet (hr_hosts r) h of None \<Rightarrow> Inl (NoHost h) | Some m \<Rightarrow> Inr (concat (jsValues m)))"

section \<open>Runs\<close>

datatype register_event =
    AddHub string
  | RemoveHub string
  | AddSequence string string "jsval option"
  | DeleteSequence string string
  | AddInstance string jsval
  | DeleteInstanceInfo string string string
  | HubDisconnected string
  | ListSequences

definition registerStep :: "hub_register \<Rightarrow> register_event \<Rightarrow> hub_register" where
  "registerStep r e = (case e of
      AddHub h \<Rightarrow> addHub r h
    | RemoveHub h \<Rightarrow> removeHub r h
    | AddSequence h sid config \<Rightarrow> addSequence r h sid config
    | DeleteSequence h sid \<Rightarrow> deleteSequence r h sid
    | AddInstance h inst \<Rightarrow> (case addInstance r h inst of Inr t \<Rightarrow> t | Inl _ \<Rightarrow> r)
    | DeleteInstanceInfo h sid iid \<Rightarrow> deleteInstanceInfo r h sid iid
    | HubDisconnected h \<Rightarrow> handleHubDisconnect r h
    | ListSequences \<Rightarrow> fst (getSequences r))"

section \<open>Connected hubs\<close>

record sth_controller =
  st_id :: string
  st_accessKey :: string
  st_selfHosted :: bool
  st_active :: bool

type_synonym connection_store = "(string, sth_controller) jsmap"

datatype connection_error = ID_NOT_PROVIDED | ID_NOT_FOUND | NATIVE_HUB | CONNECTED

definition addController :: "connection_store \<Rightarrow> sth_controller option \<Rightarrow> connection_store" where
  "addController s c = (case c of Some ctl \<Rightarrow> jsSet s (st_id ctl) ctl | None \<Rightarrow> s)"

definition removeController :: "connection_store \<Rightarrow> string \<Rightarrow> connection_store" where
  "removeController s i = jsDelete s i"

definition getByAccessKey :: "connection_store \<Rightarrow> string \<Rightarrow> sth_controller list" where
  "getByAccessKey s key = filter (\<lambda>c. st_accessKey c = key) (jsValues s)"

text \<open>The result: the error thrown, or the store and the reason given to \<open>disconnect\<close>, if it was called.\<close>

definition deleteController :: "connection_store \<Rightarrow> string \<Rightarrow> bool \<Rightarrow> connection_error + connection_store \<times> string option" where
  "deleteController s i force =
    (if i = [] then Inl ID_NOT_PROVIDED
     else case jsGet s i of
         None \<Rightarrow> Inl ID_NOT_FOUND
       | Some c \<Rightarrow>
           if \<not> st_selfHosted c then Inl NATIVE_HUB
           else if st_active c then (if force then Inr (removeController s i, Some ''id_drop'') else Inl CONNECTED)
           else Inr (removeController s i, None))"

section \<open>The register's contract\<close>

text \<open>
  What the hubs keep to: host ids have no colon, an instance id is used by one sequence of its hub, and a
  sequence is deleted when it has no instances.
\<close>

definition instancesOf :: "hub_register \<Rightarrow> string \<Rightarrow> string \<Rightarrow> string list" where
  "instancesOf r h sid = (case jsGet (hr_hosts r) h of
      Some m \<Rightarrow> (case jsGet m sid of Some ids \<Rightarrow> ids | None \<Rightarrow> [])
    | None \<Rightarrow> [])"

definition register_pre :: "hub_register \<Rightarrow> register_event \<Rightarrow> bool" where
  "register_pre r e = (case e of
      AddHub h \<Rightarrow> CHR '':'' \<notin> set h
    | AddInstance h inst \<Rightarrow> (\<forall>sid. instanceId inst \<in> set (instancesOf r h sid) \<longrightarrow> sid = instanceSequenceId inst)
    | DeleteSequence h sid \<Rightarrow> instancesOf r h sid = []
    | _ \<Rightarrow> True)"

text \<open>The sequence infos mirror the host map.\<close>

definition infos_ok :: "hub_register \<Rightarrow> bool" where
  "infos_ok r \<longleftrightarrow> (\<forall>h infos. jsGet (hr_sequences r) h = Some infos \<longrightarrow> infos \<noteq> [] \<and> distinct (map si_id infos) \<and>
     (\<exists>m. jsGet (hr_hosts r) h = Some m \<and> (\<forall>info \<in> set infos. jsGet m (si_id info) = Some (si_instances info))))"

text \<open>The instance records are those of the instances in the host map.\<close>

definition listed :: "hub_register \<Rightarrow> string \<Rightarrow> string \<Rightarrow> bool" where
  "listed r h iid \<longleftrightarrow> (\<exists>sid. iid \<in> set (instancesOf r h sid))"

definition records_ok :: "hub_register \<Rightarrow> bool" where
  "records_ok r \<longleftrightarrow> (\<forall>h m. jsGet (hr_hosts r) h = Some m \<longrightarrow> CHR '':'' \<notin> set h) \<and>
     (\<forall>h sid sid' iid. iid \<in> set (instancesOf r h sid) \<longrightarrow> iid \<in> set (instancesOf r h sid') \<longrightarrow> sid = sid') \<and>
     (\<forall>k. jsHas (hr_instances r) k \<longleftrightarrow> (\<exists>h iid. k = getInstanceStoreKey h iid \<and> listed r h iid))"

definition register_ok :: "hub_register \<Rightarrow> bool" where
  "register_ok r \<longleftrightarrow> infos_ok r \<and> records_ok r"

lemma instanceKey_inj:
  "CHR '':'' \<notin> set h \<Longrightarrow> CHR '':'' \<notin> set h' \<Longrightarrow> getInstanceStoreKey h i = getInstanceStoreKey h' i' \<longleftrightarrow> h = h' \<and> i = i'"
proof (induction h arbitrary: h')
  case Nil
  then show ?case by (cases h') (auto simp: getInstanceStoreKey_def)
next
  case (Cons c h)
  then show ?case by (cases h') (auto simp: getInstanceStoreKey_def)
qed

lemma updateFirst_map [simp]: "(\<And>x. si_id (f x) = si_id x) \<Longrightarrow> map si_id (updateFirst P f xs) = map si_id xs"
  by (induction xs) auto

lemma updateFirst_in:
  "distinct (map si_id xs) \<Longrightarrow> (\<And>x. si_id (f x) = si_id x) \<Longrightarrow> x \<in> set (updateFirst (\<lambda>i. si_id i = sid) f xs) \<longleftrightarrow>
    (x \<in> set xs \<and> si_id x \<noteq> sid) \<or> (\<exists>y \<in> set xs. si_id y = sid \<and> x = f y)"
  by (induction xs) (auto simp: image_iff)

lemma updateFirst_Nil [simp]: "updateFirst P f xs = [] \<longleftrightarrow> xs = []"
  by (cases xs) auto

lemma updateInfo_fields [simp]: "hr_hosts (updateInfo r h sid f) = hr_hosts r" "hr_instances (updateInfo r h sid f) = hr_instances r"
  by (simp_all add: updateInfo_def split: option.split)

text \<open>The mirror, one host at a time.\<close>

definition mirrored :: "(string, string list) jsmap option \<Rightarrow> sequence_info list \<Rightarrow> bool" where
  "mirrored mm infos \<longleftrightarrow> infos \<noteq> [] \<and> distinct (map si_id infos) \<and>
     (\<exists>m. mm = Some m \<and> (\<forall>info \<in> set infos. jsGet m (si_id info) = Some (si_instances info)))"

lemma infos_ok_alt: "infos_ok r \<longleftrightarrow> (\<forall>h infos. jsGet (hr_sequences r) h = Some infos \<longrightarrow> mirrored (jsGet (hr_hosts r) h) infos)"
  by (simp add: infos_ok_def mirrored_def)

lemma infos_okD: "infos_ok r \<Longrightarrow> jsGet (hr_sequences r) h = Some infos \<Longrightarrow> mirrored (jsGet (hr_hosts r) h) infos"
  by (simp add: infos_ok_alt)

lemma infos_okI:
  assumes "infos_ok r" and "\<And>h'. h' \<noteq> h \<Longrightarrow> jsGet (hr_sequences t) h' = jsGet (hr_sequences r) h' \<and> jsGet (hr_hosts t) h' = jsGet (hr_hosts r) h'"
    and "\<And>infos. jsGet (hr_sequences t) h = Some infos \<Longrightarrow> mirrored (jsGet (hr_hosts t) h) infos"
  shows "infos_ok t"
  unfolding infos_ok_alt
proof (intro allI impI)
  fix h' infos assume "jsGet (hr_sequences t) h' = Some infos"
  then show "mirrored (jsGet (hr_hosts t) h') infos"
    using assms(3) assms(2) [of h'] infos_okD [OF assms(1), of h' infos] by (cases "h' = h") auto
qed

lemma mirrored_update:
  "mirrored (Some m) infos \<Longrightarrow> jsGet m sid = Some ids \<Longrightarrow>
    mirrored (Some (jsSet m sid (f ids))) (updateFirst (\<lambda>info. si_id info = sid) (\<lambda>info. info\<lparr>si_instances := f (si_instances info)\<rparr>) infos)"
proof -
  let ?g = "\<lambda>info. info\<lparr>si_instances := f (si_instances info)\<rparr>"
  assume m: "mirrored (Some m) infos" and sid: "jsGet m sid = Some ids"
  then have d: "distinct (map si_id infos)" and i: "info \<in> set infos \<Longrightarrow> jsGet m (si_id info) = Some (si_instances info)" for info
    by (simp_all add: mirrored_def)
  have "jsGet (jsSet m sid (f ids)) (si_id x) = Some (si_instances x)"
    if "x \<in> set (updateFirst (\<lambda>info. si_id info = sid) ?g infos)" for x
  proof -
    have "(x \<in> set infos \<and> si_id x \<noteq> sid) \<or> (\<exists>y \<in> set infos. si_id y = sid \<and> x = ?g y)"
      using that d by (subst (asm) updateFirst_in) simp_all
    then show ?thesis
    proof (elim disjE bexE conjE)
      fix y assume "y \<in> set infos" "si_id y = sid" "x = ?g y"
      then show ?thesis using i [of y] sid by (simp add: js_simps)
    qed (use i in \<open>simp add: js_simps\<close>)
  qed
  with m show ?thesis by (simp add: mirrored_def)
qed

lemma mirrored_add:
  "mirrored (Some m) infos \<Longrightarrow> jsGet m sid = None \<Longrightarrow>
    mirrored (Some (jsSet m sid [])) (infos @ [\<lparr>si_id = sid, si_config = c, si_location = h, si_instances = []\<rparr>])"
  by (auto simp: mirrored_def js_simps image_iff)

lemma mirrored_other: "mirrored (Some m) infos \<Longrightarrow> jsGet m sid = None \<Longrightarrow> mirrored (Some (jsSet m sid ids)) infos"
  by (auto simp: mirrored_def js_simps)

lemma mirrored_first: "mirrored (Some (jsSet m sid [])) [\<lparr>si_id = sid, si_config = c, si_location = h, si_instances = []\<rparr>]"
  by (simp add: mirrored_def js_simps)

lemma mirrored_filter:
  "mirrored (Some m) infos \<Longrightarrow> filter (\<lambda>info. si_id info \<noteq> sid) infos \<noteq> [] \<Longrightarrow>
    mirrored (Some (jsDelete m sid)) (filter (\<lambda>info. si_id info \<noteq> sid) infos)"
  by (auto simp: mirrored_def js_simps distinct_map_filter)

lemma mirrored_Some: "mirrored mm infos \<Longrightarrow> \<exists>m. mm = Some m"
  by (auto simp: mirrored_def)

text \<open>An update of one sequence of one host, in both places.\<close>

lemma infos_ok_update:
  assumes ok: "infos_ok r" and m: "jsGet (hr_hosts r) h = Some m" "jsGet m sid = Some ids"
  shows "infos_ok (updateInfo (r\<lparr>hr_hosts := jsSet (hr_hosts r) h (jsSet m sid (f ids))\<rparr>) h sid f)"
proof (cases "jsGet (hr_sequences r) h")
  case None
  show ?thesis by (rule infos_okI [OF ok, of h]) (simp_all add: None updateInfo_def js_simps)
next
  case (Some infos)
  have "mirrored (Some m) infos" using infos_okD [OF ok Some] m(1) by simp
  note new = mirrored_update [OF this m(2), of f]
  show ?thesis by (rule infos_okI [OF ok, of h]) (use new in \<open>simp_all add: Some updateInfo_def js_simps\<close>)
qed

lemma infos_ok_addSequence:
  assumes ok: "infos_ok r"
  shows "infos_ok (addSequence r h sid config)"
proof (cases "jsGet (hr_hosts r) h")
  case None
  then show ?thesis using ok by (simp add: addSequence_def)
next
  case (Some m)
  show ?thesis
  proof (cases "jsHas m sid")
    case True
    then show ?thesis using ok Some by (simp add: addSequence_def)
  next
    case False
    show ?thesis
      by (rule infos_okI [OF ok, of h])
        (use Some False infos_okD [OF ok, of h] in \<open>auto simp: addSequence_def Let_def js_simps intro: mirrored_add mirrored_other mirrored_first split: option.splits\<close>)
  qed
qed

lemma infos_ok_deleteSequence:
  assumes ok: "infos_ok r"
  shows "infos_ok (deleteSequence r h sid)"
  by (rule infos_okI [OF ok, of h])
    (use infos_okD [OF ok, of h] in \<open>auto simp: deleteSequence_def Let_def js_simps dest: mirrored_Some intro!: mirrored_filter split: option.splits if_splits\<close>)

lemma infos_ok_getSequences: "infos_ok r \<Longrightarrow> infos_ok (fst (getSequences r))"
proof -
  have m: "jsGet (map (\<lambda>e. (fst e, g (snd e))) es) h = map_option g (jsGet es h)" for g :: "sequence_info list \<Rightarrow> sequence_info list" and es h
    by (induction es) auto
  assume ok: "infos_ok r"
  show ?thesis unfolding infos_ok_alt
    using infos_okD [OF ok] by (fastforce simp: getSequences_def Let_def m mirrored_def comp_def)
qed

text \<open>The records, as a function of the sets of instances.\<close>

lemma instancesOf_hosts:
  "hr_hosts t = jsSet (hr_hosts r) h m \<Longrightarrow>
    instancesOf t h' sid = (if h' = h then (case jsGet m sid of Some ids \<Rightarrow> ids | None \<Rightarrow> []) else instancesOf r h' sid)"
  by (simp add: instancesOf_def js_simps)

lemma instancesOf_host: "jsGet (hr_hosts r) h = Some m \<Longrightarrow> instancesOf r h sid = (case jsGet m sid of Some ids \<Rightarrow> ids | None \<Rightarrow> [])"
  by (simp add: instancesOf_def)

lemma instancesOf_iff: "iid \<in> set (instancesOf r h sid) \<longleftrightarrow>
    (\<exists>m ids. jsGet (hr_hosts r) h = Some m \<and> jsGet m sid = Some ids \<and> iid \<in> set ids)"
  by (cases "jsGet (hr_hosts r) h"; cases "jsGet (the (jsGet (hr_hosts r) h)) sid") (simp_all add: instancesOf_def)

lemma records_hosts: "records_ok r \<Longrightarrow> jsHas (hr_hosts r) h \<Longrightarrow> CHR '':'' \<notin> set h"
  by (auto simp: records_ok_def)

lemma instancesOf_colon: "records_ok r \<Longrightarrow> iid \<in> set (instancesOf r h sid) \<Longrightarrow> CHR '':'' \<notin> set h"
  by (rule records_hosts) (auto simp: instancesOf_iff)

lemma listed_colon: "records_ok r \<Longrightarrow> listed r h iid \<Longrightarrow> CHR '':'' \<notin> set h"
  by (auto simp: listed_def dest: instancesOf_colon)

lemma records_same:
  assumes "records_ok r" and "\<And>h. jsHas (hr_hosts t) h \<Longrightarrow> CHR '':'' \<notin> set h" and "\<And>h sid. instancesOf t h sid = instancesOf r h sid"
    and "hr_instances t = hr_instances r"
  shows "records_ok t"
  using assms(1,2) unfolding records_ok_def listed_def assms(3,4) by auto

lemma records_key: "records_ok r \<Longrightarrow> CHR '':'' \<notin> set h \<Longrightarrow> jsHas (hr_instances r) (getInstanceStoreKey h iid) \<longleftrightarrow> listed r h iid"
proof -
  assume ok: "records_ok r" and h: "CHR '':'' \<notin> set h"
  then have "jsHas (hr_instances r) (getInstanceStoreKey h iid) \<longleftrightarrow>
      (\<exists>h' iid'. getInstanceStoreKey h iid = getInstanceStoreKey h' iid' \<and> listed r h' iid')"
    unfolding records_ok_def by blast
  also have "\<dots> \<longleftrightarrow> listed r h iid" using instanceKey_inj [OF h] listed_colon [OF ok] by auto
  finally show ?thesis .
qed

lemma records_okI:
  assumes "\<And>h. jsHas (hr_hosts t) h \<Longrightarrow> CHR '':'' \<notin> set h"
    and "\<And>h sid sid' iid. iid \<in> set (instancesOf t h sid) \<Longrightarrow> iid \<in> set (instancesOf t h sid') \<Longrightarrow> sid = sid'"
    and "\<And>k. jsHas (hr_instances t) k \<longleftrightarrow> (\<exists>h iid. k = getInstanceStoreKey h iid \<and> listed t h iid)"
  shows "records_ok t"
  using assms unfolding records_ok_def by auto

lemma records_addInstance:
  assumes ok: "records_ok r" and m: "jsGet (hr_hosts r) h = Some m" "jsGet m sid = Some ids"
    and fresh: "\<And>sid'. iid \<in> set (instancesOf r h sid') \<Longrightarrow> sid' = sid"
    and hosts: "hr_hosts t = jsSet (hr_hosts r) h (jsSet m sid (jsAdd ids iid))"
    and inst: "hr_instances t = jsSet (hr_instances r) (getInstanceStoreKey h iid) v"
  shows "records_ok t"
proof -
  have F: "set (instancesOf t h' sid') = (if h' = h \<and> sid' = sid then insert iid (set (instancesOf r h sid)) else set (instancesOf r h' sid'))" for h' sid'
    using m by (simp add: instancesOf_hosts [OF hosts] instancesOf_host js_simps)
  have L: "listed t h' i \<longleftrightarrow> listed r h' i \<or> h' = h \<and> i = iid" for h' i
    unfolding listed_def F by auto
  show ?thesis
  proof (rule records_okI)
    fix h' assume "jsHas (hr_hosts t) h'"
    then show "CHR '':'' \<notin> set h'" using records_hosts [OF ok, of h'] m by (auto simp: hosts js_simps split: if_splits)
  next
    fix h' s1 s2 i assume "i \<in> set (instancesOf t h' s1)" "i \<in> set (instancesOf t h' s2)"
    then show "s1 = s2" using fresh ok unfolding F by (auto simp: records_ok_def split: if_splits)
  next
    fix k
    have "jsHas (hr_instances t) k \<longleftrightarrow> k = getInstanceStoreKey h iid \<or> jsHas (hr_instances r) k" by (simp add: inst js_simps)
    also have "\<dots> \<longleftrightarrow> (\<exists>h' i. k = getInstanceStoreKey h' i \<and> listed t h' i)"
      using ok unfolding L records_ok_def by blast
    finally show "jsHas (hr_instances t) k \<longleftrightarrow> (\<exists>h' i. k = getInstanceStoreKey h' i \<and> listed t h' i)" .
  qed
qed

text \<open>Taking instances away: the sets and the records shrink by the same instances of one host.\<close>

lemma records_remove:
  assumes ok: "records_ok r" and h: "CHR '':'' \<notin> set h"
    and hosts: "\<And>h'. jsHas (hr_hosts t) h' \<Longrightarrow> jsHas (hr_hosts r) h'"
    and F: "\<And>h' sid. set (instancesOf t h' sid) = set (instancesOf r h' sid) - (if h' = h then X else {})"
    and I: "\<And>k. jsHas (hr_instances t) k \<longleftrightarrow> jsHas (hr_instances r) k \<and> k \<notin> getInstanceStoreKey h ` X"
  shows "records_ok t"
proof (rule records_okI)
  fix h' assume "jsHas (hr_hosts t) h'"
  then show "CHR '':'' \<notin> set h'" using hosts records_hosts [OF ok] by blast
next
  fix h' s1 s2 i assume "i \<in> set (instancesOf t h' s1)" "i \<in> set (instancesOf t h' s2)"
  then show "s1 = s2" using ok unfolding F by (auto simp: records_ok_def)
next
  fix k
  have L: "listed t h' i \<longleftrightarrow> listed r h' i \<and> \<not> (h' = h \<and> i \<in> X)" for h' i
    unfolding listed_def F by auto
  have "jsHas (hr_instances t) k \<longleftrightarrow> (\<exists>h' i. k = getInstanceStoreKey h' i \<and> listed r h' i) \<and> k \<notin> getInstanceStoreKey h ` X"
    using ok I by (auto simp: records_ok_def)
  also have "\<dots> \<longleftrightarrow> (\<exists>h' i. k = getInstanceStoreKey h' i \<and> listed t h' i)"
    unfolding L using instanceKey_inj [OF h] listed_colon [OF ok] by (auto simp: image_iff) metis+
  finally show "jsHas (hr_instances t) k \<longleftrightarrow> (\<exists>h' i. k = getInstanceStoreKey h' i \<and> listed t h' i)" .
qed

lemma deletes_has: "jsHas (foldl (\<lambda>s iid. jsDelete s (f iid)) m is) k \<longleftrightarrow> jsHas m k \<and> k \<notin> f ` set is"
  by (induction "is" arbitrary: m) (auto simp: js_simps)

lemma register_pre_unfold:
  "register_pre r (AddHub h) \<longleftrightarrow> CHR '':'' \<notin> set h"
  "register_pre r (AddInstance h inst) \<longleftrightarrow> (\<forall>sid. instanceId inst \<in> set (instancesOf r h sid) \<longrightarrow> sid = instanceSequenceId inst)"
  "register_pre r (DeleteSequence h sid) \<longleftrightarrow> instancesOf r h sid = []"
  by (simp_all add: register_pre_def)

lemma records_ok_clear:
  assumes ok: "records_ok r"
  shows "records_ok (clearHostEntities r h)"
proof (cases "jsGet (hr_hosts r) h")
  case None
  then show ?thesis using ok by (simp add: clearHostEntities_def)
next
  case (Some m)
  have F: "set (instancesOf (clearHostEntities r h) h' sid) = set (instancesOf r h' sid) - (if h' = h then set (concat (jsValues m)) else {})" for h' sid
    using Some by (cases "jsGet m sid") (force simp: clearHostEntities_def instancesOf_def js_simps dest: map_of_SomeD)+
  have "CHR '':'' \<notin> set h" using records_hosts [OF ok, of h] Some by simp
  then show ?thesis
  proof (rule records_remove [OF ok _ _ F])
    fix h' assume "jsHas (hr_hosts (clearHostEntities r h)) h'"
    then show "jsHas (hr_hosts r) h'" using Some by (auto simp: clearHostEntities_def js_simps split: if_splits)
  next
    fix k
    have "hr_instances (clearHostEntities r h) = foldl (\<lambda>s iid. jsDelete s (getInstanceStoreKey h iid)) (hr_instances r) (concat (jsValues m))"
      by (simp add: clearHostEntities_def Some)
    then show "jsHas (hr_instances (clearHostEntities r h)) k \<longleftrightarrow> jsHas (hr_instances r) k \<and> k \<notin> getInstanceStoreKey h ` set (concat (jsValues m))"
      using deletes_has [of "getInstanceStoreKey h" "hr_instances r" "concat (jsValues m)" k] by simp
  qed
qed

lemma records_ok_delete:
  assumes ok: "records_ok r"
  shows "records_ok (deleteInstanceInfo r h sid iid)"
proof (cases "iid \<in> set (instancesOf r h sid)")
  case False
  then have "deleteInstanceInfo r h sid iid = r" by (auto simp: deleteInstanceInfo_def instancesOf_iff split: option.split)
  then show ?thesis using ok by simp
next
  case True
  then obtain m ids where m: "jsGet (hr_hosts r) h = Some m" "jsGet m sid = Some ids" "iid \<in> set ids"
    by (auto simp: instancesOf_iff)
  let ?t = "deleteInstanceInfo r h sid iid"
  have hosts: "hr_hosts ?t = jsSet (hr_hosts r) h (jsSet m sid (jsRemove ids iid))"
    "hr_instances ?t = jsDelete (hr_instances r) (getInstanceStoreKey h iid)"
    using m by (simp_all add: deleteInstanceInfo_def Let_def)
  have only: "iid \<in> set (instancesOf r h sid') \<Longrightarrow> sid' = sid" for sid' using True ok by (auto simp: records_ok_def)
  have F: "set (instancesOf ?t h' sid') = set (instancesOf r h' sid') - (if h' = h then {iid} else {})" for h' sid'
  proof (cases "h' = h \<and> sid' = sid")
    case True
    then show ?thesis using m by (auto simp: instancesOf_hosts [OF hosts(1)] instancesOf_host js_simps)
  next
    case False
    then have "instancesOf ?t h' sid' = instancesOf r h' sid'"
      by (auto simp: instancesOf_hosts [OF hosts(1)] js_simps instancesOf_host [OF m(1)])
    then show ?thesis using False only [of sid'] by auto
  qed
  show ?thesis
  proof (rule records_remove [OF ok instancesOf_colon [OF ok True] _ F])
    fix h' assume "jsHas (hr_hosts ?t) h'"
    then show "jsHas (hr_hosts r) h'" using m(1) by (auto simp: hosts js_simps split: if_splits)
  qed (auto simp: hosts js_simps)
qed

lemma infos_ok_clear: "infos_ok r \<Longrightarrow> infos_ok (clearHostEntities r h)"
proof (cases "jsGet (hr_hosts r) h")
  case (Some m)
  assume ok: "infos_ok r"
  show ?thesis by (rule infos_okI [OF ok, of h]) (simp_all add: Some clearHostEntities_def js_simps)
qed (simp add: clearHostEntities_def)

lemma register_ok_clear: "register_ok r \<Longrightarrow> register_ok (clearHostEntities r h)"
  by (simp add: register_ok_def infos_ok_clear records_ok_clear)

lemma register_ok_removeHub:
  assumes ok: "register_ok r"
  shows "register_ok (removeHub r h)"
proof -
  let ?c = "clearHostEntities r h" and ?t = "removeHub r h"
  have c: "infos_ok ?c" "records_ok ?c" using register_ok_clear [OF ok] by (simp_all add: register_ok_def)
  have t: "hr_hosts ?t = jsDelete (hr_hosts ?c) h" "hr_sequences ?t = hr_sequences ?c" "hr_instances ?t = hr_instances ?c"
    by (simp_all add: removeHub_def Let_def)
  have none: "jsGet (hr_sequences ?c) h = None"
    using infos_okD [of r h] ok by (cases "jsGet (hr_hosts r) h"; cases "jsGet (hr_sequences r) h")
      (auto simp: clearHostEntities_def register_ok_def js_simps mirrored_def)
  have "infos_ok ?t" by (rule infos_okI [OF c(1), of h]) (simp_all add: t js_simps none)
  moreover have "instancesOf ?c h sid = []" for sid
    by (cases "jsGet (hr_hosts r) h") (simp_all add: clearHostEntities_def instancesOf_def js_simps)
  then have "records_ok ?t"
    by (intro records_same [OF c(2)]) (use records_hosts [OF c(2)] in \<open>auto simp: t instancesOf_def js_simps split: if_splits\<close>)
  ultimately show ?thesis by (simp add: register_ok_def)
qed

lemma register_ok_add:
  assumes ok: "register_ok r" and pre: "register_pre r (AddInstance h inst)" and add: "addInstance r h inst = Inr t"
  shows "register_ok t"
proof -
  have i: "infos_ok r" and rec: "records_ok r" using ok by (simp_all add: register_ok_def)
  from add obtain m ids where m: "jsGet (hr_hosts r) h = Some m" "jsGet m (instanceSequenceId inst) = Some ids"
    by (auto simp: addInstance_def split: option.splits)
  show ?thesis
  proof (cases "instanceId inst \<in> set ids")
    case True
    then show ?thesis using add m ok by (simp add: addInstance_def)
  next
    case False
    let ?s = "r\<lparr>hr_hosts := jsSet (hr_hosts r) h (jsSet m (instanceSequenceId inst) (ids @ [instanceId inst]))\<rparr>"
    let ?u = "updateInfo ?s h (instanceSequenceId inst) (\<lambda>is. is @ [instanceId inst])"
    have t: "t = ?u\<lparr>hr_instances := jsSet (hr_instances ?u) (getInstanceStoreKey h (instanceId inst)) (withAggregationMetadata ?u h inst)\<rparr>"
      using add m False by (simp add: addInstance_def Let_def jsAdd_def)
    have "infos_ok ?u" using infos_ok_update [OF i m, of "\<lambda>is. is @ [instanceId inst]"] by simp
    then have "infos_ok t" by (simp add: t infos_ok_def)
    moreover have "records_ok t"
      by (rule records_addInstance [OF rec m]) (use pre False in \<open>simp_all add: register_pre_unfold t jsAdd_def\<close>)
    ultimately show ?thesis by (simp add: register_ok_def)
  qed
qed

lemma addSequence_same: "instancesOf (addSequence r h sid config) h' s' = instancesOf r h' s' \<and>
    hr_instances (addSequence r h sid config) = hr_instances r \<and>
    (jsHas (hr_hosts (addSequence r h sid config)) h' \<longleftrightarrow> jsHas (hr_hosts r) h')"
  by (auto simp: addSequence_def instancesOf_def Let_def js_simps split: option.split)

lemma deleteSequence_same:
  assumes "instancesOf r h sid = []"
  shows "instancesOf (deleteSequence r h sid) h' s' = instancesOf r h' s' \<and>
    hr_instances (deleteSequence r h sid) = hr_instances r \<and>
    (jsHas (hr_hosts (deleteSequence r h sid)) h' \<longleftrightarrow> jsHas (hr_hosts r) h')"
  using assms by (auto simp: deleteSequence_def instancesOf_def Let_def js_simps split: option.splits)

lemma register_step_ok:
  assumes ok: "register_ok r" and pre: "register_pre r e"
  shows "register_ok (registerStep r e)"
proof -
  have i: "infos_ok r" and rec: "records_ok r" using ok by (simp_all add: register_ok_def)
  show ?thesis
  proof (cases e)
    case (AddHub h)
    have "infos_ok (addHub r h)" by (rule infos_okI [OF i, of h]) (use infos_okD [OF i, of h] in \<open>auto simp: addHub_def js_simps mirrored_def\<close>)
    moreover have "records_ok (addHub r h)"
      by (rule records_same [OF rec]) (use pre AddHub records_hosts [OF rec] in \<open>auto simp: addHub_def instancesOf_def js_simps register_pre_unfold split: if_splits\<close>)
    ultimately show ?thesis by (simp add: AddHub registerStep_def register_ok_def)
  next
    case (AddSequence h sid config)
    have "records_ok (addSequence r h sid config)"
      by (rule records_same [OF rec]) (use addSequence_same records_hosts [OF rec] in blast)+
    then show ?thesis using infos_ok_addSequence [OF i] by (simp add: AddSequence registerStep_def register_ok_def)
  next
    case (DeleteSequence h sid)
    then have "instancesOf r h sid = []" using pre by (simp add: register_pre_unfold)
    note same = deleteSequence_same [OF this]
    have "records_ok (deleteSequence r h sid)"
      by (rule records_same [OF rec]) (use same records_hosts [OF rec] in blast)+
    then show ?thesis using infos_ok_deleteSequence [OF i] by (simp add: DeleteSequence registerStep_def register_ok_def)
  next
    case (AddInstance h inst)
    then show ?thesis using ok register_ok_add [OF ok] pre by (auto simp: registerStep_def split: sum.split)
  next
    case (DeleteInstanceInfo h sid iid)
    have "infos_ok (deleteInstanceInfo r h sid iid)"
      using i infos_ok_update [OF i, of h _ sid _ "\<lambda>is. filter (\<lambda>item. item \<noteq> iid) is"]
      by (auto simp: deleteInstanceInfo_def Let_def infos_ok_def split: option.split)
    then show ?thesis using records_ok_delete [OF rec] by (simp add: DeleteInstanceInfo registerStep_def register_ok_def)
  next
    case ListSequences
    have "records_ok (fst (getSequences r))"
      by (rule records_same [OF rec]) (use records_hosts [OF rec] in \<open>auto simp: getSequences_def instancesOf_def Let_def\<close>)
    then show ?thesis using infos_ok_getSequences [OF i] by (simp add: ListSequences registerStep_def register_ok_def)
  qed (use register_ok_clear [OF ok] register_ok_removeHub [OF ok] in \<open>simp_all add: registerStep_def handleHubDisconnect_def\<close>)
qed

interpretation hub_register: contract_machine registerStep register_pre register_ok
  by unfold_locales (rule register_step_ok)

lemma register_ok_new: "register_ok newHubRegister"
  by (simp add: register_ok_def infos_ok_def records_ok_def newHubRegister_def listed_def instancesOf_def)

section \<open>Properties\<close>

text \<open>C31: Along every run in which the hubs keep their contract, the manager's three views agree: there is
  an instance record exactly for the instances the hub's sequences list, no instance is listed under two
  sequences, and a sequence info exists only for a sequence of its hub and lists exactly its instances.\<close>

theorem hub_register_consistent:
  assumes "keeps_contract registerStep register_pre newHubRegister es"
  shows "let r = foldl registerStep newHubRegister es in
    (\<forall>k. jsHas (hr_instances r) k \<longleftrightarrow> (\<exists>h sid iid. k = getInstanceStoreKey h iid \<and> iid \<in> set (instancesOf r h sid))) \<and>
    (\<forall>h sid sid' iid. iid \<in> set (instancesOf r h sid) \<and> iid \<in> set (instancesOf r h sid') \<longrightarrow> sid = sid') \<and>
    (\<forall>h infos. jsGet (hr_sequences r) h = Some infos \<longrightarrow> distinct (map si_id infos) \<and>
      (\<forall>info \<in> set infos. si_instances info = instancesOf r h (si_id info)))"
proof -
  let ?r = "foldl registerStep newHubRegister es"
  have ok: "infos_ok ?r" "records_ok ?r"
    using hub_register.contract_run [OF register_ok_new assms] by (simp_all add: register_ok_def)
  have "distinct (map si_id infos) \<and> (\<forall>info \<in> set infos. si_instances info = instancesOf ?r h (si_id info))"
    if "jsGet (hr_sequences ?r) h = Some infos" for h infos
    using infos_okD [OF ok(1) that] by (auto simp: mirrored_def instancesOf_def)
  with ok(2) show ?thesis unfolding Let_def records_ok_def listed_def by blast
qed

text \<open>A hub that disconnects leaves nothing behind and takes nothing else with it: none of its
  instances and sequence infos remain, and the records of every other hub are untouched.\<close>

theorem hub_disconnect_cleans:
  assumes "keeps_contract registerStep register_pre newHubRegister es" and "CHR '':'' \<notin> set h"
  shows "let r = foldl registerStep newHubRegister es; t = handleHubDisconnect r h in
    (\<forall>iid. jsGet (hr_instances t) (getInstanceStoreKey h iid) = None) \<and> jsGet (hr_sequences t) h = None \<and>
    (\<forall>h' iid. CHR '':'' \<notin> set h' \<and> h' \<noteq> h \<longrightarrow>
      jsGet (hr_instances t) (getInstanceStoreKey h' iid) = jsGet (hr_instances r) (getInstanceStoreKey h' iid))"
proof -
  let ?r = "foldl registerStep newHubRegister es"
  let ?t = "handleHubDisconnect ?r h"
  have ok: "register_ok ?r" by (rule hub_register.contract_run [OF register_ok_new assms(1)])
  then have t: "register_ok ?t" by (simp add: handleHubDisconnect_def register_ok_clear)
  have "\<not> listed ?t h iid" for iid
    by (cases "jsGet (hr_hosts ?r) h") (simp_all add: listed_def handleHubDisconnect_def clearHostEntities_def instancesOf_iff js_simps)
  then have gone: "jsGet (hr_instances ?t) (getInstanceStoreKey h iid) = None" for iid
    using records_key [OF _ assms(2), of ?t iid] t by (simp add: register_ok_def)
  have seqs: "jsGet (hr_sequences ?t) h = None"
    using infos_okD [of ?r h] ok by (cases "jsGet (hr_hosts ?r) h"; cases "jsGet (hr_sequences ?r) h")
      (auto simp: handleHubDisconnect_def clearHostEntities_def register_ok_def mirrored_def js_simps)
  have keep: "k \<notin> f ` set ids \<Longrightarrow> jsGet (foldl (\<lambda>s i. jsDelete s (f i)) m ids) k = jsGet m k" for k ids m and f :: "string \<Rightarrow> string"
    by (induction ids arbitrary: m) (auto simp: js_simps)
  have "jsGet (hr_instances ?t) (getInstanceStoreKey h' iid) = jsGet (hr_instances ?r) (getInstanceStoreKey h' iid)"
    if "CHR '':'' \<notin> set h'" "h' \<noteq> h" for h' iid
  proof (cases "jsGet (hr_hosts ?r) h")
    case (Some m)
    have "getInstanceStoreKey h' iid \<notin> getInstanceStoreKey h ` set (concat (jsValues m))"
      using instanceKey_inj [OF that(1) assms(2)] that(2) by auto
    from keep [OF this] show ?thesis by (simp add: Some handleHubDisconnect_def clearHostEntities_def)
  qed (simp add: handleHubDisconnect_def clearHostEntities_def)
  with gone seqs show ?thesis unfolding Let_def by blast
qed

definition demoInstance :: "string \<Rightarrow> jsval" where
  "demoInstance i = JObj Plain [(''id'', JStr i), (''sequence'', JObj Plain [(''id'', JStr ''s1'')])]"

definition demoRegister :: "register_event list" where
  "demoRegister = [AddHub ''h1'', AddHub ''h2'', AddSequence ''h1'' ''s1'' (Some (JObj Plain [(''name'', JStr ''seq'')])),
     AddSequence ''h2'' ''s1'' None, AddInstance ''h1'' (demoInstance ''i1''), AddInstance ''h2'' (demoInstance ''i1'')]"

lemma demoRegister_contract: "keeps_contract registerStep register_pre newHubRegister demoRegister"
  by (auto simp: demoRegister_def register_pre_unfold register_pre_def registerStep_def newHubRegister_def addHub_def addSequence_def
      addInstance_def instancesOf_def demoInstance_def instanceId_def instanceSequenceId_def updateInfo_def Let_def split: if_splits)

lemma hub_register_consistent_witness:
  "jsHas (hr_instances (foldl registerStep newHubRegister demoRegister)) (getInstanceStoreKey ''h2'' ''i1'')"
proof -
  have "''i1'' \<in> set (instancesOf (foldl registerStep newHubRegister demoRegister) ''h2'' ''s1'')" by code_simp
  then show ?thesis using hub_register_consistent [OF demoRegister_contract] unfolding Let_def by blast
qed

lemma hub_disconnect_cleans_witness:
  "jsGet (hr_instances (handleHubDisconnect (foldl registerStep newHubRegister demoRegister) ''h1'')) (getInstanceStoreKey ''h1'' ''i1'') = None"
  using hub_disconnect_cleans [OF demoRegister_contract, of "''h1''"] unfolding Let_def by simp

text \<open>
  Outside the contract the views come apart: deleting a sequence that still has an instance keeps the
  instance record, which not even the disconnect of the hub removes.
\<close>

lemma deleted_sequence_orphans:
  "let r = foldl registerStep newHubRegister (demoRegister @ [DeleteSequence ''h1'' ''s1'', HubDisconnected ''h1'']) in
    jsHas (hr_instances r) (getInstanceStoreKey ''h1'' ''i1'') \<and> getInstancesByHub r ''h1'' = Inr []"
  by code_simp

end
