(* ===== verification/HostTopic.thy ===== *)
theory HostTopic
  imports Prelude "HOL-Library.Sublist"
begin

text \<open>
  \<open>packages/host/src/lib/serviceDiscovery/topic.ts\<close>: a topic, a live route from the streams piped into it
  to the streams it is piped to. A source and a target are references (\<open>nat\<close>). A write carries its number
  and its chunk; \<open>tp_pushed\<close> are the chunks handed to the readable side, \<open>tp_acks\<close> the calls of the write
  callbacks (\<open>False\<close>: with an error). What the stream classes answer (\<open>push\<close> below its high water mark,
  \<open>readableEnded\<close>) is part of the events. The newline that ends an unterminated ndjson source is the write
  it is.
\<close>

section \<open>State\<close>

datatype topic_state = Error | Pause | Drain | Flowing

record topic =
  tp_id :: string
  tp_contentType :: string
  tp_origin :: string
  tp_queue :: "nat list"
  tp_consuming :: "nat option"
  tp_active :: "(nat \<times> bool) option"
  tp_pendingIngress :: "(nat \<times> string \<times> nat) option"
  tp_pendingTransform :: "nat option"
  tp_needDrain :: bool
  tp_targets :: "nat list"
  tp_listeners :: nat
  tp_errored :: "string option"
  tp_paused :: bool
  tp_state :: topic_state
  tp_pushed :: "(nat \<times> string) list"
  tp_acks :: "(nat \<times> bool) list"
  tp_changes :: "topic_state list"

definition newTopic :: "string \<Rightarrow> string \<Rightarrow> string \<Rightarrow> topic" where
  "newTopic i contentType origin = \<lparr>tp_id = i, tp_contentType = contentType, tp_origin = origin, tp_queue = [], tp_consuming = None,
     tp_active = None, tp_pendingIngress = None, tp_pendingTransform = None, tp_needDrain = False, tp_targets = [], tp_listeners = 0,
     tp_errored = None, tp_paused = False, tp_state = Pause, tp_pushed = [], tp_acks = [], tp_changes = []\<rparr>"

definition topicState :: "topic \<Rightarrow> topic_state" where
  "topicState t = (if tp_errored t \<noteq> None then Error else if tp_paused t then Pause else if tp_needDrain t then Drain else Flowing)"

definition updateState :: "topic \<Rightarrow> topic" where
  "updateState t = (if tp_state t = topicState t then t
     else t\<lparr>tp_state := topicState t, tp_changes := tp_changes t @ [topicState t]\<rparr>)"

definition acknowledge :: "topic \<Rightarrow> nat \<Rightarrow> bool \<Rightarrow> topic" where
  "acknowledge t w ok = t\<lparr>tp_acks := tp_acks t @ [(w, ok)]\<rparr>"

definition hasConsumer :: "topic \<Rightarrow> bool" where
  "hasConsumer t \<longleftrightarrow> tp_targets t \<noteq> [] \<or> tp_listeners t > 0"

section \<open>Ingress\<close>

text \<open>The turn of the loop of \<open>consumePipe\<close> up to its \<open>await\<close>.\<close>

definition startNextPipe :: "topic \<Rightarrow> topic" where
  "startNextPipe t = (case tp_queue t of
      [] \<Rightarrow> t\<lparr>tp_consuming := None\<rparr>
    | src # q \<Rightarrow> t\<lparr>tp_queue := q, tp_consuming := Some src, tp_active := Some (src, False)\<rparr>)"

definition acceptPipe :: "topic \<Rightarrow> nat \<Rightarrow> topic" where
  "acceptPipe t src = (let u = t\<lparr>tp_queue := tp_queue t @ [src]\<rparr> in if tp_consuming u \<noteq> None then u else startNextPipe u)"

text \<open>The source being consumed has closed, ended or failed.\<close>

definition pipeSettled :: "topic \<Rightarrow> nat \<Rightarrow> topic" where
  "pipeSettled t src = (if tp_consuming t \<noteq> Some src then t
     else startNextPipe (if map_option fst (tp_active t) = Some src \<and> tp_pendingIngress t = None then t\<lparr>tp_active := None\<rparr> else t))"

definition holdFirstIngressChunk :: "topic \<Rightarrow> nat \<Rightarrow> string \<Rightarrow> nat \<Rightarrow> topic" where
  "holdFirstIngressChunk t w chunk src = updateState (t\<lparr>tp_pendingIngress := Some (w, chunk, src), tp_needDrain := True\<rparr>)"

definition clearPendingIngress :: "topic \<Rightarrow> bool \<Rightarrow> topic" where
  "clearPendingIngress t sourceEnded = (case tp_pendingIngress t of
      None \<Rightarrow> t
    | Some (w, chunk, src) \<Rightarrow>
        let u = t\<lparr>tp_pendingIngress := None\<rparr> in
        if map_option fst (tp_active u) = Some src \<and> sourceEnded then u\<lparr>tp_active := None\<rparr> else u)"

definition failPendingIngress :: "topic \<Rightarrow> bool \<Rightarrow> topic" where
  "failPendingIngress t sourceEnded = (case tp_pendingIngress t of
      None \<Rightarrow> t
    | Some (w, chunk, src) \<Rightarrow> updateState (acknowledge ((clearPendingIngress t sourceEnded)\<lparr>tp_needDrain := False\<rparr>) w False))"

definition flushPendingIngress :: "topic \<Rightarrow> bool \<Rightarrow> bool \<Rightarrow> topic" where
  "flushPendingIngress t sourceEnded pushOk = (case tp_pendingIngress t of
      None \<Rightarrow> t
    | Some (w, chunk, src) \<Rightarrow>
        if \<not> hasConsumer t then t
        else
          let u = (clearPendingIngress t sourceEnded)\<lparr>tp_pushed := tp_pushed t @ [(w, chunk)], tp_needDrain := \<not> pushOk\<rparr> in
          if \<not> pushOk then u\<lparr>tp_pendingTransform := Some w\<rparr> else updateState (acknowledge u w True))"

definition transform :: "topic \<Rightarrow> nat \<Rightarrow> string \<Rightarrow> bool \<Rightarrow> topic" where
  "transform t w chunk pushOk =
    (let t1 = (case tp_active t of Some (src, False) \<Rightarrow> t\<lparr>tp_active := Some (src, True)\<rparr> | _ \<Rightarrow> t)
     in if \<not> hasConsumer t1 then
          (case tp_active t of
             Some (src, False) \<Rightarrow> holdFirstIngressChunk t1 w chunk src
           | _ \<Rightarrow> acknowledge (t1\<lparr>tp_needDrain := False\<rparr>) w True)
        else
          let t2 = t1\<lparr>tp_pushed := tp_pushed t1 @ [(w, chunk)], tp_needDrain := \<not> pushOk\<rparr> in
          if \<not> pushOk then t2\<lparr>tp_pendingTransform := Some w\<rparr> else updateState (acknowledge t2 w True))"

definition readTopic :: "topic \<Rightarrow> topic" where
  "readTopic t = (case tp_pendingTransform t of
      None \<Rightarrow> t
    | Some w \<Rightarrow> updateState (acknowledge (t\<lparr>tp_needDrain := False, tp_pendingTransform := None\<rparr>) w True))"

section \<open>Targets and end\<close>

definition pipeTopic :: "topic \<Rightarrow> nat \<Rightarrow> bool \<Rightarrow> bool \<Rightarrow> topic" where
  "pipeTopic t target sourceEnded pushOk = (if target \<in> set (tp_targets t) then t
     else flushPendingIngress (t\<lparr>tp_targets := tp_targets t @ [target]\<rparr>) sourceEnded pushOk)"

definition unpipeTopic :: "topic \<Rightarrow> nat option \<Rightarrow> topic" where
  "unpipeTopic t target = t\<lparr>tp_targets := (case target of None \<Rightarrow> [] | Some d \<Rightarrow> jsRemove (tp_targets t) d)\<rparr>"

definition resumeTopic :: "topic \<Rightarrow> topic" where
  "resumeTopic t = updateState (t\<lparr>tp_paused := False\<rparr>)"

definition pauseTopic :: "topic \<Rightarrow> topic" where
  "pauseTopic t = updateState (t\<lparr>tp_paused := True\<rparr>)"

definition destroyTopic :: "topic \<Rightarrow> string option \<Rightarrow> bool \<Rightarrow> topic" where
  "destroyTopic t err sourceEnded = updateState ((failPendingIngress t sourceEnded)\<lparr>tp_errored := err\<rparr>)"

definition deleteTopicStream :: "topic \<Rightarrow> bool \<Rightarrow> topic" where
  "deleteTopicStream t sourceEnded = destroyTopic t (Some ''TOPIC_DELETED'') sourceEnded"

section \<open>Events\<close>

datatype topic_event =
    AcceptPipe nat
  | PipeSettled nat
  | WriteChunk nat string bool
  | ReadCall
  | PipeTo nat bool bool
  | UnpipeFrom "nat option"
  | SourceFailed nat bool
  | SourceClosed nat bool
  | Listeners nat
  | ResumeCall
  | PauseCall
  | DestroyCall "string option" bool

text \<open>An error or abort of a source, and a close before its end, fail the chunk held for it.\<close>

definition sourceFailed :: "topic \<Rightarrow> nat \<Rightarrow> bool \<Rightarrow> topic" where
  "sourceFailed t src ended = (case tp_pendingIngress t of
      Some (w, chunk, s) \<Rightarrow> if s = src then failPendingIngress t ended else t
    | None \<Rightarrow> t)"

definition topicStep :: "topic \<Rightarrow> topic_event \<Rightarrow> topic" where
  "topicStep t e = (case e of
      AcceptPipe src \<Rightarrow> acceptPipe t src
    | PipeSettled src \<Rightarrow> pipeSettled t src
    | WriteChunk w chunk pushOk \<Rightarrow> transform t w chunk pushOk
    | ReadCall \<Rightarrow> readTopic t
    | PipeTo target ended pushOk \<Rightarrow> pipeTopic t target ended pushOk
    | UnpipeFrom target \<Rightarrow> unpipeTopic t target
    | SourceFailed src ended \<Rightarrow> sourceFailed t src ended
    | SourceClosed src ended \<Rightarrow> if ended then t else sourceFailed t src ended
    | Listeners n \<Rightarrow> t\<lparr>tp_listeners := n\<rparr>
    | ResumeCall \<Rightarrow> resumeTopic t
    | PauseCall \<Rightarrow> pauseTopic t
    | DestroyCall err ended \<Rightarrow> destroyTopic t err ended)"

section \<open>Every write is answered once\<close>

text \<open>The write whose callback has not been called, and the contract of the stream classes: they transform
  one chunk at a time.\<close>

definition outstanding :: "topic \<Rightarrow> nat list" where
  "outstanding t = (case tp_pendingIngress t of Some (w, _) \<Rightarrow> [w] | None \<Rightarrow> []) @
     (case tp_pendingTransform t of Some w \<Rightarrow> [w] | None \<Rightarrow> [])"

definition one_at_a_time :: "topic \<Rightarrow> topic_event \<Rightarrow> bool" where
  "one_at_a_time t e = (case e of WriteChunk _ _ _ \<Rightarrow> outstanding t = [] | _ \<Rightarrow> True)"

definition single :: "topic \<Rightarrow> bool" where
  "single t \<longleftrightarrow> tp_pendingIngress t = None \<or> tp_pendingTransform t = None"

fun writesOf :: "topic_event list \<Rightarrow> (nat \<times> string) list" where
  "writesOf [] = []"
| "writesOf (WriteChunk w c ok # es) = (w, c) # writesOf es"
| "writesOf (e # es) = writesOf es"

definition answered :: "topic \<Rightarrow> nat list" where
  "answered t = map fst (tp_acks t) @ outstanding t"

lemma updateState_fields [simp]:
  "tp_pendingIngress (updateState t) = tp_pendingIngress t" "tp_pendingTransform (updateState t) = tp_pendingTransform t"
  "tp_acks (updateState t) = tp_acks t" "tp_pushed (updateState t) = tp_pushed t" "tp_active (updateState t) = tp_active t"
  "tp_targets (updateState t) = tp_targets t" "tp_listeners (updateState t) = tp_listeners t" "tp_queue (updateState t) = tp_queue t"
  "tp_consuming (updateState t) = tp_consuming t" "tp_errored (updateState t) = tp_errored t"
  by (simp_all add: updateState_def)

lemma ack_fields [simp]:
  "tp_pendingIngress (acknowledge t w ok) = tp_pendingIngress t" "tp_pendingTransform (acknowledge t w ok) = tp_pendingTransform t"
  "tp_acks (acknowledge t w ok) = tp_acks t @ [(w, ok)]" "tp_pushed (acknowledge t w ok) = tp_pushed t"
  by (simp_all add: acknowledge_def)

lemma startNext_fields [simp]:
  "tp_pendingIngress (startNextPipe t) = tp_pendingIngress t" "tp_pendingTransform (startNextPipe t) = tp_pendingTransform t"
  "tp_acks (startNextPipe t) = tp_acks t" "tp_pushed (startNextPipe t) = tp_pushed t"
  by (simp_all add: startNextPipe_def split: list.split)

lemma clear_fields [simp]:
  "tp_pendingIngress (clearPendingIngress t ended) = None" "tp_pendingTransform (clearPendingIngress t ended) = tp_pendingTransform t"
  "tp_acks (clearPendingIngress t ended) = tp_acks t" "tp_pushed (clearPendingIngress t ended) = tp_pushed t"
  by (simp_all add: clearPendingIngress_def Let_def split: option.split prod.split)

text \<open>The four fields that tell what became of the writes, after each operation.\<close>

definition writeView :: "topic \<Rightarrow> (nat \<times> string \<times> nat) option \<times> nat option \<times> (nat \<times> bool) list \<times> (nat \<times> string) list" where
  "writeView t = (tp_pendingIngress t, tp_pendingTransform t, tp_acks t, tp_pushed t)"

lemma view_simps [simp]:
  "writeView (updateState t) = writeView t" "writeView (startNextPipe t) = writeView t"
  "writeView (t\<lparr>tp_active := a\<rparr>) = writeView t" "writeView (t\<lparr>tp_queue := q\<rparr>) = writeView t" "writeView (t\<lparr>tp_targets := g\<rparr>) = writeView t"
  "writeView (t\<lparr>tp_listeners := n\<rparr>) = writeView t" "writeView (t\<lparr>tp_paused := b\<rparr>) = writeView t" "writeView (t\<lparr>tp_errored := x\<rparr>) = writeView t"
  by (simp_all add: writeView_def)

lemma view_fail:
  "writeView (failPendingIngress t ended) = (case tp_pendingIngress t of
     None \<Rightarrow> writeView t | Some (w, chunk, src) \<Rightarrow> (None, tp_pendingTransform t, tp_acks t @ [(w, False)], tp_pushed t))"
  by (simp add: failPendingIngress_def writeView_def split: option.split prod.split)

lemma view_flush:
  "writeView (flushPendingIngress t ended ok) = (case tp_pendingIngress t of
     None \<Rightarrow> writeView t
   | Some (w, chunk, src) \<Rightarrow> if \<not> hasConsumer t then writeView t
       else (None, if ok then tp_pendingTransform t else Some w, if ok then tp_acks t @ [(w, True)] else tp_acks t, tp_pushed t @ [(w, chunk)]))"
  by (simp add: flushPendingIngress_def writeView_def Let_def split: option.split prod.split)

lemma view_transform:
  "writeView (transform t w c ok) =
    (if \<not> hasConsumer t then
       (case tp_active t of
          Some (src, False) \<Rightarrow> (Some (w, c, src), tp_pendingTransform t, tp_acks t, tp_pushed t)
        | _ \<Rightarrow> (tp_pendingIngress t, tp_pendingTransform t, tp_acks t @ [(w, True)], tp_pushed t))
     else (tp_pendingIngress t, if ok then tp_pendingTransform t else Some w,
       if ok then tp_acks t @ [(w, True)] else tp_acks t, tp_pushed t @ [(w, c)]))"
  by (simp add: transform_def writeView_def hasConsumer_def holdFirstIngressChunk_def Let_def split: option.split prod.split bool.split)

lemma view_read:
  "writeView (readTopic t) = (case tp_pendingTransform t of
     None \<Rightarrow> writeView t | Some w \<Rightarrow> (tp_pendingIngress t, None, tp_acks t @ [(w, True)], tp_pushed t))"
  by (simp add: readTopic_def writeView_def split: option.split)

lemma view_step:
  "writeView (topicStep t e) = (case e of
      WriteChunk w c ok \<Rightarrow> writeView (transform t w c ok)
    | ReadCall \<Rightarrow> writeView (readTopic t)
    | PipeTo target ended ok \<Rightarrow> if target \<in> set (tp_targets t) then writeView t
        else writeView (flushPendingIngress (t\<lparr>tp_targets := tp_targets t @ [target]\<rparr>) ended ok)
    | SourceFailed src ended \<Rightarrow> if map_option (snd \<circ> snd) (tp_pendingIngress t) = Some src then writeView (failPendingIngress t ended) else writeView t
    | SourceClosed src ended \<Rightarrow> if \<not> ended \<and> map_option (snd \<circ> snd) (tp_pendingIngress t) = Some src
        then writeView (failPendingIngress t ended) else writeView t
    | DestroyCall err ended \<Rightarrow> writeView (failPendingIngress t ended)
    | _ \<Rightarrow> writeView t)"
  by (simp add: topicStep_def acceptPipe_def pipeSettled_def pipeTopic_def unpipeTopic_def sourceFailed_def resumeTopic_def pauseTopic_def
      destroyTopic_def Let_def split: topic_event.split option.split prod.split)

lemma view_parts:
  "tp_pendingIngress t = fst (writeView t)" "tp_pendingTransform t = fst (snd (writeView t))"
  "tp_acks t = fst (snd (snd (writeView t)))" "tp_pushed t = snd (snd (snd (writeView t)))"
  by (simp_all add: writeView_def)

lemma step_answered:
  assumes "single t" and "one_at_a_time t e"
  shows "single (topicStep t e) \<and> answered (topicStep t e) = answered t @ map fst (writesOf [e])"
proof (cases e)
  case (WriteChunk w c ok)
  then have "tp_pendingIngress t = None" "tp_pendingTransform t = None"
    using assms(2) by (auto simp: one_at_a_time_def outstanding_def split: option.splits)
  then show ?thesis unfolding single_def answered_def outstanding_def view_parts WriteChunk view_step
    by (simp add: view_transform view_parts [symmetric] split: option.split prod.split bool.split)
next
  case ReadCall
  then show ?thesis using assms(1) unfolding single_def answered_def outstanding_def view_parts ReadCall view_step
    by (auto simp: view_read view_parts [symmetric] split: option.split prod.split)
next
  case (PipeTo target ended ok)
  then show ?thesis using assms(1) unfolding single_def answered_def outstanding_def view_parts PipeTo view_step
    by (auto simp: view_flush view_parts [symmetric] split: option.split prod.split)
next
  case (SourceFailed src ended)
  then show ?thesis using assms(1) unfolding single_def answered_def outstanding_def view_parts SourceFailed view_step
    by (auto simp: view_fail view_parts [symmetric] split: option.split prod.split)
next
  case (SourceClosed src ended)
  then show ?thesis using assms(1) unfolding single_def answered_def outstanding_def view_parts SourceClosed view_step
    by (auto simp: view_fail view_parts [symmetric] split: option.split prod.split)
next
  case (DestroyCall err ended)
  then show ?thesis using assms(1) unfolding single_def answered_def outstanding_def view_parts DestroyCall view_step
    by (auto simp: view_fail view_parts [symmetric] split: option.split prod.split)
qed (use assms(1) in \<open>unfold single_def answered_def outstanding_def view_parts view_step, simp_all\<close>)

interpretation topic_writes: contract_machine topicStep one_at_a_time single
  by unfold_locales (simp add: step_answered)

lemma writesOf_Cons: "writesOf (e # es) = writesOf [e] @ writesOf es"
  by (cases e) simp_all

lemma run_answered:
  assumes "single t" and "keeps_contract topicStep one_at_a_time t es"
  shows "answered (foldl topicStep t es) = answered t @ map fst (writesOf es)"
  using assms
proof (induction es arbitrary: t)
  case (Cons e es)
  have e: "one_at_a_time t e" "keeps_contract topicStep one_at_a_time (topicStep t e) es" using Cons.prems(2) by simp_all
  show ?case
    using step_answered [OF Cons.prems(1) e(1)] Cons.IH [of "topicStep t e"] e(2) writesOf_Cons [of e es] by simp
qed simp

lemma single_new: "single (newTopic i c o') \<and> answered (newTopic i c o') = []"
  by (simp add: single_def answered_def outstanding_def newTopic_def)

section \<open>What becomes of a write\<close>

text \<open>A write is still held, was pushed, or was answered with an error: it was not dropped.\<close>

definition kept :: "nat \<Rightarrow> string \<Rightarrow> topic \<Rightarrow> bool" where
  "kept w c t \<longleftrightarrow> (\<exists>src. tp_pendingIngress t = Some (w, c, src)) \<or> (w, c) \<in> set (tp_pushed t) \<or> (w, False) \<in> set (tp_acks t)"

lemma kept_step: "kept w c t \<Longrightarrow> one_at_a_time t e \<Longrightarrow> kept w c (topicStep t e)"
proof (cases e)
  case (WriteChunk w' c' ok)
  assume "kept w c t" "one_at_a_time t e"
  then have "(w, c) \<in> set (tp_pushed t) \<or> (w, False) \<in> set (tp_acks t)"
    by (auto simp: WriteChunk one_at_a_time_def outstanding_def kept_def)
  then show ?thesis unfolding kept_def view_parts WriteChunk view_step
    by (auto simp: view_transform view_parts [symmetric] split: option.split prod.split bool.split)
next
  case ReadCall
  assume "kept w c t"
  then show ?thesis unfolding kept_def view_parts ReadCall view_step
    by (auto simp: view_read view_parts [symmetric] split: option.split prod.split)
next
  case (PipeTo target ended ok)
  assume "kept w c t"
  then show ?thesis unfolding kept_def view_parts PipeTo view_step
    by (auto simp: view_flush view_parts [symmetric] split: option.split prod.split)
next
  case (SourceFailed src ended)
  assume "kept w c t"
  then show ?thesis unfolding kept_def view_parts SourceFailed view_step
    by (auto simp: view_fail view_parts [symmetric] split: option.split prod.split)
next
  case (SourceClosed src ended)
  assume "kept w c t"
  then show ?thesis unfolding kept_def view_parts SourceClosed view_step
    by (auto simp: view_fail view_parts [symmetric] split: option.split prod.split)
next
  case (DestroyCall err ended)
  assume "kept w c t"
  then show ?thesis unfolding kept_def view_parts DestroyCall view_step
    by (auto simp: view_fail view_parts [symmetric] split: option.split prod.split)
qed (unfold kept_def view_parts view_step, simp_all)

interpretation topic_kept: contract_machine topicStep one_at_a_time "kept w c" for w c
  by unfold_locales (rule kept_step)

lemma contract_append:
  "keeps_contract step pre s (es @ fs) \<longleftrightarrow> keeps_contract step pre s es \<and> keeps_contract step pre (foldl step s es) fs"
  by (induction es arbitrary: s) auto

text \<open>The chunks pushed, tagged by their writes, come in the order of the writes.\<close>

definition pushed_in_order :: "topic \<Rightarrow> (nat \<times> string) list \<Rightarrow> bool" where
  "pushed_in_order t ws \<longleftrightarrow> (\<exists>ps. subseq ps ws \<and>
     tp_pushed t @ (case tp_pendingIngress t of Some (w, c, _) \<Rightarrow> [(w, c)] | None \<Rightarrow> []) = ps)"

lemma subseq_snoc: "subseq xs ys \<Longrightarrow> subseq (xs @ [z]) (ys @ [z])"
  by (simp add: list_emb_append_mono)

lemma subseq_butlast: "subseq (xs @ [z]) ys \<Longrightarrow> subseq xs ys"
  by (rule subseq_order.order_trans [rotated]) auto

lemma order_step:
  assumes "pushed_in_order t ws" and "one_at_a_time t e"
  shows "pushed_in_order (topicStep t e) (ws @ writesOf [e])"
proof (cases e)
  case (WriteChunk w c ok)
  then have n: "tp_pendingIngress t = None"
    using assms(2) by (auto simp: one_at_a_time_def outstanding_def split: option.splits)
  have s: "subseq (tp_pushed t) ws" using assms(1) n by (simp add: pushed_in_order_def)
  have "subseq (tp_pushed t @ [(w, c)]) (ws @ [(w, c)])" "subseq (tp_pushed t) (ws @ [(w, c)])"
    using subseq_snoc [OF s] list_emb_prefix [OF s] by blast+
  then show ?thesis using n unfolding pushed_in_order_def view_parts WriteChunk view_step
    by (simp add: view_transform view_parts [symmetric] split: option.split prod.split bool.split)
next
  case ReadCall
  then show ?thesis using assms(1) unfolding pushed_in_order_def view_parts ReadCall view_step
    by (auto simp: view_read view_parts [symmetric] split: option.splits prod.split)
next
  case (PipeTo target ended ok)
  then show ?thesis using assms(1) unfolding pushed_in_order_def view_parts PipeTo view_step
    by (auto simp: view_flush view_parts [symmetric] split: option.splits prod.split)
next
  case (SourceFailed src ended)
  then show ?thesis using assms(1) unfolding pushed_in_order_def view_parts SourceFailed view_step
    by (auto simp: view_fail view_parts [symmetric] split: option.splits prod.split intro: subseq_butlast)
next
  case (SourceClosed src ended)
  then show ?thesis using assms(1) unfolding pushed_in_order_def view_parts SourceClosed view_step
    by (auto simp: view_fail view_parts [symmetric] split: option.splits prod.split intro: subseq_butlast)
next
  case (DestroyCall err ended)
  then show ?thesis using assms(1) unfolding pushed_in_order_def view_parts DestroyCall view_step
    by (auto simp: view_fail view_parts [symmetric] split: option.splits prod.split intro: subseq_butlast)
qed (use assms(1) in \<open>unfold pushed_in_order_def view_parts view_step, simp_all\<close>)

lemma run_order:
  "pushed_in_order t ws \<Longrightarrow> keeps_contract topicStep one_at_a_time t es \<Longrightarrow> pushed_in_order (foldl topicStep t es) (ws @ writesOf es)"
proof (induction es arbitrary: t ws)
  case (Cons e es)
  from Cons.IH [OF order_step [OF Cons.prems(1)]] Cons.prems(2) show ?case
    using writesOf_Cons [of e es] by simp
qed simp

section \<open>Properties\<close>

text \<open>C36: Every chunk written to a topic is answered once and in order: after any run of the stream classes'
  one-chunk-at-a-time protocol, the callbacks called, followed by the one outstanding (at most one), are
  the writes. What was pushed to the subscribers is, in order and without repetition of a write, a part of
  what was written.\<close>

theorem topic_writes_answered:
  assumes "keeps_contract topicStep one_at_a_time (newTopic i contentType origin) es"
  shows "let t = foldl topicStep (newTopic i contentType origin) es in
    map fst (tp_acks t) @ outstanding t = map fst (writesOf es) \<and> length (outstanding t) \<le> 1 \<and> subseq (tp_pushed t) (writesOf es)"
proof -
  let ?t = "foldl topicStep (newTopic i contentType origin) es"
  have "single ?t" by (rule topic_writes.contract_run [OF conjunct1 [OF single_new] assms])
  then have "length (outstanding ?t) \<le> 1" by (auto simp: single_def outstanding_def split: option.split)
  moreover have "pushed_in_order ?t (writesOf es)"
    using run_order [OF _ assms, of "[]"] by (simp add: pushed_in_order_def newTopic_def)
  then have "subseq (tp_pushed ?t) (writesOf es)"
    by (auto simp: pushed_in_order_def split: option.splits intro: subseq_butlast)
  ultimately show ?thesis
    using run_answered [OF conjunct1 [OF single_new] assms] single_new by (simp add: answered_def Let_def)
qed

text \<open>C37: The first chunk of a source is never dropped for want of a subscriber: however long it takes until
  the topic is piped on, the chunk is still held, or it was pushed, or its writer was told of a failure.\<close>

theorem topic_first_chunk_kept:
  assumes "keeps_contract topicStep one_at_a_time (newTopic i contentType origin) (es @ WriteChunk w c ok # fs)"
    and "tp_active (foldl topicStep (newTopic i contentType origin) es) = Some (src, False)"
  shows "kept w c (foldl topicStep (newTopic i contentType origin) (es @ WriteChunk w c ok # fs))"
proof -
  let ?t = "foldl topicStep (newTopic i contentType origin) es"
  have "kept w c (topicStep ?t (WriteChunk w c ok))"
    using assms(2) unfolding kept_def view_parts view_step by (simp add: view_transform)
  then show ?thesis using assms(1) topic_kept.contract_run [of w c "topicStep ?t (WriteChunk w c ok)" fs]
    by (simp add: contract_append)
qed

definition demoTopic :: "topic_event list" where
  "demoTopic = [AcceptPipe 1, WriteChunk 0 ''a'' True, PipeTo 7 False True, WriteChunk 1 ''b'' False, ReadCall, UnpipeFrom None]"

lemma demoTopic_contract: "keeps_contract topicStep one_at_a_time (newTopic ''t'' ''text/plain'' ''h'') (demoTopic @ [WriteChunk 2 ''c'' True])"
  by code_simp

lemma topic_writes_answered_witness:
  "let t = foldl topicStep (newTopic ''t'' ''text/plain'' ''h'') (demoTopic @ [WriteChunk 2 ''c'' True]) in
    map fst (tp_acks t) @ outstanding t = [0, 1, 2] \<and> tp_pushed t = [(0, ''a''), (1, ''b'')]"
proof -
  have w: "map fst (writesOf (demoTopic @ [WriteChunk 2 ''c'' True])) = [0, 1, 2]" by code_simp
  have "tp_pushed (foldl topicStep (newTopic ''t'' ''text/plain'' ''h'') (demoTopic @ [WriteChunk 2 ''c'' True])) = [(0, ''a''), (1, ''b'')]"
    by code_simp
  with w topic_writes_answered [OF demoTopic_contract] show ?thesis by (simp only: Let_def w)
qed

lemma topic_first_chunk_kept_witness:
  "kept 0 ''a'' (foldl topicStep (newTopic ''t'' ''text/plain'' ''h'') [AcceptPipe 1, WriteChunk 0 ''a'' True, SourceFailed 1 False])"
proof -
  have "keeps_contract topicStep one_at_a_time (newTopic ''t'' ''text/plain'' ''h'') ([AcceptPipe 1] @ WriteChunk 0 ''a'' True # [SourceFailed 1 False])"
    by code_simp
  from topic_first_chunk_kept [OF this] show ?thesis
    by (simp add: topicStep_def acceptPipe_def startNextPipe_def newTopic_def Let_def)
qed

end
