(* ===== verification/HostDiscovery.thy ===== *)
theory HostDiscovery
  imports HostTopic
begin

text \<open>
  The hub's topics: the map of \<open>serviceDiscovery/topicsController.ts\<close> with its inventory audits, the
  operations of \<open>sd-adapter.ts\<close> and the HTTP handlers of \<open>topicRouter.ts\<close> (package \<open>host\<close>). The connection
  to the manager is absent, present or connected; \<open>hd_sent\<close> are the topic messages handed to it and
  \<open>hd_audits\<close> the calls of the inventory audit handler (\<open>None\<close> for a removed topic). A handler that waits for
  its request is the machine \<open>downstream\<close>.
\<close>

section \<open>State\<close>

datatype connector = NoConnector | Connector bool

record topic_message =
  tm_provides :: "string option"
  tm_requires :: "string option"
  tm_topicName :: string
  tm_contentType :: "string option"
  tm_status :: string

record discovery =
  hd_hostName :: string
  hd_topics :: "(string, topic) jsmap"
  hd_connector :: connector
  hd_sent :: "topic_message list"
  hd_audits :: "((string \<times> string) option \<times> string) list"

record topic_info =
  ti_id :: string
  ti_contentType :: string
  ti_origin :: string
  ti_state :: topic_state

section \<open>The topics map\<close>

definition topicInfos :: "discovery \<Rightarrow> topic_info list" where
  "topicInfos h = map (\<lambda>(_, t). \<lparr>ti_id = tp_id t, ti_contentType = tp_contentType t, ti_origin = tp_origin t, ti_state = topicState t\<rparr>) (hd_topics h)"

text \<open>The handler receives the topic itself; the audits keep what its inventory record is made of.\<close>

definition auditTopic :: "discovery \<Rightarrow> (string \<times> string) option \<Rightarrow> string \<Rightarrow> discovery" where
  "auditTopic h t name = h\<lparr>hd_audits := hd_audits h @ [(t, name)]\<rparr>"

definition setTopic :: "discovery \<Rightarrow> string \<Rightarrow> topic \<Rightarrow> discovery" where
  "setTopic h i t = auditTopic (h\<lparr>hd_topics := jsSet (hd_topics h) i t\<rparr>) (Some (tp_id t, tp_contentType t)) i"

definition getTopic :: "discovery \<Rightarrow> string \<Rightarrow> topic option" where
  "getTopic h i = jsGet (hd_topics h) i"

text \<open>The deleted topic is unpiped and destroyed; it is returned with the state.\<close>

definition removeTopic :: "discovery \<Rightarrow> string \<Rightarrow> bool \<Rightarrow> discovery \<times> topic option" where
  "removeTopic h i sourceEnded = (case jsGet (hd_topics h) i of
      None \<Rightarrow> (h, None)
    | Some t \<Rightarrow> (auditTopic (h\<lparr>hd_topics := jsDelete (hd_topics h) i\<rparr>) None i, Some (deleteTopicStream (unpipeTopic t None) sourceEnded)))"

section \<open>Operations\<close>

definition sendTopicInfo :: "discovery \<Rightarrow> topic_message \<Rightarrow> discovery" where
  "sendTopicInfo h m = (if hd_connector h = NoConnector then h else h\<lparr>hd_sent := hd_sent h @ [m]\<rparr>)"

definition update :: "discovery \<Rightarrow> topic_message \<Rightarrow> discovery" where
  "update h m = (if hd_connector h = Connector True then sendTopicInfo h m else h)"

definition message :: "string option \<Rightarrow> string option \<Rightarrow> string \<Rightarrow> string option \<Rightarrow> string \<Rightarrow> topic_message" where
  "message provides requires name contentType status =
     \<lparr>tm_provides = provides, tm_requires = requires, tm_topicName = name, tm_contentType = contentType, tm_status = status\<rparr>"

definition deleteHostTopic :: "discovery \<Rightarrow> string \<Rightarrow> bool \<Rightarrow> discovery \<times> bool" where
  "deleteHostTopic h i sourceEnded = (case removeTopic h i sourceEnded of
      (h1, None) \<Rightarrow> (h1, False)
    | (h1, Some _) \<Rightarrow> (sendTopicInfo h1 (message None None i None ''remove''), True))"

text \<open>An empty content type is filled in from the existing topic, in the caller's object.\<close>

definition createTopicIfNotExist :: "discovery \<Rightarrow> string \<Rightarrow> string \<Rightarrow> string + discovery \<times> topic \<times> string" where
  "createTopicIfNotExist h name contentType = (case jsGet (hd_topics h) name of
      Some t \<Rightarrow>
        let ct = (if contentType = [] then tp_contentType t else contentType) in
        if tp_contentType t \<noteq> ct then Inl ''TOPIC_CONTENT_TYPE_MISMATCH'' else Inr (h, t, ct)
    | None \<Rightarrow> let t = newTopic name contentType (hd_hostName h) in Inr (setTopic h name t, t, contentType))"

text \<open>\<open>getTopics\<close>: content type, local provider and the name twice.\<close>

definition getTopics :: "discovery \<Rightarrow> (string \<times> string \<times> string \<times> string) list" where
  "getTopics h = map (\<lambda>v. (ti_contentType v, [], ti_id v, ti_id v)) (topicInfos h)"

definition getByTopic :: "discovery \<Rightarrow> string \<Rightarrow> (string \<times> topic) option" where
  "getByTopic h i = map_option (\<lambda>t. (tp_contentType t, t)) (getTopic h i)"

definition getData :: "discovery \<Rightarrow> string \<Rightarrow> string \<Rightarrow> string + discovery \<times> topic" where
  "getData h i ct = bindR (createTopicIfNotExist h i ct) (\<lambda>(h1, t, _). Inr (h1, t))"

definition changeTopic :: "discovery \<Rightarrow> string \<Rightarrow> (topic \<Rightarrow> topic) \<Rightarrow> discovery" where
  "changeTopic h i f = (case jsGet (hd_topics h) i of
      Some t \<Rightarrow> h\<lparr>hd_topics := jsSet (hd_topics h) i (f t)\<rparr>
    | None \<Rightarrow> h)"

definition routeTopicToStream :: "discovery \<Rightarrow> string \<Rightarrow> string \<Rightarrow> nat \<Rightarrow> bool \<Rightarrow> bool \<Rightarrow> string + discovery" where
  "routeTopicToStream h i contentType target sourceEnded pushOk =
     bindR (createTopicIfNotExist h i contentType) (\<lambda>(h1, t, ct).
       Inr (sendTopicInfo (changeTopic h1 i (\<lambda>t. pipeTopic t target sourceEnded pushOk)) (message None (Some i) i (Some ct) ''add'')))"

definition routeStreamToTopic :: "discovery \<Rightarrow> nat \<Rightarrow> string \<Rightarrow> string \<Rightarrow> string + discovery" where
  "routeStreamToTopic h source i contentType =
     bindR (createTopicIfNotExist h i contentType) (\<lambda>(h1, t, ct).
       Inr (sendTopicInfo (changeTopic h1 i (\<lambda>t. acceptPipe t source)) (message (Some i) None i (Some ct) ''add'')))"

section \<open>Requests\<close>

definition isContentType :: "string \<Rightarrow> bool" where
  "isContentType ct \<longleftrightarrow> ct \<in> set [''text/x-ndjson'', ''application/x-ndjson'', ''text/plain'', ''application/octet-stream'']"

definition isTopicChar :: "char \<Rightarrow> bool" where
  "isTopicChar c = (let n = of_char c :: nat in
     (65 \<le> n \<and> n \<le> 90) \<or> (97 \<le> n \<and> n \<le> 122) \<or> (48 \<le> n \<and> n \<le> 57) \<or> c \<in> set ''_.+-'')"

definition validateTopicId :: "string \<Rightarrow> bool" where
  "validateTopicId name \<longleftrightarrow> name \<noteq> [] \<and> list_all isTopicChar name"

datatype op_status = OK | BAD_REQUEST | NOT_FOUND | UNSUPPORTED_MEDIA_TYPE

datatype reply =
    Refused op_status string
  | Created topic_info
  | TopicRemoved string
  | TopicDone

definition invalidTopicIdMsg :: string where
  "invalidTopicIdMsg = ''Topic id incorrect format''"

definition invalidContentTypeMsg :: string where
  "invalidContentTypeMsg = ''Unsupported content-type''"

text \<open>The body of the request, when it has one, is the id and the content type, each possibly missing.\<close>

definition topicsPost :: "discovery \<Rightarrow> (string option \<times> string option) option \<Rightarrow> discovery \<times> (string + reply)" where
  "topicsPost h body =
    (let i = (case body of Some (Some i, _) \<Rightarrow> i | _ \<Rightarrow> []); ct = (case body of Some (_, Some ct) \<Rightarrow> ct | _ \<Rightarrow> []) in
     if i = [] then (h, Inr (Refused BAD_REQUEST ''Missing body param: id''))
     else if ct = [] then (h, Inr (Refused BAD_REQUEST ''Missing body param: content-type''))
     else if \<not> isContentType ct then (h, Inr (Refused BAD_REQUEST invalidContentTypeMsg))
     else if \<not> validateTopicId i then (h, Inr (Refused BAD_REQUEST invalidTopicIdMsg))
     else if getTopic h i \<noteq> None then (h, Inr (Refused BAD_REQUEST ''Topic with given id already exist''))
     else (case createTopicIfNotExist h i ct of
         Inl e \<Rightarrow> (h, Inl e)
       | Inr (h1, t, _) \<Rightarrow> (update h1 (message None None i (Some ct) ''add''),
           Inr (Created \<lparr>ti_id = tp_id t, ti_contentType = tp_contentType t, ti_origin = tp_origin t, ti_state = topicState t\<rparr>))))"

definition deleteRequest :: "discovery \<Rightarrow> string option \<Rightarrow> bool \<Rightarrow> discovery \<times> reply" where
  "deleteRequest h param sourceEnded =
    (let i = (case param of Some i \<Rightarrow> i | None \<Rightarrow> []) in
     if \<not> validateTopicId i then (h, Refused BAD_REQUEST invalidTopicIdMsg)
     else case deleteHostTopic h i sourceEnded of
         (h1, False) \<Rightarrow> (h1, Refused NOT_FOUND (''Topic '' @ i @ '' not found''))
       | (h1, True) \<Rightarrow> (h1, TopicRemoved (''Topic '' @ i @ '' removed'')))"

definition topicUpstream :: "discovery \<Rightarrow> string option \<Rightarrow> bool \<Rightarrow> string option \<Rightarrow> discovery \<times> (string + topic)" where
  "topicUpstream h contentType cpm param =
    (let ct = (case contentType of Some ct \<Rightarrow> ct | None \<Rightarrow> ''application/x-ndjson''); i = (case param of Some i \<Rightarrow> i | None \<Rightarrow> []) in
     if \<not> isContentType ct then (h, Inl ''ERR_INVALID_CONTENT_TYPE'')
     else if \<not> validateTopicId i then (h, Inl ''ERR_CANNOT_PARSE_CONTENT'')
     else case createTopicIfNotExist h i ct of
         Inl _ \<Rightarrow> (h, Inl ''ERR_INVALID_CONTENT_TYPE'')
       | Inr (h1, t, _) \<Rightarrow> (if cpm then h1 else update h1 (message None (Some i) i (Some ct) ''add''), Inr t))"

section \<open>A write request to a topic\<close>

text \<open>
  The handler of a write request pipes the request into the topic and waits, unless the manager sent the
  request, for the update of the manager as well. \<open>dr_request\<close> is the promise of the request, \<open>dr_update\<close>
  that of the update; \<open>dr_listening\<close> the once-listeners still in place.
\<close>

datatype request_event = RequestEnd | RequestClose | RequestAborted | RequestError | UpdateSettled bool

record downstream =
  dr_settled :: bool
  dr_ended :: bool
  dr_request :: "bool option"
  dr_update :: "bool option"
  dr_fired :: "request_event list"

definition completeRequest :: "downstream \<Rightarrow> downstream" where
  "completeRequest d = (if dr_settled d then d else d\<lparr>dr_settled := True, dr_request := Some True\<rparr>)"

definition endRequest :: "downstream \<Rightarrow> downstream" where
  "endRequest d = completeRequest (d\<lparr>dr_ended := True\<rparr>)"

definition failRequest :: "downstream \<Rightarrow> downstream" where
  "failRequest d = (if dr_settled d then d else d\<lparr>dr_settled := True, dr_request := Some False\<rparr>)"

definition closeRequest :: "downstream \<Rightarrow> downstream" where
  "closeRequest d = (if dr_ended d then d else failRequest d)"

text \<open>\<open>Promise.all\<close>: the first rejection decides, the answer needs both.\<close>

definition handlerOutcome :: "downstream \<Rightarrow> bool option" where
  "handlerOutcome d = (if dr_request d = Some False \<or> dr_update d = Some False then Some False
     else if dr_request d = Some True \<and> dr_update d = Some True then Some True else None)"

definition downstreamStep :: "downstream \<Rightarrow> request_event \<Rightarrow> downstream" where
  "downstreamStep d e = (if handlerOutcome d \<noteq> None \<or> e \<in> set (dr_fired d) then d
     else let f = d\<lparr>dr_fired := dr_fired d @ [e]\<rparr> in
       case e of
         RequestEnd \<Rightarrow> endRequest f
       | RequestClose \<Rightarrow> closeRequest f
       | RequestAborted \<Rightarrow> failRequest f
       | RequestError \<Rightarrow> failRequest f
       | UpdateSettled ok \<Rightarrow> if dr_update f = None then f\<lparr>dr_update := Some ok\<rparr> else f)"

definition topicDownstream :: "discovery \<Rightarrow> nat \<Rightarrow> string option \<Rightarrow> bool \<Rightarrow> string option \<Rightarrow> discovery \<times> (string + reply + downstream)" where
  "topicDownstream h source contentType cpm param =
    (let ct = (case contentType of Some ct \<Rightarrow> ct | None \<Rightarrow> []); i = (case param of Some i \<Rightarrow> i | None \<Rightarrow> []) in
     if \<not> isContentType ct then (h, Inr (Inl (Refused BAD_REQUEST invalidContentTypeMsg)))
     else if \<not> validateTopicId i then (h, Inr (Inl (Refused BAD_REQUEST invalidTopicIdMsg)))
     else case createTopicIfNotExist h i ct of
         Inl e \<Rightarrow> (h, Inl e)
       | Inr (h1, t, _) \<Rightarrow>
           if tp_contentType t \<noteq> ct then
             (h1, Inr (Inl (Refused UNSUPPORTED_MEDIA_TYPE (''Acceptable Content-Type for '' @ i @ '' is '' @ tp_contentType t))))
           else
             let h2 = changeTopic h1 i (\<lambda>t. acceptPipe t source) in
             (if cpm then h2 else update h2 (message (Some (tp_id t)) None (tp_id t) (Some ct) ''add''),
              Inr (Inr \<lparr>dr_settled = False, dr_ended = False, dr_request = None, dr_update = (if cpm then Some True else None), dr_fired = []\<rparr>)))"

section \<open>The audited map\<close>

datatype discovery_call =
    Post "(string option \<times> string option) option"
  | Delete "string option" bool
  | Upstream "string option" bool "string option"
  | Downstream nat "string option" bool "string option"
  | PipeOut string string nat bool bool
  | PipeIn nat string string
  | Connect connector
  | OnTopic string topic_event

definition discoveryStep :: "discovery \<Rightarrow> discovery_call \<Rightarrow> discovery" where
  "discoveryStep h c = (case c of
      Post body \<Rightarrow> fst (topicsPost h body)
    | Delete param ended \<Rightarrow> fst (deleteRequest h param ended)
    | Upstream ct cpm param \<Rightarrow> fst (topicUpstream h ct cpm param)
    | Downstream source ct cpm param \<Rightarrow> fst (topicDownstream h source ct cpm param)
    | PipeOut i ct target ended ok \<Rightarrow> (case routeTopicToStream h i ct target ended ok of Inl _ \<Rightarrow> h | Inr h1 \<Rightarrow> h1)
    | PipeIn source i ct \<Rightarrow> (case routeStreamToTopic h source i ct of Inl _ \<Rightarrow> h | Inr h1 \<Rightarrow> h1)
    | Connect x \<Rightarrow> h\<lparr>hd_connector := x\<rparr>
    | OnTopic i e \<Rightarrow> changeTopic h i (\<lambda>t. topicStep t e))"

text \<open>What a reader of the audits makes of them.\<close>

definition replayTopics :: "((string \<times> string) option \<times> string) list \<Rightarrow> (string, string \<times> string) jsmap" where
  "replayTopics = foldl (\<lambda>m (t, name). case t of Some x \<Rightarrow> jsSet m name x | None \<Rightarrow> jsDelete m name) []"

definition topicInventory :: "discovery \<Rightarrow> (string, string \<times> string) jsmap" where
  "topicInventory h = map (\<lambda>(i, t). (i, tp_id t, tp_contentType t)) (hd_topics h)"

definition audited :: "discovery \<Rightarrow> bool" where
  "audited h \<longleftrightarrow> replayTopics (hd_audits h) = topicInventory h \<and> list_all (\<lambda>e. tp_id (snd e) = fst e) (hd_topics h)"

lemma map_jsSet: "map (\<lambda>(k, v). (k, f v)) (jsSet m i x) = jsSet (map (\<lambda>(k, v). (k, f v)) m) i (f x)"
  by (induction m) auto

lemma map_jsDelete: "map (\<lambda>(k, v). (k, f v)) (jsDelete m i) = jsDelete (map (\<lambda>(k, v). (k, f v)) m) i"
  by (induction m) (auto simp: AList.delete_eq)

lemma jsSet_same: "jsGet m i = Some x \<Longrightarrow> jsSet m i x = m"
  by (induction m) (auto split: if_splits)

lemma inventory_set: "topicInventory (setTopic h i t) = jsSet (topicInventory h) i (tp_id t, tp_contentType t)"
  by (simp add: topicInventory_def setTopic_def auditTopic_def map_jsSet)

lemma inventory_get: "jsGet (topicInventory h) i = map_option (\<lambda>t. (tp_id t, tp_contentType t)) (jsGet (hd_topics h) i)"
  by (simp add: topicInventory_def map_of_map [unfolded comp_def, of "\<lambda>t. (tp_id t, tp_contentType t)"])

lemma replay_snoc: "replayTopics (as @ [(t, i)]) = (case t of Some x \<Rightarrow> jsSet (replayTopics as) i x | None \<Rightarrow> jsDelete (replayTopics as) i)"
  by (simp add: replayTopics_def split: option.split)

lemma audited_set: "audited h \<Longrightarrow> tp_id t = i \<Longrightarrow> audited (setTopic h i t)"
  unfolding audited_def inventory_set
  by (auto simp: setTopic_def auditTopic_def replay_snoc intro: list_all_jsSet)

lemma audited_fields: "hd_topics h' = hd_topics h \<Longrightarrow> hd_audits h' = hd_audits h \<Longrightarrow> audited h' = audited h"
  by (simp add: audited_def topicInventory_def)

lemma audited_send [simp]: "audited (sendTopicInfo h m) = audited h" "audited (update h m) = audited h"
  by (rule audited_fields; simp add: update_def sendTopicInfo_def)+

text \<open>What happens to a topic's streams changes neither its name nor its content type.\<close>

definition identity :: "topic \<Rightarrow> string \<times> string" where
  "identity t = (tp_id t, tp_contentType t)"

lemma identity_simps [simp]:
  "identity (updateState t) = identity t" "identity (startNextPipe t) = identity t" "identity (acknowledge t w ok) = identity t"
  "identity (t\<lparr>tp_queue := q\<rparr>) = identity t" "identity (t\<lparr>tp_active := a\<rparr>) = identity t" "identity (t\<lparr>tp_pendingIngress := pi\<rparr>) = identity t"
  "identity (t\<lparr>tp_needDrain := b\<rparr>) = identity t" "identity (t\<lparr>tp_pushed := ps\<rparr>) = identity t" "identity (t\<lparr>tp_pendingTransform := pt\<rparr>) = identity t"
  "identity (t\<lparr>tp_targets := g\<rparr>) = identity t" "identity (t\<lparr>tp_listeners := n\<rparr>) = identity t" "identity (t\<lparr>tp_paused := b\<rparr>) = identity t"
  "identity (t\<lparr>tp_errored := x\<rparr>) = identity t"
  by (simp_all add: identity_def updateState_def startNextPipe_def acknowledge_def split: list.split)

lemma identity_ingress [simp]:
  "identity (clearPendingIngress t b) = identity t" "identity (failPendingIngress t b) = identity t" "identity (flushPendingIngress t b ok) = identity t"
  "identity (acceptPipe t x) = identity t" "identity (pipeTopic t g b ok) = identity t"
  by (simp_all add: clearPendingIngress_def failPendingIngress_def flushPendingIngress_def acceptPipe_def pipeTopic_def Let_def
    split: option.split prod.split)

lemma identity_step [simp]: "identity (topicStep t e) = identity t"
  by (cases e) (simp_all add: topicStep_def pipeSettled_def transform_def holdFirstIngressChunk_def readTopic_def unpipeTopic_def sourceFailed_def
    resumeTopic_def pauseTopic_def destroyTopic_def Let_def split: option.split prod.split bool.split)

lemma audited_change:
  assumes "audited h" and "\<And>t. identity (f t) = identity t"
  shows "audited (changeTopic h i f)"
proof (cases "jsGet (hd_topics h) i")
  case (Some t)
  have f: "tp_id (f t) = tp_id t" "tp_contentType (f t) = tp_contentType t" using assms(2) [of t] by (simp_all add: identity_def)
  have "topicInventory (changeTopic h i f) = jsSet (topicInventory h) i (tp_id t, tp_contentType t)"
    by (simp add: changeTopic_def Some topicInventory_def map_jsSet f)
  also have "\<dots> = topicInventory h" by (rule jsSet_same) (simp add: inventory_get Some)
  finally have "topicInventory (changeTopic h i f) = topicInventory h" .
  moreover have "tp_id t = i" using assms(1) map_of_SomeD [OF Some] by (auto simp: audited_def list_all_iff)
  ultimately show ?thesis using assms(1) by (simp add: audited_def changeTopic_def Some list_all_jsSet f)
qed (simp add: changeTopic_def assms(1))

lemma audited_create: "audited h \<Longrightarrow> createTopicIfNotExist h i ct = Inr (h1, t, ct1) \<Longrightarrow> audited h1"
  by (auto simp: createTopicIfNotExist_def Let_def newTopic_def intro: audited_set split: option.splits if_splits)

lemma audited_delete: "audited h \<Longrightarrow> audited (fst (deleteHostTopic h i b))"
  by (auto simp: deleteHostTopic_def removeTopic_def audited_def topicInventory_def auditTopic_def sendTopicInfo_def replay_snoc map_jsDelete list_all_jsDelete
    split: option.split)

lemma audited_step:
  assumes "audited h"
  shows "audited (discoveryStep h c)"
proof (cases c)
  case (Post body)
  then show ?thesis using assms audited_create [OF assms]
    by (simp add: discoveryStep_def topicsPost_def Let_def split: sum.split prod.split)
next
  case (Delete param ended)
  then show ?thesis using assms audited_delete [OF assms]
    by (auto simp: discoveryStep_def deleteRequest_def Let_def split: bool.split prod.split) (metis fst_conv)+
next
  case (Upstream ct cpm param)
  then show ?thesis using assms audited_create [OF assms]
    by (auto simp: discoveryStep_def topicUpstream_def Let_def split: sum.split prod.split)
next
  case (Downstream source ct cpm param)
  have "audited (changeTopic h1 i (\<lambda>t. acceptPipe t source))" if "createTopicIfNotExist h i ct = Inr (h1, t, ct1)" for i ct h1 t ct1
    using audited_create [OF assms that] by (rule audited_change) simp
  then show ?thesis using Downstream assms audited_create [OF assms]
    by (auto simp: discoveryStep_def topicDownstream_def Let_def split: sum.split prod.split)
next
  case (PipeOut i ct target ended ok)
  then show ?thesis using assms audited_create [OF assms]
    by (auto simp: discoveryStep_def routeTopicToStream_def bindR_eq_Inr audited_change split: sum.split)
next
  case (PipeIn source i ct)
  then show ?thesis using assms audited_create [OF assms]
    by (auto simp: discoveryStep_def routeStreamToTopic_def bindR_eq_Inr audited_change split: sum.split)
next
  case (Connect x)
  then show ?thesis using assms audited_fields [of "h\<lparr>hd_connector := x\<rparr>" h] by (simp add: discoveryStep_def)
next
  case (OnTopic i e)
  then show ?thesis using assms by (simp add: discoveryStep_def audited_change)
qed

interpretation host_topics: invariant_machine discoveryStep audited
  by unfold_locales (rule audited_step)

definition newDiscoveryOf :: "string \<Rightarrow> discovery" where
  "newDiscoveryOf hostName = \<lparr>hd_hostName = hostName, hd_topics = [], hd_connector = NoConnector, hd_sent = [], hd_audits = []\<rparr>"

lemma audited_new: "audited (newDiscoveryOf hostName)"
  by (simp add: newDiscoveryOf_def audited_def replayTopics_def topicInventory_def)

section \<open>The outcome of a write request\<close>

text \<open>The first of its events decides the request, and the first answer the update.\<close>

fun requestVerdict :: "request_event list \<Rightarrow> bool option" where
  "requestVerdict [] = None"
| "requestVerdict (RequestEnd # es) = Some True"
| "requestVerdict (RequestClose # es) = Some False"
| "requestVerdict (RequestAborted # es) = Some False"
| "requestVerdict (RequestError # es) = Some False"
| "requestVerdict (UpdateSettled _ # es) = requestVerdict es"

fun updateVerdict :: "request_event list \<Rightarrow> bool option" where
  "updateVerdict [] = None"
| "updateVerdict (UpdateSettled ok # es) = Some ok"
| "updateVerdict (_ # es) = updateVerdict es"

definition bothFulfilled :: "bool option \<Rightarrow> bool option \<Rightarrow> bool option" where
  "bothFulfilled a b = (if a = Some False \<or> b = Some False then Some False else if a = Some True \<and> b = Some True then Some True else None)"

definition firstOf :: "'a option \<Rightarrow> 'a option \<Rightarrow> 'a option" where
  "firstOf a b = (case a of Some x \<Rightarrow> Some x | None \<Rightarrow> b)"

text \<open>A listener that has fired left its promise settled.\<close>

definition left_mark :: "downstream \<Rightarrow> request_event \<Rightarrow> bool" where
  "left_mark d e \<longleftrightarrow> (case e of UpdateSettled _ \<Rightarrow> dr_update d \<noteq> None | _ \<Rightarrow> dr_request d \<noteq> None)"

definition request_ok :: "downstream \<Rightarrow> bool" where
  "request_ok d \<longleftrightarrow> (dr_settled d \<longleftrightarrow> dr_request d \<noteq> None) \<and> (dr_ended d \<longrightarrow> dr_settled d) \<and> list_all (left_mark d) (dr_fired d)"

definition settled_mark :: "downstream \<Rightarrow> bool" where
  "settled_mark d \<longleftrightarrow> dr_settled d = (dr_request d \<noteq> None) \<and> (dr_ended d \<longrightarrow> dr_settled d)"

lemma mark_step: "settled_mark d \<Longrightarrow> settled_mark (downstreamStep d e)"
proof -
  have c: "settled_mark d \<Longrightarrow> settled_mark (endRequest d)" "settled_mark d \<Longrightarrow> settled_mark (failRequest d)"
    "settled_mark d \<Longrightarrow> settled_mark (d\<lparr>dr_fired := f\<rparr>)" "settled_mark d \<Longrightarrow> settled_mark (d\<lparr>dr_update := u\<rparr>)" for d f u
    by (auto simp: settled_mark_def endRequest_def completeRequest_def failRequest_def)
  assume "settled_mark d"
  then show ?thesis by (simp add: downstreamStep_def closeRequest_def Let_def c split: request_event.split)
qed

lemma downstream_once:
  assumes "request_ok d" and "handlerOutcome d = None"
  shows "dr_request (downstreamStep d e) = firstOf (dr_request d) (requestVerdict [e])"
    and "dr_update (downstreamStep d e) = firstOf (dr_update d) (updateVerdict [e])"
    and "dr_fired (downstreamStep d e) = (if e \<in> set (dr_fired d) then dr_fired d else dr_fired d @ [e])"
    and "dr_settled (downstreamStep d e) = (dr_request (downstreamStep d e) \<noteq> None)"
    and "dr_ended (downstreamStep d e) \<longrightarrow> dr_settled (downstreamStep d e)"
proof -
  have m: "left_mark d e" if "e \<in> set (dr_fired d)" using assms(1) that by (simp add: request_ok_def list_all_iff)
  have r: "dr_settled d = (dr_request d \<noteq> None)" "dr_ended d \<longrightarrow> dr_settled d"
    using assms(1) unfolding request_ok_def by blast+
  note defs = downstreamStep_def endRequest_def completeRequest_def closeRequest_def failRequest_def firstOf_def left_mark_def Let_def
  show "dr_request (downstreamStep d e) = firstOf (dr_request d) (requestVerdict [e])"
    using assms(2) m r by (cases e; cases "dr_request d"; auto simp: defs)
  show "dr_update (downstreamStep d e) = firstOf (dr_update d) (updateVerdict [e])"
    using assms(2) m by (cases e; cases "dr_update d"; auto simp: defs)
  show "dr_fired (downstreamStep d e) = (if e \<in> set (dr_fired d) then dr_fired d else dr_fired d @ [e])"
    using assms(2) by (cases e; simp add: defs)
  have mark: "settled_mark d" using r by (simp add: settled_mark_def)
  show "dr_settled (downstreamStep d e) = (dr_request (downstreamStep d e) \<noteq> None)"
    using mark_step [OF mark, of e] by (simp add: settled_mark_def)
  show "dr_ended (downstreamStep d e) \<longrightarrow> dr_settled (downstreamStep d e)"
    using mark_step [OF mark, of e] unfolding settled_mark_def by blast
qed

lemma downstream_keeps:
  assumes "request_ok d" and "handlerOutcome d = None"
  shows "request_ok (downstreamStep d e)"
proof -
  note s = downstream_once [OF assms, of e]
  have "left_mark (downstreamStep d e) f" if "left_mark d f \<or> f = e" for f
    using that by (cases f) (auto simp: left_mark_def s(1,2) firstOf_def split: option.split)
  then have "list_all (left_mark (downstreamStep d e)) (dr_fired (downstreamStep d e))"
    using assms(1) unfolding s(3) by (simp add: request_ok_def list_all_iff)
  then show ?thesis using s(4,5) by (simp add: request_ok_def)
qed

interpretation write_request: latch_machine downstreamStep handlerOutcome
  by unfold_locales (simp add: downstreamStep_def)

lemma verdict_Cons: "requestVerdict (e # es) = firstOf (requestVerdict [e]) (requestVerdict es)"
    "updateVerdict (e # es) = firstOf (updateVerdict [e]) (updateVerdict es)"
  by (cases e; simp add: firstOf_def)+

lemma firstOf_assoc: "firstOf (firstOf a b) c = firstOf a (firstOf b c)"
  by (simp add: firstOf_def split: option.split)

lemma downstream_run:
  "request_ok d \<Longrightarrow> handlerOutcome (foldl downstreamStep d es) =
     bothFulfilled (firstOf (dr_request d) (requestVerdict es)) (firstOf (dr_update d) (updateVerdict es))"
proof (induction es arbitrary: d)
  case Nil
  then show ?case by (simp add: handlerOutcome_def bothFulfilled_def firstOf_def split: option.split)
next
  case (Cons e es)
  show ?case
  proof (cases "handlerOutcome d")
    case None
    note s = downstream_once(1,2) [OF Cons.prems None, of e]
    show ?thesis using Cons.IH [OF downstream_keeps [OF Cons.prems None, of e]] verdict_Cons [of e es]
      by (simp add: s firstOf_assoc)
  next
    case (Some r)
    then have "handlerOutcome (foldl downstreamStep d (e # es)) = Some r" by (rule write_request.outcome_run)
    moreover have "bothFulfilled (firstOf (dr_request d) a) (firstOf (dr_update d) b) = Some r" for a b
      using Some by (cases "dr_request d"; cases "dr_update d") (simp_all add: handlerOutcome_def bothFulfilled_def firstOf_def split: if_splits)
    ultimately show ?thesis by simp
  qed
qed

section \<open>Properties\<close>

text \<open>C39: The inventory audits of the hub's topics replay to the topics there are: after any calls of the API and of the
  instances, with anything happening on the topics' streams, a reader who sets and deletes what the audits
  say has every topic, in the map's order, under its name and with its content type.\<close>

theorem topic_audits_replay:
  "replayTopics (hd_audits (foldl discoveryStep (newDiscoveryOf hostName) cs)) = topicInventory (foldl discoveryStep (newDiscoveryOf hostName) cs)
   \<and> list_all (\<lambda>e. tp_id (snd e) = fst e) (hd_topics (foldl discoveryStep (newDiscoveryOf hostName) cs))"
  using host_topics.inv_run [OF audited_new, of hostName cs] by (simp add: audited_def)

text \<open>A write request to a topic is answered by what happened first: once accepted, it succeeds exactly when its
  end came before a close, abort or error and (unless the manager sent it) the manager was told; it fails as
  soon as either went wrong, and it waits otherwise. When the events come relative to each other, in
  particular an end before the manager has answered, makes no difference.\<close>

theorem downstream_decided:
  assumes "topicDownstream h source contentType cpm param = (h1, Inr (Inr d))"
  shows "handlerOutcome (foldl downstreamStep d es) = bothFulfilled (requestVerdict es) (if cpm then Some True else updateVerdict es)"
proof -
  have d: "d = \<lparr>dr_settled = False, dr_ended = False, dr_request = None, dr_update = (if cpm then Some True else None), dr_fired = []\<rparr>"
    using assms by (simp add: topicDownstream_def Let_def split: if_splits sum.splits prod.splits)
  have "request_ok d" by (simp add: d request_ok_def)
  from downstream_run [OF this, of es] show ?thesis by (simp add: d firstOf_def)
qed

lemma downstream_decided_witness:
  "case topicDownstream (newDiscoveryOf ''hub'') 1 (Some ''text/plain'') False (Some ''t'') of
     (h1, Inr (Inr d)) \<Rightarrow> handlerOutcome (foldl downstreamStep d [RequestEnd, RequestClose, UpdateSettled True]) = Some True
       \<and> handlerOutcome (foldl downstreamStep d [RequestClose, RequestEnd]) = Some False
   | _ \<Rightarrow> False"
proof -
  have "\<exists>h1 d. topicDownstream (newDiscoveryOf ''hub'') 1 (Some ''text/plain'') False (Some ''t'') = (h1, Inr (Inr d))"
    by (simp add: topicDownstream_def newDiscoveryOf_def isContentType_def validateTopicId_def isTopicChar_def createTopicIfNotExist_def newTopic_def Let_def)
  then obtain h1 d where e: "topicDownstream (newDiscoveryOf ''hub'') 1 (Some ''text/plain'') False (Some ''t'') = (h1, Inr (Inr d))" by blast
  show ?thesis unfolding e using downstream_decided [OF e, of "[RequestEnd, RequestClose, UpdateSettled True]"] downstream_decided [OF e, of "[RequestClose, RequestEnd]"]
    by (simp add: bothFulfilled_def)
qed

text \<open>The handler's own check of the content type never fires: a topic with another one has already made the creation throw.\<close>

lemma created_content_type:
  "createTopicIfNotExist h i ct = Inr (h1, t, ct1) \<Longrightarrow> ct \<noteq> [] \<Longrightarrow> tp_contentType t = ct"
  by (auto simp: createTopicIfNotExist_def newTopic_def Let_def split: option.splits if_splits)

lemma downstream_never_unsupported:
  "snd (topicDownstream h source contentType cpm param) \<noteq> Inr (Inl (Refused UNSUPPORTED_MEDIA_TYPE m))"
proof -
  have "ct \<noteq> []" if "isContentType ct" for ct using that by (auto simp: isContentType_def)
  then show ?thesis unfolding topicDownstream_def Let_def
    by (auto split: sum.split prod.split dest!: created_content_type)
qed

end
