(* ===== verification/ManagerTopics.thy ===== *)
theory ManagerTopics
  imports Prelude
begin

text \<open>
  \<open>packages/manager/src/lib/service-discovery.ts\<close>: the topic multiplexer of the manager. Actors and streams
  are references (\<open>nat\<close>); \<open>sd_actors\<close> and \<open>sd_streams\<close> are the objects they refer to. An event of the
  machine is what the code does between two \<open>await\<close>s: a call of the manager, the close or error of a
  stream, the answer to a topic request, a turn of the update dispatcher. \<open>sd_tasks\<close> are the running
  \<open>connectoTo\<close> calls, which outlive a worker that failed, \<open>sd_groups\<close> the \<open>Promise.all\<close> of each provider.
  What the stream classes do on their own (the pipe that ends with its destination) is not shown.
\<close>

section \<open>State\<close>

datatype actor_role = PROVIDER | CONSUMER
datatype actor_type = HOST | API

record actor =
  ac_topic :: string
  ac_contentType :: string
  ac_type :: actor_type
  ac_role :: actor_role
  ac_host :: "string option"
  ac_stream :: "nat option"
  ac_handled :: bool
  ac_retired :: bool
  ac_discarding :: bool
  ac_listening :: nat

datatype stream_listener = OwnerOf nat | PipeSource nat | PipeTarget nat

record mstream =
  ms_listeners :: "stream_listener list"
  ms_pipes :: "nat list"
  ms_resumed :: bool
  ms_destroyed :: bool

record mtopic =
  mt_contentType :: string
  mt_actors :: "nat list"

record link =
  lk_provider :: nat
  lk_consumer :: nat
  lk_disconnected :: bool

datatype task_state = AwaitSource | AwaitTarget | TaskDone | TaskFailed

record task =
  tk_run :: nat
  tk_provider :: nat
  tk_consumer :: nat
  tk_state :: task_state

record sd =
  sd_actors :: "nat \<Rightarrow> actor"
  sd_count :: nat
  sd_streams :: "nat \<Rightarrow> mstream"
  sd_topics :: "(string, mtopic) jsmap"
  sd_updated :: "string list"
  sd_running :: bool
  sd_batch :: "string list"
  sd_worker :: "nat option"
  sd_runs :: nat
  sd_tasks :: "task list"
  sd_groups :: "((nat \<times> nat) \<times> bool) list"
  sd_links :: "link list"
  sd_requests :: "(string option \<times> actor_role \<times> string \<times> string) list"

definition newActor :: "string \<Rightarrow> actor_role \<Rightarrow> actor_type \<Rightarrow> string \<Rightarrow> string option \<Rightarrow> actor" where
  "newActor topic role type contentType host = \<lparr>ac_topic = topic, ac_contentType = contentType, ac_type = type, ac_role = role,
     ac_host = host, ac_stream = None, ac_handled = False, ac_retired = False, ac_discarding = False, ac_listening = 0\<rparr>"

definition newDiscovery :: sd where
  "newDiscovery = \<lparr>sd_actors = (\<lambda>_. newActor [] PROVIDER API [] None), sd_count = 0,
     sd_streams = (\<lambda>_. \<lparr>ms_listeners = [], ms_pipes = [], ms_resumed = False, ms_destroyed = False\<rparr>),
     sd_topics = [], sd_updated = [], sd_running = False, sd_batch = [], sd_worker = None, sd_runs = 0, sd_tasks = [], sd_groups = [],
     sd_links = [], sd_requests = []\<rparr>"

abbreviation actorOf :: "sd \<Rightarrow> nat \<Rightarrow> actor" where
  "actorOf s a \<equiv> sd_actors s a"

definition setActor :: "sd \<Rightarrow> nat \<Rightarrow> (actor \<Rightarrow> actor) \<Rightarrow> sd" where
  "setActor s a f = s\<lparr>sd_actors := (sd_actors s)(a := f (sd_actors s a))\<rparr>"

definition setStream :: "sd \<Rightarrow> nat \<Rightarrow> (mstream \<Rightarrow> mstream) \<Rightarrow> sd" where
  "setStream s x f = s\<lparr>sd_streams := (sd_streams s)(x := f (sd_streams s x))\<rparr>"

definition listen :: "sd \<Rightarrow> nat \<Rightarrow> stream_listener \<Rightarrow> sd" where
  "listen s x l = setStream s x (ms_listeners_update (\<lambda>ls. ls @ [l]))"

definition setHandled :: "bool \<Rightarrow> sd \<Rightarrow> nat \<Rightarrow> sd" where
  "setHandled b s a = setActor s a (ac_handled_update (\<lambda>_. b))"

definition retire :: "sd \<Rightarrow> nat \<Rightarrow> sd" where
  "retire s a = setActor s a (ac_retired_update (\<lambda>_. True))"

section \<open>The update dispatcher\<close>

definition runTopicUpdate :: "sd \<Rightarrow> sd" where
  "runTopicUpdate s = (if sd_running s \<or> sd_updated s = [] then s
     else s\<lparr>sd_running := True, sd_batch := sd_updated s, sd_updated := []\<rparr>)"

definition onTopicUpdate :: "sd \<Rightarrow> string \<Rightarrow> sd" where
  "onTopicUpdate s t = runTopicUpdate (s\<lparr>sd_updated := jsAdd (sd_updated s) t\<rparr>)"

definition onUpdate :: "sd \<Rightarrow> sd" where
  "onUpdate s = foldl onTopicUpdate s (jsKeys (sd_topics s))"

text \<open>\<open>actor.emit("update")\<close>: every registration of the actor installed a handler.\<close>

definition emitUpdate :: "sd \<Rightarrow> nat \<Rightarrow> sd" where
  "emitUpdate s a = (onUpdate ^^ ac_listening (actorOf s a)) s"

section \<open>Actors\<close>

definition addStream :: "sd \<Rightarrow> nat \<Rightarrow> nat \<Rightarrow> sd" where
  "addStream s a x = listen (setActor s a (ac_stream_update (\<lambda>_. Some x))) x (OwnerOf a)"

definition sameHost :: "sd \<Rightarrow> nat \<Rightarrow> nat \<Rightarrow> bool" where
  "sameHost s p c \<longleftrightarrow> ac_type (actorOf s p) = HOST \<and> ac_type (actorOf s c) = HOST \<and> ac_host (actorOf s p) = ac_host (actorOf s c)"

text \<open>A hub is asked for a stream of the topic of the target, in the direction of the actor's role.\<close>

definition requestStream :: "sd \<Rightarrow> nat \<Rightarrow> nat \<Rightarrow> sd" where
  "requestStream s a target = s\<lparr>sd_requests := sd_requests s @
     [(ac_host (actorOf s a), ac_role (actorOf s a), ac_topic (actorOf s target), ac_contentType (actorOf s a))]\<rparr>"

definition needsStream :: "sd \<Rightarrow> nat \<Rightarrow> bool" where
  "needsStream s a \<longleftrightarrow> ac_type (actorOf s a) = HOST \<and> ac_stream (actorOf s a) = None"

definition pipeActors :: "sd \<Rightarrow> nat \<Rightarrow> nat \<Rightarrow> sd" where
  "pipeActors s p c = (case (ac_stream (actorOf s p), ac_stream (actorOf s c)) of
      (Some x, Some y) \<Rightarrow>
        let l = length (sd_links s);
            s1 = s\<lparr>sd_links := sd_links s @ [\<lparr>lk_provider = p, lk_consumer = c, lk_disconnected = False\<rparr>]\<rparr>;
            s2 = listen (listen s1 x (PipeSource l)) y (PipeTarget l)
        in setStream s2 x (ms_pipes_update (\<lambda>ps. ps @ [y]))
    | _ \<Rightarrow> s)"

definition connectTarget :: "sd \<Rightarrow> nat \<Rightarrow> nat \<Rightarrow> sd \<times> task_state" where
  "connectTarget s p c = (if needsStream s c then (requestStream s c c, AwaitTarget) else (pipeActors s p c, TaskDone))"

definition connectoTo :: "sd \<Rightarrow> nat \<Rightarrow> nat \<Rightarrow> sd \<times> task_state" where
  "connectoTo s p c = (if sameHost s p c then (s, TaskDone)
     else if needsStream s p then (requestStream s p c, AwaitSource) else connectTarget s p c)"

text \<open>The first match of a pipe is taken off, as \<open>unpipe\<close> does.\<close>

definition disconnect :: "sd \<Rightarrow> nat \<Rightarrow> sd" where
  "disconnect s l = (let lk = sd_links s ! l; s1 = setHandled False s (lk_provider lk) in
     if lk_disconnected lk then s1
     else
       let s2 = s1\<lparr>sd_links := (sd_links s1)[l := lk\<lparr>lk_disconnected := True\<rparr>]\<rparr> in
       (case (ac_stream (actorOf s2 (lk_provider lk)), ac_stream (actorOf s2 (lk_consumer lk))) of
          (Some x, Some y) \<Rightarrow> setStream s2 x (ms_pipes_update (remove1 y))
        | _ \<Rightarrow> s2))"

definition closeListener :: "sd \<Rightarrow> stream_listener \<Rightarrow> sd" where
  "closeListener s h = (case h of
      OwnerOf a \<Rightarrow> emitUpdate (retire s a) a
    | PipeSource l \<Rightarrow> disconnect s l
    | PipeTarget l \<Rightarrow> emitUpdate (retire (disconnect s l) (lk_consumer (sd_links s ! l))) (lk_provider (sd_links s ! l)))"

definition errorListener :: "sd \<Rightarrow> stream_listener \<Rightarrow> sd" where
  "errorListener s h = (case h of
      OwnerOf a \<Rightarrow> emitUpdate (retire s a) a
    | PipeSource l \<Rightarrow> emitUpdate (retire (disconnect s l) (lk_provider (sd_links s ! l))) (lk_provider (sd_links s ! l))
    | PipeTarget l \<Rightarrow> s)"

section \<open>Topics\<close>

definition exists_topic :: "sd \<Rightarrow> string \<Rightarrow> bool" where
  "exists_topic s t = jsHas (sd_topics s) t"

definition deleteTopic :: "sd \<Rightarrow> string \<Rightarrow> sd \<times> bool" where
  "deleteTopic s t = (case jsGet (sd_topics s) t of
      None \<Rightarrow> (s, False)
    | Some tp \<Rightarrow>
        (onTopicUpdate (foldl (\<lambda>s a. case ac_stream (actorOf s a) of
             None \<Rightarrow> retire s a
           | Some x \<Rightarrow> setStream (retire s a) x (ms_destroyed_update (\<lambda>_. True))) s (mt_actors tp)) t, True))"

definition createTopic :: "sd \<Rightarrow> string \<Rightarrow> string \<Rightarrow> string + sd" where
  "createTopic s t contentType = (case jsGet (sd_topics s) t of
      Some tp \<Rightarrow> if mt_contentType tp \<noteq> contentType then Inl ''TOPIC_CONTENT_TYPE_MISMATCH'' else Inr s
    | None \<Rightarrow> Inr (s\<lparr>sd_topics := jsSet (sd_topics s) t \<lparr>mt_contentType = contentType, mt_actors = []\<rparr>\<rparr>))"

definition findRole :: "sd \<Rightarrow> actor_role \<Rightarrow> string \<Rightarrow> nat list" where
  "findRole s role t = (case jsGet (sd_topics s) t of
      Some tp \<Rightarrow> filter (\<lambda>a. ac_role (actorOf s a) = role) (mt_actors tp)
    | None \<Rightarrow> [])"

definition hostRegistered :: "sd \<Rightarrow> nat \<Rightarrow> bool" where
  "hostRegistered s a = list_ex (\<lambda>b. sameHost s a b) (findRole s (ac_role (actorOf s a)) (ac_topic (actorOf s a)))"

definition pushActor :: "sd \<Rightarrow> string \<Rightarrow> nat \<Rightarrow> sd" where
  "pushActor s t a = (case jsGet (sd_topics s) t of
      Some tp \<Rightarrow> s\<lparr>sd_topics := jsSet (sd_topics s) t (tp\<lparr>mt_actors := mt_actors tp @ [a]\<rparr>)\<rparr>
    | None \<Rightarrow> s)"

definition register :: "sd \<Rightarrow> nat \<Rightarrow> string \<Rightarrow> string + sd" where
  "register s a contentType =
    (let t = ac_topic (actorOf s a); ct = ac_contentType (actorOf s a) in
     bindR (createTopic s t (if ct = [] then contentType else ct))
       (\<lambda>s1. let s2 = setActor s1 a (ac_listening_update Suc) in
          Inr (onTopicUpdate (if hostRegistered s2 a then s2 else pushActor s2 t a) t)))"

definition unregister :: "sd \<Rightarrow> nat \<Rightarrow> sd" where
  "unregister s a = onTopicUpdate (retire s a) (ac_topic (actorOf s a))"

text \<open>\<open>list\<close>: name, content type and, per actor, role, type, whether it has a stream, its hub and whether it is retired.\<close>

definition listTopics :: "sd \<Rightarrow> (string \<times> string \<times> (actor_role \<times> actor_type \<times> bool \<times> string option \<times> bool) list) list" where
  "listTopics s = map (\<lambda>(t, tp). (t, mt_contentType tp,
     map (\<lambda>a. let x = actorOf s a in (ac_role x, ac_type x, ac_stream x \<noteq> None, ac_host x, ac_retired x)) (mt_actors tp))) (sd_topics s)"

section \<open>The worker\<close>

definition discardProvider :: "sd \<Rightarrow> nat \<Rightarrow> sd" where
  "discardProvider s p = (case ac_stream (actorOf s p) of
      None \<Rightarrow> s
    | Some x \<Rightarrow> setStream (setActor s p (ac_discarding_update (\<lambda>_. True))) x (ms_resumed_update (\<lambda>_. True)))"

definition connectPair :: "nat \<Rightarrow> sd \<Rightarrow> nat \<times> nat \<Rightarrow> sd" where
  "connectPair r s pc = (case pc of (p, c) \<Rightarrow>
     let (s1, st) = (if ac_handled (actorOf s p) \<and> ac_handled (actorOf s c) then (s, TaskDone) else connectoTo (setHandled True s c) p c)
     in s1\<lparr>sd_tasks := sd_tasks s1 @ [\<lparr>tk_run = r, tk_provider = p, tk_consumer = c, tk_state = st\<rparr>]\<rparr>)"

definition connectAll :: "sd \<Rightarrow> nat list \<Rightarrow> nat list \<Rightarrow> sd" where
  "connectAll s providers consumers = (let r = sd_runs s in
     foldl (connectPair r)
       (s\<lparr>sd_runs := r + 1, sd_worker := Some r, sd_groups := sd_groups s @ map (\<lambda>p. ((r, p), False)) providers\<rparr>)
       (List.product providers consumers))"

definition onTopicUpdateWorker :: "sd \<Rightarrow> string \<Rightarrow> sd" where
  "onTopicUpdateWorker s t = (case jsGet (sd_topics s) t of
      None \<Rightarrow> s
    | Some tp \<Rightarrow>
        let hadRetired = list_ex (\<lambda>a. ac_role (actorOf s a) = PROVIDER \<and> ac_retired (actorOf s a)) (mt_actors tp);
            actors = filter (\<lambda>a. \<not> ac_retired (actorOf s a)) (mt_actors tp);
            s1 = s\<lparr>sd_topics := jsSet (sd_topics s) t (tp\<lparr>mt_actors := actors\<rparr>)\<rparr>
        in if actors = [] then s1\<lparr>sd_topics := jsDelete (sd_topics s1) t\<rparr>
           else
             let providers = findRole s1 PROVIDER t;
                 consumers = findRole s1 CONSUMER t;
                 s2 = (if consumers = [] then foldl discardProvider s1 providers else s1);
                 s3 = (if hadRetired then foldl (setHandled False) s2 consumers else s2)
             in connectAll s3 providers consumers)"

section \<open>Turns of the event loop\<close>

text \<open>The next topic of the batch; after the last one, the dispatcher looks for new updates.\<close>

definition nextTopic :: "sd \<Rightarrow> sd" where
  "nextTopic s = (if \<not> sd_running s \<or> sd_worker s \<noteq> None then s
     else case sd_batch s of
         [] \<Rightarrow> runTopicUpdate (s\<lparr>sd_running := False\<rparr>)
       | t # ts \<Rightarrow> onTopicUpdateWorker (s\<lparr>sd_batch := ts\<rparr>) t)"

text \<open>The worker has settled when each provider's calls have, or as soon as one call failed.\<close>

definition finishRun :: "sd \<Rightarrow> sd" where
  "finishRun s = (case sd_worker s of
      None \<Rightarrow> s
    | Some r \<Rightarrow>
        if list_all (\<lambda>g. fst (fst g) = r \<longrightarrow> snd g) (sd_groups s) \<or> list_ex (\<lambda>k. tk_run k = r \<and> tk_state k = TaskFailed) (sd_tasks s)
        then s\<lparr>sd_worker := None\<rparr> else s)"

text \<open>All calls of a provider have succeeded.\<close>

definition settleGroup :: "sd \<Rightarrow> nat \<Rightarrow> sd" where
  "settleGroup s g = (if g < length (sd_groups s) then
      (case sd_groups s ! g of ((r, p), done) \<Rightarrow>
         if \<not> done \<and> list_all (\<lambda>k. tk_run k = r \<and> tk_provider k = p \<longrightarrow> tk_state k = TaskDone) (sd_tasks s)
         then setHandled True (s\<lparr>sd_groups := (sd_groups s)[g := ((r, p), True)]\<rparr>) p else s)
    else s)"

definition setTask :: "sd \<Rightarrow> nat \<Rightarrow> task_state \<Rightarrow> sd" where
  "setTask s k st = s\<lparr>sd_tasks := (sd_tasks s)[k := (sd_tasks s ! k)\<lparr>tk_state := st\<rparr>]\<rparr>"

text \<open>The hub has answered a topic request with a stream, or the request has failed.\<close>

definition requestResolved :: "sd \<Rightarrow> nat \<Rightarrow> nat \<Rightarrow> sd" where
  "requestResolved s k x = (if k < length (sd_tasks s) then
      let p = tk_provider (sd_tasks s ! k); c = tk_consumer (sd_tasks s ! k) in
      (case tk_state (sd_tasks s ! k) of
         AwaitSource \<Rightarrow> (let (s1, st) = connectTarget (addStream s p x) p c in setTask s1 k st)
       | AwaitTarget \<Rightarrow> setTask (pipeActors (addStream s c x) p c) k TaskDone
       | _ \<Rightarrow> s)
    else s)"

definition requestRejected :: "sd \<Rightarrow> nat \<Rightarrow> sd" where
  "requestRejected s k = (if k < length (sd_tasks s) \<and> tk_state (sd_tasks s ! k) \<in> {AwaitSource, AwaitTarget}
     then setTask s k TaskFailed else s)"

datatype sd_event =
    RegisterHost string actor_role string string
  | RegisterApi string actor_role string nat
  | Unregister nat
  | ApiClosed nat
  | DeleteTopic string
  | UpdateAll
  | StreamClosed nat
  | StreamFailed nat
  | RequestResolved nat nat
  | RequestRejected nat
  | SettleGroup nat
  | FinishRun
  | NextTopic

text \<open>\<open>new TopicActor(...)\<close>\<close>

definition createActor :: "sd \<Rightarrow> actor \<Rightarrow> sd" where
  "createActor s x = setActor (s\<lparr>sd_count := sd_count s + 1\<rparr>) (sd_count s) (\<lambda>_. x)"

definition registered :: "sd \<Rightarrow> nat \<Rightarrow> string \<Rightarrow> sd" where
  "registered s a contentType = (case register s a contentType of Inl _ \<Rightarrow> s | Inr s1 \<Rightarrow> s1)"

definition sdStep :: "sd \<Rightarrow> sd_event \<Rightarrow> sd" where
  "sdStep s e = (case e of
      RegisterHost t role ct host \<Rightarrow> registered (createActor s (newActor t role HOST ct (Some host))) (sd_count s) ct
    | RegisterApi t role ct x \<Rightarrow> registered (addStream (createActor s (newActor t role API ct None)) (sd_count s) x) (sd_count s) ct
    | Unregister a \<Rightarrow> if a < sd_count s then unregister s a else s
    | ApiClosed a \<Rightarrow> if a < sd_count s then onUpdate (retire s a) else s
    | DeleteTopic t \<Rightarrow> fst (deleteTopic s t)
    | UpdateAll \<Rightarrow> onUpdate s
    | StreamClosed x \<Rightarrow> foldl closeListener s (ms_listeners (sd_streams s x))
    | StreamFailed x \<Rightarrow> foldl errorListener s (ms_listeners (sd_streams s x))
    | RequestResolved k x \<Rightarrow> requestResolved s k x
    | RequestRejected k \<Rightarrow> requestRejected s k
    | SettleGroup g \<Rightarrow> settleGroup s g
    | FinishRun \<Rightarrow> finishRun s
    | NextTopic \<Rightarrow> nextTopic s)"

section \<open>What the steps leave alone\<close>

text \<open>The part of the state the register of topics and the dispatcher rest on: wiring streams never touches it.\<close>

definition core :: "sd \<Rightarrow> (string, mtopic) jsmap \<times> string list \<times> bool \<times> string list \<times> nat \<times>
    (nat \<Rightarrow> string \<times> string \<times> actor_type \<times> actor_role \<times> string option \<times> bool \<times> nat)" where
  "core s = (sd_topics s, sd_updated s, sd_running s, sd_batch s, sd_count s,
     \<lambda>a. let x = actorOf s a in (ac_topic x, ac_contentType x, ac_type x, ac_role x, ac_host x, ac_retired x, ac_listening x))"

lemma core_D:
  assumes "core s' = core s"
  shows "sd_topics s' = sd_topics s" "sd_updated s' = sd_updated s" "sd_running s' = sd_running s" "sd_batch s' = sd_batch s"
    "sd_count s' = sd_count s" "ac_topic (actorOf s' a) = ac_topic (actorOf s a)" "ac_contentType (actorOf s' a) = ac_contentType (actorOf s a)"
    "ac_type (actorOf s' a) = ac_type (actorOf s a)" "ac_role (actorOf s' a) = ac_role (actorOf s a)" "ac_host (actorOf s' a) = ac_host (actorOf s a)"
    "ac_retired (actorOf s' a) = ac_retired (actorOf s a)" "ac_listening (actorOf s' a) = ac_listening (actorOf s a)"
  using assms by (auto simp: core_def Let_def dest: fun_cong [where x = a])

lemma setActor_fields [simp]:
  "sd_topics (setActor s a f) = sd_topics s" "sd_updated (setActor s a f) = sd_updated s" "sd_running (setActor s a f) = sd_running s"
  "sd_batch (setActor s a f) = sd_batch s" "sd_count (setActor s a f) = sd_count s" "sd_links (setActor s a f) = sd_links s"
  "sd_streams (setActor s a f) = sd_streams s" "sd_tasks (setActor s a f) = sd_tasks s"
  "actorOf (setActor s a f) b = (if b = a then f (actorOf s a) else actorOf s b)"
  by (simp_all add: setActor_def)

lemma setStream_fields [simp]:
  "sd_links (setStream s x f) = sd_links s" "sd_tasks (setStream s x f) = sd_tasks s" "sd_actors (setStream s x f) = sd_actors s"
  "sd_streams (setStream s x f) y = (if y = x then f (sd_streams s x) else sd_streams s y)"
  by (simp_all add: setStream_def)

lemma core_setActor:
  assumes "\<And>x. ac_topic (f x) = ac_topic x \<and> ac_contentType (f x) = ac_contentType x \<and> ac_type (f x) = ac_type x \<and> ac_role (f x) = ac_role x
    \<and> ac_host (f x) = ac_host x \<and> ac_retired (f x) = ac_retired x \<and> ac_listening (f x) = ac_listening x"
  shows "core (setActor s a f) = core s"
  using assms by (simp add: core_def Let_def fun_eq_iff)

lemma core_updates [simp]:
  "core (setStream s x f) = core s" "core (listen s x h) = core s" "core (setHandled b s a) = core s" "core (addStream s a x) = core s"
  "core (requestStream s a t) = core s" "core (setTask s k st) = core s" "core (s\<lparr>sd_links := ls\<rparr>) = core s" "core (s\<lparr>sd_tasks := ts\<rparr>) = core s"
  "core (s\<lparr>sd_groups := gs\<rparr>) = core s" "core (s\<lparr>sd_worker := w\<rparr>) = core s" "core (s\<lparr>sd_runs := r\<rparr>) = core s"
proof -
  have stream: "core (setStream s x f) = core s" for s x f by (simp add: core_def setStream_def)
  then show "core (setStream s x f) = core s" .
  show "core (listen s x h) = core s" unfolding listen_def by (rule stream)
  show "core (setHandled b s a) = core s" unfolding setHandled_def by (rule core_setActor) simp
  have "core (setActor s a (ac_stream_update (\<lambda>_. Some x))) = core s" by (rule core_setActor) simp
  then show "core (addStream s a x) = core s" unfolding addStream_def listen_def stream .
qed (simp_all add: core_def requestStream_def setTask_def)

lemma core_pipe [simp]: "core (pipeActors s p c) = core s"
  by (simp add: pipeActors_def Let_def split: option.split)

lemma core_disconnect [simp]: "core (disconnect s l) = core s"
proof -
  have "core ((setHandled False s p)\<lparr>sd_links := ls\<rparr>) = core s" for p ls by simp
  then show ?thesis by (simp only: disconnect_def Let_def core_updates split: option.split if_split prod.split) simp
qed

lemma core_discard [simp]: "core (discardProvider s p) = core s"
proof -
  have "core (setActor s p (ac_discarding_update (\<lambda>_. True))) = core s" by (rule core_setActor) simp
  then show ?thesis by (simp add: discardProvider_def split: option.split)
qed

lemma core_connect [simp]: "core (fst (connectTarget s p c)) = core s" "core (fst (connectoTo s p c)) = core s"
  by (simp_all add: connectTarget_def connectoTo_def)

lemma core_pair [simp]: "core (connectPair r s pc) = core s"
  by (simp add: connectPair_def Let_def split_beta)

lemma core_foldl: "(\<And>s x. core (f s x) = core s) \<Longrightarrow> core (foldl f s xs) = core s"
  by (induction xs arbitrary: s) simp_all

lemma core_connectAll [simp]: "core (connectAll s ps cs) = core s"
  by (simp add: connectAll_def Let_def core_foldl)

section \<open>The register of topics\<close>

text \<open>Every actor of a topic is an actor for that topic and its content type, and a hub appears at most once
  in each role.\<close>

definition member_ok :: "sd \<Rightarrow> string \<Rightarrow> mtopic \<Rightarrow> nat \<Rightarrow> bool" where
  "member_ok s t tp a \<longleftrightarrow> a < sd_count s \<and> ac_topic (actorOf s a) = t \<and> 0 < ac_listening (actorOf s a) \<and>
     (ac_contentType (actorOf s a) = [] \<or> ac_contentType (actorOf s a) = mt_contentType tp)"

definition topic_ok :: "sd \<Rightarrow> string \<Rightarrow> mtopic \<Rightarrow> bool" where
  "topic_ok s t tp \<longleftrightarrow> distinct (mt_actors tp) \<and> (\<forall>a \<in> set (mt_actors tp). member_ok s t tp a) \<and>
     (\<forall>a \<in> set (mt_actors tp). \<forall>b \<in> set (mt_actors tp). sameHost s a b \<longrightarrow> ac_role (actorOf s a) = ac_role (actorOf s b) \<longrightarrow> a = b)"

definition members :: "sd \<Rightarrow> bool" where
  "members s \<longleftrightarrow> jsmap_ok (sd_topics s) \<and> (\<forall>t tp. jsGet (sd_topics s) t = Some tp \<longrightarrow> topic_ok s t tp)"

text \<open>Actors keep what they were created with, and new ones are added behind them.\<close>

definition extends :: "sd \<Rightarrow> sd \<Rightarrow> bool" where
  "extends s s' \<longleftrightarrow> sd_count s \<le> sd_count s' \<and> (\<forall>a < sd_count s.
     ac_topic (actorOf s' a) = ac_topic (actorOf s a) \<and> ac_contentType (actorOf s' a) = ac_contentType (actorOf s a) \<and>
     ac_type (actorOf s' a) = ac_type (actorOf s a) \<and> ac_role (actorOf s' a) = ac_role (actorOf s a) \<and>
     ac_host (actorOf s' a) = ac_host (actorOf s a) \<and> ac_listening (actorOf s a) \<le> ac_listening (actorOf s' a))"

lemma extends_core:
  assumes "core s' = core s"
  shows "extends s s'"
  by (simp add: extends_def core_D [OF assms])

lemma extends_actors: "sd_actors s' = sd_actors s \<Longrightarrow> sd_count s' = sd_count s \<Longrightarrow> extends s s'"
  by (simp add: extends_def)

lemma extends_retire: "extends s (retire s a)"
  by (simp add: extends_def retire_def)

lemma extends_trans:
  assumes "extends s s'" and "extends s' s''"
  shows "extends s s''"
proof -
  have lt: "a < sd_count s'" if "a < sd_count s" for a using assms(1) that by (simp add: extends_def)
  have "ac_listening (actorOf s a) \<le> ac_listening (actorOf s'' a)" if "a < sd_count s" for a
    by (rule order_trans [of _ "ac_listening (actorOf s' a)"]) (use assms that lt in \<open>simp_all add: extends_def\<close>)
  with lt show ?thesis using assms by (simp add: extends_def)
qed

lemma extends_sameHost: "extends s s' \<Longrightarrow> a < sd_count s \<Longrightarrow> b < sd_count s \<Longrightarrow> sameHost s' a b = sameHost s a b"
  by (simp add: extends_def sameHost_def)

lemma extends_role: "extends s s' \<Longrightarrow> a < sd_count s \<Longrightarrow> ac_role (actorOf s' a) = ac_role (actorOf s a)"
  by (simp add: extends_def)

lemma member_extends: "extends s s' \<Longrightarrow> member_ok s t tp a \<Longrightarrow> member_ok s' t tp a"
  unfolding extends_def member_ok_def by (metis order_less_le_trans)

lemma topic_extends:
  assumes "extends s s'" and "topic_ok s t tp"
  shows "topic_ok s' t tp"
proof -
  have "a < sd_count s" if "a \<in> set (mt_actors tp)" for a
    using assms(2) that by (simp add: topic_ok_def member_ok_def)
  then show ?thesis using assms(2) member_extends [OF assms(1)] extends_sameHost [OF assms(1)] extends_role [OF assms(1)]
    unfolding topic_ok_def by metis
qed

lemma members_extends: "extends s s' \<Longrightarrow> sd_topics s' = sd_topics s \<Longrightarrow> members s \<Longrightarrow> members s'"
  by (simp add: members_def topic_extends)

lemma members_core:
  assumes "core s' = core s"
  shows "members s \<Longrightarrow> members s'"
  by (rule members_extends [OF extends_core [OF assms] core_D(1) [OF assms]])

lemma members_D: "members s \<Longrightarrow> jsGet (sd_topics s) t = Some tp \<Longrightarrow> topic_ok s t tp"
  by (simp add: members_def)

text \<open>A topic may be replaced by one with fewer actors, or dropped.\<close>

lemma members_filter:
  "members s \<Longrightarrow> jsGet (sd_topics s) t = Some tp \<Longrightarrow> members (s\<lparr>sd_topics := jsSet (sd_topics s) t (tp\<lparr>mt_actors := filter P (mt_actors tp)\<rparr>)\<rparr>)"
  by (auto simp: members_def topic_ok_def member_ok_def sameHost_def js_simps)

lemma members_drop: "members s \<Longrightarrow> members (s\<lparr>sd_topics := jsDelete (sd_topics s) t\<rparr>)"
  by (auto simp: members_def topic_ok_def member_ok_def sameHost_def js_simps)

section \<open>The dispatcher\<close>

text \<open>A topic with a retired actor or without actors is due for an update. While the dispatcher is idle nothing is.\<close>

definition stale :: "sd \<Rightarrow> string \<Rightarrow> bool" where
  "stale s t \<longleftrightarrow> (case jsGet (sd_topics s) t of
     None \<Rightarrow> False
   | Some tp \<Rightarrow> mt_actors tp = [] \<or> list_ex (\<lambda>a. ac_retired (actorOf s a)) (mt_actors tp))"

definition due :: "sd \<Rightarrow> string \<Rightarrow> bool" where
  "due s t \<longleftrightarrow> t \<in> set (sd_updated s) \<or> t \<in> set (sd_batch s)"

definition idle_ok :: "sd \<Rightarrow> bool" where
  "idle_ok s \<longleftrightarrow> (sd_running s \<or> sd_updated s = [] \<and> sd_batch s = [])"

definition live :: "sd \<Rightarrow> bool" where
  "live s \<longleftrightarrow> idle_ok s \<and> (\<forall>t. stale s t \<longrightarrow> due s t)"

lemma live_core:
  assumes "core s' = core s" and "live s"
  shows "live s'"
proof -
  have "stale s' t = stale s t" for t unfolding stale_def core_D(1,11) [OF assms(1)] ..
  then show ?thesis using assms(2) by (simp add: live_def idle_ok_def due_def core_D(2-4) [OF assms(1)])
qed

lemma stale_cong:
  "jsGet (sd_topics s') t = jsGet (sd_topics s) t \<Longrightarrow> (\<And>a. ac_retired (actorOf s' a) = ac_retired (actorOf s a)) \<Longrightarrow> stale s' t = stale s t"
  by (simp add: stale_def split: option.split)

lemma stale_eq: "sd_topics s' = sd_topics s \<Longrightarrow> sd_actors s' = sd_actors s \<Longrightarrow> stale s' t = stale s t"
  by (rule stale_cong) simp_all

text \<open>What an update leaves alone: everything but the sets of topics to work on.\<close>

definition parts :: "sd \<Rightarrow> (string, mtopic) jsmap \<times> (nat \<Rightarrow> actor) \<times> nat \<times> link list \<times> task list \<times> (nat \<Rightarrow> mstream)" where
  "parts s = (sd_topics s, sd_actors s, sd_count s, sd_links s, sd_tasks s, sd_streams s)"

lemma parts_D:
  "parts s' = parts s \<Longrightarrow> sd_topics s' = sd_topics s \<and> sd_actors s' = sd_actors s \<and> sd_count s' = sd_count s \<and> sd_links s' = sd_links s \<and>
     sd_tasks s' = sd_tasks s \<and> sd_streams s' = sd_streams s"
  by (simp add: parts_def)

lemma parts_onTopicUpdate: "parts (onTopicUpdate s t) = parts s"
  by (simp add: parts_def onTopicUpdate_def runTopicUpdate_def)

lemma parts_foldl: "parts (foldl onTopicUpdate s ts) = parts s"
  by (induction ts arbitrary: s) (simp_all add: parts_onTopicUpdate)

lemma parts_onUpdate: "parts (onUpdate s) = parts s"
  by (simp add: onUpdate_def parts_foldl)

lemma parts_emit: "parts (emitUpdate s a) = parts s"
proof -
  have "parts ((onUpdate ^^ n) s) = parts s" for n by (induction n) (simp_all add: parts_onUpdate)
  then show ?thesis unfolding emitUpdate_def .
qed

lemmas onTopicUpdate_fields [simp] = parts_D [OF parts_onTopicUpdate]
lemmas onUpdate_fields [simp] = parts_D [OF parts_onUpdate]
lemmas emitUpdate_fields [simp] = parts_D [OF parts_emit]

lemma stale_updates [simp]: "stale (onTopicUpdate s u) t = stale s t" "stale (onUpdate s) t = stale s t" "stale (emitUpdate s a) t = stale s t"
  by (rule stale_eq; simp)+

lemma due_onTopicUpdate:
  "idle_ok s \<Longrightarrow> idle_ok (onTopicUpdate s t) \<and> (due (onTopicUpdate s t) u \<longleftrightarrow> u = t \<or> due s u)"
  by (auto simp: onTopicUpdate_def runTopicUpdate_def idle_ok_def due_def jsAdd_def)

lemma foldl_updates:
  "idle_ok s \<Longrightarrow> idle_ok (foldl onTopicUpdate s ts) \<and> (due (foldl onTopicUpdate s ts) u \<longleftrightarrow> u \<in> set ts \<or> due s u)"
proof (induction ts arbitrary: s)
  case (Cons t ts)
  from Cons.IH [of "onTopicUpdate s t"] due_onTopicUpdate [OF Cons.prems, of t] show ?case by auto
qed simp

lemma due_onUpdate: "idle_ok s \<Longrightarrow> idle_ok (onUpdate s) \<and> (due (onUpdate s) u \<longleftrightarrow> jsHas (sd_topics s) u \<or> due s u)"
  using foldl_updates [of s "jsKeys (sd_topics s)" u] by (simp add: onUpdate_def map_of_eq_None_iff)

lemma due_emit:
  "idle_ok s \<Longrightarrow> idle_ok (emitUpdate s a) \<and> (due (emitUpdate s a) u \<longleftrightarrow> 0 < ac_listening (actorOf s a) \<and> jsHas (sd_topics s) u \<or> due s u)"
proof -
  assume i: "idle_ok s"
  have top: "sd_topics ((onUpdate ^^ n) s) = sd_topics s" for n by (induction n) simp_all
  have "idle_ok ((onUpdate ^^ n) s) \<and> (due ((onUpdate ^^ n) s) u \<longleftrightarrow> 0 < n \<and> jsHas (sd_topics s) u \<or> due s u)" for n
  proof (induction n)
    case (Suc n)
    then show ?case using due_onUpdate [of "(onUpdate ^^ n) s" u] by (auto simp: top)
  qed (simp add: i)
  then show ?thesis unfolding emitUpdate_def .
qed

lemma stale_has: "stale s t \<Longrightarrow> jsHas (sd_topics s) t"
  by (simp add: stale_def split: option.splits)

section \<open>The wiring\<close>

text \<open>Whatever is piped, or waits to be, leads from a provider to a consumer of the same topic on another hub.\<close>

definition pair_ok :: "sd \<Rightarrow> nat \<Rightarrow> nat \<Rightarrow> bool" where
  "pair_ok s p c \<longleftrightarrow> p < sd_count s \<and> c < sd_count s \<and> ac_role (actorOf s p) = PROVIDER \<and> ac_role (actorOf s c) = CONSUMER \<and>
     ac_topic (actorOf s p) = ac_topic (actorOf s c) \<and> \<not> sameHost s p c \<and> 0 < ac_listening (actorOf s p)"

definition listener_ok :: "link list \<Rightarrow> stream_listener \<Rightarrow> bool" where
  "listener_ok ls h = (case h of OwnerOf _ \<Rightarrow> True | PipeSource l \<Rightarrow> l < length ls | PipeTarget l \<Rightarrow> l < length ls)"

definition awaiting :: "task \<Rightarrow> bool" where
  "awaiting k \<longleftrightarrow> tk_state k = AwaitSource \<or> tk_state k = AwaitTarget"

definition wired :: "sd \<Rightarrow> bool" where
  "wired s \<longleftrightarrow> (\<forall>lk \<in> set (sd_links s). pair_ok s (lk_provider lk) (lk_consumer lk)) \<and>
     (\<forall>k \<in> set (sd_tasks s). awaiting k \<longrightarrow> pair_ok s (tk_provider k) (tk_consumer k)) \<and>
     (\<forall>x. \<forall>h \<in> set (ms_listeners (sd_streams s x)). listener_ok (sd_links s) h)"

lemma pair_extends: "extends s s' \<Longrightarrow> pair_ok s p c \<Longrightarrow> pair_ok s' p c"
  unfolding pair_ok_def using extends_sameHost [of s s' p c]
  by (simp add: extends_def) (metis order_less_le_trans)

lemma wired_extends:
  assumes "extends s s'" "sd_links s' = sd_links s" "sd_tasks s' = sd_tasks s"
    "\<And>x. ms_listeners (sd_streams s' x) = ms_listeners (sd_streams s x)" "wired s"
  shows "wired s'"
  using assms pair_extends [OF assms(1)] by (simp add: wired_def)

lemma listen_fields [simp]:
  "sd_links (listen s x h) = sd_links s" "sd_tasks (listen s x h) = sd_tasks s" "sd_actors (listen s x h) = sd_actors s"
  "ms_listeners (sd_streams (listen s x h) y) = ms_listeners (sd_streams s y) @ (if y = x then [h] else [])"
  by (simp_all add: listen_def)

lemma wired_listen:
  assumes "listener_ok (sd_links s) h" and "wired s"
  shows "wired (listen s x h)"
proof -
  have "extends s (listen s x h)" by (rule extends_core) simp
  then show ?thesis using assms pair_extends by (simp add: wired_def ball_Un)
qed

lemma wired_setStream: "(\<And>m. ms_listeners (f m) = ms_listeners m) \<Longrightarrow> wired s \<Longrightarrow> wired (setStream s x f)"
  by (rule wired_extends [of s]) (auto intro: extends_core)

lemma wired_core_actors:
  "core (setActor s a f) = core s \<Longrightarrow> wired s \<Longrightarrow> wired (setActor s a f)"
  by (rule wired_extends [of s]) (auto intro: extends_core)

lemma wired_handled: "wired s \<Longrightarrow> wired (setHandled b s a)"
  using core_updates(3) [of b s a] unfolding setHandled_def by (rule wired_core_actors)

lemma wired_addStream: "wired s \<Longrightarrow> wired (addStream s a x)"
  unfolding addStream_def by (intro wired_listen wired_core_actors core_setActor) (simp_all add: listener_ok_def)

lemma addStream_fields [simp]: "sd_links (addStream s a x) = sd_links s" "sd_tasks (addStream s a x) = sd_tasks s"
  by (simp_all add: addStream_def)

lemma wired_request: "wired s \<Longrightarrow> wired (requestStream s a t)"
  by (rule wired_extends [of s]) (simp_all add: extends_core, simp_all add: requestStream_def)

lemma wired_link:
  assumes "pair_ok s p c" and "wired s"
  shows "wired (s\<lparr>sd_links := sd_links s @ [\<lparr>lk_provider = p, lk_consumer = c, lk_disconnected = False\<rparr>]\<rparr>)" (is "wired ?s")
proof -
  have "extends s ?s" by (rule extends_core) simp
  moreover have "listener_ok (sd_links s @ ls) h" if "listener_ok (sd_links s) h" for h ls
    using that by (auto simp: listener_ok_def split: stream_listener.splits)
  ultimately show ?thesis using assms pair_extends by (simp add: wired_def)
qed

lemma wired_pipe:
  assumes "pair_ok s p c" and "wired s"
  shows "wired (pipeActors s p c)"
proof -
  note w = wired_link [OF assms]
  show ?thesis unfolding pipeActors_def Let_def
    by (auto split: option.split intro!: wired_setStream wired_listen w assms(2) simp: listener_ok_def)
qed

lemma links_pipe [simp]: "sd_tasks (pipeActors s p c) = sd_tasks s" "length (sd_links s) \<le> length (sd_links (pipeActors s p c))"
  by (simp_all add: pipeActors_def Let_def split: option.split)

lemma disconnect_fields:
  "sd_links (disconnect s l) = (if lk_disconnected (sd_links s ! l) then sd_links s
     else (sd_links s)[l := (sd_links s ! l)\<lparr>lk_disconnected := True\<rparr>])"
  "sd_tasks (disconnect s l) = sd_tasks s" "ms_listeners (sd_streams (disconnect s l) x) = ms_listeners (sd_streams s x)"
  by (simp_all add: disconnect_def setHandled_def Let_def split: option.split)

lemma disconnect_links:
  "length (sd_links (disconnect s l)) = length (sd_links s)"
  "lk_provider (sd_links (disconnect s l) ! i) = lk_provider (sd_links s ! i)"
  "lk_consumer (sd_links (disconnect s l) ! i) = lk_consumer (sd_links s ! i)"
  using nth_list_update_eq [of l "sd_links s"] nth_list_update_neq [of l i "sd_links s"]
  by (cases "i = l"; cases "l < length (sd_links s)"; simp add: disconnect_fields(1) list_update_beyond)+

lemma wired_disconnect:
  assumes "wired s"
  shows "wired (disconnect s l)"
proof -
  have e: "extends s (disconnect s l)" by (rule extends_core) simp
  have "pair_ok (disconnect s l) (lk_provider lk) (lk_consumer lk)" if "lk \<in> set (sd_links (disconnect s l))" for lk
  proof -
    obtain i where "i < length (sd_links s)" "lk = sd_links (disconnect s l) ! i"
      using \<open>lk \<in> _\<close> by (auto simp: in_set_conv_nth disconnect_links)
    then show ?thesis using assms pair_extends [OF e] by (simp add: wired_def disconnect_links)
  qed
  moreover have "listener_ok (sd_links (disconnect s l)) h = listener_ok (sd_links s) h" for h
    by (simp add: listener_ok_def disconnect_links split: stream_listener.split)
  ultimately show ?thesis using assms pair_extends [OF e] by (simp add: wired_def disconnect_links disconnect_fields(2,3))
qed

text \<open>What a connection needs of the two actors, before the check for the same hub.\<close>

definition peers :: "sd \<Rightarrow> nat \<Rightarrow> nat \<Rightarrow> bool" where
  "peers s p c \<longleftrightarrow> pair_ok s p c \<or> sameHost s p c"

lemma peers_extends:
  assumes "extends s s'" and "p < sd_count s" "c < sd_count s" and "peers s p c"
  shows "peers s' p c"
  using assms pair_extends [OF assms(1)] extends_sameHost [OF assms(1-3)] by (auto simp: peers_def)

lemma wired_connectTarget:
  assumes "pair_ok s p c" and "wired s"
  shows "wired (fst (connectTarget s p c))"
  using assms by (simp add: connectTarget_def wired_pipe wired_request)

lemma wired_connectoTo:
  assumes "peers s p c" and "wired s"
  shows "wired (fst (connectoTo s p c)) \<and> (snd (connectoTo s p c) \<noteq> TaskDone \<longrightarrow> pair_ok s p c)"
  using assms wired_connectTarget [of s p c] by (auto simp: connectoTo_def peers_def wired_request)

lemma wired_task:
  assumes "awaiting k \<longrightarrow> pair_ok s (tk_provider k) (tk_consumer k)" and "wired s"
  shows "wired (s\<lparr>sd_tasks := sd_tasks s @ [k]\<rparr>)"
proof -
  have "extends s (s\<lparr>sd_tasks := sd_tasks s @ [k]\<rparr>)" by (rule extends_core) simp
  then show ?thesis using assms pair_extends by (simp add: wired_def ball_Un)
qed

lemma wired_connectPair:
  assumes "p < sd_count s" "c < sd_count s" "peers s p c" and "wired s"
  shows "wired (connectPair r s (p, c))"
proof (cases "ac_handled (actorOf s p) \<and> ac_handled (actorOf s c)")
  case True
  then show ?thesis using assms by (simp add: connectPair_def wired_task awaiting_def)
next
  case False
  let ?h = "setHandled True s c"
  have "peers ?h p c" by (rule peers_extends [OF extends_core [OF core_updates(3)] assms(1-3)])
  from wired_connectoTo [OF this wired_handled [OF assms(4)]]
  have w: "wired (fst (connectoTo ?h p c))" "snd (connectoTo ?h p c) \<noteq> TaskDone \<longrightarrow> pair_ok ?h p c" by blast+
  have "extends ?h (fst (connectoTo ?h p c))" by (rule extends_core) simp
  with w(2) have "snd (connectoTo ?h p c) \<noteq> TaskDone \<longrightarrow> pair_ok (fst (connectoTo ?h p c)) p c" using pair_extends by blast
  then show ?thesis using False w(1) by (auto simp: connectPair_def Let_def split_beta awaiting_def intro!: wired_task)
qed

lemma wired_connectAll:
  assumes "\<forall>p \<in> set ps. \<forall>c \<in> set cs. p < sd_count s \<and> c < sd_count s \<and> peers s p c" and "wired s"
  shows "wired (connectAll s ps cs)"
proof -
  have fold: "wired (foldl (connectPair r) u pcs)"
    if "wired u" "extends s u" "set pcs \<subseteq> set ps \<times> set cs" for r u pcs
    using that
  proof (induction pcs arbitrary: u)
    case (Cons pc pcs)
    obtain p c where pc: "pc = (p, c)" by (cases pc)
    then have "p < sd_count s" "c < sd_count s" "peers s p c" using Cons.prems(3) assms(1) by auto
    then have "p < sd_count u" "c < sd_count u" "peers u p c"
      using Cons.prems(2) peers_extends [OF Cons.prems(2)] by (auto simp: extends_def)
    then have "wired (connectPair r u pc)" using wired_connectPair Cons.prems(1) pc by blast
    moreover have "extends s (connectPair r u pc)"
      by (rule extends_trans [OF Cons.prems(2)]) (simp add: extends_core)
    ultimately show ?case using Cons.IH Cons.prems(3) by simp
  qed simp
  let ?u = "s\<lparr>sd_runs := sd_runs s + 1, sd_worker := Some (sd_runs s), sd_groups := sd_groups s @ map (\<lambda>p. ((sd_runs s, p), False)) ps\<rparr>"
  have e: "extends s ?u" by (rule extends_core) simp
  have "wired ?u" by (rule wired_extends [OF e]) (simp_all add: assms(2))
  from fold [OF this e] show ?thesis by (simp add: connectAll_def Let_def)
qed

section \<open>Every step keeps the invariants\<close>

definition discovery_ok :: "sd \<Rightarrow> bool" where
  "discovery_ok s \<longleftrightarrow> members s \<and> live s \<and> wired s"

lemma discovery_core:
  assumes "core s' = core s" "wired s'" "discovery_ok s"
  shows "discovery_ok s'"
  using assms members_core [OF assms(1)] live_core [OF assms(1)] by (simp add: discovery_ok_def)

text \<open>Calls of the dispatcher: nothing but the sets of due topics changes.\<close>

lemma discovery_due:
  assumes "parts s' = parts s" and "idle_ok s'" and "\<And>t. stale s t \<Longrightarrow> due s' t" and "members s" "wired s"
  shows "discovery_ok s'"
proof -
  note p = parts_D [OF assms(1)]
  have e: "extends s s'" using p by (intro extends_actors) simp_all
  have "stale s' t = stale s t" for t by (rule stale_eq) (simp_all add: p)
  then have "live s'" using assms(2,3) by (simp add: live_def)
  moreover have "members s'" using members_extends [OF e] p assms(4) by simp
  moreover have "wired s'" by (rule wired_extends [OF e]) (simp_all add: p assms(5))
  ultimately show ?thesis by (simp add: discovery_ok_def)
qed

lemma discovery_onUpdate: "discovery_ok s \<Longrightarrow> discovery_ok (onUpdate s)"
  using due_onUpdate [of s] by (intro discovery_due [of "onUpdate s" s]) (auto simp: parts_onUpdate discovery_ok_def live_def)

text \<open>An actor is retired, and whoever hears of it brings every topic up to date.\<close>

lemma stale_retire: "stale (retire s a) t \<Longrightarrow> stale s t \<or> (\<exists>tp. jsGet (sd_topics s) t = Some tp \<and> a \<in> set (mt_actors tp))"
  by (auto simp: stale_def retire_def list_ex_iff split: option.splits if_splits)

lemma due_retire [simp]: "due (retire s a) t = due s t" "idle_ok (retire s a) = idle_ok s"
  by (simp_all add: due_def idle_ok_def retire_def)

lemma retire_fields [simp]: "sd_topics (retire s a) = sd_topics s" "sd_count (retire s a) = sd_count s" "sd_links (retire s a) = sd_links s"
  "sd_tasks (retire s a) = sd_tasks s" "sd_streams (retire s a) = sd_streams s" "ac_listening (actorOf (retire s a) b) = ac_listening (actorOf s b)"
  "ac_topic (actorOf (retire s a) b) = ac_topic (actorOf s b)"
  by (simp_all add: retire_def)

lemma members_retire: "members s \<Longrightarrow> members (retire s a)"
  by (rule members_extends [OF extends_retire]) simp_all

lemma wired_retire: "wired s \<Longrightarrow> wired (retire s a)"
  by (rule wired_extends [OF extends_retire]) simp_all

lemma retired_then:
  assumes "discovery_ok s" and "parts s' = parts (retire s a)" and "idle_ok s'" and "\<And>t. due s t \<Longrightarrow> due s' t"
    and "\<And>t tp. jsGet (sd_topics s) t = Some tp \<Longrightarrow> a \<in> set (mt_actors tp) \<Longrightarrow> due s' t"
  shows "discovery_ok s'"
proof (rule discovery_due [OF assms(2,3)])
  show "due s' t" if "stale (retire s a) t" for t
    using stale_retire [OF that] assms(1,4,5) by (auto simp: discovery_ok_def live_def)
qed (use assms(1) in \<open>simp_all add: discovery_ok_def members_retire wired_retire\<close>)

lemma discovery_retire_emit:
  assumes "discovery_ok s" and "0 < ac_listening (actorOf s b) \<or> (\<forall>t tp. jsGet (sd_topics s) t = Some tp \<longrightarrow> a \<notin> set (mt_actors tp))"
  shows "discovery_ok (emitUpdate (retire s a) b)"
proof (rule retired_then [OF assms(1) parts_emit])
  have i: "idle_ok (retire s a)" using assms(1) by (simp add: discovery_ok_def live_def)
  show "idle_ok (emitUpdate (retire s a) b)" using due_emit [OF i] by blast
  show "due (emitUpdate (retire s a) b) t" if "due s t" for t using due_emit [OF i] that by simp
  show "due (emitUpdate (retire s a) b) t" if "jsGet (sd_topics s) t = Some tp" "a \<in> set (mt_actors tp)" for t tp
    using due_emit [OF i, of b t] that assms(2) by auto
qed

lemma member_listening:
  assumes "members s" "jsGet (sd_topics s) t = Some tp" "a \<in> set (mt_actors tp)"
  shows "0 < ac_listening (actorOf s a)" "ac_topic (actorOf s a) = t" "a < sd_count s"
  using members_D [OF assms(1,2)] assms(3) by (simp_all add: topic_ok_def member_ok_def)

lemma discovery_own_emit:
  assumes "discovery_ok s"
  shows "discovery_ok (emitUpdate (retire s a) a)"
proof (rule discovery_retire_emit [OF assms])
  show "0 < ac_listening (actorOf s a) \<or> (\<forall>t tp. jsGet (sd_topics s) t = Some tp \<longrightarrow> a \<notin> set (mt_actors tp))"
    using assms member_listening(1) [of s _ _ a] unfolding discovery_ok_def by blast
qed

lemma discovery_disconnect: "discovery_ok s \<Longrightarrow> discovery_ok (disconnect s l)"
  by (rule discovery_core [of _ s]) (simp_all add: wired_disconnect discovery_ok_def)

lemma link_listening:
  "wired s \<Longrightarrow> l < length (sd_links s) \<Longrightarrow> 0 < ac_listening (actorOf s (lk_provider (sd_links s ! l)))"
  by (simp add: wired_def pair_ok_def)

lemma discovery_link_emit:
  assumes "discovery_ok s" "l < length (sd_links s)"
  shows "discovery_ok (emitUpdate (retire (disconnect s l) a) (lk_provider (sd_links s ! l)))"
proof (rule discovery_retire_emit [OF discovery_disconnect [OF assms(1)]])
  show "0 < ac_listening (actorOf (disconnect s l) (lk_provider (sd_links s ! l))) \<or>
    (\<forall>t tp. jsGet (sd_topics (disconnect s l)) t = Some tp \<longrightarrow> a \<notin> set (mt_actors tp))"
    using link_listening [of s l] assms core_D(12) [OF core_disconnect, of s l] by (simp add: discovery_ok_def)
qed

lemma listeners_step:
  assumes "discovery_ok s" "listener_ok (sd_links s) h"
  shows "discovery_ok (closeListener s h) \<and> length (sd_links (closeListener s h)) = length (sd_links s)"
    and "discovery_ok (errorListener s h) \<and> length (sd_links (errorListener s h)) = length (sd_links s)"
  using assms by (auto simp: closeListener_def errorListener_def listener_ok_def discovery_own_emit discovery_disconnect discovery_link_emit
    disconnect_links split: stream_listener.split)

lemma listeners_run:
  assumes "\<And>s h. discovery_ok s \<Longrightarrow> listener_ok (sd_links s) h \<Longrightarrow> discovery_ok (f s h) \<and> length (sd_links (f s h)) = length (sd_links s)"
  shows "discovery_ok s \<Longrightarrow> \<forall>h \<in> set hs. listener_ok (sd_links s) h \<Longrightarrow> discovery_ok (foldl f s hs)"
proof (induction hs arbitrary: s)
  case (Cons h hs)
  have "listener_ok ls = listener_ok ls'" if "length ls = length ls'" for ls ls'
    using that by (simp add: listener_ok_def fun_eq_iff split: stream_listener.split)
  then show ?case using Cons assms [of s h] by (metis foldl_Cons list.set_intros)
qed simp

lemma discovery_unregister:
  assumes "discovery_ok s"
  shows "discovery_ok (unregister s a)"
proof (rule retired_then [OF assms])
  have i: "idle_ok (retire s a)" using assms by (simp add: discovery_ok_def live_def)
  note d = due_onTopicUpdate [OF i, of "ac_topic (actorOf s a)"]
  show "parts (unregister s a) = parts (retire s a)" by (simp add: unregister_def parts_onTopicUpdate)
  show "idle_ok (unregister s a)" using d by (simp add: unregister_def)
  show "due (unregister s a) t" if "due s t" for t using d that by (simp add: unregister_def)
  show "due (unregister s a) t" if "jsGet (sd_topics s) t = Some tp" "a \<in> set (mt_actors tp)" for t tp
    using d member_listening(2) [OF _ that] assms by (simp add: unregister_def discovery_ok_def)
qed

lemma discovery_apiClosed:
  assumes "discovery_ok s"
  shows "discovery_ok (onUpdate (retire s a))"
proof (rule retired_then [OF assms parts_onUpdate])
  have i: "idle_ok (retire s a)" using assms by (simp add: discovery_ok_def live_def)
  show "idle_ok (onUpdate (retire s a))" using due_onUpdate [OF i] by blast
  show "due (onUpdate (retire s a)) t" if "due s t" for t using due_onUpdate [OF i] that by simp
  show "due (onUpdate (retire s a)) t" if "jsGet (sd_topics s) t = Some tp" "a \<in> set (mt_actors tp)" for t tp
    using due_onUpdate [OF i, of t] that by simp
qed

text \<open>Deleting a topic retires its actors and nothing else.\<close>

definition retireAll :: "sd \<Rightarrow> nat list \<Rightarrow> sd" where
  "retireAll s as = foldl (\<lambda>s a. case ac_stream (actorOf s a) of
      None \<Rightarrow> retire s a
    | Some x \<Rightarrow> setStream (retire s a) x (ms_destroyed_update (\<lambda>_. True))) s as"

lemma retire_stream: "extends s (setStream (retire s a) x f)" "extends s (retire s a)"
  by (simp_all add: extends_def retire_def setStream_def)

lemma retireAll_keeps:
  "members s \<Longrightarrow> wired s \<Longrightarrow> members (retireAll s as) \<and> wired (retireAll s as) \<and> sd_topics (retireAll s as) = sd_topics s \<and>
     due (retireAll s as) = due s \<and> idle_ok (retireAll s as) = idle_ok s \<and>
     (\<forall>a. ac_retired (actorOf (retireAll s as) a) \<longrightarrow> ac_retired (actorOf s a) \<or> a \<in> set as)"
proof (induction as arbitrary: s)
  case Nil
  then show ?case by (simp add: retireAll_def)
next
  case (Cons a as)
  define u where "u = (case ac_stream (actorOf s a) of None \<Rightarrow> retire s a
    | Some x \<Rightarrow> setStream (retire s a) x (ms_destroyed_update (\<lambda>_. True)))"
  have e: "extends s u" by (simp add: u_def retire_stream split: option.split)
  have t: "sd_topics u = sd_topics s" by (simp add: u_def setStream_def split: option.split)
  have "wired u" by (rule wired_extends [OF e]) (simp_all add: u_def Cons.prems split: option.split)
  moreover have "due u = due s" "idle_ok u = idle_ok s"
    by (simp_all add: u_def due_def idle_ok_def fun_eq_iff retire_def setStream_def split: option.split)
  moreover have "ac_retired (actorOf u b) \<longrightarrow> ac_retired (actorOf s b) \<or> b = a" for b
    by (simp add: u_def retire_def setStream_def split: option.split)
  moreover have "retireAll s (a # as) = retireAll u as" by (simp add: retireAll_def u_def)
  ultimately show ?case using Cons.IH [of u] members_extends [OF e t Cons.prems(1)] t by auto
qed

lemma discovery_delete:
  assumes "discovery_ok s"
  shows "discovery_ok (fst (deleteTopic s t))"
proof (cases "jsGet (sd_topics s) t")
  case None
  then show ?thesis using assms by (simp add: deleteTopic_def)
next
  case (Some tp)
  let ?u = "retireAll s (mt_actors tp)"
  have u: "members ?u" "wired ?u" "sd_topics ?u = sd_topics s" "due ?u = due s" "idle_ok ?u"
    and r: "\<And>a. ac_retired (actorOf ?u a) \<Longrightarrow> ac_retired (actorOf s a) \<or> a \<in> set (mt_actors tp)"
    using retireAll_keeps [of s "mt_actors tp"] assms by (auto simp: discovery_ok_def live_def)
  have "due (onTopicUpdate ?u t) v" if v: "stale ?u v" for v
  proof (cases "v = t")
    case False
    obtain vp where vp: "jsGet (sd_topics s) v = Some vp" using stale_has [OF v] u(3) by auto
    have "a \<notin> set (mt_actors tp)" if "a \<in> set (mt_actors vp)" for a
      using member_listening(2) [of s v vp a] member_listening(2) [of s t tp a] vp Some that assms False by (auto simp: discovery_ok_def)
    then have "stale s v" using v vp r u(3) by (auto simp: stale_def list_ex_iff)
    then show ?thesis using assms due_onTopicUpdate [OF u(5), of t v] u(4) by (simp add: discovery_ok_def live_def)
  qed (use due_onTopicUpdate [OF u(5), of t] in simp)
  moreover have "fst (deleteTopic s t) = onTopicUpdate ?u t" by (simp add: deleteTopic_def Some retireAll_def)
  ultimately show ?thesis using discovery_due [OF parts_onTopicUpdate, of ?u t] u(1,2) due_onTopicUpdate [OF u(5), of t] by auto
qed

text \<open>Registration: a new actor, which no topic holds yet.\<close>

definition fresh :: "sd \<Rightarrow> nat \<Rightarrow> bool" where
  "fresh s a \<longleftrightarrow> a < sd_count s \<and> (\<forall>t tp. jsGet (sd_topics s) t = Some tp \<longrightarrow> a \<notin> set (mt_actors tp))"

lemma discovery_create:
  assumes "discovery_ok s"
  shows "discovery_ok (createActor s x) \<and> fresh (createActor s x) (sd_count s)"
proof -
  let ?s = "createActor s x"
  have e: "extends s ?s" by (simp add: extends_def createActor_def setActor_def)
  have f: "sd_topics ?s = sd_topics s" "sd_links ?s = sd_links s" "sd_tasks ?s = sd_tasks s" "sd_streams ?s = sd_streams s" "due ?s = due s" "idle_ok ?s = idle_ok s"
    by (simp_all add: createActor_def setActor_def due_def idle_ok_def fun_eq_iff)
  have out: "sd_count s \<notin> set (mt_actors tp)" if "jsGet (sd_topics s) t = Some tp" for t tp
    using member_listening(3) [of s t tp "sd_count s"] that assms by (auto simp: discovery_ok_def)
  have "stale ?s t \<Longrightarrow> stale s t" for t
    using out by (auto simp: stale_def list_ex_iff f(1) createActor_def split: option.splits if_splits)
  then have "live ?s" using assms by (simp add: discovery_ok_def live_def f)
  moreover have "wired ?s" by (rule wired_extends [OF e]) (use assms in \<open>simp_all add: f discovery_ok_def\<close>)
  moreover have "members ?s" using members_extends [OF e f(1)] assms by (simp add: discovery_ok_def)
  ultimately show ?thesis using out by (simp add: discovery_ok_def fresh_def f) (simp add: createActor_def)
qed

lemma members_newTopic:
  "members s \<Longrightarrow> members (s\<lparr>sd_topics := jsSet (sd_topics s) t \<lparr>mt_contentType = ct, mt_actors = []\<rparr>\<rparr>)"
  by (auto simp: members_def topic_ok_def member_ok_def sameHost_def js_simps)

lemma members_push:
  assumes "members s" "jsGet (sd_topics s) t = Some tp" "member_ok s t tp a" "a \<notin> set (mt_actors tp)"
    and "\<And>b. b \<in> set (mt_actors tp) \<Longrightarrow> ac_role (actorOf s b) = ac_role (actorOf s a) \<Longrightarrow> \<not> sameHost s a b"
  shows "members (s\<lparr>sd_topics := jsSet (sd_topics s) t (tp\<lparr>mt_actors := mt_actors tp @ [a]\<rparr>)\<rparr>)"
proof -
  have sym: "sameHost s b c = sameHost s c b" for b c by (auto simp: sameHost_def)
  have "topic_ok s t (tp\<lparr>mt_actors := mt_actors tp @ [a]\<rparr>)"
    using members_D [OF assms(1,2)] assms(3-5) sym unfolding topic_ok_def member_ok_def by auto
  then show ?thesis using assms(1) by (auto simp: members_def topic_ok_def member_ok_def sameHost_def js_simps)
qed

lemma createTopic_cases:
  assumes "createTopic s t ct = Inr s1"
  obtains tp where "jsGet (sd_topics s1) t = Some tp" "mt_contentType tp = ct"
    "s1 = s \<or> jsGet (sd_topics s) t = None \<and> s1 = s\<lparr>sd_topics := jsSet (sd_topics s) t \<lparr>mt_contentType = ct, mt_actors = []\<rparr>\<rparr>"
  using assms that by (auto simp: createTopic_def js_simps split: option.splits if_splits)

lemma discovery_register:
  assumes ok: "discovery_ok s" and fresh: "fresh s a"
  shows "discovery_ok (registered s a contentType)"
proof (cases "register s a contentType")
  case (Inr s')
  let ?t = "ac_topic (actorOf s a)"
  let ?ct = "if ac_contentType (actorOf s a) = [] then contentType else ac_contentType (actorOf s a)"
  obtain s1 where c: "createTopic s ?t ?ct = Inr s1" using Inr by (auto simp: register_def Let_def bindR_eq_Inr)
  obtain tp where tp: "jsGet (sd_topics s1) ?t = Some tp" "mt_contentType tp = ?ct"
    and s1: "s1 = s \<or> jsGet (sd_topics s) ?t = None \<and> s1 = s\<lparr>sd_topics := jsSet (sd_topics s) ?t \<lparr>mt_contentType = ?ct, mt_actors = []\<rparr>\<rparr>"
    by (rule createTopic_cases [OF c])
  define s2 where "s2 = setActor s1 a (ac_listening_update Suc)"
  define s3 where "s3 = (if hostRegistered s2 a then s2 else pushActor s2 ?t a)"
  have s': "s' = onTopicUpdate s3 ?t" using Inr c by (auto simp: register_def Let_def s2_def s3_def)
  have m1: "members s1" using s1 ok members_newTopic [of s] by (auto simp: discovery_ok_def)
  have e1: "extends s s1" using s1 by (auto intro: extends_actors)
  have e2: "extends s1 s2" by (simp add: s2_def extends_def)
  have t2: "sd_topics s2 = sd_topics s1" by (simp add: s2_def)
  have m2: "members s2" by (rule members_extends [OF e2 t2 m1])
  have out: "a \<notin> set (mt_actors tp)" using s1 tp fresh by (auto simp: fresh_def js_simps)
  have a1: "sd_actors s1 = sd_actors s" "sd_count s1 = sd_count s" using s1 by auto
  have m3: "members s3"
  proof (cases "hostRegistered s2 a")
    case False
    have "member_ok s2 ?t tp a" using fresh tp(2) by (simp add: member_ok_def s2_def a1 fresh_def)
    moreover have "\<not> sameHost s2 a b" if "b \<in> set (mt_actors tp)" "ac_role (actorOf s2 b) = ac_role (actorOf s2 a)" for b
      using False that tp(1) by (auto simp: hostRegistered_def findRole_def list_ex_iff t2 s2_def a1)
    ultimately show ?thesis using members_push [OF m2, of ?t tp a] tp(1) out False by (simp add: s3_def pushActor_def t2)
  qed (simp add: s3_def m2)
  have e3: "extends s2 s3" "sd_links s3 = sd_links s" "sd_tasks s3 = sd_tasks s" "sd_streams s3 = sd_streams s"
    using s1 by (auto simp: s3_def s2_def pushActor_def intro: extends_actors split: option.split)
  have w3: "wired s3"
    by (rule wired_extends [OF extends_trans [OF e1 extends_trans [OF e2 e3(1)]]]) (use ok in \<open>simp_all add: e3 discovery_ok_def\<close>)
  have i3: "idle_ok s3" "due s3 = due s"
    using s1 ok by (auto simp: s3_def s2_def pushActor_def idle_ok_def due_def fun_eq_iff discovery_ok_def live_def split: option.split)
  have "due s' v" if v: "stale s3 v" for v
  proof (cases "v = ?t")
    case False
    then have "jsGet (sd_topics s3) v = jsGet (sd_topics s) v"
      using s1 by (auto simp: s3_def s2_def pushActor_def js_simps split: option.split)
    moreover have "ac_retired (actorOf s3 b) = ac_retired (actorOf s b)" for b
      by (simp add: s3_def s2_def pushActor_def a1 split: option.split)
    ultimately have "stale s v" using v stale_cong [of s3 v s] by simp
    then show ?thesis using ok due_onTopicUpdate [OF i3(1), of ?t v] by (simp add: s' i3(2) discovery_ok_def live_def)
  qed (use due_onTopicUpdate [OF i3(1), of ?t] s' in simp)
  then have "discovery_ok s'"
    using discovery_due [of s' s3] m3 w3 due_onTopicUpdate [OF i3(1), of ?t] by (simp add: s' parts_onTopicUpdate)
  then show ?thesis using Inr by (simp add: registered_def)
qed (simp add: registered_def ok)

lemma discovery_addStream: "discovery_ok s \<Longrightarrow> discovery_ok (addStream s a x)"
  by (rule discovery_core [of _ s]) (simp_all add: wired_addStream discovery_ok_def)

lemma fresh_addStream: "fresh s a \<Longrightarrow> fresh (addStream s b x) a"
  using core_D(1,5) [OF core_updates(4), of s b x] by (simp add: fresh_def)

text \<open>The worker takes the retired actors out and connects the others.\<close>

lemma core_setHandleds: "core (foldl (setHandled b) s as) = core s"
  by (rule core_foldl) simp

lemma wired_foldl: "(\<And>s a. wired s \<Longrightarrow> wired (f s a)) \<Longrightarrow> wired s \<Longrightarrow> wired (foldl f s as)"
  by (induction as arbitrary: s) simp_all

lemma wired_discard: "wired s \<Longrightarrow> wired (discardProvider s p)"
proof -
  assume w: "wired s"
  have c: "core (setActor s p (ac_discarding_update (\<lambda>_. True))) = core s" by (rule core_setActor) simp
  have "wired (setActor s p (ac_discarding_update (\<lambda>_. True)))" by (rule wired_core_actors [OF c w])
  then show ?thesis using w by (auto simp: discardProvider_def intro!: wired_setStream split: option.split)
qed

lemma role_peers:
  assumes "members s" "p \<in> set (findRole s PROVIDER t)" "c \<in> set (findRole s CONSUMER t)"
  shows "p < sd_count s \<and> c < sd_count s \<and> peers s p c"
proof -
  obtain tp where tp: "jsGet (sd_topics s) t = Some tp" "p \<in> set (mt_actors tp)" "c \<in> set (mt_actors tp)"
    using assms(2,3) by (cases "jsGet (sd_topics s) t") (simp_all add: findRole_def)
  then have "ac_role (actorOf s p) = PROVIDER" "ac_role (actorOf s c) = CONSUMER" using assms(2,3) by (simp_all add: findRole_def)
  then show ?thesis using member_listening [OF assms(1) tp(1,2)] member_listening [OF assms(1) tp(1,3)] by (auto simp: peers_def pair_ok_def)
qed

lemma discovery_worker:
  assumes ok: "members s" "wired s" "idle_ok s" and due: "\<And>v. stale s v \<Longrightarrow> v = t \<or> due s v"
  shows "discovery_ok (onTopicUpdateWorker s t)"
proof (cases "jsGet (sd_topics s) t")
  case None
  then have "\<not> stale s t" by (simp add: stale_def)
  then show ?thesis using ok due None by (auto simp: onTopicUpdateWorker_def discovery_ok_def live_def)
next
  case (Some tp)
  let ?live = "filter (\<lambda>a. \<not> ac_retired (actorOf s a)) (mt_actors tp)"
  let ?s = "s\<lparr>sd_topics := jsSet (sd_topics s) t (tp\<lparr>mt_actors := ?live\<rparr>)\<rparr>"
  have other: "stale u v \<Longrightarrow> v \<noteq> t \<Longrightarrow> due u v"
    if "sd_actors u = sd_actors s" "due u = due s" "v \<noteq> t \<Longrightarrow> jsGet (sd_topics u) v = jsGet (sd_topics s) v" for u v
    using due [of v] that stale_cong [of u v s] by auto
  show ?thesis
  proof (cases "?live = []")
    case True
    let ?d = "s\<lparr>sd_topics := jsDelete (sd_topics ?s) t\<rparr>"
    have "members ?d" using members_drop [OF members_filter [OF ok(1) Some]] by simp
    moreover have "wired ?d" by (rule wired_extends [of s]) (simp_all add: extends_actors ok(2))
    moreover have "live ?d"
    proof -
      have "\<not> stale ?d t" by (simp add: stale_def js_simps)
      moreover have "stale ?d v \<Longrightarrow> v \<noteq> t \<Longrightarrow> due ?d v" for v
        by (rule other [of ?d]) (simp_all add: js_simps due_def fun_eq_iff)
      ultimately show ?thesis using ok(3) by (auto simp: live_def idle_ok_def)
    qed
    ultimately show ?thesis using True Some by (simp add: onTopicUpdateWorker_def discovery_ok_def Let_def)
  next
    case False
    have m: "members ?s" by (rule members_filter [OF ok(1) Some])
    have w: "wired ?s" by (rule wired_extends [of s]) (simp_all add: extends_actors ok(2))
    have l: "live ?s"
    proof -
      have "\<not> stale ?s t" using False by (auto simp: stale_def js_simps list_ex_iff)
      moreover have "stale ?s v \<Longrightarrow> v \<noteq> t \<Longrightarrow> due ?s v" for v
        by (rule other [of ?s]) (simp_all add: js_simps due_def fun_eq_iff)
      ultimately show ?thesis using ok(3) by (auto simp: live_def idle_ok_def)
    qed
    let ?ps = "findRole ?s PROVIDER t" and ?cs = "findRole ?s CONSUMER t"
    define u where "u = (if ?cs = [] then foldl discardProvider ?s ?ps else ?s)"
    define h where "h = list_ex (\<lambda>a. ac_role (actorOf s a) = PROVIDER \<and> ac_retired (actorOf s a)) (mt_actors tp)"
    define v where "v = (if h then foldl (setHandled False) u ?cs else u)"
    have c: "core v = core ?s" by (simp add: v_def u_def core_setHandleds core_foldl)
    have "wired v" using w by (simp add: v_def u_def wired_foldl wired_handled wired_discard)
    moreover have "\<forall>p \<in> set ?ps. \<forall>c \<in> set ?cs. p < sd_count v \<and> c < sd_count v \<and> peers v p c"
      using role_peers [OF m] peers_extends [OF extends_core [OF c]] core_D(5) [OF c] by metis
    ultimately have "wired (connectAll v ?ps ?cs)" by (rule wired_connectAll [rotated])
    moreover have "core (connectAll v ?ps ?cs) = core ?s" using c by simp
    moreover have "discovery_ok ?s" using m w l by (simp add: discovery_ok_def)
    ultimately have "discovery_ok (connectAll v ?ps ?cs)" using discovery_core by blast
    moreover have "onTopicUpdateWorker s t = connectAll v ?ps ?cs"
      unfolding onTopicUpdateWorker_def Let_def v_def u_def h_def using Some False by simp
    ultimately show ?thesis by simp
  qed
qed

lemma discovery_nextTopic:
  assumes "discovery_ok s"
  shows "discovery_ok (nextTopic s)"
proof (cases "\<not> sd_running s \<or> sd_worker s \<noteq> None")
  case False
  show ?thesis
  proof (cases "sd_batch s")
    case Nil
    let ?s = "runTopicUpdate (s\<lparr>sd_running := False\<rparr>)"
    have p: "parts ?s = parts s" by (simp add: parts_def runTopicUpdate_def)
    have "idle_ok ?s" using Nil by (simp add: runTopicUpdate_def idle_ok_def)
    moreover have "due ?s v = due s v" for v using Nil by (auto simp: runTopicUpdate_def due_def)
    ultimately have "discovery_ok ?s" using assms discovery_due [OF p] by (simp add: discovery_ok_def live_def)
    then show ?thesis using False Nil by (simp add: nextTopic_def)
  next
    case (Cons t ts)
    let ?s = "s\<lparr>sd_batch := ts\<rparr>"
    have e: "extends s ?s" by (rule extends_actors) simp_all
    have "members ?s" using members_extends [OF e] assms by (simp add: discovery_ok_def)
    moreover have "wired ?s" by (rule wired_extends [OF e]) (use assms in \<open>simp_all add: discovery_ok_def\<close>)
    moreover have "idle_ok ?s" using False by (simp add: idle_ok_def)
    moreover have "v = t \<or> due ?s v" if "stale ?s v" for v
    proof -
      have "stale s v" using that stale_eq [of ?s s v] by simp
      then show ?thesis using assms Cons by (auto simp: discovery_ok_def live_def due_def)
    qed
    ultimately have "discovery_ok (onTopicUpdateWorker ?s t)" by (rule discovery_worker)
    then show ?thesis using False Cons by (simp add: nextTopic_def)
  qed
qed (auto simp: nextTopic_def assms)

lemma wired_setTask:
  assumes "wired s" and "awaiting ((sd_tasks s ! k)\<lparr>tk_state := st\<rparr>) \<longrightarrow> pair_ok s (tk_provider (sd_tasks s ! k)) (tk_consumer (sd_tasks s ! k))"
  shows "wired (setTask s k st)"
proof -
  have e: "extends s (setTask s k st)" by (rule extends_core) simp
  have f: "sd_links (setTask s k st) = sd_links s" "sd_streams (setTask s k st) = sd_streams s"
    "sd_tasks (setTask s k st) = (sd_tasks s)[k := (sd_tasks s ! k)\<lparr>tk_state := st\<rparr>]" by (simp_all add: setTask_def)
  have "\<forall>j \<in> set (sd_tasks (setTask s k st)). awaiting j \<longrightarrow> pair_ok s (tk_provider j) (tk_consumer j)"
    using assms set_update_subset_insert [of "sd_tasks s" k "(sd_tasks s ! k)\<lparr>tk_state := st\<rparr>"]
    unfolding f wired_def by (auto simp: subset_iff)
  then show ?thesis using assms(1) pair_extends [OF e] unfolding wired_def f by blast
qed

lemma connectTarget_tasks [simp]: "sd_tasks (fst (connectTarget s p c)) = sd_tasks s"
  by (simp add: connectTarget_def requestStream_def)

lemma core_resolved: "core (requestResolved s k x) = core s"
  by (simp add: requestResolved_def Let_def split_beta split: task_state.split)

lemma wired_resolved:
  assumes "wired s"
  shows "wired (requestResolved s k x)"
proof (cases "k < length (sd_tasks s) \<and> awaiting (sd_tasks s ! k)")
  case True
  let ?p = "tk_provider (sd_tasks s ! k)" and ?c = "tk_consumer (sd_tasks s ! k)"
  have p: "pair_ok s ?p ?c" using assms True by (simp add: wired_def)
  have pa: "pair_ok (addStream s a x) ?p ?c" for a by (rule pair_extends [OF extends_core p]) simp
  note w = wired_addStream [OF assms, of _ x]
  have source: "wired (setTask (fst (connectTarget (addStream s ?p x) ?p ?c)) k st)" for st
  proof (rule wired_setTask [OF wired_connectTarget [OF pa w]])
    have "pair_ok (fst (connectTarget (addStream s ?p x) ?p ?c)) ?p ?c" by (rule pair_extends [OF extends_core pa]) simp
    then show "awaiting ((sd_tasks (fst (connectTarget (addStream s ?p x) ?p ?c)) ! k)\<lparr>tk_state := st\<rparr>) \<longrightarrow>
      pair_ok (fst (connectTarget (addStream s ?p x) ?p ?c)) (tk_provider (sd_tasks (fst (connectTarget (addStream s ?p x) ?p ?c)) ! k))
        (tk_consumer (sd_tasks (fst (connectTarget (addStream s ?p x) ?p ?c)) ! k))" by simp
  qed
  have target: "wired (setTask (pipeActors (addStream s ?c x) ?p ?c) k TaskDone)"
    by (rule wired_setTask [OF wired_pipe [OF pa w]]) (simp add: awaiting_def)
  show ?thesis using True source target assms
    by (simp add: requestResolved_def Let_def split_beta split: task_state.split)
qed (use assms in \<open>auto simp: requestResolved_def awaiting_def Let_def split: task_state.split\<close>)

lemma discovery_tasks:
  assumes "discovery_ok s"
  shows "discovery_ok (requestResolved s k x)" "discovery_ok (requestRejected s k)" "discovery_ok (settleGroup s g)" "discovery_ok (finishRun s)"
proof -
  have w: "wired s" using assms by (simp add: discovery_ok_def)
  show "discovery_ok (requestResolved s k x)" by (rule discovery_core [OF core_resolved wired_resolved [OF w] assms])
  have "wired (requestRejected s k)" by (simp add: requestRejected_def w wired_setTask awaiting_def)
  moreover have "core (requestRejected s k) = core s" by (simp add: requestRejected_def)
  ultimately show "discovery_ok (requestRejected s k)" using discovery_core [OF _ _ assms] by blast
  have g: "wired (s\<lparr>sd_groups := gs\<rparr>)" "wired (s\<lparr>sd_worker := r\<rparr>)" for gs r
    by (rule wired_extends [of s]; simp add: extends_core w)+
  have "wired (settleGroup s g)" using w by (simp add: settleGroup_def wired_handled g split: prod.split)
  moreover have "core (settleGroup s g) = core s" by (simp add: settleGroup_def split: prod.split)
  ultimately show "discovery_ok (settleGroup s g)" using discovery_core [OF _ _ assms] by blast
  have "wired (finishRun s)" using w by (simp add: finishRun_def g split: option.split)
  moreover have "core (finishRun s) = core s" by (simp add: finishRun_def split: option.split)
  ultimately show "discovery_ok (finishRun s)" using discovery_core [OF _ _ assms] by blast
qed

lemma discovery_step:
  assumes "discovery_ok s"
  shows "discovery_ok (sdStep s e)"
proof -
  have l: "\<forall>h \<in> set (ms_listeners (sd_streams s x)). listener_ok (sd_links s) h" for x
    using assms by (simp add: discovery_ok_def wired_def)
  note create = discovery_create [OF assms]
  show ?thesis
  proof (cases e)
    case (RegisterHost t role ct host)
    then show ?thesis using create by (simp add: sdStep_def discovery_register)
  next
    case (RegisterApi t role ct x)
    then show ?thesis using create by (simp add: sdStep_def discovery_register discovery_addStream fresh_addStream)
  next
    case (StreamClosed x)
    then show ?thesis using listeners_run [of closeListener, OF listeners_step(1) assms l] by (simp add: sdStep_def)
  next
    case (StreamFailed x)
    then show ?thesis using listeners_run [of errorListener, OF listeners_step(2) assms l] by (simp add: sdStep_def)
  qed (simp_all add: sdStep_def assms discovery_unregister discovery_apiClosed discovery_delete discovery_onUpdate discovery_tasks discovery_nextTopic)
qed

lemma discovery_new: "discovery_ok newDiscovery"
  by (simp add: discovery_ok_def members_def live_def idle_ok_def stale_def wired_def newDiscovery_def)

interpretation topic_discovery: invariant_machine sdStep discovery_ok
  by unfold_locales (rule discovery_step)

section \<open>A worker connects what it can\<close>

lemma stream_kept [simp]:
  "ac_stream (actorOf (setHandled b s a) d) = ac_stream (actorOf s d)"
  "ac_stream (actorOf (fst (connectoTo s p c)) d) = ac_stream (actorOf s d)"
  "ac_handled (actorOf (fst (connectoTo s p c)) d) = ac_handled (actorOf s d)"
  by (simp_all add: setHandled_def connectoTo_def connectTarget_def requestStream_def pipeActors_def listen_def setStream_def Let_def split: option.split)

lemma connectPair_fields:
  "ac_stream (actorOf (connectPair r s (p, c)) d) = ac_stream (actorOf s d)"
  "d \<noteq> c \<Longrightarrow> ac_handled (actorOf (connectPair r s (p, c)) d) = ac_handled (actorOf s d)"
  by (simp_all add: connectPair_def Let_def split_beta) (simp add: setHandled_def)

lemma pipe_grows: "set (ms_pipes (sd_streams s x)) \<subseteq> set (ms_pipes (sd_streams (fst (connectoTo s p c)) x))"
  by (auto simp: connectoTo_def connectTarget_def requestStream_def pipeActors_def listen_def setStream_def Let_def split: option.split)

lemma connectPair_grows: "set (ms_pipes (sd_streams s x)) \<subseteq> set (ms_pipes (sd_streams (connectPair r s pc) x))"
  using pipe_grows [of "setHandled True s (snd pc)" x "fst pc" "snd pc"] by (auto simp: connectPair_def setHandled_def Let_def split_beta)

lemma connectPair_pipes:
  assumes "ac_stream (actorOf s p) = Some x" "ac_stream (actorOf s c) = Some y" "\<not> ac_handled (actorOf s p)" "\<not> sameHost s p c"
  shows "y \<in> set (ms_pipes (sd_streams (connectPair r s (p, c)) x))"
proof -
  have "\<not> sameHost (setHandled True s c) p c" using assms(4) by (auto simp: sameHost_def setHandled_def)
  moreover have "\<not> needsStream (setHandled True s c) p" "\<not> needsStream (setHandled True s c) c" using assms(1,2) by (simp_all add: needsStream_def)
  ultimately show ?thesis using assms by (simp add: connectPair_def connectoTo_def connectTarget_def pipeActors_def listen_def setStream_def Let_def)
qed

lemma foldl_connects:
  assumes "(p, c) \<in> set pcs" "ac_stream (actorOf s p) = Some x" "ac_stream (actorOf s c) = Some y" "\<not> ac_handled (actorOf s p)"
    "\<not> sameHost s p c" "p \<notin> snd ` set pcs"
  shows "y \<in> set (ms_pipes (sd_streams (foldl (connectPair r) s pcs) x))"
  using assms
proof (induction pcs arbitrary: s)
  case (Cons pc pcs)
  obtain q d where pc: "pc = (q, d)" by (cases pc)
  have grows: "set (ms_pipes (sd_streams u x)) \<subseteq> set (ms_pipes (sd_streams (foldl (connectPair r) u pcs) x))" for u pcs
    by (induction pcs arbitrary: u) (use connectPair_grows in \<open>auto simp: subset_iff\<close>)
  show ?case
  proof (cases "pc = (p, c)")
    case True
    then show ?thesis using connectPair_pipes [OF Cons.prems(2-5)] grows by auto
  next
    case False
    have "sameHost (connectPair r s pc) p c = sameHost s p c"
      using core_D(8,10) [OF core_pair, of r s pc] by (simp add: sameHost_def)
    then show ?thesis using Cons False pc by (auto simp: connectPair_fields)
  qed
qed simp

lemma foldl_handled_streams:
  "ac_stream (actorOf (foldl (setHandled b) s as) d) = ac_stream (actorOf s d)"
  "d \<notin> set as \<Longrightarrow> ac_handled (actorOf (foldl (setHandled b) s as) d) = ac_handled (actorOf s d)"
  by (induction as arbitrary: s) (simp_all, simp add: setHandled_def)

lemma worker_pipes:
  assumes t: "jsGet (sd_topics s) t = Some tp" and p: "p \<in> set (mt_actors tp)" "\<not> ac_retired (actorOf s p)" "ac_role (actorOf s p) = PROVIDER"
    and c: "c \<in> set (mt_actors tp)" "\<not> ac_retired (actorOf s c)" "ac_role (actorOf s c) = CONSUMER"
    and st: "ac_stream (actorOf s p) = Some x" "ac_stream (actorOf s c) = Some y" "\<not> ac_handled (actorOf s p)" "\<not> sameHost s p c"
  shows "y \<in> set (ms_pipes (sd_streams (onTopicUpdateWorker s t) x))"
proof -
  let ?live = "filter (\<lambda>a. \<not> ac_retired (actorOf s a)) (mt_actors tp)"
  let ?s = "s\<lparr>sd_topics := jsSet (sd_topics s) t (tp\<lparr>mt_actors := ?live\<rparr>)\<rparr>"
  let ?ps = "findRole ?s PROVIDER t" and ?cs = "findRole ?s CONSUMER t"
  define h where "h = list_ex (\<lambda>a. ac_role (actorOf s a) = PROVIDER \<and> ac_retired (actorOf s a)) (mt_actors tp)"
  define v where "v = (if h then foldl (setHandled False) ?s ?cs else ?s)"
  have m: "p \<in> set ?ps" "c \<in> set ?cs" "p \<notin> set ?cs" using t p c by (auto simp: findRole_def js_simps)
  have w: "onTopicUpdateWorker s t = connectAll v ?ps ?cs"
  proof -
    have "?live \<noteq> []" "?cs \<noteq> []" using p m(2) by (auto simp: filter_empty_conv)
    then show ?thesis unfolding onTopicUpdateWorker_def Let_def v_def h_def using t by (simp del: filter_empty_conv)
  qed
  have v: "ac_stream (actorOf v p) = Some x" "ac_stream (actorOf v c) = Some y" "\<not> ac_handled (actorOf v p)"
    using st m(3) by (simp_all add: v_def foldl_handled_streams)
  have "core v = core ?s" by (simp add: v_def core_setHandleds)
  then have "\<not> sameHost v p c" using st(4) core_D(8,10) [of v ?s] by (simp add: sameHost_def)
  then show ?thesis unfolding w connectAll_def Let_def
    by (intro foldl_connects [where p = p and c = c and y = y]) (use v m in \<open>auto simp: sameHost_def\<close>)
qed

section \<open>Properties\<close>

text \<open>C15: The register of topics stays consistent along every run: the actors of a topic are distinct and were created for
  that topic with its content type, and a hub stands in each role at most once; whatever is piped, or waits
  for a stream to be piped, leads from a provider to a consumer of the same topic on another hub.\<close>

theorem topics_consistent: "members (foldl sdStep newDiscovery es) \<and> wired (foldl sdStep newDiscovery es)"
  using topic_discovery.inv_run [OF discovery_new, of es] by (simp add: discovery_ok_def)

text \<open>C14: No update is lost: when the dispatcher is idle, however calls, stream ends and answers of hubs were
  interleaved, every topic has an actor and none of its actors is retired.\<close>

theorem idle_topics_live:
  assumes "\<not> sd_running (foldl sdStep newDiscovery es)" and "jsGet (sd_topics (foldl sdStep newDiscovery es)) t = Some tp"
  shows "mt_actors tp \<noteq> [] \<and> list_all (\<lambda>a. \<not> ac_retired (actorOf (foldl sdStep newDiscovery es) a)) (mt_actors tp)"
proof -
  let ?s = "foldl sdStep newDiscovery es"
  have l: "live ?s" using topic_discovery.inv_run [OF discovery_new, of es] by (simp add: discovery_ok_def)
  then have "\<not> due ?s t" using assms(1) by (simp add: live_def idle_ok_def due_def)
  then have "\<not> stale ?s t" using l by (auto simp: live_def)
  then show ?thesis using assms(2) by (simp add: stale_def list_ex_iff list_all_iff)
qed

text \<open>A worker pipes each provider that has no connection yet to every consumer of its topic on another hub,
  as far as both have a stream.\<close>

theorem worker_connects:
  assumes "jsGet (sd_topics s) t = Some tp"
    and "p \<in> set (mt_actors tp)" "\<not> ac_retired (actorOf s p)" "ac_role (actorOf s p) = PROVIDER" "\<not> ac_handled (actorOf s p)"
    and "c \<in> set (mt_actors tp)" "\<not> ac_retired (actorOf s c)" "ac_role (actorOf s c) = CONSUMER" "\<not> sameHost s p c"
    and "ac_stream (actorOf s p) = Some x" "ac_stream (actorOf s c) = Some y"
  shows "y \<in> set (ms_pipes (sd_streams (onTopicUpdateWorker s t) x))"
  by (rule worker_pipes [OF assms(1-4,6-8,10,11,5,9)])

definition demoTopics :: "sd_event list" where
  "demoTopics = [RegisterApi ''t'' PROVIDER ''p'' 10, RegisterApi ''t'' CONSUMER ''p'' 50, RegisterApi ''t'' CONSUMER ''p'' 51]"

definition demoRun :: "sd_event list" where
  "demoRun = demoTopics @ [NextTopic, SettleGroup 0, FinishRun, NextTopic, NextTopic, SettleGroup 1, FinishRun, NextTopic,
     StreamClosed 51, NextTopic, SettleGroup 2, FinishRun, NextTopic, NextTopic, SettleGroup 3, FinishRun, NextTopic]"

lemma idle_topics_live_witness:
  "map fst (sd_topics (foldl sdStep newDiscovery demoRun)) = [''t''] \<and>
   list_all (\<lambda>a. \<not> ac_retired (actorOf (foldl sdStep newDiscovery demoRun) a)) [0, 1]"
proof -
  have i: "\<not> sd_running (foldl sdStep newDiscovery demoRun)" by code_simp
  have t: "sd_topics (foldl sdStep newDiscovery demoRun) = [(''t'', \<lparr>mt_contentType = ''p'', mt_actors = [0, 1]\<rparr>)]" by code_simp
  from idle_topics_live [OF i, of "''t''" "\<lparr>mt_contentType = ''p'', mt_actors = [0, 1]\<rparr>"] show ?thesis
    by (simp only: t map_of.simps fst_conv snd_conv fun_upd_same mtopic.simps simp_thms list.map)
qed

lemma worker_connects_witness:
  "51 \<in> set (ms_pipes (sd_streams (onTopicUpdateWorker (foldl sdStep newDiscovery demoTopics) ''t'') 10))"
proof (rule worker_connects [of _ _ "\<lparr>mt_contentType = ''p'', mt_actors = [0, 1, 2]\<rparr>" 0 2])
  show "jsGet (sd_topics (foldl sdStep newDiscovery demoTopics)) ''t'' = Some \<lparr>mt_contentType = ''p'', mt_actors = [0, 1, 2]\<rparr>" by code_simp
qed code_simp+

text \<open>
  Two places where the code does less, or more, than the topic promises. When a consumer closes, its
  providers lose their mark although other consumers are still piped, so the next update pipes them a
  second time: the chunks of stream 10 arrive twice at stream 50. And a provider whose hub refused the stream
  marks a new consumer before the providers that are marked get to it: stream 10 never reaches stream 51.
\<close>

lemma consumer_close_doubles_pipe: "ms_pipes (sd_streams (foldl sdStep newDiscovery demoRun) 10) = [50, 50]"
  by code_simp

definition refusedRun :: "sd_event list" where
  "refusedRun = [RegisterHost ''t'' PROVIDER ''p'' ''h1'', RegisterApi ''t'' PROVIDER ''p'' 10, RegisterApi ''t'' CONSUMER ''p'' 50,
     NextTopic, RequestRejected 0, SettleGroup 1, FinishRun, NextTopic, NextTopic, RequestRejected 2, SettleGroup 3, FinishRun, NextTopic,
     RegisterApi ''t'' CONSUMER ''p'' 51, NextTopic, RequestRejected 4, RequestRejected 5, SettleGroup 5, FinishRun, NextTopic]"

lemma refused_hub_hides_provider:
  "let s = foldl sdStep newDiscovery refusedRun in
   \<not> sd_running s \<and> ms_pipes (sd_streams s 10) = [50] \<and> ac_handled (actorOf s 1) \<and> ac_handled (actorOf s 3) \<and>
   map (mt_actors \<circ> snd) (sd_topics s) = [[0, 1, 2, 3]]"
  by code_simp

text \<open>Two consumers that wait for the same hub each ask it for a stream; the provider keeps the last one only.\<close>

lemma stream_requested_twice:
  "let s = foldl sdStep newDiscovery
     [RegisterHost ''t'' PROVIDER ''p'' ''h1'', RegisterApi ''t'' CONSUMER ''p'' 50, RegisterApi ''t'' CONSUMER ''p'' 51, NextTopic,
      SettleGroup 0, FinishRun, NextTopic, NextTopic, RequestResolved 0 20, RequestResolved 1 21] in
   sd_requests s = [(Some ''h1'', PROVIDER, ''t'', ''p''), (Some ''h1'', PROVIDER, ''t'', ''p'')] \<and> ac_stream (actorOf s 0) = Some 21 \<and>
   ms_pipes (sd_streams s 20) = [50]"
  by code_simp

end
