(* ===== verification/CsrDer.thy ===== *)
theory CsrDer
  imports JsText "HOL-Library.Word"
begin

text \<open>
  The DER reader of \<open>packages/manager/src/lib/csr-enrollment.ts\<close>: nodes with tag, value and children, object
  identifiers and directory strings. A buffer is a list of bytes; an offset into it is the rest of the list.
  A thrown error is \<open>Inl\<close> of its message.
\<close>

type_synonym byte = "8 word"

section \<open>Nodes\<close>

datatype der_node = DerNode (dn_tag: byte) (dn_value: "byte list") (dn_children: "der_node list")

definition bigEndian :: "byte list \<Rightarrow> nat" where
  "bigEndian ds = foldl (\<lambda>n d. n * 256 + unat d) 0 ds"

text \<open>The length octets: the length and the bytes behind them.\<close>

definition derLength :: "byte list \<Rightarrow> string + nat \<times> byte list" where
  "derLength bs = (case bs of
      [] \<Rightarrow> Inl ''Truncated DER''
    | l # rest \<Rightarrow>
        if bit l 7 then
          (let count = unat l - 128 in
           if count = 0 \<or> count > 4 \<or> length rest < count then Inl ''Invalid DER length''
           else Inr (bigEndian (take count rest), drop count rest))
        else Inr (unat l, rest))"

text \<open>Tag, value and the bytes behind the value.\<close>

definition derHeader :: "byte list \<Rightarrow> string + byte \<times> byte list \<times> byte list" where
  "derHeader bs = (case bs of
      [] \<Rightarrow> Inl ''Truncated DER''
    | tag # more \<Rightarrow> bindR (derLength more) (\<lambda>(n, rest).
        if length rest < n then Inl ''Truncated DER value'' else Inr (tag, take n rest, drop n rest)))"

lemma derLength_shorter: "derLength bs = Inr (n, rest) \<Longrightarrow> length rest < length bs"
  by (auto simp: derLength_def Let_def split: list.splits if_splits)

lemma derHeader_shorter: "derHeader bs = Inr (tag, v, rest) \<Longrightarrow> length v + length rest < length bs"
  by (cases bs) (auto simp: derHeader_def bindR_eq_Inr dest!: derLength_shorter split: if_splits)

definition constructed :: "byte \<Rightarrow> bool" where
  "constructed tag \<longleftrightarrow> bit tag 5"

text \<open>The loop over the children of a value; each turn is a call of \<open>readDer\<close>.\<close>

function readItems :: "byte list \<Rightarrow> string + der_node list" where
  "readItems [] = Inr []"
| "readItems (b # bs) = (case derHeader (b # bs) of
      Inl e \<Rightarrow> Inl e
    | Inr (tag, v, rest) \<Rightarrow>
        (case if constructed tag then readItems v else Inr [] of
          Inl e \<Rightarrow> Inl e
        | Inr cs \<Rightarrow>
            (case readItems rest of
              Inl e \<Rightarrow> Inl e
            | Inr ns \<Rightarrow> Inr (DerNode tag v cs # ns))))"
  by pat_completeness auto
termination
  by (relation "measure length") (auto dest!: derHeader_shorter)

definition readDer :: "byte list \<Rightarrow> string + der_node \<times> byte list" where
  "readDer bs = bindR (derHeader bs) (\<lambda>(tag, v, rest).
     bindR (if constructed tag then readItems v else Inr []) (\<lambda>cs. Inr (DerNode tag v cs, rest)))"

lemma readItems_step:
  "b # bs \<noteq> [] \<Longrightarrow> readItems (b # bs) = bindR (readDer (b # bs)) (\<lambda>(n, rest). bindR (readItems rest) (\<lambda>ns. Inr (n # ns)))"
  by (simp add: readDer_def bindR_def split: sum.split prod.split)

section \<open>The encoding\<close>

text \<open>What the reader accepts, as a grammar: lengths in short form or in one to four octets.\<close>

inductive length_octets :: "nat \<Rightarrow> byte list \<Rightarrow> bool" where
  short_form: "\<not> bit l 7 \<Longrightarrow> length_octets (unat l) [l]"
| long_form: "bit l 7 \<Longrightarrow> unat l = 128 + length ds \<Longrightarrow> 1 \<le> length ds \<Longrightarrow> length ds \<le> 4 \<Longrightarrow> length_octets (bigEndian ds) (l # ds)"

inductive der_encoding :: "der_node \<Rightarrow> byte list \<Rightarrow> bool" and der_encodings :: "der_node list \<Rightarrow> byte list \<Rightarrow> bool" where
  primitive: "\<not> constructed t \<Longrightarrow> length_octets (length v) ls \<Longrightarrow> der_encoding (DerNode t v []) (t # ls @ v)"
| composed: "constructed t \<Longrightarrow> length_octets (length v) ls \<Longrightarrow> der_encodings cs v \<Longrightarrow> der_encoding (DerNode t v cs) (t # ls @ v)"
| no_more: "der_encodings [] []"
| one_more: "der_encoding n b \<Longrightarrow> der_encodings ns bs \<Longrightarrow> der_encodings (n # ns) (b @ bs)"

inductive_cases length_octetsE: "length_octets n ls"
inductive_cases der_encodingE: "der_encoding (DerNode t v cs) bs"
inductive_cases der_encodings_ConsE: "der_encodings (n # ns) bs"

lemma derLength_octets: "derLength bs = Inr (n, rest) \<longleftrightarrow> (\<exists>ls. bs = ls @ rest \<and> length_octets n ls)"
proof
  assume "derLength bs = Inr (n, rest)"
  then show "\<exists>ls. bs = ls @ rest \<and> length_octets n ls"
  proof (cases bs)
    case (Cons l more)
    show ?thesis
    proof (cases "bit l 7")
      case False
      then show ?thesis using \<open>derLength bs = Inr (n, rest)\<close> Cons short_form [OF False] by (intro exI [of _ "[l]"]) (simp add: derLength_def)
    next
      case True
      let ?c = "unat l - 128"
      have c: "?c \<noteq> 0" "?c \<le> 4" "?c \<le> length more" "n = bigEndian (take ?c more)" "rest = drop ?c more"
        using \<open>derLength bs = Inr (n, rest)\<close> True Cons by (auto simp: derLength_def Let_def split: if_splits)
      then have "length_octets n (l # take ?c more)" by (auto intro: long_form [OF True])
      then show ?thesis using c(5) Cons by (intro exI [of _ "l # take ?c more"]) simp
    qed
  qed (simp add: derLength_def)
next
  assume "\<exists>ls. bs = ls @ rest \<and> length_octets n ls"
  then show "derLength bs = Inr (n, rest)" by (auto simp: derLength_def Let_def elim!: length_octetsE)
qed

lemma derHeader_octets:
  "derHeader bs = Inr (t, v, rest) \<longleftrightarrow> (\<exists>ls. bs = t # ls @ v @ rest \<and> length_octets (length v) ls)"
proof
  assume h: "derHeader bs = Inr (t, v, rest)"
  then obtain more n r where "bs = t # more" "derLength more = Inr (n, r)" "n \<le> length r" "v = take n r" "rest = drop n r"
    by (cases bs) (auto simp: derHeader_def bindR_eq_Inr split: if_splits)
  then show "\<exists>ls. bs = t # ls @ v @ rest \<and> length_octets (length v) ls" by (auto simp: derLength_octets)
next
  assume "\<exists>ls. bs = t # ls @ v @ rest \<and> length_octets (length v) ls"
  then obtain ls where "bs = t # ls @ v @ rest" "derLength (ls @ v @ rest) = Inr (length v, v @ rest)" by (auto simp: derLength_octets)
  then show "derHeader bs = Inr (t, v, rest)" by (simp add: derHeader_def)
qed

lemma readItems_sound: "readItems bs = Inr ns \<Longrightarrow> der_encodings ns bs"
proof (induction bs arbitrary: ns rule: readItems.induct)
  case 1
  then show ?case by (simp add: no_more)
next
  case (2 b bs)
  from "2.prems" obtain t v rest cs ms where h: "derHeader (b # bs) = Inr (t, v, rest)"
    and c: "(if constructed t then readItems v else Inr []) = Inr cs" and r: "readItems rest = Inr ms" and n: "ns = DerNode t v cs # ms"
    by (auto split: sum.splits)
  obtain ls where ls: "b # bs = t # ls @ v @ rest" "length_octets (length v) ls" using h derHeader_octets by blast
  have "der_encoding (DerNode t v cs) (t # ls @ v)"
  proof (cases "constructed t")
    case True
    then show ?thesis using "2.IH"(1) [OF h refl refl True] c by (auto intro: composed [OF True ls(2)])
  next
    case False
    then show ?thesis using c by (auto intro: primitive [OF False ls(2)])
  qed
  moreover have "der_encodings ms rest" by (rule "2.IH"(2) [OF h refl refl c r])
  ultimately show ?case using one_more ls(1) n by fastforce
qed

lemma encoding_nonempty: "der_encoding n b \<Longrightarrow> b \<noteq> []"
  by (cases n) (auto elim: der_encodingE)

lemma reader_complete:
  "der_encoding n b \<Longrightarrow> readDer (b @ rest) = Inr (n, rest)"
  "der_encodings ns bs \<Longrightarrow> readItems bs = Inr ns"
proof (induction arbitrary: rest and rule: der_encoding_der_encodings.inducts)
  case (primitive t v ls)
  then have "derHeader (t # ls @ v @ rest) = Inr (t, v, rest)" by (simp only: derHeader_octets) blast
  then show ?case using primitive(1) by (simp add: readDer_def)
next
  case (composed t v ls cs)
  then have "derHeader (t # ls @ v @ rest) = Inr (t, v, rest)" by (simp only: derHeader_octets) blast
  then show ?case using composed by (simp add: readDer_def)
next
  case (one_more n b ns bs)
  obtain x xs where "b @ bs = x # xs" using encoding_nonempty [OF one_more(1)] by (cases "b @ bs") auto
  then show ?case using readItems_step [of x xs] one_more(3) [of bs] one_more(4) by simp
qed simp

lemma readDer_exact: "readDer bs = Inr (n, rest) \<longleftrightarrow> (\<exists>b. bs = b @ rest \<and> der_encoding n b)"
proof
  assume "readDer bs = Inr (n, rest)"
  then obtain t v cs where h: "derHeader bs = Inr (t, v, rest)" and c: "(if constructed t then readItems v else Inr []) = Inr cs"
    and n: "n = DerNode t v cs" by (auto simp: readDer_def bindR_eq_Inr)
  obtain ls where "bs = t # ls @ v @ rest" "length_octets (length v) ls" using h derHeader_octets by blast
  then show "\<exists>b. bs = b @ rest \<and> der_encoding n b"
    using c n readItems_sound by (intro exI [of _ "t # ls @ v"]) (auto intro: primitive composed split: if_splits)
qed (auto simp: reader_complete)

section \<open>Object identifiers and texts\<close>

text \<open>The loop over the bytes of an identifier: the finished arcs and the one being read.\<close>

fun oidArcs :: "byte list \<Rightarrow> nat \<Rightarrow> nat list \<times> nat" where
  "oidArcs [] n = ([], n)"
| "oidArcs (b # bs) n =
    (let m = n * 128 + unat b mod 128 in
     if bit b 7 then oidArcs bs m else (let (arcs, k) = oidArcs bs 0 in (m # arcs, k)))"

definition derOid :: "der_node \<Rightarrow> string + string" where
  "derOid node = (case dn_value node of
      [] \<Rightarrow> Inl ''Expected DER OID''
    | b # bs \<Rightarrow>
        if dn_tag node \<noteq> 0x06 then Inl ''Expected DER OID''
        else
          let n = unat b; (arcs, k) = oidArcs bs 0 in
          if k \<noteq> 0 then Inl ''Invalid DER OID''
          else Inr (joinWith ''.'' (map (\<lambda>a. decimal (int a)) ([min 2 (n div 40), if n \<ge> 80 then n - 80 else n mod 40] @ arcs))))"

text \<open>Code units of a text; what UTF-8 decoding makes of bytes beyond ASCII is the parameter \<open>utf8\<close>.\<close>

fun swapped :: "byte list \<Rightarrow> nat list" where
  "swapped (h # l # bs) = (unat h * 256 + unat l) # swapped bs"
| "swapped bs = []"

definition derText :: "(byte list \<Rightarrow> nat list) \<Rightarrow> der_node \<Rightarrow> string + nat list" where
  "derText utf8 node =
    (if dn_tag node \<notin> {0x0c, 0x13, 0x16, 0x1e} then Inl ''Expected directory string''
     else if dn_tag node = 0x1e then
       (if odd (length (dn_value node)) then Inl ''Buffer size must be a multiple of 16-bits'' else Inr (swapped (dn_value node)))
     else Inr (if list_all (\<lambda>b. unat b < 128) (dn_value node) then map unat (dn_value node) else utf8 (dn_value node)))"

text \<open>Decoding as ASCII drops the highest bit of each byte.\<close>

definition asciiText :: "byte list \<Rightarrow> string" where
  "asciiText = map (\<lambda>b. char_of (unat b mod 128))"

text \<open>\<open>node.children[i]\<close>, which may be \<open>undefined\<close>; using it then is a type error.\<close>

definition childAt :: "der_node \<Rightarrow> nat \<Rightarrow> der_node option" where
  "childAt n i = (if i < length (dn_children n) then Some (dn_children n ! i) else None)"

definition defined :: "'a option \<Rightarrow> string + 'a" where
  "defined x = (case x of Some y \<Rightarrow> Inr y | None \<Rightarrow> Inl ''TypeError'')"

text \<open>The value of an extension stands behind its optional critical flag.\<close>

definition extensionValue :: "der_node \<Rightarrow> der_node option" where
  "extensionValue n = childAt n (if map_option dn_tag (childAt n 1) = Some 0x01 then 2 else 1)"

fun findCertificateExtension :: "string \<Rightarrow> der_node \<Rightarrow> string + byte list option"
  and findInChildren :: "string \<Rightarrow> der_node list \<Rightarrow> string + byte list option" where
  "findCertificateExtension oid (DerNode t v cs) =
    (let n = DerNode t v cs in
     bindR (if t = 0x30 \<and> map_option dn_tag (childAt n 0) = Some 0x06
         then bindR (defined (childAt n 0)) (\<lambda>c. bindR (derOid c) (\<lambda>o'. Inr (o' = oid))) else Inr False)
       (\<lambda>found. if found then Inr (case extensionValue n of Some x \<Rightarrow> if dn_tag x = 0x04 then Some (dn_value x) else None | None \<Rightarrow> None)
          else findInChildren oid cs))"
| "findInChildren oid [] = Inr None"
| "findInChildren oid (c # cs) = bindR (findCertificateExtension oid c) (\<lambda>r. case r of Some b \<Rightarrow> Inr (Some b) | None \<Rightarrow> findInChildren oid cs)"

definition certificateHasCaKeyUsage :: "byte list \<Rightarrow> string + bool" where
  "certificateHasCaKeyUsage raw =
    bindR (readDer raw) (\<lambda>(cert, _). bindR (findCertificateExtension ''2.5.29.15'' cert) (\<lambda>encoded.
      case encoded of
        None \<Rightarrow> Inr False
      | Some e \<Rightarrow> bindR (readDer e) (\<lambda>(bits, _).
          Inr (dn_tag bits = 0x03 \<and> length (dn_value bits) > 1 \<and> bit (dn_value bits ! 1) 2))))"

section \<open>Properties\<close>

text \<open>C34: The DER reader reads exactly DER: it returns a node and the rest of a buffer if and only if the buffer is an encoding
  of that node followed by that rest; primitive values are kept as they are, constructed ones are read to
  their end, and lengths have the short form or one to four octets.\<close>

theorem der_reader_exact: "readDer bs = Inr (n, rest) \<longleftrightarrow> (\<exists>b. bs = b @ rest \<and> der_encoding n b)"
  by (rule readDer_exact)

end
