(* ===== verification/CsrEnrollment.thy ===== *)
theory CsrEnrollment
  imports CsrDer
begin

text \<open>
  \<open>packages/manager/src/lib/csr-enrollment.ts\<close>: the manager issues client certificates for hubs. A grant approved
  by the operator is redeemed with the signing request it was approved for. \<open>ca_grants\<close>, \<open>ca_locks\<close> and \<open>ca_issued\<close>
  are the files \<open><token hash>.json\<close>, their \<open>.lock\<close> files and \<open>issued-<csr hash>.issued.json\<close>; \<open>ca_replay\<close> are the
  files \<open>issued-<csr hash>.json\<close>, which are read only. The hash, OpenSSL and the certificate parser are parameters
  (\<open>ca_env\<close>), times and random tokens are arguments.
\<close>

section \<open>Requests\<close>

definition PROTOCOL_VERSION :: string where
  "PROTOCOL_VERSION = ''csr-enrollment/v1''"

record enrollment_request =
  rq_version :: string
  rq_hubId :: string
  rq_csrPem :: string
  rq_sans :: "string list"
  rq_nonce :: string

definition isAlnum :: "char \<Rightarrow> bool" where
  "isAlnum c = (let n = of_char c :: nat in (65 \<le> n \<and> n \<le> 90) \<or> (97 \<le> n \<and> n \<le> 122) \<or> (48 \<le> n \<and> n \<le> 57))"

definition validHubId :: "string \<Rightarrow> bool" where
  "validHubId h \<longleftrightarrow> h \<noteq> [] \<and> isAlnum (hd h) \<and> length h \<le> 128 \<and> list_all (\<lambda>c. isAlnum c \<or> c \<in> set ''._-'') (tl h)"

definition isHex :: "char \<Rightarrow> bool" where
  "isHex c = (let n = of_char c :: nat in (48 \<le> n \<and> n \<le> 57) \<or> (97 \<le> n \<and> n \<le> 102) \<or> (65 \<le> n \<and> n \<le> 70))"

definition validateRequest :: "enrollment_request \<Rightarrow> string + unit" where
  "validateRequest r =
    (if rq_version r \<noteq> PROTOCOL_VERSION then Inl ''Unsupported CSR enrollment protocol version''
     else if \<not> validHubId (rq_hubId r) then Inl ''Invalid Hub ID''
     else if length (rq_sans r) \<noteq> 1 \<or> rq_sans r ! 0 \<noteq> rq_hubId r then Inl ''CSR SAN must exactly match Hub ID''
     else if \<not> (list_all isHex (rq_nonce r) \<and> 32 \<le> length (rq_nonce r) \<and> length (rq_nonce r) \<le> 128) then Inl ''Invalid enrollment nonce''
     else if \<not> strIncludes (rq_csrPem r) ''-----BEGIN CERTIFICATE REQUEST-----'' then Inl ''Invalid CSR PEM''
     else Inr ())"

section \<open>The signing request\<close>

text \<open>\<open>replace(/-----[^-]+-----/g, "")\<close> and \<open>replace(/\s/g, "")\<close>\<close>

definition dashes :: string where
  "dashes = ''-----''"

text \<open>The rest behind a marker line that begins here, if one does.\<close>

definition markerRest :: "string \<Rightarrow> string option" where
  "markerRest s = (if \<not> prefix dashes s then None
     else let t = drop 5 s; label = takeWhile (\<lambda>c. c \<noteq> CHR ''-'') t; rest = dropWhile (\<lambda>c. c \<noteq> CHR ''-'') t in
       if label \<noteq> [] \<and> prefix dashes rest then Some (drop 5 rest) else None)"

lemma markerRest_shorter: "markerRest s = Some t \<Longrightarrow> length t < length s"
  using length_dropWhile_le [of "\<lambda>c. c \<noteq> CHR ''-''" "drop 5 s"]
  by (auto simp: markerRest_def dashes_def Let_def prefix_def split: if_splits)

function stripMarkers :: "string \<Rightarrow> string" where
  "stripMarkers [] = []"
| "stripMarkers (c # s) = (case markerRest (c # s) of Some t \<Rightarrow> stripMarkers t | None \<Rightarrow> c # stripMarkers s)"
  by pat_completeness auto
termination
  by (relation "measure length") (auto dest: markerRest_shorter)

text \<open>\<open>Buffer.from(text, "base64")\<close>: other characters are skipped, an incomplete byte at the end is dropped.\<close>

definition unbase64 :: "char \<Rightarrow> nat option" where
  "unbase64 c = (let n = of_char c :: nat in
     if 65 \<le> n \<and> n \<le> 90 then Some (n - 65)
     else if 97 \<le> n \<and> n \<le> 122 then Some (n - 71)
     else if 48 \<le> n \<and> n \<le> 57 then Some (n + 4)
     else if c = CHR ''+'' \<or> c = CHR ''-'' then Some 62
     else if c = CHR ''/'' \<or> c = CHR ''_'' then Some 63 else None)"

fun sextetBytes :: "nat list \<Rightarrow> byte list" where
  "sextetBytes (a # b # c # d # r) = of_nat (a * 4 + b div 16) # of_nat (b mod 16 * 16 + c div 4) # of_nat (c mod 4 * 64 + d) # sextetBytes r"
| "sextetBytes [a, b, c] = [of_nat (a * 4 + b div 16), of_nat (b mod 16 * 16 + c div 4)]"
| "sextetBytes [a, b] = [of_nat (a * 4 + b div 16)]"
| "sextetBytes _ = []"

definition base64Bytes :: "string \<Rightarrow> byte list" where
  "base64Bytes s = sextetBytes (List.map_filter unbase64 s)"

definition csrBytes :: "string \<Rightarrow> byte list" where
  "csrBytes pem = base64Bytes (filter (\<lambda>c. \<not> isJsSpace c) (stripMarkers pem))"

text \<open>Going through a list with a function that may throw.\<close>

fun mapR :: "('a \<Rightarrow> 'e + 'b) \<Rightarrow> 'a list \<Rightarrow> 'e + 'b list" where
  "mapR f [] = Inr []"
| "mapR f (x # xs) = bindR (f x) (\<lambda>y. bindR (mapR f xs) (\<lambda>ys. Inr (y # ys)))"

fun filterR :: "('a \<Rightarrow> 'e + bool) \<Rightarrow> 'a list \<Rightarrow> 'e + 'a list" where
  "filterR p [] = Inr []"
| "filterR p (x # xs) = bindR (p x) (\<lambda>b. bindR (filterR p xs) (\<lambda>ys. Inr (if b then x # ys else ys)))"

definition hasOid :: "string \<Rightarrow> der_node \<Rightarrow> string + bool" where
  "hasOid oid n = (case childAt n 0 of None \<Rightarrow> Inr False | Some c \<Rightarrow> bindR (derOid c) (\<lambda>o'. Inr (o' = oid)))"

definition commonNames :: "(byte list \<Rightarrow> nat list) \<Rightarrow> der_node \<Rightarrow> string + nat list list" where
  "commonNames utf8 subject = bindR (mapR (\<lambda>rdn. bindR (filterR (hasOid ''2.5.4.3'') (dn_children rdn))
     (mapR (\<lambda>s. bindR (defined (childAt s 1)) (derText utf8)))) (dn_children subject)) (\<lambda>xs. Inr (concat xs))"

definition checkKey :: "der_node \<Rightarrow> string + unit" where
  "checkKey spki =
    bindR (defined (childAt spki 0)) (\<lambda>alg. bindR (defined (childAt alg 0)) (\<lambda>c. bindR (derOid c) (\<lambda>oid.
      if oid = ''1.2.840.113549.1.1.1'' then
        (case childAt spki 1 of
          None \<Rightarrow> Inl ''CSR RSA key is malformed''
        | Some bitString \<Rightarrow>
            if length (dn_value bitString) < 2 then Inl ''CSR RSA key is malformed''
            else bindR (readDer (drop 1 (dn_value bitString))) (\<lambda>(key, _).
              case childAt key 0 of
                Some m \<Rightarrow> if dn_tag m \<noteq> 0x02 \<or> length (dn_value m) < 256 then Inl ''CSR RSA key is too weak'' else Inr ()
              | None \<Rightarrow> Inl ''CSR RSA key is too weak''))
      else if oid = ''1.2.840.10045.2.1'' then
        (case childAt alg 1 of
          None \<Rightarrow> Inl ''CSR EC curve is not allowed''
        | Some curve \<Rightarrow> bindR (derOid curve) (\<lambda>o'.
            if o' = ''1.2.840.10045.3.1.7'' \<or> o' = ''1.3.132.0.34'' then Inr () else Inl ''CSR EC curve is not allowed''))
      else Inl ''CSR key algorithm is not allowed'')))"

fun requestedIn :: "der_node list \<Rightarrow> string + der_node list" where
  "requestedIn [] = Inl ''CSR extension request is missing''"
| "requestedIn (a # as) = bindR (hasOid ''1.2.840.113549.1.9.14'' a) (\<lambda>b.
     if b then Inr (case childAt a 1 of None \<Rightarrow> [] | Some s \<Rightarrow> (case childAt s 0 of None \<Rightarrow> [] | Some x \<Rightarrow> dn_children x))
     else requestedIn as)"

definition extensionRequest :: "der_node \<Rightarrow> string + der_node list" where
  "extensionRequest info = (case childAt info 3 of
      None \<Rightarrow> Inl ''CSR attributes are missing''
    | Some attrs \<Rightarrow> if dn_tag attrs \<noteq> 0xa0 then Inl ''CSR attributes are missing'' else requestedIn (dn_children attrs))"

text \<open>One turn of the loop over the extensions: the identifiers seen, the DNS names, the key usages.\<close>

definition extensionStep :: "der_node \<Rightarrow> string list \<times> string list \<times> string list option \<Rightarrow> string + string list \<times> string list \<times> string list option" where
  "extensionStep x st = (case st of (seen, names, eku) \<Rightarrow>
     bindR (defined (childAt x 0)) (\<lambda>c. bindR (derOid c) (\<lambda>oid.
       if oid \<in> set seen \<or> oid \<notin> {''2.5.29.17'', ''2.5.29.37''} then Inl ''CSR contains an unsupported or duplicate extension''
       else case extensionValue x of
         None \<Rightarrow> Inl ''Malformed CSR extension''
       | Some val \<Rightarrow> bindR (readDer (dn_value val)) (\<lambda>(decoded, _).
           if oid = ''2.5.29.17'' then
             Inr (oid # seen, names @ map (\<lambda>n. asciiText (dn_value n)) (filter (\<lambda>n. dn_tag n = 0x82) (dn_children decoded)), eku)
           else bindR (mapR derOid (dn_children decoded)) (\<lambda>us. Inr (oid # seen, names, Some us))))))"

fun extensionLoop :: "der_node list \<Rightarrow> string list \<times> string list \<times> string list option \<Rightarrow> string + string list \<times> string list \<times> string list option" where
  "extensionLoop [] st = Inr st"
| "extensionLoop (x # xs) st = bindR (extensionStep x st) (extensionLoop xs)"

definition validateCsrStructure :: "(byte list \<Rightarrow> nat list) \<Rightarrow> string \<Rightarrow> string \<Rightarrow> string + unit" where
  "validateCsrStructure utf8 csrPem hubId =
    bindR (readDer (csrBytes csrPem)) (\<lambda>(request, _).
      if dn_tag request \<noteq> 0x30 \<or> length (dn_children request) \<noteq> 3 then Inl ''Invalid PKCS#10 structure''
      else
        let info = dn_children request ! 0 in
        if dn_tag info \<noteq> 0x30 \<or> length (dn_children info) < 4 then Inl ''Invalid CSR information structure''
        else bindR (commonNames utf8 (dn_children info ! 1)) (\<lambda>cns.
          if cns \<noteq> [map of_char hubId] then Inl ''CSR subject CN does not match Hub ID''
          else bindR (checkKey (dn_children info ! 2)) (\<lambda>_. bindR (extensionRequest info) (\<lambda>extensions.
            bindR (extensionLoop extensions ([], [], None)) (\<lambda>(_, dnsNames, eku).
              if dnsNames \<noteq> [hubId] then Inl ''CSR SAN does not match Hub ID''
              else if eku \<noteq> Some [''1.3.6.1.5.5.7.3.2''] then Inl ''CSR EKU must be clientAuth only''
              else Inr ())))))"

section \<open>The authority\<close>

record cert_response =
  cr_hubId :: string
  cr_certificatePem :: string
  cr_caFingerprint :: string
  cr_expiresAt :: int

record grant_record =
  gr_csrHash :: string
  gr_hubId :: string
  gr_sans :: "string list"
  gr_nonce :: string
  gr_expiresAt :: int
  gr_consumed :: bool
  gr_fingerprint :: "string option"
  gr_response :: "cert_response option"

record issued_record =
  ir_fingerprint :: string
  ir_hubId :: string
  ir_revoked :: bool
  ir_response :: cert_response

record authority =
  ca_enabled :: bool
  ca_operatorApproval :: string
  ca_grantTtlMs :: int
  ca_leafValidityMs :: "int option"
  ca_validToMs :: int
  ca_fingerprint :: string
  ca_grants :: "(string, grant_record) jsmap"
  ca_locks :: "(string, int) jsmap"
  ca_issued :: "(string, issued_record) jsmap"
  ca_replay :: "(string, cert_response) jsmap"

text \<open>What the parsed certificate answers to the checks after signing.\<close>

record signed_certificate =
  sc_pem :: string
  sc_ca :: bool
  sc_issuedByCa :: bool
  sc_verified :: bool
  sc_validTo :: int

record ca_env =
  en_hash :: "string \<Rightarrow> string"
  en_utf8 :: "byte list \<Rightarrow> nat list"
  en_selfSigned :: "string \<Rightarrow> bool"
  en_fingerprint :: "string \<Rightarrow> string"

definition DAY_MS :: int where
  "DAY_MS = 86400000"

text \<open>The check of the request's own signature is OpenSSL's; every error is reported as a failed validation.\<close>

definition validateCsr :: "ca_env \<Rightarrow> string \<Rightarrow> string \<Rightarrow> string + unit" where
  "validateCsr env csrPem hubId =
    (case (if bytesOf csrPem > 256 * 1024 then Inl ''CSR is too large''
       else if \<not> en_selfSigned env csrPem then Inl ''Command failed''
       else validateCsrStructure (en_utf8 env) csrPem hubId) of
      Inl e \<Rightarrow> Inl (''CSR validation failed: '' @ e)
    | Inr u \<Rightarrow> Inr u)"

record enrollment_approval =
  ap_grant :: string
  ap_expiresAt :: int
  ap_hubId :: string
  ap_sans :: "string list"

definition approve :: "ca_env \<Rightarrow> authority \<Rightarrow> enrollment_request \<Rightarrow> string \<Rightarrow> string \<Rightarrow> int \<Rightarrow> string + authority \<times> enrollment_approval" where
  "approve env a r operatorApproval token now =
    (if \<not> ca_enabled a then Inl ''CSR enrollment is disabled''
     else if ca_operatorApproval a = [] \<or> operatorApproval \<noteq> ca_operatorApproval a then Inl ''Invalid local operator approval''
     else bindR (validateRequest r) (\<lambda>_. bindR (validateCsr env (rq_csrPem r) (rq_hubId r)) (\<lambda>_.
       let expiresAt = now + ca_grantTtlMs a;
           record = \<lparr>gr_csrHash = en_hash env (rq_csrPem r), gr_hubId = rq_hubId r, gr_sans = rq_sans r, gr_nonce = rq_nonce r,
             gr_expiresAt = expiresAt, gr_consumed = False, gr_fingerprint = None, gr_response = None\<rparr>
       in Inr (a\<lparr>ca_grants := jsSet (ca_grants a) (en_hash env token) record\<rparr>,
            \<lparr>ap_grant = token, ap_expiresAt = expiresAt, ap_hubId = rq_hubId r, ap_sans = rq_sans r\<rparr>))))"

text \<open>\<open>openssl\<close> is what OpenSSL makes of the request for the given number of days.\<close>

definition issueCertificate ::
  "ca_env \<Rightarrow> (int \<Rightarrow> signed_certificate option) \<Rightarrow> authority \<Rightarrow> enrollment_request \<Rightarrow> int \<Rightarrow> string + authority \<times> cert_response" where
  "issueCertificate env openssl a r now =
    (let validity = (case ca_leafValidityMs a of Some v \<Rightarrow> v | None \<Rightarrow> 365 * DAY_MS);
         leafDays = min (ca_validToMs a - now) validity div DAY_MS in
     if leafDays < 1 then Inl ''Manager CA does not have enough validity remaining for a leaf certificate''
     else case openssl leafDays of
       None \<Rightarrow> Inl ''Command failed''
     | Some c \<Rightarrow>
         if sc_ca c \<or> \<not> sc_issuedByCa c \<or> \<not> sc_verified c \<or> sc_validTo c > ca_validToMs a
         then Inl ''Issued certificate failed CA or validity constraints''
         else
           let result = \<lparr>cr_hubId = rq_hubId r, cr_certificatePem = sc_pem c, cr_caFingerprint = ca_fingerprint a, cr_expiresAt = sc_validTo c\<rparr> in
           Inr (a\<lparr>ca_issued := jsSet (ca_issued a) (en_hash env (rq_csrPem r))
                 \<lparr>ir_fingerprint = en_fingerprint env (sc_pem c), ir_hubId = rq_hubId r, ir_revoked = False, ir_response = result\<rparr>\<rparr>, result))"

text \<open>The lock of a grant: a fresh one, or one left for more than five minutes, which is taken over.\<close>

definition lockable :: "authority \<Rightarrow> string \<Rightarrow> int \<Rightarrow> bool" where
  "lockable a f now \<longleftrightarrow> (case jsGet (ca_locks a) f of None \<Rightarrow> True | Some t \<Rightarrow> now - t > 5 * 60 * 1000)"

text \<open>The body of the \<open>try\<close> block: the grant's record decides, then a certificate is issued or replayed.\<close>

definition redeemLocked ::
  "ca_env \<Rightarrow> (int \<Rightarrow> signed_certificate option) \<Rightarrow> authority \<Rightarrow> enrollment_request \<Rightarrow> string \<Rightarrow> grant_record \<Rightarrow> int \<Rightarrow>
    string + authority \<times> cert_response" where
  "redeemLocked env openssl a r f record now =
    (case (gr_consumed record, gr_response record) of
      (True, Some response) \<Rightarrow> Inr (a, response)
    | (True, None) \<Rightarrow> Inl ''Enrollment grant already consumed''
    | (False, _) \<Rightarrow>
        if gr_expiresAt record \<le> now then Inl ''Enrollment grant expired''
        else if gr_csrHash record \<noteq> en_hash env (rq_csrPem r) \<or> gr_hubId record \<noteq> rq_hubId r \<or> gr_nonce record \<noteq> rq_nonce r \<or>
             gr_sans record \<noteq> rq_sans r then Inl ''Enrollment grant binding mismatch''
        else bindR (validateCsr env (rq_csrPem r) (rq_hubId r)) (\<lambda>_.
          bindR (case jsGet (ca_replay a) (gr_csrHash record) of
              Some response \<Rightarrow> Inr (a, response)
            | None \<Rightarrow> issueCertificate env openssl a r now) (\<lambda>(b, result).
          Inr (b\<lparr>ca_grants := jsSet (ca_grants b) f (record\<lparr>gr_consumed := True,
              gr_fingerprint := Some (en_fingerprint env (cr_certificatePem result)), gr_response := Some result\<rparr>)\<rparr>, result))))"

definition redeemGuards :: "ca_env \<Rightarrow> authority \<Rightarrow> enrollment_request \<Rightarrow> string \<Rightarrow> int \<Rightarrow> string + grant_record" where
  "redeemGuards env a r grant now =
    (if \<not> ca_enabled a then Inl ''CSR enrollment is disabled''
     else bindR (validateRequest r) (\<lambda>_.
       case jsGet (ca_grants a) (en_hash env grant) of
         None \<Rightarrow> Inl ''Invalid or unknown enrollment grant''
       | Some record \<Rightarrow> if \<not> lockable a (en_hash env grant) now then Inl ''Enrollment grant is busy'' else Inr record))"

text \<open>The lock is released however the redemption ends.\<close>

definition redeem ::
  "ca_env \<Rightarrow> (int \<Rightarrow> signed_certificate option) \<Rightarrow> authority \<Rightarrow> enrollment_request \<Rightarrow> string \<Rightarrow> int \<Rightarrow>
    authority \<times> (string + cert_response)" where
  "redeem env openssl a r grant now =
    (let f = en_hash env grant in
     case redeemGuards env a r grant now of
       Inl e \<Rightarrow> (a, Inl e)
     | Inr record \<Rightarrow>
         (case redeemLocked env openssl a r f record now of
            Inl e \<Rightarrow> (a\<lparr>ca_locks := jsDelete (ca_locks a) f\<rparr>, Inl e)
          | Inr (b, response) \<Rightarrow> (b\<lparr>ca_locks := jsDelete (ca_locks b) f\<rparr>, Inr response)))"

definition isClientFingerprintAuthorizedForHub :: "authority \<Rightarrow> string \<Rightarrow> string option \<Rightarrow> bool" where
  "isClientFingerprintAuthorizedForHub a fingerprint hubId \<longleftrightarrow> ca_enabled a \<and>
     list_ex (\<lambda>x. ir_fingerprint x = fingerprint \<and> (case hubId of Some h \<Rightarrow> h = [] \<or> ir_hubId x = h | None \<Rightarrow> True) \<and> \<not> ir_revoked x)
       (jsValues (ca_issued a))"

definition isClientFingerprintAuthorized :: "authority \<Rightarrow> string \<Rightarrow> bool" where
  "isClientFingerprintAuthorized a fingerprint = isClientFingerprintAuthorizedForHub a fingerprint None"

definition revokeClientFingerprint :: "authority \<Rightarrow> string \<Rightarrow> authority" where
  "revokeClientFingerprint a fingerprint = a\<lparr>ca_issued :=
     map (\<lambda>(k, x). (k, if ir_fingerprint x = fingerprint then x\<lparr>ir_revoked := True\<rparr> else x)) (ca_issued a)\<rparr>"

section \<open>The HTTPS server\<close>

text \<open>\<open>/^Bearer [^\s]+$/\<close>, and the payload: its request and whether it has a \<open>grant\<close>; \<open>None\<close> when reading or parsing it throws.\<close>

definition bearerToken :: "string option \<Rightarrow> string option" where
  "bearerToken h = (case h of
      Some s \<Rightarrow> if prefix ''Bearer '' s \<and> drop 7 s \<noteq> [] \<and> list_all (\<lambda>c. \<not> isJsSpace c) (drop 7 s) then Some (drop 7 s) else None
    | None \<Rightarrow> None)"

datatype http_answer = NotFound404 | BadRequest400 | Certificate200 cert_response

definition enrollmentServer ::
  "ca_env \<Rightarrow> (int \<Rightarrow> signed_certificate option) \<Rightarrow> authority \<Rightarrow> string \<Rightarrow> string \<Rightarrow> string option \<Rightarrow> (enrollment_request \<times> bool) option \<Rightarrow> int \<Rightarrow>
    authority \<times> http_answer" where
  "enrollmentServer env openssl a httpMethod url authorization payload now =
    (if httpMethod \<noteq> ''POST'' \<or> url \<noteq> ''/api/v2/enrollment/redeem'' then (a, NotFound404)
     else case bearerToken authorization of
       None \<Rightarrow> (a, BadRequest400)
     | Some token \<Rightarrow>
         (case payload of
            None \<Rightarrow> (a, BadRequest400)
          | Some (r, hasGrant) \<Rightarrow>
              if hasGrant then (a, BadRequest400)
              else (case redeem env openssl a r token now of
                  (b, Inr response) \<Rightarrow> (b, Certificate200 response)
                | (b, Inl _) \<Rightarrow> (b, BadRequest400))))"

section \<open>Runs\<close>

text \<open>A redemption may be cut off after the certificate was issued: the grant is not marked, its lock stays.\<close>

datatype ca_event =
    Approve enrollment_request string string int
  | Redeem "int \<Rightarrow> signed_certificate option" enrollment_request string int
  | RedeemCutOff "int \<Rightarrow> signed_certificate option" enrollment_request string int
  | Revoke string

definition redeemCutOff ::
  "ca_env \<Rightarrow> (int \<Rightarrow> signed_certificate option) \<Rightarrow> authority \<Rightarrow> enrollment_request \<Rightarrow> string \<Rightarrow> int \<Rightarrow> authority" where
  "redeemCutOff env openssl a r grant now =
    (let f = en_hash env grant in
     case redeemGuards env a r grant now of
       Inl e \<Rightarrow> a
     | Inr record \<Rightarrow>
         (case redeemLocked env openssl a r f record now of
            Inl e \<Rightarrow> a\<lparr>ca_locks := jsSet (ca_locks a) f now\<rparr>
          | Inr (b, response) \<Rightarrow> b\<lparr>ca_grants := ca_grants a, ca_locks := jsSet (ca_locks a) f now\<rparr>))"

definition caStep :: "ca_env \<Rightarrow> authority \<Rightarrow> ca_event \<Rightarrow> authority" where
  "caStep env a e = (case e of
      Approve r approval token now \<Rightarrow> (case approve env a r approval token now of Inl _ \<Rightarrow> a | Inr (b, _) \<Rightarrow> b)
    | Redeem openssl r grant now \<Rightarrow> fst (redeem env openssl a r grant now)
    | RedeemCutOff openssl r grant now \<Rightarrow> redeemCutOff env openssl a r grant now
    | Revoke fingerprint \<Rightarrow> revokeClientFingerprint a fingerprint)"

definition newAuthority :: "string \<Rightarrow> int \<Rightarrow> int option \<Rightarrow> int \<Rightarrow> string \<Rightarrow> authority" where
  "newAuthority approval ttl leaf validTo fingerprint = \<lparr>ca_enabled = True, ca_operatorApproval = approval, ca_grantTtlMs = ttl,
     ca_leafValidityMs = leaf, ca_validToMs = validTo, ca_fingerprint = fingerprint, ca_grants = [], ca_locks = [], ca_issued = [], ca_replay = []\<rparr>"

section \<open>Every certificate was approved\<close>

text \<open>The operator approved a valid request of this hub with this hash.\<close>

definition approvedFor :: "ca_env \<Rightarrow> string \<Rightarrow> ca_event list \<Rightarrow> string \<Rightarrow> string \<Rightarrow> bool" where
  "approvedFor env approval es h c \<longleftrightarrow> approval \<noteq> [] \<and> (\<exists>r token now. Approve r approval token now \<in> set es \<and> rq_hubId r = h \<and>
     en_hash env (rq_csrPem r) = c \<and> validateCsr env (rq_csrPem r) h = Inr ())"

definition ca_ok :: "ca_env \<Rightarrow> string \<Rightarrow> ca_event list \<Rightarrow> authority \<Rightarrow> bool" where
  "ca_ok env approval es a \<longleftrightarrow> ca_operatorApproval a = approval \<and> ca_replay a = [] \<and>
     list_all (\<lambda>e. approvedFor env approval es (gr_hubId (snd e)) (gr_csrHash (snd e))) (ca_grants a) \<and>
     list_all (\<lambda>e. approvedFor env approval es (ir_hubId (snd e)) (fst e)) (ca_issued a)"

lemma approved_more: "approvedFor env approval es h c \<Longrightarrow> approvedFor env approval (es @ fs) h c"
  by (fastforce simp: approvedFor_def)

lemma ca_ok_more: "ca_ok env approval es a \<Longrightarrow> ca_ok env approval (es @ fs) a"
  unfolding ca_ok_def using approved_more [of env approval es _ _ fs] by (simp add: list_all_iff)

lemma ca_ok_locks: "ca_ok env approval es (a\<lparr>ca_locks := ls\<rparr>) = ca_ok env approval es a"
  by (simp add: ca_ok_def)

lemma ca_ok_approve:
  assumes "ca_ok env approval es a" "approve env a r op token now = Inr (b, x)" "Approve r op token now \<in> set es"
  shows "ca_ok env approval es b"
proof -
  have c: "op = approval" "approval \<noteq> []" "validateCsr env (rq_csrPem r) (rq_hubId r) = Inr ()"
    and b: "b = a\<lparr>ca_grants := jsSet (ca_grants a) (en_hash env token) \<lparr>gr_csrHash = en_hash env (rq_csrPem r), gr_hubId = rq_hubId r,
      gr_sans = rq_sans r, gr_nonce = rq_nonce r, gr_expiresAt = now + ca_grantTtlMs a, gr_consumed = False, gr_fingerprint = None, gr_response = None\<rparr>\<rparr>"
    using assms(1,2) by (auto simp: approve_def ca_ok_def bindR_eq_Inr Let_def split: if_splits)
  have "approvedFor env approval es (rq_hubId r) (en_hash env (rq_csrPem r))" using c assms(3) unfolding approvedFor_def by blast
  then show ?thesis using assms(1) unfolding b ca_ok_def by (simp add: list_all_jsSet)
qed

lemma guards_grant:
  "redeemGuards env a r grant now = Inr record \<Longrightarrow> jsGet (ca_grants a) (en_hash env grant) = Some record"
  by (auto simp: redeemGuards_def bindR_eq_Inr split: if_splits option.splits)

definition issuedRecord :: "ca_env \<Rightarrow> string \<Rightarrow> cert_response \<Rightarrow> issued_record" where
  "issuedRecord env h x = \<lparr>ir_fingerprint = en_fingerprint env (cr_certificatePem x), ir_hubId = h, ir_revoked = False, ir_response = x\<rparr>"

lemma issue_shape:
  "issueCertificate env openssl a r now = Inr (b, x) \<Longrightarrow>
     b = a\<lparr>ca_issued := jsSet (ca_issued a) (en_hash env (rq_csrPem r)) (issuedRecord env (rq_hubId r) x)\<rparr>"
  by (auto simp: issueCertificate_def issuedRecord_def Let_def split: if_splits option.splits)

text \<open>The two ways a redemption can succeed: the response is replayed, or a certificate is issued to the grant's hub.\<close>

lemma redeemLocked_cases:
  assumes "redeemLocked env openssl a r f record now = Inr (b, x)" and "ca_replay a = []"
  obtains (replayed) "b = a" "gr_consumed record" "gr_response record = Some x"
  | (issued) "\<not> gr_consumed record" "now < gr_expiresAt record" "rq_hubId r = gr_hubId record" "en_hash env (rq_csrPem r) = gr_csrHash record"
      "b = a\<lparr>ca_issued := jsSet (ca_issued a) (gr_csrHash record) (issuedRecord env (gr_hubId record) x),
         ca_grants := jsSet (ca_grants a) f (record\<lparr>gr_consumed := True, gr_fingerprint := Some (en_fingerprint env (cr_certificatePem x)), gr_response := Some x\<rparr>)\<rparr>"
proof (cases "gr_consumed record")
  case True
  then show ?thesis using assms(1) replayed by (cases "gr_response record") (simp_all add: redeemLocked_def)
next
  case False
  then obtain c where g: "now < gr_expiresAt record" "gr_csrHash record = en_hash env (rq_csrPem r)" "gr_hubId record = rq_hubId r"
    and i: "issueCertificate env openssl a r now = Inr (c, x)"
    and b: "b = c\<lparr>ca_grants := jsSet (ca_grants c) f (record\<lparr>gr_consumed := True, gr_fingerprint := Some (en_fingerprint env (cr_certificatePem x)),
      gr_response := Some x\<rparr>)\<rparr>"
    using assms by (auto simp: redeemLocked_def bindR_eq_Inr split: if_splits)
  show ?thesis by (rule issued) (use issue_shape [OF i] g b False in simp_all)
qed

lemma ca_ok_locked:
  assumes "ca_ok env approval es a" "redeemLocked env openssl a r f record now = Inr (b, x)" "jsGet (ca_grants a) f = Some record"
  shows "ca_ok env approval es b"
proof -
  have rep: "ca_replay a = []" using assms(1) by (simp add: ca_ok_def)
  have g: "approvedFor env approval es (gr_hubId record) (gr_csrHash record)"
    using assms(1) map_of_SomeD [OF assms(3)] by (auto simp: ca_ok_def list_all_iff)
  from assms(2) rep show ?thesis
  proof (cases rule: redeemLocked_cases)
    case replayed
    then show ?thesis using assms(1) by simp
  next
    case issued
    then show ?thesis using assms(1) g by (simp add: ca_ok_def list_all_jsSet issuedRecord_def)
  qed
qed

lemma ca_ok_revoke: "ca_ok env approval es a \<Longrightarrow> ca_ok env approval es (revokeClientFingerprint a fp)"
  by (auto simp: ca_ok_def revokeClientFingerprint_def list_all_iff)

lemma ca_ok_step:
  assumes "ca_ok env approval es a" "e \<in> set es"
  shows "ca_ok env approval es (caStep env a e)"
proof (cases e)
  case (Approve r op token now)
  then show ?thesis using assms ca_ok_approve [OF assms(1)] by (auto simp: caStep_def split: sum.split)
next
  case (Redeem openssl r grant now)
  then show ?thesis using assms(1) ca_ok_locked [OF assms(1) _ guards_grant]
    by (auto simp: caStep_def redeem_def Let_def ca_ok_locks split: sum.split)
next
  case (RedeemCutOff openssl r grant now)
  have "ca_ok env approval es (b\<lparr>ca_grants := ca_grants a, ca_locks := ls\<rparr>)" if "ca_ok env approval es b" for b ls
    using that assms(1) by (simp add: ca_ok_def)
  then show ?thesis using RedeemCutOff assms(1) ca_ok_locked [OF assms(1) _ guards_grant]
    by (auto simp: caStep_def redeemCutOff_def Let_def ca_ok_locks split: sum.split)
next
  case (Revoke fp)
  then show ?thesis using assms(1) by (simp add: caStep_def ca_ok_revoke)
qed

lemma ca_ok_run: "ca_ok env approval es (foldl (caStep env) a fs)" if "ca_ok env approval es a" "set fs \<subseteq> set es"
  using that by (induction fs arbitrary: a) (simp_all add: ca_ok_step)


section \<open>Revocation\<close>

definition issues :: "ca_env \<Rightarrow> string \<Rightarrow> ca_event \<Rightarrow> bool" where
  "issues env fp e \<longleftrightarrow> (case e of
      Redeem openssl _ _ _ \<Rightarrow> \<exists>d c. openssl d = Some c \<and> en_fingerprint env (sc_pem c) = fp
    | RedeemCutOff openssl _ _ _ \<Rightarrow> \<exists>d c. openssl d = Some c \<and> en_fingerprint env (sc_pem c) = fp
    | _ \<Rightarrow> False)"

definition barred :: "string \<Rightarrow> authority \<Rightarrow> bool" where
  "barred fp a \<longleftrightarrow> ca_replay a = [] \<and> list_all (\<lambda>e. ir_fingerprint (snd e) = fp \<longrightarrow> ir_revoked (snd e)) (ca_issued a)"

lemma issue_fingerprint:
  "issueCertificate env openssl a r now = Inr (b, x) \<Longrightarrow> \<exists>d c. openssl d = Some c \<and> sc_pem c = cr_certificatePem x"
  by (fastforce simp: issueCertificate_def Let_def split: if_splits option.splits)

lemma barred_locked:
  assumes "barred fp a" "redeemLocked env openssl a r f record now = Inr (b, x)"
    and "\<not> (\<exists>d c. openssl d = Some c \<and> en_fingerprint env (sc_pem c) = fp)"
  shows "barred fp b"
proof -
  have rep: "ca_replay a = []" using assms(1) by (simp add: barred_def)
  from assms(2) rep show ?thesis
  proof (cases rule: redeemLocked_cases)
    case replayed
    then show ?thesis using assms(1) by simp
  next
    case issued
    have "\<exists>c. issueCertificate env openssl a r now = Inr (c, x)"
      using assms(2) issued(1) rep by (auto simp: redeemLocked_def bindR_eq_Inr split: if_splits)
    then have "en_fingerprint env (cr_certificatePem x) \<noteq> fp" using issue_fingerprint assms(3) by metis
    then show ?thesis using assms(1) issued by (simp add: barred_def list_all_jsSet issuedRecord_def)
  qed
qed

lemma barred_step: "barred fp a \<Longrightarrow> \<not> issues env fp e \<Longrightarrow> barred fp (caStep env a e)"
proof (cases e)
  case (Approve r op token now)
  assume "barred fp a"
  then show ?thesis using Approve by (auto simp: caStep_def barred_def approve_def bindR_eq_Inr Let_def split: sum.split if_splits)
next
  case (Redeem openssl r grant now)
  assume b: "barred fp a" "\<not> issues env fp e"
  then have "barred fp b" if "redeemLocked env openssl a r f g now = Inr (b, x)" for b f g x
    using barred_locked [OF b(1) that] Redeem by (simp add: issues_def)
  then show ?thesis using Redeem b(1) by (auto simp: caStep_def redeem_def barred_def Let_def split: sum.split)
next
  case (RedeemCutOff openssl r grant now)
  assume b: "barred fp a" "\<not> issues env fp e"
  then have "barred fp b" if "redeemLocked env openssl a r f g now = Inr (b, x)" for b f g x
    using barred_locked [OF b(1) that] RedeemCutOff by (simp add: issues_def)
  then show ?thesis using RedeemCutOff b(1) by (auto simp: caStep_def redeemCutOff_def barred_def Let_def split: sum.split)
next
  case (Revoke g)
  assume "barred fp a"
  then show ?thesis using Revoke by (fastforce simp: caStep_def barred_def revokeClientFingerprint_def list_all_iff)
qed

lemma barred_revoke: "ca_replay a = [] \<Longrightarrow> barred fp (revokeClientFingerprint a fp)"
  by (auto simp: barred_def revokeClientFingerprint_def list_all_iff)

lemma barred_unauthorized: "barred fp a \<Longrightarrow> \<not> isClientFingerprintAuthorizedForHub a fp h"
  by (auto simp: barred_def isClientFingerprintAuthorizedForHub_def list_all_iff list_ex_iff)

interpretation revoked: guarded_machine "caStep env" "\<lambda>e. \<not> issues env fp e" "barred fp" for env fp
  by unfold_locales (rule barred_step)

section \<open>Redeeming again\<close>

lemma issue_keeps:
  "issueCertificate env openssl a r now = Inr (b, x) \<Longrightarrow> ca_grants b = ca_grants a \<and> ca_locks b = ca_locks a \<and> ca_enabled b = ca_enabled a \<and> ca_replay b = ca_replay a"
  by (drule issue_shape) simp

lemma locked_consumes:
  assumes "redeemLocked env openssl a r f record now = Inr (b, x)" and "jsGet (ca_grants a) f = Some record"
  shows "ca_locks b = ca_locks a \<and> ca_enabled b = ca_enabled a \<and> (\<exists>g. jsGet (ca_grants b) f = Some g \<and> gr_consumed g \<and> gr_response g = Some x)"
proof (cases "gr_consumed record")
  case True
  then show ?thesis using assms by (cases "gr_response record") (auto simp: redeemLocked_def)
next
  case False
  then obtain c where c: "(case jsGet (ca_replay a) (gr_csrHash record) of Some response \<Rightarrow> Inr (a, response) | None \<Rightarrow> issueCertificate env openssl a r now) = Inr (c, x)"
    and b: "b = c\<lparr>ca_grants := jsSet (ca_grants c) f (record\<lparr>gr_consumed := True, gr_fingerprint := Some (en_fingerprint env (cr_certificatePem x)),
      gr_response := Some x\<rparr>)\<rparr>"
    using assms(1) by (auto simp: redeemLocked_def bindR_eq_Inr split: if_splits)
  have "ca_locks c = ca_locks a \<and> ca_enabled c = ca_enabled a" using c issue_keeps by (auto split: option.splits)
  then show ?thesis using b by (simp add: js_simps)
qed



section \<open>A signing request\<close>

definition demoPem :: string where
  "demoPem = ''-----BEGIN CERTIFICATE REQUEST-----MGUwXgIBADAMMQowCAYDVQQDDAFoMBUwEwYHKoZIzj0CAQYIKoZIzj0DAQegNDAyBgkqhkiG9w0BCQ4xJTAjMAwGA1UdEQQFMAOCAWgwEwYDVR0lBAwwCgYIKwYBBQUHAwIwAAMBAA==-----END CERTIFICATE REQUEST-----''"

lemma demo_bytes: "csrBytes demoPem =
   [0x30, 0x65, 0x30, 0x5e, 0x02, 0x01, 0x00, 0x30, 0x0c, 0x31, 0x0a, 0x30, 0x08, 0x06, 0x03, 0x55, 0x04, 0x03, 0x0c, 0x01, 0x68, 0x30, 0x15, 0x30, 0x13, 0x06, 0x07, 0x2a, 0x86, 0x48, 0xce, 0x3d, 0x02, 0x01, 0x06, 0x08, 0x2a, 0x86, 0x48, 0xce, 0x3d, 0x03, 0x01, 0x07, 0xa0, 0x34, 0x30, 0x32, 0x06, 0x09, 0x2a, 0x86, 0x48, 0x86, 0xf7, 0x0d, 0x01, 0x09, 0x0e, 0x31, 0x25, 0x30, 0x23, 0x30, 0x0c, 0x06, 0x03, 0x55, 0x1d, 0x11, 0x04, 0x05, 0x30, 0x03, 0x82, 0x01, 0x68, 0x30, 0x13, 0x06, 0x03, 0x55, 0x1d, 0x25, 0x04, 0x0c, 0x30, 0x0a, 0x06, 0x08, 0x2b, 0x06, 0x01, 0x05, 0x05, 0x07, 0x03, 0x02, 0x30, 0x00, 0x03, 0x01, 0x00]"
  by code_simp

lemma digit_chars: "char_of (48::nat) = CHR ''0''" "char_of (49::nat) = CHR ''1''" "char_of (50::nat) = CHR ''2''" "char_of (51::nat) = CHR ''3''"
  "char_of (52::nat) = CHR ''4''" "char_of (53::nat) = CHR ''5''" "char_of (54::nat) = CHR ''6''" "char_of (55::nat) = CHR ''7''"
  "char_of (56::nat) = CHR ''8''" "char_of (57::nat) = CHR ''9''"
  by code_simp+

lemma demo_text: "asciiText [0x68] = ''h''" "map of_char ''h'' = [104::nat]"
  by code_simp+

lemmas demo_reads = readDer_def derHeader_def derLength_def constructed_def bigEndian_def Let_def

lemma demo_oids:
  "derOid (DerNode 6 [85, 4, 3] []) = Inr ''2.5.4.3''"
  "derOid (DerNode 6 [42, 134, 72, 206, 61, 2, 1] []) = Inr ''1.2.840.10045.2.1''"
  "derOid (DerNode 6 [42, 134, 72, 206, 61, 3, 1, 7] []) = Inr ''1.2.840.10045.3.1.7''"
  "derOid (DerNode 6 [42, 134, 72, 134, 247, 13, 1, 9, 14] []) = Inr ''1.2.840.113549.1.9.14''"
  "derOid (DerNode 6 [85, 29, 17] []) = Inr ''2.5.29.17''"
  "derOid (DerNode 6 [85, 29, 37] []) = Inr ''2.5.29.37''"
  "derOid (DerNode 6 [43, 6, 1, 5, 5, 7, 3, 2] []) = Inr ''1.3.6.1.5.5.7.3.2''"
  by (simp_all add: derOid_def decimal_def decimalDigits.simps digit_chars)

lemma demo_structure: "validateCsrStructure utf8 demoPem ''h'' = Inr ()"
  unfolding validateCsrStructure_def demo_bytes
  by (simp add: demo_reads demo_oids hasOid_def childAt_def defined_def commonNames_def derText_def checkKey_def extensionRequest_def
    extensionStep_def extensionValue_def demo_text)

lemma demo_small: "bytesOf demoPem \<le> 262144"
  by (rule bytes_short) (simp add: demoPem_def)

definition caDemoRequest :: enrollment_request where
  "caDemoRequest = \<lparr>rq_version = PROTOCOL_VERSION, rq_hubId = ''h'', rq_csrPem = demoPem, rq_sans = [''h''], rq_nonce = replicate 32 CHR ''a''\<rparr>"

definition caDemoEnv :: ca_env where
  "caDemoEnv = \<lparr>en_hash = take 4, en_utf8 = (\<lambda>_. []), en_selfSigned = (\<lambda>_. True), en_fingerprint = (\<lambda>pem. pem)\<rparr>"

definition demoCertificate :: "string \<Rightarrow> int \<Rightarrow> signed_certificate option" where
  "demoCertificate pem days = Some \<lparr>sc_pem = pem, sc_ca = False, sc_issuedByCa = True, sc_verified = True, sc_validTo = 1000\<rparr>"

definition demoAuthority :: authority where
  "demoAuthority = newAuthority ''ok'' 600000 None 100000000 ''ca''"

definition demoApproved :: authority where
  "demoApproved = demoAuthority\<lparr>ca_grants := [(''tokn'', \<lparr>gr_csrHash = ''----'', gr_hubId = ''h'', gr_sans = [''h''], gr_nonce = replicate 32 CHR ''a'',
     gr_expiresAt = 600000, gr_consumed = False, gr_fingerprint = None, gr_response = None\<rparr>)]\<rparr>"

lemma demo_request_valid: "validateRequest caDemoRequest = Inr ()"
  by code_simp

lemma demo_csr_valid: "validateCsr caDemoEnv demoPem ''h'' = Inr ()"
proof -
  have "en_selfSigned caDemoEnv demoPem" by (simp add: caDemoEnv_def)
  then show ?thesis using demo_small by (simp add: validateCsr_def demo_structure)
qed

lemma demo_request: "rq_csrPem caDemoRequest = demoPem" "rq_hubId caDemoRequest = ''h''" "rq_sans caDemoRequest = [''h'']"
  "rq_nonce caDemoRequest = replicate 32 CHR ''a''" "en_hash caDemoEnv demoPem = ''----''" "en_hash caDemoEnv ''tokn'' = ''tokn''"
  by (simp_all add: caDemoRequest_def caDemoEnv_def demoPem_def)


lemma demo_guards: "redeemGuards caDemoEnv (demoApproved\<lparr>ca_locks := ls\<rparr>) caDemoRequest ''tokn'' now =
    (if lockable (demoApproved\<lparr>ca_locks := ls\<rparr>) ''tokn'' now then Inr (snd (hd (ca_grants demoApproved))) else Inl ''Enrollment grant is busy'')"
  by (simp add: redeemGuards_def demo_request_valid demo_request demoApproved_def demoAuthority_def newAuthority_def)

definition demoRecord :: grant_record where
  "demoRecord = snd (hd (ca_grants demoApproved))"

definition demoResponse :: "string \<Rightarrow> cert_response" where
  "demoResponse pem = \<lparr>cr_hubId = ''h'', cr_certificatePem = pem, cr_caFingerprint = ''ca'', cr_expiresAt = 1000\<rparr>"

definition demoIssued :: "string \<Rightarrow> authority" where
  "demoIssued pem = demoApproved\<lparr>ca_issued := [(''----'', issuedRecord caDemoEnv ''h'' (demoResponse pem))],
     ca_grants := [(''tokn'', demoRecord\<lparr>gr_consumed := True, gr_fingerprint := Some pem, gr_response := Some (demoResponse pem)\<rparr>)]\<rparr>"

lemma demo_locked:
  "now < 600000 \<Longrightarrow> redeemLocked caDemoEnv (demoCertificate pem) (demoApproved\<lparr>ca_locks := ls, ca_issued := is\<rparr>) caDemoRequest ''tokn'' demoRecord now =
     Inr (demoIssued pem\<lparr>ca_locks := ls, ca_issued := jsSet is ''----'' (issuedRecord caDemoEnv ''h'' (demoResponse pem))\<rparr>, demoResponse pem)"
  by (simp add: redeemLocked_def issueCertificate_def demo_request demo_csr_valid demoCertificate_def demoIssued_def demoRecord_def demoApproved_def
    demoAuthority_def newAuthority_def demoResponse_def issuedRecord_def DAY_MS_def Let_def) (simp add: caDemoEnv_def)


section \<open>Properties\<close>



text \<open>C32: A revoked fingerprint stays revoked: after its revocation it is authorized for no hub, whatever is approved, redeemed or
  revoked, as long as no new certificate with that fingerprint is signed.\<close>

theorem revoked_stays_unauthorized:
  assumes "list_all (\<lambda>e. \<not> issues env fingerprint e) fs"
  shows "\<not> isClientFingerprintAuthorizedForHub (foldl (caStep env)
     (revokeClientFingerprint (foldl (caStep env) (newAuthority approval ttl leaf validTo caFingerprint) es) fingerprint) fs) fingerprint hubId"
proof -
  have "ca_ok env approval es (newAuthority approval ttl leaf validTo caFingerprint)" by (simp add: ca_ok_def newAuthority_def)
  then have "ca_ok env approval es (foldl (caStep env) (newAuthority approval ttl leaf validTo caFingerprint) es)" by (rule ca_ok_run) simp
  then have "barred fingerprint (revokeClientFingerprint (foldl (caStep env) (newAuthority approval ttl leaf validTo caFingerprint) es) fingerprint)"
    by (simp add: barred_revoke ca_ok_def)
  from revoked.guarded_run [OF this assms] show ?thesis by (rule barred_unauthorized)
qed

lemma revoked_stays_unauthorized_witness:
  "\<not> isClientFingerprintAuthorizedForHub (foldl (caStep caDemoEnv) (revokeClientFingerprint (foldl (caStep caDemoEnv) demoAuthority
     [Approve caDemoRequest ''ok'' ''tokn'' 0, Redeem (demoCertificate ''c1'') caDemoRequest ''tokn'' 1]) ''c1'')
     [Approve caDemoRequest ''ok'' ''tok2'' 2, Redeem (demoCertificate ''c2'') caDemoRequest ''tok2'' 3]) ''c1'' None"
proof -
  have "list_all (\<lambda>e. \<not> issues caDemoEnv ''c1'' e) [Approve caDemoRequest ''ok'' ''tok2'' 2, Redeem (demoCertificate ''c2'') caDemoRequest ''tok2'' 3]"
    by (simp add: issues_def demoCertificate_def caDemoEnv_def)
  from revoked_stays_unauthorized [OF this] show ?thesis unfolding demoAuthority_def .
qed



text \<open>C22: A redemption that was cut off after its certificate was issued is not recovered but repeated: five minutes later, when
  its lock may be taken over, redeeming the grant again has a second certificate signed, and the response and
  the authorization are those of the second.\<close>

theorem cut_off_issues_again:
  assumes "redeemGuards env a r grant now = Inr g" "\<not> gr_consumed g" "ca_replay a = []"
    and "redeemLocked env openssl a r (en_hash env grant) g now = Inr (c, first)"
    and "now + 300000 < later" "later < gr_expiresAt g"
    and "issueCertificate env openssl' (redeemCutOff env openssl a r grant now) r later = Inr (d, second)"
  shows "snd (redeem env openssl' (redeemCutOff env openssl a r grant now) r grant later) = Inr second \<and>
    jsGet (ca_issued (fst (redeem env openssl' (redeemCutOff env openssl a r grant now) r grant later))) (gr_csrHash g) =
      Some (issuedRecord env (gr_hubId g) second)"
proof -
  let ?a = "redeemCutOff env openssl a r grant now"
  have l: "\<not> gr_consumed g" "rq_hubId r = gr_hubId g" "en_hash env (rq_csrPem r) = gr_csrHash g" "gr_nonce g = rq_nonce r" "gr_sans g = rq_sans r"
    "validateCsr env (rq_csrPem r) (rq_hubId r) = Inr ()"
    using assms(2,4) by (auto simp: redeemLocked_def bindR_eq_Inr split: if_splits)
  have c: "ca_enabled c = ca_enabled a" "ca_locks c = ca_locks a" using locked_consumes [OF assms(4) guards_grant [OF assms(1)]] by simp_all
  have rc: "ca_replay c = []"
    by (rule redeemLocked_cases [OF assms(4,3)]) (use assms(3) in simp_all)
  have a: "?a = c\<lparr>ca_grants := ca_grants a, ca_locks := jsSet (ca_locks a) (en_hash env grant) now\<rparr>"
    using assms(1,4) by (simp add: redeemCutOff_def Let_def)
  have g: "redeemGuards env ?a r grant later = Inr g"
    using assms(1,5) c by (auto simp: a redeemGuards_def bindR_eq_Inr lockable_def js_simps split: option.splits if_splits)
  have "redeemLocked env openssl' ?a r (en_hash env grant) g later = Inr (d\<lparr>ca_grants := jsSet (ca_grants d) (en_hash env grant)
      (g\<lparr>gr_consumed := True, gr_fingerprint := Some (en_fingerprint env (cr_certificatePem second)), gr_response := Some second\<rparr>)\<rparr>, second)"
    using l assms(6,7) rc by (simp add: redeemLocked_def a)
  then show ?thesis using g issue_shape [OF assms(7)] l by (simp add: redeem_def Let_def js_simps)
qed

lemma cut_off_issues_again_witness:
  "snd (redeem caDemoEnv (demoCertificate ''c2'') (redeemCutOff caDemoEnv (demoCertificate ''c1'') demoApproved caDemoRequest ''tokn'' 1)
     caDemoRequest ''tokn'' 300002) = Inr (demoResponse ''c2'')"
proof -
  have g: "redeemGuards caDemoEnv demoApproved caDemoRequest ''tokn'' 1 = Inr demoRecord"
    using demo_guards [of "[]" 1] by (simp add: lockable_def demoRecord_def demoApproved_def demoAuthority_def newAuthority_def)
  have l: "redeemLocked caDemoEnv (demoCertificate ''c1'') demoApproved caDemoRequest (en_hash caDemoEnv ''tokn'') demoRecord 1 = Inr (demoIssued ''c1'', demoResponse ''c1'')"
    using demo_locked [of 1 "''c1''" "[]" "[]"] by (simp add: demo_request demoApproved_def demoAuthority_def newAuthority_def demoIssued_def)
  have r: "\<not> gr_consumed demoRecord" "ca_replay demoApproved = []" "(300002::int) < gr_expiresAt demoRecord"
    by (simp_all add: demoRecord_def demoApproved_def demoAuthority_def newAuthority_def)
  have "\<exists>d. issueCertificate caDemoEnv (demoCertificate ''c2'') (redeemCutOff caDemoEnv (demoCertificate ''c1'') demoApproved caDemoRequest ''tokn'' 1)
      caDemoRequest 300002 = Inr (d, demoResponse ''c2'')"
    using g l by (simp add: redeemCutOff_def Let_def issueCertificate_def demoCertificate_def demo_request demoIssued_def demoApproved_def
      demoAuthority_def newAuthority_def demoResponse_def DAY_MS_def)
  then obtain d where "issueCertificate caDemoEnv (demoCertificate ''c2'') (redeemCutOff caDemoEnv (demoCertificate ''c1'') demoApproved caDemoRequest ''tokn'' 1)
      caDemoRequest 300002 = Inr (d, demoResponse ''c2'')" by blast
  from cut_off_issues_again [OF g r(1,2) l _ r(3) this] show ?thesis by simp
qed

end
