(* ===== verification/CsiController.thy ===== *)
theory CsiController
  imports RunnerExit InstanceStore
begin

text \<open>
  \<open>packages/host/src/lib/csi-controller.ts\<close>: the life of one instance as its controller sees it. Every
  \<open>async\<close> function is cut at its \<open>await\<close>s: a suspended activation is a \<open>csi_task\<close> that names the promise it
  waits for, and \<open>fire\<close> resumes one of them with the way its promise or its timer settles. The event loop
  is the order in which requests arrive and tasks are resumed; the theorems hold for every order.

  What the adapter, the control channel and the storage adapter answer, and when timers elapse, are the
  choices made when a task is resumed. \<open>start\<close> runs before any other operation (the dispatcher calls it
  as soon as the controller exists), so \<open>instancePromise\<close> always exists. Listeners do not throw.
\<close>

section \<open>State\<close>

text \<open>What \<open>instancePromise\<close> fulfils with: a report, or the error object of a failed clean-up.\<close>

record instance_result =
  ir_code :: "int option"
  ir_status :: "instance_status option"
  ir_message :: "string option"

record adapter_error =
  ae_code :: "int option"
  ae_message :: string

datatype init_state = InitPending | InitResolved | InitRejected instance_result

datatype readiness_state = ReadinessPending | ReadinessReady | ReadinessErrored

record exposed_rpc =
  ex_path :: string
  ex_host :: "string option"
  ex_port :: "int option"
  ex_rpcUrl :: "string option"

text \<open>The promise of \<open>removeInstance\<close>: already resolved, or a call of the adapter.\<close>

datatype removal_wait = RemovalDone | RemovalCall nat

text \<open>\<open>awaitTerminalCompletion\<close>: the current transition, or the callback on \<open>instancePromise\<close>.\<close>

datatype completion_wait = OnTransition nat | OnCallback nat

text \<open>Who called \<open>kill\<close>: the API or the host, \<open>stop\<close>, or \<open>failReadiness\<close> for a waiter.\<close>

datatype kill_caller = FromApi | FromStop | FromReadiness nat "nat option"

record ping_payload =
  pp_instanceName :: "string option"
  pp_inputTopic :: "string option"
  pp_outputTopic :: "string option"

record ping_message =
  pm_status :: "instance_status option"
  pm_headersSent :: bool
  pm_created :: int
  pm_payload :: "ping_payload option"

datatype csi_task =
    AdapterRemoval nat
  | TransitionRemove nat "int option" removal_wait
  | TransitionFinalize nat "int option"
  | CompletionCallback nat
  | KillRace bool completion_wait kill_caller
  | KillBounded bool completion_wait kill_caller
  | KillRemoveOnly removal_wait kill_caller
  | KillRemove bool removal_wait kill_caller
  | KillTransition nat kill_caller
  | KillWatch
  | KillWatchRemove removal_wait
  | StopRace completion_wait
  | StopBounded completion_wait
  | StopDefer
  | StopKillTransition nat
  | ReadinessTransition nat nat "nat option"
  | ReadinessEnd nat "nat option"
  | ReadinessFailed nat nat
  | CompletedWait
  | CompletedRemove removal_wait
  | StoppedWait "string option"
  | StoppedResult "string option"
  | StoppedKill
  | StoppedKilled
  | InstanceExit
  | InstanceCrashLog int
  | InstanceCleanup int
  | InstanceErrorCleanup int
  | StartItems
  | StartStorage
  | StartInitialized
  | MainWait
  | PingSetRunner ping_message
  | PingPong

datatype csi_output =
    Audited instance_status readiness_state bool
  | ControlStop nat bool
  | ControlKill
  | ControlPong
  | AdapterRemove
  | RemovalOk
  | RemovalFailed
  | EmitError
  | EmitPing
  | EmitPang "string option" "string option"
  | EmitTerminated "int option"
  | EmitEnd "int option"
  | RpcExpose string
  | RpcRevoke string
  | KillReturned bool
  | StopReturned bool
  | ReadyResolved nat
  | ReadyRejected nat
  | StartRejected
  | HandlerRejected
  | ProcessExitCode int

record csi =
  cs_status :: instance_status
  cs_created :: "int option"
  cs_started :: "int option"
  cs_ended :: "int option"
  cs_terminated :: "(int option \<times> string) option"
  cs_executionMs :: "int option"
  cs_keepAlive :: bool
  cs_lifetimeDelay :: int
  cs_finalizing :: bool
  cs_streams :: bool
  cs_handlers :: bool
  cs_connecting :: bool
  cs_provides :: "string option"
  cs_requires :: "string option"
  cs_inputTopic :: "string option"
  cs_outputTopic :: "string option"
  cs_instanceName :: "string option"
  cs_apiInput :: bool
  cs_inputHeadersSent :: bool
  cs_init :: init_state
  cs_exit :: "(adapter_error + int) option"
  cs_result :: "instance_result option"
  cs_entrypoint :: string
  cs_hasSetRunner :: bool
  cs_readiness :: readiness_state
  cs_expose :: "exposed_rpc option"
  cs_timers :: "nat list"
  cs_waiter :: "nat option"
  cs_readinessFailure :: "nat option"
  cs_failuresDone :: "nat list"
  cs_removal :: "nat option"
  cs_removalCompleted :: bool
  cs_removalResults :: "(nat \<times> bool) list"
  cs_transition :: "nat option"
  cs_transitionsDone :: "nat list"
  cs_callbacks :: "(nat \<times> nat) list"
  cs_endEmitted :: bool
  cs_next :: nat
  cs_tasks :: "csi_task list"
  cs_log :: "csi_output list"

definition csiOutput :: "csi_output \<Rightarrow> csi \<Rightarrow> csi" where
  "csiOutput x s = s\<lparr>cs_log := cs_log s @ [x]\<rparr>"

definition spawn :: "csi_task \<Rightarrow> csi \<Rightarrow> csi" where
  "spawn t s = s\<lparr>cs_tasks := cs_tasks s @ [t]\<rparr>"

definition getWatchReadiness :: "csi \<Rightarrow> readiness_state \<times> bool" where
  "getWatchReadiness s = (cs_readiness s, cs_endEmitted s \<or> cs_ended s \<noteq> None \<or> cs_transition s \<noteq> None)"

definition auditCurrentState :: "csi \<Rightarrow> csi" where
  "auditCurrentState s = (case getWatchReadiness s of (r, terminal) \<Rightarrow> csiOutput (Audited (cs_status s) r terminal) s)"

definition setStatus :: "instance_status \<Rightarrow> csi \<Rightarrow> csi" where
  "setStatus st s = auditCurrentState (s\<lparr>cs_status := st\<rparr>)"

section \<open>Removal and the terminal transition\<close>

definition removeInstance :: "csi \<Rightarrow> csi \<times> removal_wait" where
  "removeInstance s =
    (if cs_removalCompleted s then (s, RemovalDone)
     else case cs_removal s of
       Some r \<Rightarrow> (s, RemovalCall r)
     | None \<Rightarrow> (spawn (AdapterRemoval (cs_next s)) (csiOutput AdapterRemove
           (s\<lparr>cs_removal := Some (cs_next s), cs_next := Suc (cs_next s)\<rparr>)), RemovalCall (cs_next s)))"

text \<open>How the promise of \<open>removeInstance\<close> has settled, if it has.\<close>

definition removalResult :: "csi \<Rightarrow> removal_wait \<Rightarrow> bool option" where
  "removalResult s w = (case w of RemovalDone \<Rightarrow> Some True | RemovalCall r \<Rightarrow> map_of (cs_removalResults s) r)"

definition removalSettles :: "nat \<Rightarrow> bool \<Rightarrow> csi \<Rightarrow> csi" where
  "removalSettles r ok s =
    (if ok then csiOutput RemovalOk (s\<lparr>cs_removalCompleted := True, cs_removalResults := (r, True) # cs_removalResults s\<rparr>)
     else csiOutput RemovalFailed (s\<lparr>cs_removal := None, cs_removalResults := (r, False) # cs_removalResults s\<rparr>))"

definition setExitInfo :: "int option \<Rightarrow> string \<Rightarrow> csi \<Rightarrow> csi" where
  "setExitInfo code reason s = s\<lparr>cs_terminated := Some (code, reason)\<rparr>"

definition executionTime :: "csi \<Rightarrow> int option" where
  "executionTime s = (case (cs_created s, cs_ended s) of (Some c, Some e) \<Rightarrow> Some (e - c) | _ \<Rightarrow> None)"

text \<open>The synchronous part of the transition, up to the removal.\<close>

definition enterTerminal :: "int \<Rightarrow> int option \<Rightarrow> instance_status option \<Rightarrow> string option \<Rightarrow> bool \<Rightarrow> csi \<Rightarrow> csi" where
  "enterTerminal now code st reason err s =
    (let s1 = auditCurrentState (s\<lparr>cs_status := (case st of Some x \<Rightarrow> x | None \<Rightarrow> cs_status s),
           cs_ended := (case cs_ended s of Some e \<Rightarrow> Some e | None \<Rightarrow> Some now)\<rparr>);
         s2 = setExitInfo code (case reason of Some r \<Rightarrow> r | None \<Rightarrow> []) (s1\<lparr>cs_executionMs := executionTime s1\<rparr>)
     in if err then csiOutput EmitError s2 else s2)"

definition transitionToTerminal ::
  "int \<Rightarrow> int option \<Rightarrow> instance_status option \<Rightarrow> string option \<Rightarrow> bool \<Rightarrow> csi \<Rightarrow> csi \<times> nat" where
  "transitionToTerminal now code st reason err s = (case cs_transition s of
      Some t \<Rightarrow> (s, t)
    | None \<Rightarrow>
       (case removeInstance (enterTerminal now code st reason err s) of (s1, w) \<Rightarrow>
         let t = cs_next s1 in
         (spawn (TransitionRemove t code w) (s1\<lparr>cs_transition := Some t, cs_next := Suc t\<rparr>), t)))"

definition emitEnd :: "int option \<Rightarrow> csi \<Rightarrow> csi" where
  "emitEnd code s = (if cs_endEmitted s then s else csiOutput (EmitEnd code) (s\<lparr>cs_endEmitted := True\<rparr>))"

text \<open>\<open>finalize\<close> waits only when streams are attached and the lifetime is extended.\<close>

definition finalizeWaits :: "csi \<Rightarrow> bool" where
  "finalizeWaits s \<longleftrightarrow> cs_streams s \<and> cs_lifetimeDelay s > 0"

definition transitionEnds :: "nat \<Rightarrow> int option \<Rightarrow> csi \<Rightarrow> csi" where
  "transitionEnds t code s = emitEnd code (s\<lparr>cs_transitionsDone := t # cs_transitionsDone s\<rparr>)"

definition transitionRemoved :: "nat \<Rightarrow> int option \<Rightarrow> bool \<Rightarrow> csi \<Rightarrow> csi" where
  "transitionRemoved t code ok s =
    (if ok then
       (let s1 = csiOutput (EmitTerminated code) s in
        if finalizeWaits s1 then spawn (TransitionFinalize t code) (s1\<lparr>cs_finalizing := True\<rparr>) else transitionEnds t code s1)
     else s\<lparr>cs_transition := None, cs_transitionsDone := t # cs_transitionsDone s\<rparr>)"

definition awaitTerminalCompletion :: "csi \<Rightarrow> csi \<times> completion_wait" where
  "awaitTerminalCompletion s = (case cs_transition s of
      Some t \<Rightarrow> (s, OnTransition t)
    | None \<Rightarrow> (spawn (CompletionCallback (cs_next s)) (s\<lparr>cs_next := Suc (cs_next s)\<rparr>), OnCallback (cs_next s)))"

definition completionDone :: "csi \<Rightarrow> completion_wait \<Rightarrow> bool" where
  "completionDone s w = (case w of
      OnTransition t \<Rightarrow> t \<in> set (cs_transitionsDone s)
    | OnCallback c \<Rightarrow> (case map_of (cs_callbacks s) c of Some t \<Rightarrow> t \<in> set (cs_transitionsDone s) | None \<Rightarrow> False))"

definition completionCallback :: "int \<Rightarrow> nat \<Rightarrow> instance_result \<Rightarrow> csi \<Rightarrow> csi" where
  "completionCallback now c r s =
    (case transitionToTerminal now (ir_code r) (ir_status r) (ir_message r) False s of
      (s1, t) \<Rightarrow> s1\<lparr>cs_callbacks := (c, t) # cs_callbacks s1\<rparr>)"

section \<open>Kill, stop and readiness\<close>

definition terminalStatus :: "instance_status \<Rightarrow> bool" where
  "terminalStatus st \<longleftrightarrow> st \<in> {COMPLETED, ERRORED, GONE}"

text \<open>The last lines of \<open>failReadiness\<close>, then the rejection of the waiter.\<close>

definition finishReadiness :: "nat \<Rightarrow> nat option \<Rightarrow> csi \<Rightarrow> csi" where
  "finishReadiness f w s =
    (let s1 = setStatus ERRORED s; s2 = s1\<lparr>cs_failuresDone := f # cs_failuresDone s1\<rparr> in
     case w of Some i \<Rightarrow> csiOutput (ReadyRejected i) s2 | None \<Rightarrow> s2)"

text \<open>\<open>failReadiness\<close> after its \<open>kill\<close>, whose error is only logged.\<close>

definition afterReadinessKill :: "nat \<Rightarrow> nat option \<Rightarrow> csi \<Rightarrow> csi" where
  "afterReadinessKill f w s = (case cs_transition s of
      Some t \<Rightarrow> spawn (ReadinessTransition f t w) s
    | None \<Rightarrow> if cs_endEmitted s then finishReadiness f w s else spawn (ReadinessEnd f w) s)"

text \<open>What the caller of \<open>kill\<close> does with its outcome; \<open>stop\<close> forgives a rejected kill when a transition has begun.\<close>

definition killReturn :: "kill_caller \<Rightarrow> bool \<Rightarrow> csi \<Rightarrow> csi" where
  "killReturn caller ok s = (case caller of
      FromApi \<Rightarrow> csiOutput (KillReturned ok) s
    | FromStop \<Rightarrow>
        if ok then csiOutput (StopReturned True) s
        else (case cs_transition s of Some t \<Rightarrow> spawn (StopKillTransition t) s | None \<Rightarrow> csiOutput (StopReturned False) s)
    | FromReadiness f w \<Rightarrow> afterReadinessKill f w s)"

definition kill :: "bool \<Rightarrow> kill_caller \<Rightarrow> csi \<Rightarrow> csi" where
  "kill removeImmediately caller s0 =
    (let s = (if removeImmediately then s0\<lparr>cs_lifetimeDelay := 0\<rparr> else s0) in
     if terminalStatus (cs_status s) then
       (if removeImmediately \<and> \<not> cs_removalCompleted s then
          (case removeInstance s of (s1, w) \<Rightarrow> spawn (KillRemoveOnly w caller) s1)
        else killReturn caller True s)
     else if cs_status s = KILLING then (case removeInstance s of (s1, w) \<Rightarrow> spawn (KillRemoveOnly w caller) s1)
     else
       (case awaitTerminalCompletion (setStatus KILLING s) of
         (s1, w) \<Rightarrow> spawn (KillRace removeImmediately w caller) (csiOutput ControlKill s1)))"

text \<open>
  The \<open>catch\<close> of \<open>kill\<close> once the terminal completion has been given up; \<open>err\<close>: there is an error object
  (an elapsed timer rejects with \<open>undefined\<close>).
\<close>

definition killFailed :: "bool \<Rightarrow> bool \<Rightarrow> kill_caller \<Rightarrow> csi \<Rightarrow> csi" where
  "killFailed removeImmediately err caller s =
    (if \<not> removeImmediately then
       killReturn caller (cs_transition s \<noteq> None \<or> cs_endEmitted s \<or> terminalStatus (cs_status s)) s
     else (case removeInstance s of (s1, w) \<Rightarrow> spawn (KillRemove err w caller) s1))"

text \<open>After the race: the exit of the runner is watched in the background and \<open>kill\<close> returns.\<close>

definition killSent :: "kill_caller \<Rightarrow> csi \<Rightarrow> csi" where
  "killSent caller s = killReturn caller True (spawn KillWatch s)"

definition controlFailedReason :: string where
  "controlFailedReason = ''Runner control failed during immediate removal''"

definition deadlineReason :: string where
  "deadlineReason = ''Runner did not terminate before the bounded kill deadline''"

definition stop :: "nat \<Rightarrow> bool \<Rightarrow> csi \<Rightarrow> csi" where
  "stop timeout canCallKeepalive s =
    (if cs_transition s \<noteq> None \<or> cs_endEmitted s then csiOutput (StopReturned True) s
     else (case awaitTerminalCompletion (setStatus STOPPING s) of
       (s1, w) \<Rightarrow> spawn (StopRace w) (csiOutput (ControlStop timeout canCallKeepalive) s1)))"

definition stopAcknowledged :: "csi \<Rightarrow> csi" where
  "stopAcknowledged s0 =
    (let s = s0\<lparr>cs_keepAlive := False\<rparr> in
     if cs_endEmitted s then csiOutput (StopReturned True) s else spawn StopDefer s)"

definition stopDelayed :: "csi \<Rightarrow> csi" where
  "stopDelayed s =
    (if cs_transition s \<noteq> None \<or> cs_endEmitted s \<or> cs_keepAlive s then csiOutput (StopReturned True) s
     else kill False FromStop s)"

text \<open>\<open>failReadiness\<close>: the route is revoked first, then the runner is killed.\<close>

definition failReadiness :: "nat option \<Rightarrow> csi \<Rightarrow> csi" where
  "failReadiness w s =
    (let f = cs_next s;
         s1 = s\<lparr>cs_next := Suc f, cs_readinessFailure := Some f\<rparr>;
         s2 = (case cs_expose s1 of
             Some e \<Rightarrow> if ex_path e \<noteq> [] then csiOutput (RpcRevoke (ex_path e)) (s1\<lparr>cs_expose := None\<rparr>) else s1
           | None \<Rightarrow> s1)
     in kill True (FromReadiness f w) s2)"

definition readinessErrored :: "csi \<Rightarrow> csi" where
  "readinessErrored s = auditCurrentState (s\<lparr>cs_readiness := ReadinessErrored\<rparr>)"

definition waitForReady :: "csi \<Rightarrow> csi" where
  "waitForReady s0 =
    (let i = cs_next s0; s = s0\<lparr>cs_next := Suc i\<rparr> in
     case cs_readiness s of
       ReadinessReady \<Rightarrow> csiOutput (ReadyResolved i) s
     | ReadinessErrored \<Rightarrow>
         (case cs_readinessFailure s of Some f \<Rightarrow> spawn (ReadinessFailed f i) s | None \<Rightarrow> csiOutput (ReadyRejected i) s)
     | ReadinessPending \<Rightarrow> s\<lparr>cs_waiter := Some i, cs_timers := i # cs_timers s\<rparr>)"

text \<open>The timer of a waiter elapses.\<close>

definition readinessTimeout :: "nat \<Rightarrow> csi \<Rightarrow> csi" where
  "readinessTimeout i s =
    (if i \<in> set (cs_timers s) then failReadiness (Some i) (readinessErrored (s\<lparr>cs_timers := removeAll i (cs_timers s)\<rparr>)) else s)"

record readiness_message =
  rm_state :: "readiness_state option"
  rm_path :: "string option"
  rm_host :: "string option"
  rm_port :: "int option"
  rm_rpcUrl :: "string option"

text \<open>\<open>clearTimeout\<close> of the last timer; \<open>readinessResolver?.()\<close> of the last waiter.\<close>

definition clearReadinessTimer :: "csi \<Rightarrow> csi" where
  "clearReadinessTimer s = (case cs_waiter s of Some i \<Rightarrow> s\<lparr>cs_timers := removeAll i (cs_timers s)\<rparr> | None \<Rightarrow> s)"

definition handleReadinessMessage :: "readiness_message \<Rightarrow> csi \<Rightarrow> csi" where
  "handleReadinessMessage m s =
    (if cs_readiness s = ReadinessErrored \<or> cs_endEmitted s then s
     else if rm_state m = Some ReadinessReady then
       (let s1 = (case truthyString (rm_path m) of
             Some p \<Rightarrow> csiOutput (RpcExpose p)
               (s\<lparr>cs_expose := Some \<lparr>ex_path = p, ex_host = rm_host m, ex_port = rm_port m, ex_rpcUrl = rm_rpcUrl m\<rparr>\<rparr>)
           | None \<Rightarrow> s);
            s2 = clearReadinessTimer (auditCurrentState (s1\<lparr>cs_readiness := ReadinessReady\<rparr>))
        in case cs_waiter s2 of Some i \<Rightarrow> csiOutput (ReadyResolved i) s2 | None \<Rightarrow> s2)
     else if rm_state m = Some ReadinessErrored then
       (let s1 = clearReadinessTimer (readinessErrored s) in failReadiness (cs_waiter s1) s1)
     else s)"

section \<open>The instance and its messages\<close>

definition initReject :: "instance_result \<Rightarrow> csi \<Rightarrow> csi" where
  "initReject r s = (if cs_init s = InitPending then s\<lparr>cs_init := InitRejected r\<rparr> else s)"

definition initResolve :: "csi \<Rightarrow> csi" where
  "initResolve s = (if cs_init s = InitPending then s\<lparr>cs_init := InitResolved\<rparr> else s)"

definition resultOf :: "exit_report \<Rightarrow> instance_result" where
  "resultOf r = \<lparr>ir_code = Some (er_exitcode r), ir_status = Some (er_status r), ir_message = Some (er_message r)\<rparr>"

text \<open>\<open>instancePromise\<close>: a rejection becomes its value and rejects the initialization.\<close>

definition instanceSettles :: "int \<Rightarrow> csi \<Rightarrow> csi" where
  "instanceSettles c s = (case mapRunnerExitCode c (cs_entrypoint s) of
      Inr r \<Rightarrow> s\<lparr>cs_result := Some (resultOf r)\<rparr>
    | Inl r \<Rightarrow> initReject (resultOf r) (s\<lparr>cs_result := Some (resultOf r)\<rparr>))"

definition instanceRejects :: "adapter_error \<Rightarrow> csi \<Rightarrow> csi" where
  "instanceRejects e s =
    (let r = \<lparr>ir_code = None, ir_status = None, ir_message = Some (ae_message e)\<rparr> in initReject r (s\<lparr>cs_result := Some r\<rparr>))"

text \<open>The \<open>catch\<close> of \<open>instanceMain\<close>; \<open>error.code || 213\<close>.\<close>

definition instanceError :: "adapter_error \<Rightarrow> csi \<Rightarrow> csi" where
  "instanceError e s =
    spawn (InstanceErrorCleanup (case ae_code e of Some c \<Rightarrow> if c = 0 then 213 else c | None \<Rightarrow> 213)) (setStatus ERRORED s)"

definition instanceExited :: "adapter_error + int \<Rightarrow> csi \<Rightarrow> csi" where
  "instanceExited x s = (case x of
      Inr c \<Rightarrow> if c > 0 then spawn (InstanceCrashLog c) (setStatus ERRORED s) else spawn (InstanceCleanup c) s
    | Inl e \<Rightarrow> instanceError e s)"

definition initialized :: "int \<Rightarrow> csi \<Rightarrow> csi option" where
  "initialized now s = (case cs_init s of
      InitPending \<Rightarrow> None
    | InitResolved \<Rightarrow> Some (spawn MainWait (setStatus RUNNING s))
    | InitRejected r \<Rightarrow>
        Some (csiOutput StartRejected
          (if cs_endEmitted s then s else fst (transitionToTerminal now (ir_code r) (Some ERRORED) (ir_message r) True s))))"

definition mainEnds :: "int \<Rightarrow> instance_result \<Rightarrow> csi \<Rightarrow> csi" where
  "mainEnds now r s = fst (transitionToTerminal now (Some (case ir_code r of Some c \<Rightarrow> c | None \<Rightarrow> -1))
     (Some (case ir_status r of Some st \<Rightarrow> st | None \<Rightarrow> cs_status s)) (ir_message r) False s)"

text \<open>\<open>result?.message || this.terminated?.reason\<close>\<close>

definition killWatchEnds :: "int \<Rightarrow> instance_result \<Rightarrow> csi \<Rightarrow> csi" where
  "killWatchEnds now r s = fst (transitionToTerminal now (ir_code r)
     (Some (case ir_status r of Some st \<Rightarrow> st | None \<Rightarrow> cs_status s))
     (case truthyString (ir_message r) of Some m \<Rightarrow> Some m | None \<Rightarrow> map_option snd (cs_terminated s)) False s)"

definition deadlineMissed :: "int \<Rightarrow> csi \<Rightarrow> csi" where
  "deadlineMissed now s = fst (transitionToTerminal now (Some 137) (Some ERRORED) (Some deadlineReason) False s)"

definition stoppedUnresponsive :: "csi \<Rightarrow> csi" where
  "stoppedUnresponsive s = (if cs_transition s \<noteq> None \<or> cs_endEmitted s then s else spawn StoppedKill (csiOutput ControlKill s))"

definition stoppedResult :: "int \<Rightarrow> string option \<Rightarrow> instance_result \<Rightarrow> csi \<Rightarrow> csi" where
  "stoppedResult now err r s =
    fst (transitionToTerminal now (ir_code r) (ir_status r) (case err of Some e \<Rightarrow> Some e | None \<Rightarrow> ir_message r) False s)"

text \<open>\<open>a || b\<close> on optional strings\<close>

definition orString :: "string option \<Rightarrow> string option \<Rightarrow> string option" where
  "orString a b = (case truthyString a of Some x \<Rightarrow> Some x | None \<Rightarrow> b)"

text \<open>\<open>handleHandshake\<close> after \<open>setRunner\<close>: the fields of the frame, then PONG.\<close>

definition pingHandshake :: "ping_message \<Rightarrow> csi \<Rightarrow> csi" where
  "pingHandshake m s = (case pm_payload m of
      None \<Rightarrow> s
    | Some p \<Rightarrow>
       spawn PingPong (csiOutput ControlPong (auditCurrentState
         (s\<lparr>cs_instanceName := pp_instanceName p, cs_inputTopic := pp_inputTopic p, cs_outputTopic := pp_outputTopic p\<rparr>))))"

definition handlePing :: "ping_message \<Rightarrow> csi \<Rightarrow> csi" where
  "handlePing m s0 =
    (let s = s0\<lparr>cs_status := (case pm_status m of Some st \<Rightarrow> st | None \<Rightarrow> RUNNING), cs_inputHeadersSent := pm_headersSent m\<rparr> in
     case pm_payload m of
       None \<Rightarrow> csiOutput EmitError s
     | Some p \<Rightarrow>
        (let s1 = csiOutput EmitPing (auditCurrentState (s\<lparr>cs_created := Some (pm_created m),
               cs_provides := orString (cs_provides s) (orString (cs_outputTopic s) (pp_outputTopic p)),
               cs_requires := orString (cs_requires s) (orString (cs_inputTopic s) (pp_inputTopic p))\<rparr>))
         in if cs_hasSetRunner s1 then spawn (PingSetRunner m) s1 else pingHandshake m s1))"

definition handlePang :: "string option \<Rightarrow> string option \<Rightarrow> csi \<Rightarrow> csi" where
  "handlePang provides requires s =
    (let s1 = s\<lparr>cs_provides := orString (cs_provides s) (orString (cs_outputTopic s) provides),
           cs_requires := orString (cs_requires s) (orString (cs_inputTopic s) requires)\<rparr>;
         s2 = (if truthyString (cs_requires s1) \<noteq> None then s1\<lparr>cs_apiInput := False\<rparr> else s1);
         s3 = csiOutput (EmitPang (cs_provides s2) (cs_requires s2)) s2
     in if cs_connecting s3 then initResolve (s3\<lparr>cs_connecting := False\<rparr>) else s3)"

text \<open>\<open>handleInstanceConnect\<close>; without a broker \<open>hookupStreams\<close> throws after it has stored the streams.\<close>

definition handleInstanceConnect :: "bool \<Rightarrow> csi \<Rightarrow> csi" where
  "handleInstanceConnect broker s0 =
    (let s = s0\<lparr>cs_streams := True\<rparr> in
     if broker then s\<lparr>cs_handlers := True, cs_connecting := True\<rparr>
     else initReject \<lparr>ir_code = None, ir_status = None, ir_message = Some ''UNINITIALIZED_STREAM''\<rparr> s)"

definition handleSequenceCompleted :: "csi \<Rightarrow> csi" where
  "handleSequenceCompleted s = (if cs_endEmitted s then s else spawn CompletedWait s)"

definition handleSequenceStopped :: "string option \<Rightarrow> csi \<Rightarrow> csi" where
  "handleSequenceStopped err s = (if cs_endEmitted s then s else spawn (StoppedWait err) s)"

definition handleKeepAliveCommand :: "csi \<Rightarrow> csi" where
  "handleKeepAliveCommand s = s\<lparr>cs_keepAlive := True\<rparr>"

section \<open>The event loop\<close>

text \<open>How a promise settles, or that the timer of the task elapses.\<close>

datatype csi_choice = Settles | Fails adapter_error | Elapses

definition removed :: "csi_choice \<Rightarrow> removal_wait \<Rightarrow> csi \<Rightarrow> (bool \<Rightarrow> csi) \<Rightarrow> csi option" where
  "removed c w s f = (if c = Settles then map_option f (removalResult s w) else None)"

definition settled :: "csi_choice \<Rightarrow> 'r option \<Rightarrow> ('r \<Rightarrow> csi) \<Rightarrow> csi option" where
  "settled c r f = (if c = Settles then map_option f r else None)"

definition once :: "csi_choice \<Rightarrow> bool \<Rightarrow> csi \<Rightarrow> csi option" where
  "once c b s = (if c = Settles \<and> b then Some s else None)"

definition orElapses :: "csi_choice \<Rightarrow> csi option \<Rightarrow> csi \<Rightarrow> csi option" where
  "orElapses c r s = (if c = Elapses then Some s else r)"

definition orFails :: "csi_choice \<Rightarrow> csi option \<Rightarrow> (adapter_error \<Rightarrow> csi) \<Rightarrow> csi option" where
  "orFails c r f = (case c of Fails e \<Rightarrow> Some (f e) | _ \<Rightarrow> r)"

text \<open>
  \<open>resume now c t s\<close>: the activation \<open>t\<close>, already taken out of the task list, goes on; \<open>None\<close> when what it
  waits for has not happened. In a race \<open>Settles\<close> is the control message written or the completion
  reached, \<open>Fails\<close> the control message rejected, \<open>Elapses\<close> the bounded completion given up.
\<close>

definition resume :: "int \<Rightarrow> csi_choice \<Rightarrow> csi_task \<Rightarrow> csi \<Rightarrow> csi option" where
  "resume now c t s = (case t of
      AdapterRemoval r \<Rightarrow> orFails c (once c True (removalSettles r True s)) (\<lambda>_. removalSettles r False s)
    | TransitionRemove tid code w \<Rightarrow> removed c w s (\<lambda>ok. transitionRemoved tid code ok s)
    | TransitionFinalize tid code \<Rightarrow> orElapses c None (transitionEnds tid code s)
    | CompletionCallback k \<Rightarrow> settled c (cs_result s) (\<lambda>r. completionCallback now k r s)
    | KillRace imm w caller \<Rightarrow>
        orElapses c (orFails c (once c True (killSent caller s)) (\<lambda>_. spawn (KillBounded imm w caller) s)) (killFailed imm False caller s)
    | KillBounded imm w caller \<Rightarrow>
        orElapses c (once c (completionDone s w) (killReturn caller True s)) (killFailed imm True caller s)
    | KillRemoveOnly w caller \<Rightarrow> removed c w s (\<lambda>ok. killReturn caller ok s)
    | KillRemove err w caller \<Rightarrow> removed c w s (\<lambda>ok. if ok then
          (case transitionToTerminal now (Some 137) (Some ERRORED) (Some controlFailedReason) err s of
            (s1, tid) \<Rightarrow> spawn (KillTransition tid caller) s1)
        else killReturn caller False s)
    | KillTransition tid caller \<Rightarrow> once c (tid \<in> set (cs_transitionsDone s)) (killReturn caller True s)
    | KillWatch \<Rightarrow> orElapses c (settled c (cs_result s) (\<lambda>r. killWatchEnds now r s))
        (case removeInstance s of (s1, w) \<Rightarrow> spawn (KillWatchRemove w) s1)
    | KillWatchRemove w \<Rightarrow> removed c w s (\<lambda>_. deadlineMissed now s)
    | StopRace w \<Rightarrow> orElapses c (orFails c (once c True (stopAcknowledged s)) (\<lambda>_. spawn (StopBounded w) s)) (csiOutput (StopReturned False) s)
    | StopBounded w \<Rightarrow> orElapses c (once c (completionDone s w) (csiOutput (StopReturned True) s)) (csiOutput (StopReturned False) s)
    | StopDefer \<Rightarrow> orElapses c None (stopDelayed s)
    | StopKillTransition tid \<Rightarrow> once c (tid \<in> set (cs_transitionsDone s)) (csiOutput (StopReturned True) s)
    | ReadinessTransition f tid w \<Rightarrow> once c (tid \<in> set (cs_transitionsDone s)) (finishReadiness f w s)
    | ReadinessEnd f w \<Rightarrow> orElapses c (once c (cs_endEmitted s) (finishReadiness f w s)) (finishReadiness f w s)
    | ReadinessFailed f i \<Rightarrow> once c (f \<in> set (cs_failuresDone s)) (csiOutput (ReadyRejected i) s)
    | CompletedWait \<Rightarrow> orElapses c
        (settled c (cs_result s) (\<lambda>r. fst (transitionToTerminal now (ir_code r) (ir_status r) (ir_message r) False s)))
        (case removeInstance s of (s1, w) \<Rightarrow> spawn (CompletedRemove w) s1)
    | CompletedRemove w \<Rightarrow> removed c w s (\<lambda>_. csiOutput (ProcessExitCode 252) s)
    | StoppedWait err \<Rightarrow> orElapses c (settled c (cs_exit s) (\<lambda>x. case x of
          Inr _ \<Rightarrow> if cs_transition s \<noteq> None \<or> cs_endEmitted s then s else spawn (StoppedResult err) s
        | Inl _ \<Rightarrow> stoppedUnresponsive s)) (stoppedUnresponsive s)
    | StoppedResult err \<Rightarrow> settled c (cs_result s) (\<lambda>r. stoppedResult now err r s)
    | StoppedKill \<Rightarrow> orFails c (once c True (spawn StoppedKilled s)) (\<lambda>_. csiOutput HandlerRejected s)
    | StoppedKilled \<Rightarrow> orElapses c (settled c (cs_exit s) (\<lambda>x. case x of Inr _ \<Rightarrow> s | Inl _ \<Rightarrow> deadlineMissed now s)) (deadlineMissed now s)
    | InstanceExit \<Rightarrow> settled c (cs_exit s) (\<lambda>x. instanceExited x s)
    | InstanceCrashLog code \<Rightarrow> orFails c (once c True (spawn (InstanceCleanup code) s)) (\<lambda>e. instanceError e s)
    | InstanceCleanup code \<Rightarrow> orFails c (once c True (instanceSettles code s)) (\<lambda>e. instanceError e s)
    | InstanceErrorCleanup code \<Rightarrow> orFails c (once c True (instanceSettles code s)) (\<lambda>e. instanceRejects e s)
    | StartItems \<Rightarrow> orFails c (once c True (spawn StartStorage s)) (\<lambda>_. csiOutput StartRejected s)
    | StartStorage \<Rightarrow> orFails c (once c True (spawn StartInitialized s)) (\<lambda>_. csiOutput StartRejected s)
    | StartInitialized \<Rightarrow> if c = Settles then initialized now s else None
    | MainWait \<Rightarrow> settled c (cs_result s) (\<lambda>r. mainEnds now r s)
    | PingSetRunner m \<Rightarrow> orFails c (once c True (pingHandshake m s)) (\<lambda>_. csiOutput HandlerRejected s)
    | PingPong \<Rightarrow> orFails c (once c True (auditCurrentState (s\<lparr>cs_started := Some now\<rparr>))) (\<lambda>_. csiOutput HandlerRejected s))"

definition takeTask :: "nat \<Rightarrow> csi \<Rightarrow> csi" where
  "takeTask i s = s\<lparr>cs_tasks := take i (cs_tasks s) @ drop (Suc i) (cs_tasks s)\<rparr>"

definition fire :: "int \<Rightarrow> nat \<Rightarrow> csi_choice \<Rightarrow> csi \<Rightarrow> csi option" where
  "fire now i c s = (if i < length (cs_tasks s) then resume now c (cs_tasks s ! i) (takeTask i s) else None)"

datatype csi_request =
    ReqConnect bool
  | ReqTransportFailed string
  | ReqRunnerExits "adapter_error + int"
  | ReqKill bool
  | ReqStop nat bool
  | ReqWaitForReady
  | ReqReadinessTimer nat
  | MsgPing ping_message
  | MsgPang "string option" "string option"
  | MsgReady readiness_message
  | MsgAlive
  | MsgSequenceCompleted
  | MsgSequenceStopped "string option"

text \<open>Frames reach the controller once \<open>hookupStreams\<close> has registered its handlers.\<close>

definition onMessage :: "(csi \<Rightarrow> csi) \<Rightarrow> csi \<Rightarrow> csi" where
  "onMessage f s = (if cs_handlers s then f s else s)"

definition handleRequest :: "csi_request \<Rightarrow> csi \<Rightarrow> csi" where
  "handleRequest q s = (case q of
      ReqConnect broker \<Rightarrow> handleInstanceConnect broker s
    | ReqTransportFailed m \<Rightarrow> initReject \<lparr>ir_code = None, ir_status = None, ir_message = Some m\<rparr> s
    | ReqRunnerExits x \<Rightarrow> if cs_exit s = None then s\<lparr>cs_exit := Some x\<rparr> else s
    | ReqKill imm \<Rightarrow> kill imm FromApi s
    | ReqStop timeout k \<Rightarrow> stop timeout k s
    | ReqWaitForReady \<Rightarrow> waitForReady s
    | ReqReadinessTimer i \<Rightarrow> readinessTimeout i s
    | MsgPing m \<Rightarrow> onMessage (handlePing m) s
    | MsgPang p r \<Rightarrow> onMessage (handlePang p r) s
    | MsgReady m \<Rightarrow> onMessage (handleReadinessMessage m) s
    | MsgAlive \<Rightarrow> onMessage handleKeepAliveCommand s
    | MsgSequenceCompleted \<Rightarrow> onMessage handleSequenceCompleted s
    | MsgSequenceStopped e \<Rightarrow> onMessage (handleSequenceStopped e) s)"

datatype csi_event = Request csi_request | Fire int nat csi_choice

definition csiStep :: "csi \<Rightarrow> csi_event \<Rightarrow> csi" where
  "csiStep s e = (case e of
      Request q \<Rightarrow> handleRequest q s
    | Fire now i c \<Rightarrow> (case fire now i c s of Some s' \<Rightarrow> s' | None \<Rightarrow> s))"

text \<open>The state after the constructor and the synchronous part of \<open>start\<close>.\<close>

definition startController ::
  "string \<Rightarrow> bool \<Rightarrow> int \<Rightarrow> string option \<Rightarrow> string option \<Rightarrow> string option \<Rightarrow> csi" where
  "startController entrypoint hasSetRunner delay name inputTopic outputTopic =
    spawn StartItems (spawn InstanceExit (setStatus STARTING
      \<lparr>cs_status = INITIALIZING, cs_created = None, cs_started = None, cs_ended = None, cs_terminated = None,
       cs_executionMs = None, cs_keepAlive = False, cs_lifetimeDelay = delay, cs_finalizing = False, cs_streams = False,
       cs_handlers = False, cs_connecting = False, cs_provides = None, cs_requires = None, cs_inputTopic = inputTopic,
       cs_outputTopic = outputTopic, cs_instanceName = name, cs_apiInput = True, cs_inputHeadersSent = False,
       cs_init = InitPending, cs_exit = None, cs_result = None, cs_entrypoint = entrypoint, cs_hasSetRunner = hasSetRunner,
       cs_readiness = ReadinessPending, cs_expose = None, cs_timers = [], cs_waiter = None, cs_readinessFailure = None,
       cs_failuresDone = [], cs_removal = None, cs_removalCompleted = False, cs_removalResults = [], cs_transition = None,
       cs_transitionsDone = [], cs_callbacks = [], cs_endEmitted = False, cs_next = 0, cs_tasks = [], cs_log = []\<rparr>))"

section \<open>The protocol of the removal and the end\<close>

text \<open>
  What the adapter and the dispatcher see, as an automaton: removal calls do not overlap and stop once one
  has succeeded; only then \<open>terminated\<close> and \<open>end\<close> are emitted, once, in this order and with the same code.
\<close>

datatype removal_phase =
    PhaseOwned | PhaseRemoving | PhaseRemoved | PhaseTerminated "int option" | PhaseEnded

definition lifecycleOutput :: "csi_output \<Rightarrow> bool" where
  "lifecycleOutput x = (case x of AdapterRemove \<Rightarrow> True | RemovalOk \<Rightarrow> True | RemovalFailed \<Rightarrow> True
     | EmitTerminated _ \<Rightarrow> True | EmitEnd _ \<Rightarrow> True | _ \<Rightarrow> False)"

fun lifecycleNext :: "removal_phase \<Rightarrow> csi_output \<Rightarrow> removal_phase option" where
  "lifecycleNext PhaseOwned AdapterRemove = Some PhaseRemoving"
| "lifecycleNext PhaseRemoving RemovalFailed = Some PhaseOwned"
| "lifecycleNext PhaseRemoving RemovalOk = Some PhaseRemoved"
| "lifecycleNext PhaseRemoved (EmitTerminated code) = Some (PhaseTerminated code)"
| "lifecycleNext (PhaseTerminated code) (EmitEnd code') = (if code' = code then Some PhaseEnded else None)"
| "lifecycleNext _ _ = None"

definition lifecyclePhase :: "csi_output list \<Rightarrow> removal_phase option" where
  "lifecyclePhase xs = foldl (\<lambda>p x. if lifecycleOutput x then (case p of Some q \<Rightarrow> lifecycleNext q x | None \<Rightarrow> None) else p)
     (Some PhaseOwned) xs"

definition isTransitionTask :: "csi_task \<Rightarrow> bool" where
  "isTransitionTask t = (case t of TransitionRemove _ _ _ \<Rightarrow> True | TransitionFinalize _ _ \<Rightarrow> True | _ \<Rightarrow> False)"

definition isRemovalTask :: "csi_task \<Rightarrow> bool" where
  "isRemovalTask t = (case t of AdapterRemoval _ \<Rightarrow> True | _ \<Rightarrow> False)"

definition finalCode :: "csi_task \<Rightarrow> int option option" where
  "finalCode t = (case t of TransitionFinalize _ code \<Rightarrow> Some code | _ \<Rightarrow> None)"

definition finalizing :: "csi_task list \<Rightarrow> int option option" where
  "finalizing ts = foldr (\<lambda>t r. case finalCode t of Some code \<Rightarrow> Some code | None \<Rightarrow> r) ts None"

definition tally :: "('a \<Rightarrow> bool) \<Rightarrow> 'a list \<Rightarrow> nat" where
  "tally P xs = length (filter P xs)"

definition needsRemoval :: "csi_task \<Rightarrow> bool" where
  "needsRemoval t = (case t of TransitionFinalize _ _ \<Rightarrow> True | TransitionRemove _ _ w \<Rightarrow> w = RemovalDone | _ \<Rightarrow> False)"

text \<open>Tasks without a part in the protocol.\<close>

definition silentTask :: "csi_task \<Rightarrow> bool" where
  "silentTask t \<longleftrightarrow> \<not> isTransitionTask t \<and> \<not> isRemovalTask t"

text \<open>
  The invariant, over the tasks that take part in the protocol, whether a transition is current, whether
  the end was emitted, whether a removal is recorded, whether one has succeeded, and the outputs so far.
\<close>

definition expectedPhase :: "csi_task list \<Rightarrow> bool \<Rightarrow> bool \<Rightarrow> bool \<Rightarrow> removal_phase" where
  "expectedPhase ts ended removing done =
    (if ended then PhaseEnded
     else case finalizing ts of
       Some code \<Rightarrow> PhaseTerminated code
     | None \<Rightarrow> if done then PhaseRemoved else if removing then PhaseRemoving else PhaseOwned)"

definition protocol_ok :: "csi_task list \<Rightarrow> bool \<Rightarrow> bool \<Rightarrow> bool \<Rightarrow> bool \<Rightarrow> (nat \<times> bool) list \<Rightarrow> removal_phase option \<Rightarrow> bool" where
  "protocol_ok ts current ended removing done results phase \<longleftrightarrow>
    tally isTransitionTask ts = (if current \<and> \<not> ended then 1 else 0) \<and>
    (ended \<longrightarrow> current \<and> done) \<and>
    tally isRemovalTask ts = (if removing \<and> \<not> done then 1 else 0) \<and>
    (\<forall>r. (r, True) \<in> set results \<longrightarrow> done) \<and>
    (\<forall>t \<in> set ts. needsRemoval t \<longrightarrow> done) \<and>
    phase = Some (expectedPhase ts ended removing done)"

text \<open>\<open>ts\<close> are activations taken out of the list to be resumed.\<close>

definition lifecycle_ok :: "csi_task list \<Rightarrow> csi \<Rightarrow> bool" where
  "lifecycle_ok ts s \<longleftrightarrow>
    protocol_ok (filter (\<lambda>t. \<not> silentTask t) (ts @ cs_tasks s)) (cs_transition s \<noteq> None) (cs_endEmitted s) (cs_removal s \<noteq> None)
      (cs_removalCompleted s) (cs_removalResults s) (lifecyclePhase (cs_log s))"

lemma tally_simps [simp]:
  "tally P [] = 0" "tally P (xs @ ys) = tally P xs + tally P ys"
  "tally P (x # xs) = (if P x then Suc (tally P xs) else tally P xs)"
  by (simp_all add: tally_def)

lemma tally_take:
  "i < length xs \<Longrightarrow> (if P (xs ! i) then Suc (tally P (take i xs @ drop (Suc i) xs)) else tally P (take i xs @ drop (Suc i) xs)) = tally P xs"
  by (subst (5) id_take_nth_drop) (auto simp: min_def)

lemma task_kinds [simp]:
  "isTransitionTask (TransitionRemove t code w)" "isTransitionTask (TransitionFinalize t code)" "\<not> isTransitionTask (AdapterRemoval r)"
  "isRemovalTask (AdapterRemoval r)" "\<not> isRemovalTask (TransitionRemove t code w)" "\<not> isRemovalTask (TransitionFinalize t code)"
  "needsRemoval (TransitionFinalize t code)" "needsRemoval (TransitionRemove t code w) \<longleftrightarrow> w = RemovalDone" "\<not> needsRemoval (AdapterRemoval r)"
  "finalCode (TransitionFinalize t code) = Some code" "finalCode (TransitionRemove t code w) = None" "finalCode (AdapterRemoval r) = None"
  by (simp_all add: isTransitionTask_def isRemovalTask_def needsRemoval_def finalCode_def)

lemma finalCode_kind: "finalCode t = Some c \<Longrightarrow> isTransitionTask t \<and> needsRemoval t"
  by (cases t) (simp_all add: finalCode_def)

lemma finalCode_other [simp]: "\<not> isTransitionTask t \<Longrightarrow> finalCode t = None"
  by (cases t) (simp_all add: finalCode_def)

lemma finalizing_simps [simp]:
  "finalizing [] = None"
  "finalizing (xs @ ys) = (case finalizing xs of Some c \<Rightarrow> Some c | None \<Rightarrow> finalizing ys)"
  "finalizing (x # xs) = (case finalCode x of Some code \<Rightarrow> Some code | None \<Rightarrow> finalizing xs)"
proof -
  show "finalizing (xs @ ys) = (case finalizing xs of Some c \<Rightarrow> Some c | None \<Rightarrow> finalizing ys)" for xs ys
    by (induction xs) (auto simp: finalizing_def split: option.split)
qed (simp_all add: finalizing_def split: option.split)

lemma finalizing_None [simp]: "tally isTransitionTask xs = 0 \<Longrightarrow> finalizing xs = None"
  by (induction xs) (auto split: if_splits)

lemma not_silent [simp]:
  "\<not> silentTask (AdapterRemoval r)" "\<not> silentTask (TransitionRemove t code w)" "\<not> silentTask (TransitionFinalize t code)"
  by (simp_all add: silentTask_def isTransitionTask_def isRemovalTask_def)

lemma phase_append [simp]:
  "lifecyclePhase (xs @ [x]) =
    (if lifecycleOutput x then (case lifecyclePhase xs of Some q \<Rightarrow> lifecycleNext q x | None \<Rightarrow> None) else lifecyclePhase xs)"
  by (simp add: lifecyclePhase_def)

lemma ok_output [simp]: "\<not> lifecycleOutput x \<Longrightarrow> lifecycle_ok ts (csiOutput x s) = lifecycle_ok ts s"
  by (simp add: lifecycle_ok_def csiOutput_def)

lemma ok_spawn [simp]: "silentTask t \<Longrightarrow> lifecycle_ok ts (spawn t s) = lifecycle_ok ts s"
  by (simp add: lifecycle_ok_def spawn_def)

lemma ok_silent [simp]: "silentTask t \<Longrightarrow> lifecycle_ok (t # ts) s = lifecycle_ok ts s"
  by (simp add: lifecycle_ok_def)

lemma silent_outputs [simp]:
  "\<not> lifecycleOutput (Audited st r b)" "\<not> lifecycleOutput (ControlStop n k)" "\<not> lifecycleOutput ControlKill"
  "\<not> lifecycleOutput ControlPong" "\<not> lifecycleOutput EmitError" "\<not> lifecycleOutput EmitPing" "\<not> lifecycleOutput (EmitPang p q)"
  "\<not> lifecycleOutput (RpcExpose x)" "\<not> lifecycleOutput (RpcRevoke x)" "\<not> lifecycleOutput (KillReturned b)"
  "\<not> lifecycleOutput (StopReturned b)" "\<not> lifecycleOutput (ReadyResolved i)" "\<not> lifecycleOutput (ReadyRejected i)"
  "\<not> lifecycleOutput StartRejected" "\<not> lifecycleOutput HandlerRejected" "\<not> lifecycleOutput (ProcessExitCode c)"
  by (simp_all add: lifecycleOutput_def)

lemma silent_tasks [simp]:
  "silentTask (CompletionCallback k)" "silentTask (KillRace i cw x)" "silentTask (KillBounded i cw x)" "silentTask (KillRemoveOnly w x)"
  "silentTask (KillRemove e w x)" "silentTask (KillTransition n x)" "silentTask KillWatch" "silentTask (KillWatchRemove w)"
  "silentTask (StopRace cw)" "silentTask (StopBounded cw)" "silentTask StopDefer" "silentTask (StopKillTransition n)"
  "silentTask (ReadinessTransition f n wo)" "silentTask (ReadinessEnd f wo)" "silentTask (ReadinessFailed f n)"
  "silentTask CompletedWait" "silentTask (CompletedRemove w)" "silentTask (StoppedWait err)" "silentTask (StoppedResult err)"
  "silentTask StoppedKill" "silentTask StoppedKilled" "silentTask InstanceExit" "silentTask (InstanceCrashLog c)"
  "silentTask (InstanceCleanup c)" "silentTask (InstanceErrorCleanup c)" "silentTask StartItems" "silentTask StartStorage"
  "silentTask StartInitialized" "silentTask MainWait" "silentTask (PingSetRunner m)" "silentTask PingPong"
  by (simp_all add: silentTask_def isTransitionTask_def isRemovalTask_def)

lemma ok_fields [simp]:
  "lifecycle_ok ts (s\<lparr>cs_status := x1\<rparr>) = lifecycle_ok ts s" "lifecycle_ok ts (s\<lparr>cs_created := x2\<rparr>) = lifecycle_ok ts s"
  "lifecycle_ok ts (s\<lparr>cs_started := x3\<rparr>) = lifecycle_ok ts s" "lifecycle_ok ts (s\<lparr>cs_ended := x4\<rparr>) = lifecycle_ok ts s"
  "lifecycle_ok ts (s\<lparr>cs_terminated := x5\<rparr>) = lifecycle_ok ts s" "lifecycle_ok ts (s\<lparr>cs_executionMs := x6\<rparr>) = lifecycle_ok ts s"
  "lifecycle_ok ts (s\<lparr>cs_keepAlive := x7\<rparr>) = lifecycle_ok ts s" "lifecycle_ok ts (s\<lparr>cs_lifetimeDelay := x8\<rparr>) = lifecycle_ok ts s"
  "lifecycle_ok ts (s\<lparr>cs_finalizing := x9\<rparr>) = lifecycle_ok ts s" "lifecycle_ok ts (s\<lparr>cs_streams := x10\<rparr>) = lifecycle_ok ts s"
  "lifecycle_ok ts (s\<lparr>cs_handlers := x11\<rparr>) = lifecycle_ok ts s" "lifecycle_ok ts (s\<lparr>cs_connecting := x12\<rparr>) = lifecycle_ok ts s"
  "lifecycle_ok ts (s\<lparr>cs_provides := x13\<rparr>) = lifecycle_ok ts s" "lifecycle_ok ts (s\<lparr>cs_requires := x14\<rparr>) = lifecycle_ok ts s"
  "lifecycle_ok ts (s\<lparr>cs_inputTopic := x15\<rparr>) = lifecycle_ok ts s" "lifecycle_ok ts (s\<lparr>cs_outputTopic := x16\<rparr>) = lifecycle_ok ts s"
  "lifecycle_ok ts (s\<lparr>cs_instanceName := x17\<rparr>) = lifecycle_ok ts s" "lifecycle_ok ts (s\<lparr>cs_apiInput := x18\<rparr>) = lifecycle_ok ts s"
  "lifecycle_ok ts (s\<lparr>cs_inputHeadersSent := x19\<rparr>) = lifecycle_ok ts s" "lifecycle_ok ts (s\<lparr>cs_init := x20\<rparr>) = lifecycle_ok ts s"
  "lifecycle_ok ts (s\<lparr>cs_exit := x21\<rparr>) = lifecycle_ok ts s" "lifecycle_ok ts (s\<lparr>cs_result := x22\<rparr>) = lifecycle_ok ts s"
  "lifecycle_ok ts (s\<lparr>cs_readiness := x23\<rparr>) = lifecycle_ok ts s" "lifecycle_ok ts (s\<lparr>cs_expose := x24\<rparr>) = lifecycle_ok ts s"
  "lifecycle_ok ts (s\<lparr>cs_timers := x25\<rparr>) = lifecycle_ok ts s" "lifecycle_ok ts (s\<lparr>cs_waiter := x26\<rparr>) = lifecycle_ok ts s"
  "lifecycle_ok ts (s\<lparr>cs_readinessFailure := x27\<rparr>) = lifecycle_ok ts s" "lifecycle_ok ts (s\<lparr>cs_failuresDone := x28\<rparr>) = lifecycle_ok ts s"
  "lifecycle_ok ts (s\<lparr>cs_transitionsDone := x29\<rparr>) = lifecycle_ok ts s" "lifecycle_ok ts (s\<lparr>cs_callbacks := x30\<rparr>) = lifecycle_ok ts s"
  "lifecycle_ok ts (s\<lparr>cs_next := x31\<rparr>) = lifecycle_ok ts s"
  by (simp_all add: lifecycle_ok_def)

lemma ok_audit [simp]: "lifecycle_ok ts (auditCurrentState s) = lifecycle_ok ts s"
  by (simp add: auditCurrentState_def getWatchReadiness_def)

lemma ok_setStatus [simp]: "lifecycle_ok ts (setStatus st s) = lifecycle_ok ts s"
  by (simp add: setStatus_def)

lemma ok_enterTerminal [simp]: "lifecycle_ok ts (enterTerminal now code st reason err s) = lifecycle_ok ts s"
  by (simp add: enterTerminal_def Let_def setExitInfo_def)

lemma audit_transition [simp]:
  "cs_transition (csiOutput x s) = cs_transition s" "cs_transition (auditCurrentState s) = cs_transition s"
  "cs_transition (enterTerminal now code st reason err s) = cs_transition s"
  by (simp_all add: csiOutput_def auditCurrentState_def getWatchReadiness_def enterTerminal_def Let_def setExitInfo_def)

lemma audit_ended [simp]:
  "cs_endEmitted (csiOutput x s) = cs_endEmitted s" "cs_endEmitted (auditCurrentState s) = cs_endEmitted s"
  "cs_endEmitted (enterTerminal now code st reason err s) = cs_endEmitted s"
  by (simp_all add: csiOutput_def auditCurrentState_def getWatchReadiness_def enterTerminal_def Let_def setExitInfo_def)

lemma finalizing_needs: "finalizing ts = Some c \<Longrightarrow> \<exists>t \<in> set ts. needsRemoval t"
  by (induction ts) (auto dest: finalCode_kind split: option.splits)

lemma not_done_phase:
  "protocol_ok M cur ended removing False results phase \<Longrightarrow> phase = Some (if removing then PhaseRemoving else PhaseOwned)"
  using finalizing_needs [of M] by (cases "finalizing M") (auto simp: protocol_ok_def expectedPhase_def)

lemma not_done_finalizing: "protocol_ok M cur ended removing False results phase \<Longrightarrow> finalizing M = None \<and> \<not> ended"
  using finalizing_needs [of M] by (cases "finalizing M") (auto simp: protocol_ok_def)

lemma protocol_adapter_call:
  assumes "protocol_ok M cur ended False False results phase"
  shows "protocol_ok (M @ [AdapterRemoval r]) cur ended True False results (Some PhaseRemoving)"
  using not_done_finalizing [OF assms] assms
  by (auto simp: protocol_ok_def expectedPhase_def)

lemma ok_removeInstance: 
  assumes "lifecycle_ok ts s"
  shows "lifecycle_ok ts (fst (removeInstance s))"
proof (cases "cs_removalCompleted s \<or> cs_removal s \<noteq> None")
  case True
  then show ?thesis using assms by (auto simp: removeInstance_def split: option.split)
next
  case False
  let ?M = "filter (\<lambda>t. \<not> silentTask t) (ts @ cs_tasks s)"
  have p: "protocol_ok ?M (cs_transition s \<noteq> None) (cs_endEmitted s) False False (cs_removalResults s) (lifecyclePhase (cs_log s))"
    using assms False by (simp add: lifecycle_ok_def)
  have "lifecyclePhase (cs_log s) = Some PhaseOwned"
    using not_done_phase [OF p] by simp
  then show ?thesis
    using protocol_adapter_call [OF p, of "cs_next s"] False
    by (simp add: removeInstance_def lifecycle_ok_def spawn_def csiOutput_def lifecycleOutput_def)
qed

lemma removeInstance_facts [simp]:
  "cs_transition (fst (removeInstance s)) = cs_transition s" "cs_endEmitted (fst (removeInstance s)) = cs_endEmitted s"
  "cs_removalCompleted (fst (removeInstance s)) = cs_removalCompleted s"
  "snd (removeInstance s) = RemovalDone \<longleftrightarrow> cs_removalCompleted s"
  by (simp_all add: removeInstance_def spawn_def csiOutput_def split: option.split)

lemma protocol_transition:
  assumes p: "protocol_ok M cur ended removing done results phase" and "\<not> cur" and "w = RemovalDone \<longrightarrow> done"
  shows "protocol_ok (M @ [TransitionRemove t code w]) True ended removing done results phase"
proof -
  have "finalizing M = None" "\<not> ended" using p \<open>\<not> cur\<close> by (auto simp: protocol_ok_def)
  then show ?thesis using assms by (auto simp: protocol_ok_def expectedPhase_def)
qed

lemma ok_transition:
  assumes "lifecycle_ok ts s"
  shows "lifecycle_ok ts (fst (transitionToTerminal now code st reason err s))"
proof (cases "cs_transition s")
  case (Some t)
  then show ?thesis using assms by (simp add: transitionToTerminal_def)
next
  case None
  let ?e = "enterTerminal now code st reason err s"
  have ok: "lifecycle_ok ts (fst (removeInstance ?e))" and none: "cs_transition (fst (removeInstance ?e)) = None"
    using ok_removeInstance [of ts ?e] assms None by simp_all
  have w: "snd (removeInstance ?e) = RemovalDone \<longrightarrow> cs_removalCompleted (fst (removeInstance ?e))" by simp
  show ?thesis
    using protocol_transition [OF ok [unfolded lifecycle_ok_def] _ w] none
    by (simp add: transitionToTerminal_def None case_prod_beta Let_def lifecycle_ok_def spawn_def del: removeInstance_facts)
qed

lemma protocol_front:
  assumes "tally isTransitionTask (xs @ t # ys) \<le> 1"
  shows "protocol_ok (xs @ t # ys) = protocol_ok (t # xs @ ys)"
proof -
  have "finalizing (xs @ t # ys) = finalizing (t # xs @ ys)"
  proof (cases "finalCode t")
    case (Some c)
    then show ?thesis using assms by (auto dest: finalCode_kind split: if_splits)
  qed (simp split: option.split)
  then have "expectedPhase (xs @ t # ys) = expectedPhase (t # xs @ ys)"
    by (intro ext) (simp add: expectedPhase_def del: finalizing_simps)
  then show ?thesis by (intro ext) (auto simp: protocol_ok_def simp del: finalizing_simps)
qed

lemma ok_awaitCompletion [simp]: "lifecycle_ok ts (fst (awaitTerminalCompletion s)) = lifecycle_ok ts s"
  by (simp add: awaitTerminalCompletion_def split: option.split)

lemma ok_finishReadiness [simp]: "lifecycle_ok ts (finishReadiness f w s) = lifecycle_ok ts s"
  by (simp add: finishReadiness_def Let_def split: option.split)

lemma ok_killReturn [simp]: "lifecycle_ok ts (killReturn caller b s) = lifecycle_ok ts s"
  by (simp add: killReturn_def afterReadinessKill_def split: kill_caller.split option.split)

lemma ok_killSent [simp]: "lifecycle_ok ts (killSent caller s) = lifecycle_ok ts s"
  by (simp add: killSent_def)

named_theorems csi_keeps \<open>operations that keep the protocol invariant\<close>

declare ok_removeInstance [csi_keeps] ok_transition [csi_keeps]

lemma ok_kill [csi_keeps]: "lifecycle_ok ts s \<Longrightarrow> lifecycle_ok ts (kill imm caller s)"
  by (simp add: kill_def Let_def case_prod_beta csi_keeps)

lemma ok_killFailed [csi_keeps]: "lifecycle_ok ts s \<Longrightarrow> lifecycle_ok ts (killFailed imm err caller s)"
  by (simp add: killFailed_def case_prod_beta csi_keeps)

lemma ok_stop [simp]: "lifecycle_ok ts (stop n k s) = lifecycle_ok ts s"
  by (simp add: stop_def case_prod_beta)

lemma ok_stopAcknowledged [simp]: "lifecycle_ok ts (stopAcknowledged s) = lifecycle_ok ts s"
  by (simp add: stopAcknowledged_def Let_def)

lemma ok_stopDelayed [csi_keeps]: "lifecycle_ok ts s \<Longrightarrow> lifecycle_ok ts (stopDelayed s)"
  by (simp add: stopDelayed_def csi_keeps)

lemma ok_failReadiness [csi_keeps]: "lifecycle_ok ts s \<Longrightarrow> lifecycle_ok ts (failReadiness w s)"
  by (simp add: failReadiness_def Let_def csi_keeps split: option.split)

lemma ok_readinessErrored [simp]: "lifecycle_ok ts (readinessErrored s) = lifecycle_ok ts s"
  by (simp add: readinessErrored_def)

lemma ok_clearTimer [simp]: "lifecycle_ok ts (clearReadinessTimer s) = lifecycle_ok ts s"
  by (simp add: clearReadinessTimer_def split: option.split)

lemma ok_waitForReady [simp]: "lifecycle_ok ts (waitForReady s) = lifecycle_ok ts s"
  by (simp add: waitForReady_def Let_def split: readiness_state.split option.split)

lemma ok_readinessTimeout [csi_keeps]: "lifecycle_ok ts s \<Longrightarrow> lifecycle_ok ts (readinessTimeout i s)"
  by (simp add: readinessTimeout_def csi_keeps)

lemma ok_readinessMessage [csi_keeps]: "lifecycle_ok ts s \<Longrightarrow> lifecycle_ok ts (handleReadinessMessage m s)"
  by (simp add: handleReadinessMessage_def Let_def csi_keeps split: option.split)

lemma ok_init [simp]: "lifecycle_ok ts (initReject r s) = lifecycle_ok ts s" "lifecycle_ok ts (initResolve s) = lifecycle_ok ts s"
  by (simp_all add: initReject_def initResolve_def)

lemma ok_instance [simp]:
  "lifecycle_ok ts (instanceSettles c s) = lifecycle_ok ts s" "lifecycle_ok ts (instanceRejects e s) = lifecycle_ok ts s"
  "lifecycle_ok ts (instanceError e s) = lifecycle_ok ts s" "lifecycle_ok ts (instanceExited x s) = lifecycle_ok ts s"
  by (simp_all add: instanceSettles_def instanceRejects_def instanceError_def instanceExited_def Let_def split: sum.split)

lemma ok_initialized: "lifecycle_ok ts s \<Longrightarrow> initialized now s = Some s' \<Longrightarrow> lifecycle_ok ts s'"
  by (auto simp: initialized_def csi_keeps split: init_state.splits)

lemma ok_completionCallback [csi_keeps]: "lifecycle_ok ts s \<Longrightarrow> lifecycle_ok ts (completionCallback now k r s)"
  by (simp add: completionCallback_def case_prod_beta csi_keeps)

lemma ok_endings [csi_keeps]:
  "lifecycle_ok ts s \<Longrightarrow> lifecycle_ok ts (mainEnds now r s)" "lifecycle_ok ts s \<Longrightarrow> lifecycle_ok ts (killWatchEnds now r s)"
  "lifecycle_ok ts s \<Longrightarrow> lifecycle_ok ts (deadlineMissed now s)" "lifecycle_ok ts s \<Longrightarrow> lifecycle_ok ts (stoppedResult now e r s)"
  by (simp_all add: mainEnds_def killWatchEnds_def deadlineMissed_def stoppedResult_def csi_keeps)

lemma ok_stoppedUnresponsive [simp]: "lifecycle_ok ts (stoppedUnresponsive s) = lifecycle_ok ts s"
  by (simp add: stoppedUnresponsive_def)

lemma ok_pingHandshake [simp]: "lifecycle_ok ts (pingHandshake m s) = lifecycle_ok ts s"
  by (simp add: pingHandshake_def split: option.split)

lemma ok_ping [simp]: "lifecycle_ok ts (handlePing m s) = lifecycle_ok ts s"
  by (simp add: handlePing_def Let_def split: option.split)

lemma ok_pang [simp]: "lifecycle_ok ts (handlePang p r s) = lifecycle_ok ts s"
  by (simp add: handlePang_def Let_def)

lemma ok_connect [simp]: "lifecycle_ok ts (handleInstanceConnect b s) = lifecycle_ok ts s"
  by (simp add: handleInstanceConnect_def Let_def)

lemma ok_request [csi_keeps]: "lifecycle_ok ts s \<Longrightarrow> lifecycle_ok ts (handleRequest q s)"
  by (simp add: handleRequest_def onMessage_def handleKeepAliveCommand_def handleSequenceCompleted_def handleSequenceStopped_def
      csi_keeps split: csi_request.split)

subsection \<open>The tasks of the protocol\<close>

lemma ok_take: "lifecycle_ok [] s \<Longrightarrow> i < length (cs_tasks s) \<Longrightarrow> lifecycle_ok [cs_tasks s ! i] (takeTask i s)"
proof -
  assume ok: "lifecycle_ok [] s" and i: "i < length (cs_tasks s)"
  let ?F = "filter (\<lambda>t. \<not> silentTask t)" and ?t = "cs_tasks s ! i"
  let ?xs = "?F (take i (cs_tasks s))" and ?ys = "?F (drop (Suc i) (cs_tasks s))"
  have split: "?F (cs_tasks s) = ?xs @ ?F [?t] @ ?ys"
    by (subst id_take_nth_drop [OF i]) simp
  show ?thesis
  proof (cases "silentTask ?t")
    case True
    then show ?thesis using ok split by (simp add: lifecycle_ok_def takeTask_def)
  next
    case False
    have "tally isTransitionTask (?xs @ ?t # ?ys) \<le> 1"
      using ok split False by (simp add: lifecycle_ok_def protocol_ok_def split: if_splits)
    then show ?thesis using ok split False by (simp add: lifecycle_ok_def takeTask_def protocol_front)
  qed
qed

lemma protocol_removal_ok:
  assumes "protocol_ok (AdapterRemoval r # M) cur ended removing done results phase"
  shows "protocol_ok M cur ended removing True ((r, True) # results) (Some PhaseRemoved) \<and> phase = Some PhaseRemoving"
proof -
  have "removing" "\<not> done" using assms by (auto simp: protocol_ok_def split: if_splits)
  then have p: "protocol_ok (AdapterRemoval r # M) cur ended True False results phase" using assms by simp
  then show ?thesis
    using not_done_finalizing [OF p] not_done_phase [OF p] \<open>removing\<close> by (auto simp: protocol_ok_def expectedPhase_def)
qed

lemma protocol_removal_failed:
  assumes "protocol_ok (AdapterRemoval r # M) cur ended removing done results phase"
  shows "protocol_ok M cur ended False done ((r, False) # results) (Some PhaseOwned) \<and> phase = Some PhaseRemoving"
proof -
  have "removing" "\<not> done" using assms by (auto simp: protocol_ok_def split: if_splits)
  then have p: "protocol_ok (AdapterRemoval r # M) cur ended True False results phase" using assms by simp
  then show ?thesis
    using not_done_finalizing [OF p] not_done_phase [OF p] \<open>\<not> done\<close> by (auto simp: protocol_ok_def expectedPhase_def)
qed

lemma ok_removalSettles: "lifecycle_ok [AdapterRemoval r] s \<Longrightarrow> lifecycle_ok [] (removalSettles r b s)"
proof (cases b)
  case True
  then show "lifecycle_ok [AdapterRemoval r] s \<Longrightarrow> lifecycle_ok [] (removalSettles r b s)"
    by (auto simp: lifecycle_ok_def removalSettles_def csiOutput_def lifecycleOutput_def dest!: protocol_removal_ok)
next
  case False
  then show "lifecycle_ok [AdapterRemoval r] s \<Longrightarrow> lifecycle_ok [] (removalSettles r b s)"
    by (auto simp: lifecycle_ok_def removalSettles_def csiOutput_def lifecycleOutput_def dest!: protocol_removal_failed)
qed

lemma protocol_transition_removed:
  assumes "protocol_ok (TransitionRemove t code w # M) cur ended removing done results phase"
  shows "cur \<and> \<not> ended \<and> tally isTransitionTask M = 0 \<and> protocol_ok M False ended removing done results phase \<and>
    (done \<longrightarrow> phase = Some PhaseRemoved \<and>
      protocol_ok (M @ [TransitionFinalize t code]) cur ended removing done results (Some (PhaseTerminated code)) \<and>
      protocol_ok M cur True removing done results (Some PhaseEnded))"
proof -
  have a: "cur" "\<not> ended" "tally isTransitionTask M = 0" using assms by (auto simp: protocol_ok_def split: if_splits)
  then have "finalizing M = None" by simp
  then show ?thesis using assms a by (auto simp: protocol_ok_def expectedPhase_def)
qed

lemma removed_completed:
  assumes "lifecycle_ok (TransitionRemove t code w # ts) s" and "removalResult s w = Some True"
  shows "cs_removalCompleted s"
proof (cases w)
  case RemovalDone
  then show ?thesis using assms(1) by (auto simp: lifecycle_ok_def protocol_ok_def)
next
  case (RemovalCall r)
  then have "(r, True) \<in> set (cs_removalResults s)" using assms(2) by (simp add: removalResult_def map_of_SomeD)
  then show ?thesis using assms(1) by (auto simp: lifecycle_ok_def protocol_ok_def)
qed

lemma ok_transitionRemoved:
  assumes ok: "lifecycle_ok [TransitionRemove t code w] s" and r: "removalResult s w = Some b"
  shows "lifecycle_ok [] (transitionRemoved t code b s)"
proof (cases b)
  case True
  then have "cs_removalCompleted s" using removed_completed [OF ok] r by simp
  then show ?thesis
    using True ok
    by (auto simp: lifecycle_ok_def transitionRemoved_def Let_def csiOutput_def lifecycleOutput_def spawn_def transitionEnds_def
        emitEnd_def phase_append [of "_ @ [_]", simplified] dest!: protocol_transition_removed)
next
  case False
  then show ?thesis
    using ok by (auto simp: lifecycle_ok_def transitionRemoved_def dest!: protocol_transition_removed)
qed

lemma protocol_finalized:
  assumes "protocol_ok (TransitionFinalize t code # M) cur ended removing done results phase"
  shows "\<not> ended \<and> phase = Some (PhaseTerminated code) \<and> protocol_ok M cur True removing done results (Some PhaseEnded)"
  using assms by (auto simp: protocol_ok_def expectedPhase_def split: if_splits)

lemma ok_transitionEnds: "lifecycle_ok [TransitionFinalize t code] s \<Longrightarrow> lifecycle_ok [] (transitionEnds t code s)"
  by (auto simp: lifecycle_ok_def transitionEnds_def emitEnd_def csiOutput_def lifecycleOutput_def dest!: protocol_finalized)

lemmas resume_simps = resume_def removed_def settled_def once_def orElapses_def orFails_def

lemma ok_resume: "lifecycle_ok [t] s \<Longrightarrow> resume now c t s = Some s' \<Longrightarrow> lifecycle_ok [] s'"
  by (cases t)
    (auto simp: resume_simps case_prod_beta intro: csi_keeps ok_removalSettles ok_transitionRemoved ok_transitionEnds
      ok_initialized [rotated] split: if_splits sum.splits csi_choice.splits, (metis sum.exhaust)+)

lemma ok_fire: "lifecycle_ok [] s \<Longrightarrow> fire now i c s = Some s' \<Longrightarrow> lifecycle_ok [] s'"
  by (auto simp: fire_def split: if_splits intro: ok_resume ok_take)

lemma ok_step: "lifecycle_ok [] s \<Longrightarrow> lifecycle_ok [] (csiStep s e)"
  by (auto simp: csiStep_def csi_keeps split: csi_event.split option.split intro: ok_fire)

interpretation csi_lifecycle: invariant_machine csiStep "lifecycle_ok []"
  by unfold_locales (rule ok_step)

lemma ok_start: "lifecycle_ok [] (startController entry hasSetRunner delay name inTopic outTopic)"
  by (simp add: startController_def) (simp add: lifecycle_ok_def protocol_ok_def lifecyclePhase_def expectedPhase_def)

text \<open>C4: The life of an instance follows one protocol. For every order of requests, messages and resumed
  activations: the adapter is never asked to remove the runner while a removal runs nor after one has
  succeeded, a refused removal leaves the instance owned so that it can be retried, and only after a
  successful removal are \<open>terminated\<close> and then \<open>end\<close> emitted, once, with the same exit code. At most one
  terminal transition and one removal are under way at any time.\<close>

theorem csi_lifecycle_protocol:
  "let s = foldl csiStep (startController entry hasSetRunner delay name inTopic outTopic) es in
     lifecyclePhase (cs_log s) \<noteq> None \<and> (cs_endEmitted s \<longleftrightarrow> lifecyclePhase (cs_log s) = Some PhaseEnded) \<and>
     tally isTransitionTask (cs_tasks s) \<le> 1 \<and> tally isRemovalTask (cs_tasks s) \<le> 1"
proof -
  define s where "s = foldl csiStep (startController entry hasSetRunner delay name inTopic outTopic) es"
  have ok: "lifecycle_ok [] s" unfolding s_def by (rule csi_lifecycle.inv_run [OF ok_start])
  have t: "tally isTransitionTask (filter (\<lambda>t. \<not> silentTask t) ts) = tally isTransitionTask ts" for ts
    by (induction ts) (auto simp: silentTask_def)
  have r: "tally isRemovalTask (filter (\<lambda>t. \<not> silentTask t) ts) = tally isRemovalTask ts" for ts
    by (induction ts) (auto simp: silentTask_def)
  show ?thesis
    unfolding s_def [symmetric] Let_def using ok t [of "cs_tasks s"] r [of "cs_tasks s"]
    by (auto simp: lifecycle_ok_def protocol_ok_def expectedPhase_def split: option.splits if_splits)
qed

end
