(* ===== verification/CsiTermination.thy ===== *)
theory CsiTermination
  imports CsiController
begin

text \<open>
  Every run of the instance controller is finite between requests, and an immediate kill ends the instance:
  \<open>taskWork\<close> bounds the resumptions an activation can still cause, \<open>grows\<close> says what an operation leaves
  of the state it found, and \<open>owed\<close> is the reason why the end of a killed instance is still to come.
\<close>

section \<open>The work of the event loop\<close>

text \<open>How many resumptions an activation and everything it starts can still take.\<close>

definition callerWork :: "kill_caller \<Rightarrow> nat" where
  "callerWork x = (case x of FromApi \<Rightarrow> 0 | FromStop \<Rightarrow> 1 | FromReadiness _ _ \<Rightarrow> 1)"

definition taskWork :: "csi_task \<Rightarrow> nat" where
  "taskWork t = (case t of
      AdapterRemoval _ \<Rightarrow> 1 | TransitionRemove _ _ _ \<Rightarrow> 2 | TransitionFinalize _ _ \<Rightarrow> 1 | CompletionCallback _ \<Rightarrow> 4
    | KillRace _ _ x \<Rightarrow> 8 + callerWork x | KillBounded _ _ x \<Rightarrow> 7 + callerWork x | KillRemoveOnly _ x \<Rightarrow> 1 + callerWork x
    | KillRemove _ _ x \<Rightarrow> 5 + callerWork x | KillTransition _ x \<Rightarrow> 1 + callerWork x | KillWatch \<Rightarrow> 6 | KillWatchRemove _ \<Rightarrow> 4
    | StopRace _ \<Rightarrow> 15 | StopBounded _ \<Rightarrow> 1 | StopDefer \<Rightarrow> 14 | StopKillTransition _ \<Rightarrow> 1
    | ReadinessTransition _ _ _ \<Rightarrow> 1 | ReadinessEnd _ _ \<Rightarrow> 1 | ReadinessFailed _ _ \<Rightarrow> 1
    | CompletedWait \<Rightarrow> 4 | CompletedRemove _ \<Rightarrow> 1
    | StoppedWait _ \<Rightarrow> 6 | StoppedResult _ \<Rightarrow> 4 | StoppedKill \<Rightarrow> 5 | StoppedKilled \<Rightarrow> 4
    | InstanceExit \<Rightarrow> 4 | InstanceCrashLog _ \<Rightarrow> 3 | InstanceCleanup _ \<Rightarrow> 2 | InstanceErrorCleanup _ \<Rightarrow> 1
    | StartItems \<Rightarrow> 7 | StartStorage \<Rightarrow> 6 | StartInitialized \<Rightarrow> 5 | MainWait \<Rightarrow> 4
    | PingSetRunner _ \<Rightarrow> 2 | PingPong \<Rightarrow> 1)"

definition csiWork :: "csi \<Rightarrow> nat" where
  "csiWork s = sum_list (map taskWork (cs_tasks s))"

fun isRequest :: "csi_event \<Rightarrow> bool" where
  "isRequest (Request _) = True"
| "isRequest (Fire _ _ _) = False"

text \<open>The resumptions of a run that found their promise settled.\<close>

fun resumptions :: "csi \<Rightarrow> csi_event list \<Rightarrow> nat" where
  "resumptions s [] = 0"
| "resumptions s (Request q # es) = resumptions (handleRequest q s) es"
| "resumptions s (Fire now i c # es) = (case fire now i c s of
      Some s' \<Rightarrow> Suc (resumptions s' es)
    | None \<Rightarrow> resumptions s es)"

lemma work_spawn [simp]: "csiWork (spawn t s) = csiWork s + taskWork t"
  by (simp add: csiWork_def spawn_def)

lemma work_output [simp]: "csiWork (csiOutput x s) = csiWork s"
  by (simp add: csiWork_def csiOutput_def)

lemma work_tasks: "cs_tasks s' = cs_tasks s \<Longrightarrow> csiWork s' = csiWork s"
  by (simp add: csiWork_def)

lemma work_fields [simp]:
  "csiWork (s\<lparr>cs_status := x1\<rparr>) = csiWork s" "csiWork (s\<lparr>cs_created := x2\<rparr>) = csiWork s"
  "csiWork (s\<lparr>cs_started := x3\<rparr>) = csiWork s" "csiWork (s\<lparr>cs_ended := x4\<rparr>) = csiWork s"
  "csiWork (s\<lparr>cs_terminated := x5\<rparr>) = csiWork s" "csiWork (s\<lparr>cs_executionMs := x6\<rparr>) = csiWork s"
  "csiWork (s\<lparr>cs_keepAlive := x7\<rparr>) = csiWork s" "csiWork (s\<lparr>cs_lifetimeDelay := x8\<rparr>) = csiWork s"
  "csiWork (s\<lparr>cs_finalizing := x9\<rparr>) = csiWork s" "csiWork (s\<lparr>cs_streams := x10\<rparr>) = csiWork s"
  "csiWork (s\<lparr>cs_handlers := x11\<rparr>) = csiWork s" "csiWork (s\<lparr>cs_connecting := x12\<rparr>) = csiWork s"
  "csiWork (s\<lparr>cs_provides := x13\<rparr>) = csiWork s" "csiWork (s\<lparr>cs_requires := x14\<rparr>) = csiWork s"
  "csiWork (s\<lparr>cs_inputTopic := x15\<rparr>) = csiWork s" "csiWork (s\<lparr>cs_outputTopic := x16\<rparr>) = csiWork s"
  "csiWork (s\<lparr>cs_instanceName := x17\<rparr>) = csiWork s" "csiWork (s\<lparr>cs_apiInput := x18\<rparr>) = csiWork s"
  "csiWork (s\<lparr>cs_inputHeadersSent := x19\<rparr>) = csiWork s" "csiWork (s\<lparr>cs_init := x20\<rparr>) = csiWork s"
  "csiWork (s\<lparr>cs_exit := x21\<rparr>) = csiWork s" "csiWork (s\<lparr>cs_result := x22\<rparr>) = csiWork s"
  "csiWork (s\<lparr>cs_readiness := x23\<rparr>) = csiWork s" "csiWork (s\<lparr>cs_expose := x24\<rparr>) = csiWork s"
  "csiWork (s\<lparr>cs_timers := x25\<rparr>) = csiWork s" "csiWork (s\<lparr>cs_waiter := x26\<rparr>) = csiWork s"
  "csiWork (s\<lparr>cs_readinessFailure := x27\<rparr>) = csiWork s" "csiWork (s\<lparr>cs_failuresDone := x28\<rparr>) = csiWork s"
  "csiWork (s\<lparr>cs_transitionsDone := x29\<rparr>) = csiWork s" "csiWork (s\<lparr>cs_callbacks := x30\<rparr>) = csiWork s"
  "csiWork (s\<lparr>cs_next := x31\<rparr>) = csiWork s" "csiWork (s\<lparr>cs_removal := x32\<rparr>) = csiWork s"
  "csiWork (s\<lparr>cs_removalCompleted := x33\<rparr>) = csiWork s" "csiWork (s\<lparr>cs_removalResults := x34\<rparr>) = csiWork s"
  "csiWork (s\<lparr>cs_transition := x35\<rparr>) = csiWork s" "csiWork (s\<lparr>cs_endEmitted := x36\<rparr>) = csiWork s"
  by (simp_all add: csiWork_def)

lemma work_silent [simp]:
  "csiWork (auditCurrentState s) = csiWork s" "csiWork (setStatus st s) = csiWork s"
  "csiWork (enterTerminal now code sto reason err s) = csiWork s" "csiWork (removalSettles r b s) = csiWork s"
  "csiWork (emitEnd code s) = csiWork s" "csiWork (transitionEnds n code s) = csiWork s"
  "csiWork (finishReadiness f w s) = csiWork s" "csiWork (readinessErrored s) = csiWork s" "csiWork (clearReadinessTimer s) = csiWork s"
  "csiWork (initReject ir s) = csiWork s" "csiWork (initResolve s) = csiWork s" "csiWork (instanceSettles c s) = csiWork s"
  "csiWork (instanceRejects e s) = csiWork s" "csiWork (handlePang p q s) = csiWork s" "csiWork (handleInstanceConnect b s) = csiWork s"
  by (simp_all add: auditCurrentState_def getWatchReadiness_def setStatus_def enterTerminal_def Let_def setExitInfo_def
      removalSettles_def emitEnd_def transitionEnds_def finishReadiness_def readinessErrored_def clearReadinessTimer_def
      initReject_def initResolve_def instanceSettles_def instanceRejects_def handlePang_def handleInstanceConnect_def
      split: option.split sum.split)

lemma work_take: "i < length (cs_tasks s) \<Longrightarrow> csiWork s = taskWork (cs_tasks s ! i) + csiWork (takeTask i s)"
  by (subst csiWork_def, subst id_take_nth_drop) (auto simp: csiWork_def takeTask_def)

lemma taskWork_simps [simp]:
  "taskWork (AdapterRemoval r) = 1" "taskWork (TransitionRemove n code w) = 2" "taskWork (TransitionFinalize n code) = 1"
  "taskWork (CompletionCallback n) = 4" "taskWork (KillRace i cw x) = 8 + callerWork x" "taskWork (KillBounded i cw x) = 7 + callerWork x"
  "taskWork (KillRemoveOnly w x) = 1 + callerWork x" "taskWork (KillRemove i w x) = 5 + callerWork x"
  "taskWork (KillTransition n x) = 1 + callerWork x" "taskWork KillWatch = 6" "taskWork (KillWatchRemove w) = 4"
  "taskWork (StopRace cw) = 15" "taskWork (StopBounded cw) = 1" "taskWork StopDefer = 14" "taskWork (StopKillTransition n) = 1"
  "taskWork (ReadinessTransition f n wo) = 1" "taskWork (ReadinessEnd f wo) = 1" "taskWork (ReadinessFailed f n) = 1"
  "taskWork CompletedWait = 4" "taskWork (CompletedRemove w) = 1" "taskWork (StoppedWait err) = 6" "taskWork (StoppedResult err) = 4"
  "taskWork StoppedKill = 5" "taskWork StoppedKilled = 4" "taskWork InstanceExit = 4" "taskWork (InstanceCrashLog c) = 3"
  "taskWork (InstanceCleanup c) = 2" "taskWork (InstanceErrorCleanup c) = 1" "taskWork StartItems = 7" "taskWork StartStorage = 6"
  "taskWork StartInitialized = 5" "taskWork MainWait = 4" "taskWork (PingSetRunner m) = 2" "taskWork PingPong = 1"
  by (simp_all add: taskWork_def)

lemma callerWork_bound: "callerWork x \<le> 1"
  by (simp add: callerWork_def split: kill_caller.split)

named_theorems work_bounds \<open>how much work an operation adds\<close>

lemma work_remove [work_bounds]: "csiWork (fst (removeInstance s)) \<le> csiWork s + 1"
  by (simp add: removeInstance_def split: option.split)

lemma work_transition [work_bounds]: "csiWork (fst (transitionToTerminal now code st reason err s)) \<le> csiWork s + 3"
  using work_remove [of "enterTerminal now code st reason err s"]
  by (simp add: transitionToTerminal_def case_prod_beta Let_def split: option.split)

lemma work_await [work_bounds]: "csiWork (fst (awaitTerminalCompletion s)) \<le> csiWork s + 4"
  by (simp add: awaitTerminalCompletion_def split: option.split)

lemma work_killReturn [work_bounds]: "csiWork (killReturn caller b s) \<le> csiWork s + callerWork caller"
  by (simp add: killReturn_def afterReadinessKill_def callerWork_def split: kill_caller.split option.split)

lemma work_kill [work_bounds]: "csiWork (kill imm caller s) \<le> csiWork s + 12 + callerWork caller"
proof -
  define s' where "s' = (if imm then s\<lparr>cs_lifetimeDelay := 0\<rparr> else s)"
  have w: "csiWork s' = csiWork s" by (simp add: s'_def)
  show ?thesis
    using work_remove [of s'] work_killReturn [of caller True s'] work_await [of "setStatus KILLING s'"]
    unfolding kill_def s'_def [symmetric] by (simp add: case_prod_beta w)
qed

lemma work_killFailed [work_bounds]: "csiWork (killFailed imm err caller s) \<le> csiWork s + 6 + callerWork caller"
  using work_remove [of s] by (auto simp: killFailed_def case_prod_beta intro: order_trans [OF work_killReturn])

lemma work_stop [work_bounds]: "csiWork (stop n k s) \<le> csiWork s + 19"
  using work_await [of "setStatus STOPPING s"] by (simp add: stop_def case_prod_beta)

lemma work_stopDelayed [work_bounds]: "csiWork (stopDelayed s) \<le> csiWork s + 13"
  using work_kill [of False FromStop s] by (simp add: stopDelayed_def callerWork_def)

lemma work_failReadiness [work_bounds]: "csiWork (failReadiness w s) \<le> csiWork s + 13"
  by (auto simp: failReadiness_def Let_def callerWork_def split: option.split
      intro: order_trans [OF work_kill])

lemma work_instance [work_bounds]:
  "csiWork (instanceError e s) = csiWork s + 1" "csiWork (instanceExited x s) \<le> csiWork s + 3"
  by (simp_all add: instanceError_def instanceExited_def split: sum.split)

lemma work_initialized: "initialized now s = Some s' \<Longrightarrow> csiWork s' \<le> csiWork s + 4"
proof -
  have "csiWork (fst (transitionToTerminal now code st reason err s)) \<le> csiWork s + 4" for code st reason err
    using work_transition [of now code st reason err s] by simp
  then show "initialized now s = Some s' \<Longrightarrow> csiWork s' \<le> csiWork s + 4"
    by (auto simp: initialized_def split: init_state.splits)
qed

lemma work_endings [work_bounds]:
  "csiWork (mainEnds now r s) \<le> csiWork s + 3" "csiWork (killWatchEnds now r s) \<le> csiWork s + 3"
  "csiWork (deadlineMissed now s) \<le> csiWork s + 3" "csiWork (stoppedResult now err r s) \<le> csiWork s + 3"
  "csiWork (completionCallback now k r s) \<le> csiWork s + 3"
  by (simp_all add: mainEnds_def killWatchEnds_def deadlineMissed_def stoppedResult_def completionCallback_def work_transition case_prod_beta)

lemma work_transitionRemoved [work_bounds]: "csiWork (transitionRemoved n code b s) \<le> csiWork s + 1"
  by (simp add: transitionRemoved_def Let_def)

lemma work_stopAcknowledged [work_bounds]: "csiWork (stopAcknowledged s) \<le> csiWork s + 14"
  by (simp add: stopAcknowledged_def Let_def)

lemma work_stoppedUnresponsive [work_bounds]: "csiWork (stoppedUnresponsive s) \<le> csiWork s + 5"
  by (simp add: stoppedUnresponsive_def)

lemma work_handshake [work_bounds]: "csiWork (pingHandshake m s) \<le> csiWork s + 1"
  by (simp add: pingHandshake_def split: option.split)

lemma work_killSent [work_bounds]: "csiWork (killSent caller s) \<le> csiWork s + 6 + callerWork caller"
  using work_killReturn [of caller True "spawn KillWatch s"] by (simp add: killSent_def)

lemma work_killRemove:
  "csiWork (case transitionToTerminal now code st reason err s of (s1, n) \<Rightarrow> spawn (KillTransition n caller) s1) \<le> csiWork s + 4 + callerWork caller"
  using work_transition [of now code st reason err s] by (simp add: case_prod_beta)

lemma work_removeThen: "csiWork (case removeInstance s of (s1, w) \<Rightarrow> spawn (f w) s1) \<le> csiWork s + 1 + taskWork (f (snd (removeInstance s)))"
  using work_remove [of s] by (simp add: case_prod_beta)

lemma work_resume:
  assumes "resume now c t s = Some s'"
  shows "csiWork s' < csiWork s + taskWork t"
proof -
  note below = order.strict_trans1 [OF work_killReturn] order.strict_trans1 [OF work_killSent] order.strict_trans1 [OF work_killFailed]
    order.strict_trans1 [OF work_killRemove] order.strict_trans1 [OF work_removeThen] order.strict_trans1 [OF work_stopDelayed]
    order.strict_trans1 [OF work_stopAcknowledged] order.strict_trans1 [OF work_stoppedUnresponsive] order.strict_trans1 [OF work_handshake]
    order.strict_trans1 [OF work_transitionRemoved] order.strict_trans1 [OF work_transition] work_endings [THEN order.strict_trans1]
    order.strict_trans1 [OF work_instance(2)] order.strict_trans1 [OF work_initialized]
  show ?thesis
    using assms
    by (cases t) (auto simp: resume_simps work_instance(1) intro: below split: if_splits sum.splits csi_choice.splits, (metis sum.exhaust)+)
qed

lemma work_fire: "fire now i c s = Some s' \<Longrightarrow> csiWork s' < csiWork s"
  using work_take [of i s] work_resume [of now c "cs_tasks s ! i" "takeTask i s" s'] by (simp add: fire_def split: if_splits)

lemma work_request: "csiWork (handleRequest q s) \<le> csiWork s + 19"
proof -
  have k: "csiWork (kill imm FromApi s) \<le> csiWork s + 19" for imm
    using work_kill [of imm FromApi s] by (simp add: callerWork_def)
  have t: "csiWork (readinessTimeout i s) \<le> csiWork s + 19" for i
    using work_failReadiness [of "Some i" "readinessErrored (s\<lparr>cs_timers := removeAll i (cs_timers s)\<rparr>)"]
    by (simp add: readinessTimeout_def)
  have m: "csiWork (handleReadinessMessage m s) \<le> csiWork s + 19" for m
    using work_failReadiness [of "cs_waiter (clearReadinessTimer (readinessErrored s))" "clearReadinessTimer (readinessErrored s)"]
    by (simp add: handleReadinessMessage_def Let_def split: option.split)
  have p: "csiWork (handlePing m s) \<le> csiWork s + 19" for m
    by (auto simp: handlePing_def Let_def split: option.split intro: order_trans [OF work_handshake])
  show ?thesis
    using k t m p work_stop [of _ _ s]
    by (simp add: handleRequest_def onMessage_def waitForReady_def Let_def handleKeepAliveCommand_def handleSequenceCompleted_def
        handleSequenceStopped_def split: csi_request.split readiness_state.split option.split)
qed

lemma resumptions_bound: "resumptions s es \<le> csiWork s + 19 * length (filter isRequest es)"
proof (induction s es rule: resumptions.induct)
  case (2 s q es)
  then show ?case using work_request [of q s] by simp
next
  case (3 s now i c es)
  then show ?case using work_fire [of now i c s] by (fastforce split: option.split)
qed simp

lemma work_start: "csiWork (startController entry hasSetRunner delay name inTopic outTopic) = 11"
  by (simp add: startController_def) (simp add: csiWork_def)

text \<open>C8: Between requests the instance controller always comes to rest: however the event loop orders its
  activations and however promises and timers settle, a run resumes at most 11 activations for the start
  of the instance plus 19 for each request, message or signal it receives.\<close>

theorem csi_runs_terminate:
  "resumptions (startController entry hasSetRunner delay name inTopic outTopic) es \<le> 11 + 19 * length (filter isRequest es)"
  using resumptions_bound [of "startController entry hasSetRunner delay name inTopic outTopic" es] work_start by simp

section \<open>What an operation leaves of the state it found\<close>

text \<open>The removal an activation waits for.\<close>

definition waitOf :: "csi_task \<Rightarrow> removal_wait option" where
  "waitOf t = (case t of TransitionRemove _ _ w \<Rightarrow> Some w | KillRemoveOnly w _ \<Rightarrow> Some w | KillRemove _ w _ \<Rightarrow> Some w
     | KillWatchRemove w \<Rightarrow> Some w | CompletedRemove w \<Rightarrow> Some w | _ \<Rightarrow> None)"

text \<open>A call of the adapter is known while it runs and after it has settled.\<close>

definition callKnown :: "csi \<Rightarrow> nat \<Rightarrow> bool" where
  "callKnown s r \<longleftrightarrow> AdapterRemoval r \<in> set (cs_tasks s) \<or> r \<in> fst ` set (cs_removalResults s)"

definition waitKnown :: "csi \<Rightarrow> removal_wait \<Rightarrow> bool" where
  "waitKnown s w = (case w of RemovalDone \<Rightarrow> True | RemovalCall r \<Rightarrow> callKnown s r)"

definition removalKnown :: "csi \<Rightarrow> bool" where
  "removalKnown s = (case cs_removal s of Some r \<Rightarrow> callKnown s r | None \<Rightarrow> True)"

definition taskKnown :: "csi \<Rightarrow> csi_task \<Rightarrow> bool" where
  "taskKnown s t = (case waitOf t of Some w \<Rightarrow> waitKnown s w | None \<Rightarrow> True)"

definition waits_ok :: "csi \<Rightarrow> bool" where
  "waits_ok s \<longleftrightarrow> removalKnown s \<and> list_all (taskKnown s) (cs_tasks s)"

definition grows :: "csi \<Rightarrow> csi \<Rightarrow> bool" where
  "grows s s' \<longleftrightarrow> prefix (cs_tasks s) (cs_tasks s') \<and> prefix (cs_log s) (cs_log s') \<and> (cs_endEmitted s' = cs_endEmitted s) \<and>
    cs_removalResults s' = cs_removalResults s \<and> cs_transitionsDone s' = cs_transitionsDone s \<and> (waits_ok s \<longrightarrow> waits_ok s')"

lemma waitOf_simps [simp]:
  "waitOf (AdapterRemoval r) = None" "waitOf (TransitionRemove n code w) = Some w" "waitOf (TransitionFinalize n code) = None"
  "waitOf (CompletionCallback n) = None" "waitOf (KillRace i cw x) = None" "waitOf (KillBounded i cw x) = None"
  "waitOf (KillRemoveOnly w x) = Some w" "waitOf (KillRemove i w x) = Some w" "waitOf (KillTransition n x) = None"
  "waitOf KillWatch = None" "waitOf (KillWatchRemove w) = Some w" "waitOf (StopRace cw) = None" "waitOf (StopBounded cw) = None"
  "waitOf StopDefer = None" "waitOf (StopKillTransition n) = None" "waitOf (ReadinessTransition f n wo) = None"
  "waitOf (ReadinessEnd f wo) = None" "waitOf (ReadinessFailed f n) = None" "waitOf CompletedWait = None"
  "waitOf (CompletedRemove w) = Some w" "waitOf (StoppedWait err) = None" "waitOf (StoppedResult err) = None"
  "waitOf StoppedKill = None" "waitOf StoppedKilled = None" "waitOf InstanceExit = None" "waitOf (InstanceCrashLog c) = None"
  "waitOf (InstanceCleanup c) = None" "waitOf (InstanceErrorCleanup c) = None" "waitOf StartItems = None" "waitOf StartStorage = None"
  "waitOf StartInitialized = None" "waitOf MainWait = None" "waitOf (PingSetRunner m) = None" "waitOf PingPong = None"
  by (simp_all add: waitOf_def)

lemma callKnown_mono: "set (cs_tasks s) \<subseteq> set (cs_tasks s') \<Longrightarrow> cs_removalResults s' = cs_removalResults s \<Longrightarrow> callKnown s r \<Longrightarrow> callKnown s' r"
  by (auto simp: callKnown_def)

lemma grows_refl [simp, intro]: "grows s s"
  by (simp add: grows_def)

lemma waits_cong:
  "cs_tasks s' = cs_tasks s \<Longrightarrow> cs_removalResults s' = cs_removalResults s \<Longrightarrow> cs_removal s' = cs_removal s \<Longrightarrow> waits_ok s' = waits_ok s"
  by (simp add: waits_ok_def removalKnown_def taskKnown_def [abs_def] waitKnown_def callKnown_def cong: option.case_cong removal_wait.case_cong)

lemma grows_cong:
  assumes "cs_tasks t' = cs_tasks t" "cs_log t' = cs_log t" "cs_endEmitted t' = cs_endEmitted t" "cs_removalResults t' = cs_removalResults t"
    "cs_transitionsDone t' = cs_transitionsDone t" "cs_removal t' = cs_removal t"
  shows "grows s t' = grows s t"
  using assms waits_cong [of t' t] by (simp add: grows_def)

lemma grows_fields [simp]:
  "grows t (s\<lparr>cs_status := x1\<rparr>) = grows t s" "grows t (s\<lparr>cs_created := x2\<rparr>) = grows t s"
  "grows t (s\<lparr>cs_started := x3\<rparr>) = grows t s" "grows t (s\<lparr>cs_ended := x4\<rparr>) = grows t s"
  "grows t (s\<lparr>cs_terminated := x5\<rparr>) = grows t s" "grows t (s\<lparr>cs_executionMs := x6\<rparr>) = grows t s"
  "grows t (s\<lparr>cs_keepAlive := x7\<rparr>) = grows t s" "grows t (s\<lparr>cs_lifetimeDelay := x8\<rparr>) = grows t s"
  "grows t (s\<lparr>cs_finalizing := x9\<rparr>) = grows t s" "grows t (s\<lparr>cs_streams := x10\<rparr>) = grows t s"
  "grows t (s\<lparr>cs_handlers := x11\<rparr>) = grows t s" "grows t (s\<lparr>cs_connecting := x12\<rparr>) = grows t s"
  "grows t (s\<lparr>cs_provides := x13\<rparr>) = grows t s" "grows t (s\<lparr>cs_requires := x14\<rparr>) = grows t s"
  "grows t (s\<lparr>cs_inputTopic := x15\<rparr>) = grows t s" "grows t (s\<lparr>cs_outputTopic := x16\<rparr>) = grows t s"
  "grows t (s\<lparr>cs_instanceName := x17\<rparr>) = grows t s" "grows t (s\<lparr>cs_apiInput := x18\<rparr>) = grows t s"
  "grows t (s\<lparr>cs_inputHeadersSent := x19\<rparr>) = grows t s" "grows t (s\<lparr>cs_init := x20\<rparr>) = grows t s"
  "grows t (s\<lparr>cs_exit := x21\<rparr>) = grows t s" "grows t (s\<lparr>cs_result := x22\<rparr>) = grows t s"
  "grows t (s\<lparr>cs_readiness := x23\<rparr>) = grows t s" "grows t (s\<lparr>cs_expose := x24\<rparr>) = grows t s"
  "grows t (s\<lparr>cs_timers := x25\<rparr>) = grows t s" "grows t (s\<lparr>cs_waiter := x26\<rparr>) = grows t s"
  "grows t (s\<lparr>cs_readinessFailure := x27\<rparr>) = grows t s" "grows t (s\<lparr>cs_failuresDone := x28\<rparr>) = grows t s"
  "grows t (s\<lparr>cs_callbacks := x30\<rparr>) = grows t s" "grows t (s\<lparr>cs_next := x31\<rparr>) = grows t s"
  "grows t (s\<lparr>cs_removalCompleted := x33\<rparr>) = grows t s" "grows t (s\<lparr>cs_transition := x35\<rparr>) = grows t s"
  by (rule grows_cong, simp_all)+

lemma grows_output [simp]: "grows t s \<Longrightarrow> grows t (csiOutput x s)"
  using waits_cong [of "csiOutput x s" s] by (auto simp: grows_def csiOutput_def)

lemma taskKnown_spawn: "taskKnown s t \<Longrightarrow> taskKnown (spawn k s) t"
  by (auto simp: taskKnown_def waitKnown_def callKnown_def spawn_def split: option.split removal_wait.split)

lemma waits_spawn: "waits_ok s \<Longrightarrow> taskKnown s k \<Longrightarrow> waits_ok (spawn k s)"
proof -
  assume ok: "waits_ok s" and k: "taskKnown s k"
  have "removalKnown (spawn k s)"
    using ok by (auto simp: waits_ok_def removalKnown_def callKnown_def spawn_def split: option.splits)
  moreover have "list_all (taskKnown (spawn k s)) (cs_tasks s @ [k])"
    using ok k taskKnown_spawn [of s _ k] by (simp add: waits_ok_def list_all_iff)
  ultimately show ?thesis by (simp add: waits_ok_def spawn_def [of k s] spawn_def)
qed

lemma grows_spawn [simp]: "grows t s \<Longrightarrow> waitOf k = None \<Longrightarrow> grows t (spawn k s)"
  using waits_spawn [of s k] by (auto simp: grows_def spawn_def taskKnown_def)

lemma remove_waits: "waits_ok s \<Longrightarrow> waits_ok (fst (removeInstance s)) \<and> waitKnown (fst (removeInstance s)) (snd (removeInstance s))"
proof (cases "cs_removalCompleted s \<or> cs_removal s \<noteq> None")
  case True
  then show "waits_ok s \<Longrightarrow> ?thesis"
    by (auto simp: removeInstance_def waits_ok_def removalKnown_def waitKnown_def split: option.splits)
next
  case False
  assume ok: "waits_ok s"
  let ?s = "s\<lparr>cs_removal := Some (cs_next s), cs_next := Suc (cs_next s), cs_log := cs_log s @ [AdapterRemove],
    cs_tasks := cs_tasks s @ [AdapterRemoval (cs_next s)]\<rparr>"
  have "taskKnown ?s t" if "taskKnown s t" for t
    using that by (auto simp: taskKnown_def waitKnown_def callKnown_def split: option.splits removal_wait.splits)
  then have "waits_ok ?s"
    using ok by (auto simp: waits_ok_def removalKnown_def callKnown_def list_all_iff taskKnown_def)
  moreover have "removeInstance s = (?s, RemovalCall (cs_next s))"
    using False by (simp add: removeInstance_def spawn_def csiOutput_def)
  ultimately show ?thesis by (simp add: waitKnown_def callKnown_def)
qed

lemma grows_remove [simp]: "grows t s \<Longrightarrow> grows t (fst (removeInstance s))"
  using remove_waits [of s] by (auto simp: grows_def removeInstance_def spawn_def csiOutput_def split: option.splits)

lemma grows_spawn_wait:
  assumes "grows t s" and "waitOf k = Some (snd (removeInstance s))"
  shows "grows t (spawn k (fst (removeInstance s)))"
  using assms remove_waits [of s] waits_spawn [of "fst (removeInstance s)" k] grows_remove [OF assms(1)]
  by (auto simp: grows_def spawn_def taskKnown_def)

lemma grows_silent [simp]:
  "grows t s \<Longrightarrow> grows t (auditCurrentState s)" "grows t s \<Longrightarrow> grows t (setStatus st s)"
  "grows t s \<Longrightarrow> grows t (enterTerminal now code sto reason err s)" "grows t s \<Longrightarrow> grows t (finishReadiness f w s)"
  "grows t s \<Longrightarrow> grows t (readinessErrored s)" "grows t s \<Longrightarrow> grows t (clearReadinessTimer s)"
  "grows t s \<Longrightarrow> grows t (initReject ir s)" "grows t s \<Longrightarrow> grows t (initResolve s)" "grows t s \<Longrightarrow> grows t (instanceSettles c s)"
  "grows t s \<Longrightarrow> grows t (instanceRejects e s)" "grows t s \<Longrightarrow> grows t (instanceError e s)" "grows t s \<Longrightarrow> grows t (instanceExited x s)"
  "grows t s \<Longrightarrow> grows t (handlePang p q s)" "grows t s \<Longrightarrow> grows t (handleInstanceConnect b s)"
  "grows t s \<Longrightarrow> grows t (fst (awaitTerminalCompletion s))" "grows t s \<Longrightarrow> grows t (waitForReady s)"
  "grows t s \<Longrightarrow> grows t (killReturn caller b s)" "grows t s \<Longrightarrow> grows t (killSent caller s)" "grows t s \<Longrightarrow> grows t (stop n k s)"
  "grows t s \<Longrightarrow> grows t (stopAcknowledged s)" "grows t s \<Longrightarrow> grows t (stoppedUnresponsive s)"
  "grows t s \<Longrightarrow> grows t (pingHandshake m s)" "grows t s \<Longrightarrow> grows t (handlePing m s)"
  by (simp_all add: auditCurrentState_def getWatchReadiness_def setStatus_def enterTerminal_def Let_def setExitInfo_def
      finishReadiness_def readinessErrored_def clearReadinessTimer_def initReject_def initResolve_def instanceSettles_def instanceRejects_def
      instanceError_def instanceExited_def handlePang_def handleInstanceConnect_def awaitTerminalCompletion_def waitForReady_def
      killReturn_def afterReadinessKill_def killSent_def stop_def case_prod_beta stopAcknowledged_def stoppedUnresponsive_def
      pingHandshake_def handlePing_def split: option.split sum.split kill_caller.split readiness_state.split)

lemma grows_transition [simp]:
  assumes "grows t s"
  shows "grows t (fst (transitionToTerminal now code st reason err s))"
proof (cases "cs_transition s")
  case None
  let ?e = "enterTerminal now code st reason err s" let ?r = "removeInstance ?e" let ?n = "cs_next (fst ?r)"
  let ?k = "TransitionRemove ?n code (snd ?r)"
  have "grows t (spawn ?k (fst ?r))" using assms by (intro grows_spawn_wait) simp_all
  moreover have "spawn ?k ((fst ?r)\<lparr>cs_transition := Some ?n, cs_next := Suc ?n\<rparr>) =
      (spawn ?k (fst ?r))\<lparr>cs_transition := Some ?n, cs_next := Suc ?n\<rparr>"
    by (simp add: spawn_def)
  ultimately show ?thesis by (simp add: transitionToTerminal_def None case_prod_beta Let_def)
qed (use assms in \<open>simp add: transitionToTerminal_def\<close>)

lemma grows_kill [simp]: "grows t s \<Longrightarrow> grows t (kill imm caller s)"
  by (simp add: kill_def Let_def case_prod_beta grows_spawn_wait)

lemma grows_killFailed [simp]: "grows t s \<Longrightarrow> grows t (killFailed imm err caller s)"
  by (simp add: killFailed_def case_prod_beta grows_spawn_wait)

lemma grows_more [simp]:
  "grows t s \<Longrightarrow> grows t (stopDelayed s)" "grows t s \<Longrightarrow> grows t (failReadiness w s)"
  "grows t s \<Longrightarrow> grows t (readinessTimeout i s)" "grows t s \<Longrightarrow> grows t (handleReadinessMessage m s)"
  "grows t s \<Longrightarrow> grows t (mainEnds now r s)" "grows t s \<Longrightarrow> grows t (killWatchEnds now r s)" "grows t s \<Longrightarrow> grows t (deadlineMissed now s)"
  "grows t s \<Longrightarrow> grows t (stoppedResult now err r s)" "grows t s \<Longrightarrow> grows t (completionCallback now k r s)"
  by (simp_all add: stopDelayed_def failReadiness_def readinessTimeout_def handleReadinessMessage_def Let_def mainEnds_def
      killWatchEnds_def deadlineMissed_def stoppedResult_def completionCallback_def case_prod_beta split: option.split)

lemma grows_initialized: "grows t s \<Longrightarrow> initialized now s = Some s' \<Longrightarrow> grows t s'"
  by (auto simp: initialized_def split: init_state.splits)

lemma grows_request [simp]: "grows s (handleRequest q s)"
  by (simp add: handleRequest_def onMessage_def handleKeepAliveCommand_def handleSequenceCompleted_def handleSequenceStopped_def
      split: csi_request.split)

text \<open>Every activation outside the protocol only adds to the state.\<close>

lemma grows_resume: "resume now c t s = Some s' \<Longrightarrow> silentTask t \<Longrightarrow> grows s s'"
  by (cases t) (auto simp: resume_simps case_prod_beta grows_spawn_wait
      dest: grows_initialized [OF grows_refl] split: if_splits sum.splits csi_choice.splits, (metis sum.exhaust)+)

section \<open>An immediate kill ends the instance\<close>

text \<open>The end was announced, or the adapter has refused a removal.\<close>

definition endSettled :: "csi \<Rightarrow> bool" where
  "endSettled s \<longleftrightarrow> cs_endEmitted s \<or> RemovalFailed \<in> set (cs_log s)"

text \<open>Activations that lead to the end.\<close>

definition owing :: "csi_task \<Rightarrow> bool" where
  "owing t = (case t of KillRace imm _ _ \<Rightarrow> imm | KillBounded imm _ _ \<Rightarrow> imm | KillRemove _ _ _ \<Rightarrow> True | KillWatch \<Rightarrow> True
     | KillWatchRemove _ \<Rightarrow> True | TransitionRemove _ _ _ \<Rightarrow> True | TransitionFinalize _ _ \<Rightarrow> True | _ \<Rightarrow> False)"

definition owed :: "csi \<Rightarrow> bool" where
  "owed s \<longleftrightarrow> endSettled s \<or> list_ex owing (cs_tasks s)"

text \<open>A refused removal was reported; a transition settles by the end or by a refused removal.\<close>

definition outcome_ok :: "csi \<Rightarrow> bool" where
  "outcome_ok s \<longleftrightarrow> (\<forall>r. (r, False) \<in> set (cs_removalResults s) \<longrightarrow> RemovalFailed \<in> set (cs_log s)) \<and>
    (cs_transitionsDone s \<noteq> [] \<longrightarrow> endSettled s)"

definition live_ok :: "csi \<Rightarrow> bool" where
  "live_ok s \<longleftrightarrow> lifecycle_ok [] s \<and> waits_ok s \<and> outcome_ok s"

lemma owing_simps [simp]:
  "owing (KillRace i cw x) = i" "owing (KillBounded i cw x) = i" "owing (KillRemove e w x)" "owing KillWatch"
  "owing (KillWatchRemove w)" "owing (TransitionRemove n code w)" "owing (TransitionFinalize n code)"
  by (simp_all add: owing_def)

lemma endSettled_grows: "grows s s' \<Longrightarrow> endSettled s \<Longrightarrow> endSettled s'"
  by (auto simp: grows_def endSettled_def dest: set_mono_prefix)

lemma owed_grows: "grows s s' \<Longrightarrow> owed s \<Longrightarrow> owed s'"
  using endSettled_grows [of s s'] set_mono_prefix [of "cs_tasks s" "cs_tasks s'"]
  by (auto simp: owed_def grows_def list_ex_iff)

lemma outcome_grows: "grows s s' \<Longrightarrow> outcome_ok s \<Longrightarrow> outcome_ok s'"
  using endSettled_grows [of s s'] by (auto simp: outcome_ok_def grows_def dest: set_mono_prefix)

lemma waits_grows: "grows s s' \<Longrightarrow> waits_ok s \<Longrightarrow> waits_ok s'"
  by (simp add: grows_def)

lemma transition_owed: "lifecycle_ok [] s \<Longrightarrow> cs_transition s \<noteq> None \<Longrightarrow> owed s"
proof -
  assume ok: "lifecycle_ok [] s" and t: "cs_transition s \<noteq> None"
  show "owed s"
  proof (cases "cs_endEmitted s")
    case False
    then have "tally isTransitionTask (filter (\<lambda>t. \<not> silentTask t) (cs_tasks s)) = 1"
      using ok t by (simp add: lifecycle_ok_def protocol_ok_def)
    then have "filter isTransitionTask (filter (\<lambda>t. \<not> silentTask t) (cs_tasks s)) \<noteq> []" by (auto simp: tally_def)
    then obtain x where "x \<in> set (cs_tasks s)" "isTransitionTask x" by (auto simp: filter_empty_conv)
    moreover have "owing x" using \<open>isTransitionTask x\<close> by (cases x) (simp_all add: isTransitionTask_def)
    ultimately show ?thesis by (auto simp: owed_def list_ex_iff)
  qed (simp add: owed_def endSettled_def)
qed

lemma transition_current: "cs_transition (fst (transitionToTerminal now code st reason err s)) \<noteq> None"
  by (auto simp: transitionToTerminal_def case_prod_beta Let_def spawn_def split: option.split)

lemma owed_transition: "lifecycle_ok [] s \<Longrightarrow> owed (fst (transitionToTerminal now code st reason err s))"
  by (intro transition_owed ok_transition transition_current)

lemma owed_endings: "lifecycle_ok [] s \<Longrightarrow> owed (killWatchEnds now r s)" "lifecycle_ok [] s \<Longrightarrow> owed (deadlineMissed now s)"
  by (simp_all add: killWatchEnds_def deadlineMissed_def owed_transition)

lemma owed_spawn [simp]: "owing k \<Longrightarrow> owed (spawn k s)"
  by (simp add: owed_def spawn_def)

lemma owed_killSent: "owed (killSent caller s)"
  by (rule owed_grows [of "spawn KillWatch s"]) (simp_all add: killSent_def)

lemma owed_killFailed: "owed (killFailed True err caller s)"
  by (simp add: killFailed_def case_prod_beta)

lemma done_settled: "outcome_ok s \<Longrightarrow> completionDone s w \<Longrightarrow> endSettled s"
  by (cases w) (auto simp: outcome_ok_def completionDone_def split: option.splits)

lemma result_settled:
  assumes "outcome_ok s" and "removalResult s w = Some False"
  shows "endSettled s"
proof (cases w)
  case (RemovalCall r)
  then have "(r, False) \<in> set (cs_removalResults s)" using assms(2) by (simp add: removalResult_def map_of_SomeD)
  then show ?thesis using assms(1) by (auto simp: outcome_ok_def endSettled_def)
qed (use assms in \<open>simp add: removalResult_def\<close>)

lemma settled_ends [simp]: "endSettled (transitionEnds n code s)"
  by (simp add: transitionEnds_def emitEnd_def endSettled_def csiOutput_def)

lemma owed_removed: "b \<Longrightarrow> owed (transitionRemoved n code b s)"
  by (simp add: transitionRemoved_def Let_def owed_def [of "transitionEnds _ _ _"])

lemma settled_refused: "endSettled s \<Longrightarrow> owed (transitionRemoved n code b s)"
  by (simp add: transitionRemoved_def Let_def owed_def [of "transitionEnds _ _ _"]) (simp add: owed_def endSettled_def)

lemma resume_owing:
  assumes t: "owing t" and ok: "lifecycle_ok [t] s" "outcome_ok s" and r: "resume now c t s = Some s'"
  shows "owed s'"
proof (cases t)
  case (TransitionRemove n code w)
  then obtain b where b: "removalResult s w = Some b" and s': "s' = transitionRemoved n code b s"
    using r by (auto simp: resume_simps split: if_splits)
  show ?thesis
    using result_settled [OF ok(2), of w] b unfolding s' by (cases b) (simp_all add: owed_removed settled_refused)
next
  case (TransitionFinalize n code)
  then show ?thesis using r by (auto simp: resume_simps owed_def split: if_splits)
next
  case (KillBounded imm w caller)
  have "owed (killReturn caller True s)" if "completionDone s w"
    using done_settled [OF ok(2) that] owed_grows [of s "killReturn caller True s"] by (simp add: owed_def [of s])
  then show ?thesis using KillBounded r t owed_killFailed by (auto simp: resume_simps split: if_splits)
next
  case (KillRemove err w caller)
  have f: "owed (killReturn caller False s)" if "removalResult s w = Some False"
    using result_settled [OF ok(2) that] owed_grows [of s "killReturn caller False s"] by (simp add: owed_def [of s])
  have g: "owed (spawn (KillTransition n caller) (fst (transitionToTerminal now code st reason err s)))" for n code st reason
    using owed_grows [OF _ owed_transition [of s now code st reason err]] ok(1) KillRemove by simp
  obtain b where "removalResult s w = Some b" using r KillRemove by (auto simp: resume_simps split: if_splits)
  then show ?thesis using KillRemove r f g by (cases b) (auto simp: resume_simps case_prod_beta split: if_splits)
next
  case (KillRace imm w caller)
  then show ?thesis using r t owed_killSent owed_killFailed by (auto simp: resume_simps split: if_splits csi_choice.splits)
next
  case KillWatch
  then show ?thesis using r ok(1) owed_endings by (auto simp: resume_simps case_prod_beta split: if_splits)
next
  case (KillWatchRemove w)
  then show ?thesis using r ok(1) owed_endings by (auto simp: resume_simps split: if_splits)
qed (use t in \<open>simp_all add: owing_def\<close>)

subsection \<open>Every step keeps what the argument needs\<close>

lemma waits_of:
  assumes ok: "waits_ok s" and sub: "set (cs_tasks s') \<subseteq> set ts \<union> set (cs_tasks s)" and new: "\<And>t. t \<in> set ts \<Longrightarrow> waitOf t = None"
    and rem: "cs_removal s' = cs_removal s \<or> cs_removal s' = None" and known: "\<And>r. callKnown s r \<Longrightarrow> callKnown s' r"
  shows "waits_ok s'"
proof -
  have w: "waitKnown s' w" if "waitKnown s w" for w
    using that known by (cases w) (simp_all add: waitKnown_def)
  have "taskKnown s' t" if t: "t \<in> set (cs_tasks s')" for t
  proof (cases "t \<in> set ts")
    case True
    then show ?thesis using new by (simp add: taskKnown_def)
  next
    case False
    then have "taskKnown s t" using t sub ok by (auto simp: waits_ok_def list_all_iff)
    then show ?thesis using w by (cases "waitOf t") (simp_all add: taskKnown_def)
  qed
  moreover have "removalKnown s'"
    using ok rem known by (auto simp: waits_ok_def removalKnown_def split: option.splits)
  ultimately show ?thesis by (simp add: waits_ok_def list_all_iff)
qed

lemma waits_take: "waits_ok s \<Longrightarrow> i < length (cs_tasks s) \<Longrightarrow> \<not> isRemovalTask (cs_tasks s ! i) \<Longrightarrow> waits_ok (takeTask i s)"
proof (rule waits_of [where ts = "[]"])
  fix r assume i: "i < length (cs_tasks s)" and t: "\<not> isRemovalTask (cs_tasks s ! i)" and k: "callKnown s r"
  have "set (cs_tasks s) = insert (cs_tasks s ! i) (set (take i (cs_tasks s) @ drop (Suc i) (cs_tasks s)))"
    by (subst id_take_nth_drop [OF i]) auto
  then show "callKnown (takeTask i s) r"
    using k t by (cases "cs_tasks s ! i = AdapterRemoval r") (auto simp: callKnown_def takeTask_def)
qed (auto simp: takeTask_def dest: in_set_takeD in_set_dropD)

lemma take_fields [simp]:
  "cs_log (takeTask i s) = cs_log s" "cs_endEmitted (takeTask i s) = cs_endEmitted s" "outcome_ok (takeTask i s) = outcome_ok s"
  "endSettled (takeTask i s) = endSettled s"
  by (simp_all add: takeTask_def outcome_ok_def endSettled_def)

lemma silent_cases:
  "silentTask t \<or> (\<exists>r. t = AdapterRemoval r) \<or> (\<exists>n code w. t = TransitionRemove n code w) \<or> (\<exists>n code. t = TransitionFinalize n code)"
  by (cases t) simp_all

lemma transitionRemoved_effect:
  "set (cs_tasks (transitionRemoved n code b s)) \<subseteq> set [TransitionFinalize n code] \<union> set (cs_tasks s)"
  "set (cs_tasks s) \<subseteq> set (cs_tasks (transitionRemoved n code b s))"
  "cs_removal (transitionRemoved n code b s) = cs_removal s" "cs_removalResults (transitionRemoved n code b s) = cs_removalResults s"
  "endSettled s \<Longrightarrow> endSettled (transitionRemoved n code b s)"
  "outcome_ok s \<Longrightarrow> (\<not> b \<Longrightarrow> endSettled s) \<Longrightarrow> outcome_ok (transitionRemoved n code b s)"
  by (auto simp: transitionRemoved_def Let_def csiOutput_def spawn_def transitionEnds_def emitEnd_def endSettled_def outcome_ok_def)

lemma transitionEnds_effect:
  "cs_tasks (transitionEnds n code s) = cs_tasks s"
  "cs_removal (transitionEnds n code s) = cs_removal s" "cs_removalResults (transitionEnds n code s) = cs_removalResults s"
  "outcome_ok s \<Longrightarrow> outcome_ok (transitionEnds n code s)"
  by (auto simp: csiOutput_def transitionEnds_def emitEnd_def endSettled_def outcome_ok_def)

lemma removalSettles_effect:
  "cs_tasks (removalSettles r b s) = cs_tasks s" "cs_removal (removalSettles r b s) = cs_removal s \<or> cs_removal (removalSettles r b s) = None"
  "cs_removalResults (removalSettles r b s) = (r, b) # cs_removalResults s"
  "outcome_ok s \<Longrightarrow> outcome_ok (removalSettles r b s)" "endSettled s \<Longrightarrow> endSettled (removalSettles r b s)"
  by (auto simp: csiOutput_def removalSettles_def endSettled_def outcome_ok_def)

lemma live_fire:
  assumes ok: "live_ok s" and f: "fire now i c s = Some s'"
  shows "live_ok s' \<and> set (cs_tasks (takeTask i s)) \<subseteq> set (cs_tasks s') \<and> (endSettled s \<longrightarrow> endSettled s')"
proof -
  let ?t = "cs_tasks s ! i" and ?s = "takeTask i s"
  have i: "i < length (cs_tasks s)" and r: "resume now c ?t ?s = Some s'" using f by (auto simp: fire_def split: if_splits)
  have l: "lifecycle_ok [] s'" using ok f ok_fire by (auto simp: live_ok_def)
  have out: "outcome_ok ?s" using ok by (simp add: live_ok_def)
  have w: "waits_ok ?s" if "\<not> isRemovalTask ?t" using ok i that waits_take by (simp add: live_ok_def)
  consider (silent) "silentTask ?t" | (removal) q where "?t = AdapterRemoval q" | (remove) n code v where "?t = TransitionRemove n code v"
    | (final) n code where "?t = TransitionFinalize n code" using silent_cases [of ?t] by blast
  then show ?thesis
  proof cases
    case silent
    have g: "grows ?s s'" using grows_resume [OF r silent] .
    have "waits_ok s'" using silent w waits_grows [OF g] by (simp add: silentTask_def)
    moreover have "set (cs_tasks ?s) \<subseteq> set (cs_tasks s')" using g by (simp add: grows_def set_mono_prefix)
    ultimately show ?thesis using l outcome_grows [OF g out] endSettled_grows [OF g] by (simp add: live_ok_def)
  next
    case removal
    then obtain b where s': "s' = removalSettles q b ?s" using r by (auto simp: resume_simps split: if_splits csi_choice.splits)
    have "waits_ok s'"
    proof (rule waits_of [where s = s and ts = "[]"])
      fix p assume "callKnown s p"
      moreover have "set (cs_tasks s) = insert ?t (set (cs_tasks ?s))"
        by (subst id_take_nth_drop [OF i]) (auto simp: takeTask_def)
      ultimately show "callKnown s' p" using removal by (auto simp: s' callKnown_def removalSettles_effect takeTask_def)
    qed (use ok in \<open>auto simp: live_ok_def s' removalSettles_effect takeTask_def removalSettles_def csiOutput_def dest: in_set_takeD in_set_dropD\<close>)
    then show ?thesis using l out by (simp add: live_ok_def s' removalSettles_effect)
  next
    case remove
    then obtain b where b: "removalResult ?s v = Some b" and s': "s' = transitionRemoved n code b ?s"
      using r by (auto simp: resume_simps split: if_splits)
    have "waits_ok s'"
    proof (rule waits_of [of ?s _ "[TransitionFinalize n code]"])
      show "waits_ok ?s" using w remove by simp
      show "callKnown s' q" if "callKnown ?s q" for q
        using that transitionRemoved_effect(2,4) [where n = n and code = code and b = b and s = ?s] by (auto simp: s' callKnown_def)
    qed (use transitionRemoved_effect(1,3) [where n = n and code = code and b = b and s = ?s] in \<open>auto simp: s'\<close>)
    moreover have "outcome_ok s'"
      using out b result_settled [OF out, of v] transitionRemoved_effect(6) [of ?s b n code] by (cases b) (auto simp: s')
    ultimately show ?thesis using l transitionRemoved_effect(2) [of ?s n code b] transitionRemoved_effect(5) [of ?s n code b]
      by (simp add: live_ok_def s')
  next
    case final
    then have s': "s' = transitionEnds n code ?s" using r by (auto simp: resume_simps split: if_splits)
    have "waits_ok s'"
      using waits_of [of ?s s' "[]"] w final by (simp add: s' callKnown_def transitionEnds_effect)
    then show ?thesis using l out by (simp add: live_ok_def s' transitionEnds_effect)
  qed
qed

lemma live_step: "live_ok s \<Longrightarrow> live_ok (csiStep s e)"
proof (cases e)
  case (Request q)
  assume "live_ok s"
  then show ?thesis
    using Request outcome_grows [OF grows_request] waits_grows [OF grows_request] by (simp add: live_ok_def csiStep_def ok_request)
next
  case (Fire now i c)
  assume "live_ok s"
  then show ?thesis using Fire live_fire [of s now i c] by (auto simp: csiStep_def split: option.split)
qed

interpretation csi_live: invariant_machine csiStep live_ok
  by unfold_locales (rule live_step)

lemma owed_fire:
  assumes ok: "live_ok s" and o: "owed s" and f: "fire now i c s = Some s'"
  shows "owed s'"
proof -
  have i: "i < length (cs_tasks s)" and r: "resume now c (cs_tasks s ! i) (takeTask i s) = Some s'" using f by (auto simp: fire_def split: if_splits)
  consider (settled) "endSettled s" | (fired) "owing (cs_tasks s ! i)" | (other) t where "t \<in> set (cs_tasks (takeTask i s))" "owing t"
    using o by (subst (asm) owed_def, subst (asm) id_take_nth_drop [OF i]) (auto simp: takeTask_def list_ex_iff)
  then show ?thesis
  proof cases
    case fired
    then show ?thesis using resume_owing [OF fired _ _ r] ok ok_take [OF _ i] by (simp add: live_ok_def)
  qed (use live_fire [OF ok f] in \<open>auto simp: owed_def list_ex_iff\<close>)
qed

lemma owed_step: "live_ok s \<and> owed s \<Longrightarrow> live_ok (csiStep s e) \<and> owed (csiStep s e)"
  using live_step [of s e] owed_fire [of s] owed_grows [OF grows_request]
  by (auto simp: csiStep_def split: csi_event.split option.split)

interpretation csi_owed: invariant_machine csiStep "\<lambda>s. live_ok s \<and> owed s"
  by unfold_locales (rule owed_step)

text \<open>No activation can be resumed, whatever its promise answers.\<close>

definition anyError :: adapter_error where
  "anyError = \<lparr>ae_code = None, ae_message = []\<rparr>"

definition quiescent :: "csi \<Rightarrow> bool" where
  "quiescent s \<longleftrightarrow> list_all (\<lambda>i. list_all (\<lambda>c. fire 0 i c s = None) [Settles, Fails anyError, Elapses]) [0..<length (cs_tasks s)]"

lemma quiescentD: "quiescent s \<Longrightarrow> t \<in> set (cs_tasks s) \<Longrightarrow>
  \<exists>i. resume 0 Settles t (takeTask i s) = None \<and> resume 0 Elapses t (takeTask i s) = None"
  by (auto simp: quiescent_def list_all_iff in_set_conv_nth fire_def)

lemma take_results [simp]: "removalResult (takeTask i s) w = removalResult s w"
  by (simp add: removalResult_def takeTask_def split: removal_wait.split)

lemma quiescent_removal: "quiescent s \<Longrightarrow> waits_ok s \<Longrightarrow> t \<in> set (cs_tasks s) \<Longrightarrow> waitOf t = Some w \<Longrightarrow> removalResult s w \<noteq> None"
proof -
  assume q: "quiescent s" and ok: "waits_ok s" and t: "t \<in> set (cs_tasks s)" "waitOf t = Some w"
  have k: "waitKnown s w" using ok t by (auto simp: waits_ok_def list_all_iff taskKnown_def split: option.splits)
  have "AdapterRemoval r \<notin> set (cs_tasks s)" for r using quiescentD [OF q, of "AdapterRemoval r"] by (auto simp: resume_simps)
  then show ?thesis
    using k by (cases w) (auto simp: removalResult_def waitKnown_def callKnown_def image_iff map_of_eq_None_iff)
qed

lemma quiescent_owed:
  assumes q: "quiescent s" and ok: "waits_ok s" and o: "owed s"
  shows "endSettled s"
proof (rule ccontr)
  assume "\<not> endSettled s"
  then obtain t where t: "t \<in> set (cs_tasks s)" "owing t" using o by (auto simp: owed_def list_ex_iff)
  obtain i where n: "resume 0 Settles t (takeTask i s) = None" "resume 0 Elapses t (takeTask i s) = None"
    using quiescentD [OF q t(1)] by blast
  show False
    using n t(2) quiescent_removal [OF q ok t(1)] by (cases t) (auto simp: resume_simps owing_def)
qed

lemma phase_ended: "lifecyclePhase xs = Some PhaseEnded \<Longrightarrow> \<exists>code. EmitEnd code \<in> set xs"
proof (induction xs rule: rev_induct)
  case (snoc x xs)
  show ?case
  proof (cases "lifecycleOutput x")
    case True
    then obtain q where "lifecyclePhase xs = Some q" "lifecycleNext q x = Some PhaseEnded" using snoc.prems by (auto split: option.splits)
    then show ?thesis by (cases q; cases x) (auto split: if_splits)
  qed (use snoc in auto)
qed (simp add: lifecyclePhase_def)

lemma ended_announced: "lifecycle_ok [] s \<Longrightarrow> cs_endEmitted s \<Longrightarrow> \<exists>code. EmitEnd code \<in> set (cs_log s)"
  by (rule phase_ended) (simp add: lifecycle_ok_def protocol_ok_def expectedPhase_def)

lemma live_start: "live_ok (startController entry hasSetRunner delay name inTopic outTopic)"
proof -
  let ?s = "startController entry hasSetRunner delay name inTopic outTopic"
  have "waits_ok ?s" "outcome_ok ?s"
    by (simp_all add: startController_def setStatus_def auditCurrentState_def getWatchReadiness_def csiOutput_def spawn_def
        waits_ok_def removalKnown_def taskKnown_def outcome_ok_def)
  then show ?thesis by (simp add: live_ok_def ok_start)
qed

lemma owed_kill: "\<not> terminalStatus (cs_status s) \<Longrightarrow> cs_status s \<noteq> KILLING \<Longrightarrow> owed (kill True caller s)"
  by (simp add: kill_def case_prod_beta Let_def)

text \<open>C7: An immediate kill ends the instance. Whatever had happened before, once an instance that is neither
  terminal nor being killed is told to kill immediately, every later run that comes to rest has either
  announced the end of the instance or recorded that the adapter refused to remove the runner; whether the
  runner reacts to the kill message, exits or stays silent makes no difference.\<close>

theorem immediate_kill_ends:
  assumes "s = foldl csiStep (startController entry hasSetRunner delay name inTopic outTopic) es"
    and "\<not> terminalStatus (cs_status s)" and "cs_status s \<noteq> KILLING"
    and "s' = foldl csiStep (csiStep s (Request (ReqKill True))) fs" and "quiescent s'"
  shows "(\<exists>code. EmitEnd code \<in> set (cs_log s')) \<or> RemovalFailed \<in> set (cs_log s')"
proof -
  have "live_ok s" unfolding assms(1) by (rule csi_live.inv_run [OF live_start])
  moreover have "owed (csiStep s (Request (ReqKill True)))"
    using owed_kill [OF assms(2,3)] by (simp add: csiStep_def handleRequest_def)
  ultimately have "live_ok s' \<and> owed s'"
    unfolding assms(4) by (intro csi_owed.inv_run conjI live_step)
  then have "live_ok s'" "endSettled s'" using quiescent_owed [OF assms(5)] by (simp_all add: live_ok_def)
  then show ?thesis using ended_announced by (auto simp: endSettled_def live_ok_def)
qed

lemma immediate_kill_ends_witness:
  "\<exists>s'. quiescent s' \<and> s' = foldl csiStep (csiStep (startController ''main.js'' False 0 None None None) (Request (ReqKill True)))
     [Fire 5 3 Settles, Fire 5 3 Elapses, Fire 5 3 Settles, Fire 6 3 Settles, Fire 6 3 Settles, Fire 7 1 (Fails anyError)] \<and>
     ((\<exists>code. EmitEnd code \<in> set (cs_log s')) \<or> RemovalFailed \<in> set (cs_log s'))"
proof -
  let ?s = "startController ''main.js'' False 0 None None None"
  let ?fs = "[Fire 5 3 Settles, Fire 5 3 Elapses, Fire 5 3 Settles, Fire 6 3 Settles, Fire 6 3 Settles, Fire 7 1 (Fails anyError)]"
  have q: "quiescent (foldl csiStep (csiStep ?s (Request (ReqKill True))) ?fs)" by code_simp
  have st: "\<not> terminalStatus (cs_status ?s)" "cs_status ?s \<noteq> KILLING" by code_simp+
  show ?thesis using immediate_kill_ends [of ?s "''main.js''" False 0 None None None "[]", OF _ st refl q] q by simp
qed

section \<open>Instances that are left behind\<close>

text \<open>
  A runner that exits with code 0 before its first PANG: the exit is mapped to a completed instance, but
  nothing settles the initialization, so \<open>main\<close> never runs; the controller comes to rest with status
  starting, no transition and no end, until somebody stops or kills the instance.\<close>

lemma clean_exit_before_pang_never_ends:
  "let s = foldl csiStep (startController ''main.js'' False 0 None None None)
      [Request (ReqConnect True), Fire 1 1 Settles, Fire 1 1 Settles, Request (ReqRunnerExits (Inr 0)), Fire 2 0 Settles, Fire 2 1 Settles] in
   quiescent s \<and> map_option ir_status (cs_result s) = Some (Some COMPLETED) \<and> cs_status s = STARTING \<and>
   cs_transition s = None \<and> \<not> cs_endEmitted s"
  by code_simp

text \<open>
  A kill whose message was rejected is reported as done when the terminal transition has settled, although
  the adapter refused to remove the runner and the instance has not ended.\<close>

lemma kill_reported_after_refused_removal:
  "let s = foldl csiStep (startController ''main.js'' False 0 None None None)
      [Request (ReqKill False), Request (ReqRunnerExits (Inr 137)), Fire 1 0 Settles, Fire 1 3 Settles, Fire 1 3 Settles,
       Fire 1 2 (Fails anyError), Fire 2 1 Settles, Fire 2 2 (Fails anyError), Fire 2 2 Settles, Fire 2 1 Settles] in
   KillReturned True \<in> set (cs_log s) \<and> RemovalFailed \<in> set (cs_log s) \<and> \<not> cs_removalCompleted s \<and> \<not> cs_endEmitted s"
  by code_simp

end
