(* ===== verification/CsiReadiness.thy ===== *)
theory CsiReadiness
  imports CsiController
begin

text \<open>
  The readiness of an instance: once its start has failed, no frame that arrives late brings its route
  back, and no waiter is told that it is ready. The last section records runs of the controller that its
  comments rule out or that leave an instance behind.
\<close>

section \<open>The part of the state readiness decides\<close>

definition routeOutput :: "csi_output \<Rightarrow> bool" where
  "routeOutput x = (case x of RpcExpose _ \<Rightarrow> True | RpcRevoke _ \<Rightarrow> True | ReadyResolved _ \<Rightarrow> True | _ \<Rightarrow> False)"

definition routeState :: "csi \<Rightarrow> readiness_state \<times> exposed_rpc option \<times> csi_output list" where
  "routeState s = (cs_readiness s, cs_expose s, filter routeOutput (cs_log s))"

lemma routeOutput_simps [simp]:
  "\<not> routeOutput (Audited st r b)" "\<not> routeOutput (ControlStop n k)" "\<not> routeOutput ControlKill" "\<not> routeOutput ControlPong"
  "\<not> routeOutput AdapterRemove" "\<not> routeOutput RemovalOk" "\<not> routeOutput RemovalFailed" "\<not> routeOutput EmitError"
  "\<not> routeOutput EmitPing" "\<not> routeOutput (EmitPang p q)" "\<not> routeOutput (EmitTerminated c)" "\<not> routeOutput (EmitEnd c)"
  "\<not> routeOutput (KillReturned b)" "\<not> routeOutput (StopReturned b)" "\<not> routeOutput (ReadyRejected i)"
  "\<not> routeOutput StartRejected" "\<not> routeOutput HandlerRejected" "\<not> routeOutput (ProcessExitCode c2)"
  "routeOutput (RpcExpose x)" "routeOutput (RpcRevoke x)" "routeOutput (ReadyResolved i)"
  by (simp_all add: routeOutput_def)

lemma route_output [simp]: "\<not> routeOutput x \<Longrightarrow> routeState (csiOutput x s) = routeState s"
  by (simp add: routeState_def csiOutput_def)

lemma route_spawn [simp]: "routeState (spawn t s) = routeState s" "routeState (takeTask i s) = routeState s"
  by (simp_all add: routeState_def spawn_def takeTask_def)

lemma route_fields [simp]:
  "routeState (s\<lparr>cs_status := x1\<rparr>) = routeState s" "routeState (s\<lparr>cs_created := x2\<rparr>) = routeState s"
  "routeState (s\<lparr>cs_started := x3\<rparr>) = routeState s" "routeState (s\<lparr>cs_ended := x4\<rparr>) = routeState s"
  "routeState (s\<lparr>cs_terminated := x5\<rparr>) = routeState s" "routeState (s\<lparr>cs_executionMs := x6\<rparr>) = routeState s"
  "routeState (s\<lparr>cs_keepAlive := x7\<rparr>) = routeState s" "routeState (s\<lparr>cs_lifetimeDelay := x8\<rparr>) = routeState s"
  "routeState (s\<lparr>cs_finalizing := x9\<rparr>) = routeState s" "routeState (s\<lparr>cs_streams := x10\<rparr>) = routeState s"
  "routeState (s\<lparr>cs_handlers := x11\<rparr>) = routeState s" "routeState (s\<lparr>cs_connecting := x12\<rparr>) = routeState s"
  "routeState (s\<lparr>cs_provides := x13\<rparr>) = routeState s" "routeState (s\<lparr>cs_requires := x14\<rparr>) = routeState s"
  "routeState (s\<lparr>cs_inputTopic := x15\<rparr>) = routeState s" "routeState (s\<lparr>cs_outputTopic := x16\<rparr>) = routeState s"
  "routeState (s\<lparr>cs_instanceName := x17\<rparr>) = routeState s" "routeState (s\<lparr>cs_apiInput := x18\<rparr>) = routeState s"
  "routeState (s\<lparr>cs_inputHeadersSent := x19\<rparr>) = routeState s" "routeState (s\<lparr>cs_init := x20\<rparr>) = routeState s"
  "routeState (s\<lparr>cs_exit := x21\<rparr>) = routeState s" "routeState (s\<lparr>cs_result := x22\<rparr>) = routeState s"
  "routeState (s\<lparr>cs_timers := x25\<rparr>) = routeState s" "routeState (s\<lparr>cs_waiter := x26\<rparr>) = routeState s"
  "routeState (s\<lparr>cs_readinessFailure := x27\<rparr>) = routeState s" "routeState (s\<lparr>cs_failuresDone := x28\<rparr>) = routeState s"
  "routeState (s\<lparr>cs_transitionsDone := x29\<rparr>) = routeState s" "routeState (s\<lparr>cs_callbacks := x30\<rparr>) = routeState s"
  "routeState (s\<lparr>cs_next := x31\<rparr>) = routeState s" "routeState (s\<lparr>cs_removal := x32\<rparr>) = routeState s"
  "routeState (s\<lparr>cs_removalCompleted := x33\<rparr>) = routeState s" "routeState (s\<lparr>cs_removalResults := x34\<rparr>) = routeState s"
  "routeState (s\<lparr>cs_transition := x35\<rparr>) = routeState s" "routeState (s\<lparr>cs_endEmitted := x36\<rparr>) = routeState s"
  by (simp_all add: routeState_def)

lemma route_ops [simp]:
  "routeState (auditCurrentState s) = routeState s" "routeState (setStatus st s) = routeState s"
  "routeState (enterTerminal now code sto reason err s) = routeState s" "routeState (fst (removeInstance s)) = routeState s"
  "routeState (fst (awaitTerminalCompletion s)) = routeState s" "routeState (removalSettles r b s) = routeState s"
  "routeState (emitEnd code s) = routeState s" "routeState (transitionEnds n code s) = routeState s"
  "routeState (transitionRemoved n code b s) = routeState s" "routeState (finishReadiness f w s) = routeState s"
  by (simp_all add: auditCurrentState_def getWatchReadiness_def setStatus_def enterTerminal_def Let_def setExitInfo_def
      removeInstance_def awaitTerminalCompletion_def removalSettles_def emitEnd_def transitionEnds_def transitionRemoved_def
      finishReadiness_def split: option.split)

lemma route_transition [simp]: "routeState (fst (transitionToTerminal now code st reason err s)) = routeState s"
  by (simp add: transitionToTerminal_def case_prod_beta Let_def split: option.split)

lemma route_kill [simp]:
  "routeState (killReturn caller b s) = routeState s" "routeState (kill imm caller s) = routeState s"
  "routeState (killFailed imm err caller s) = routeState s" "routeState (killSent caller s) = routeState s"
  by (simp_all add: killReturn_def afterReadinessKill_def kill_def killFailed_def killSent_def Let_def case_prod_beta
      split: kill_caller.split option.split)

lemma route_more [simp]:
  "routeState (stop n k s) = routeState s" "routeState (stopAcknowledged s) = routeState s" "routeState (stopDelayed s) = routeState s"
  "routeState (initReject ir s) = routeState s" "routeState (initResolve s) = routeState s" "routeState (instanceSettles c s) = routeState s"
  "routeState (instanceRejects e s) = routeState s" "routeState (instanceError e s) = routeState s" "routeState (instanceExited x s) = routeState s"
  "routeState (mainEnds now r s) = routeState s" "routeState (killWatchEnds now r s) = routeState s" "routeState (deadlineMissed now s) = routeState s"
  "routeState (stoppedResult now err r s) = routeState s" "routeState (completionCallback now k2 r s) = routeState s"
  "routeState (stoppedUnresponsive s) = routeState s" "routeState (pingHandshake m s) = routeState s" "routeState (handlePing m s) = routeState s"
  "routeState (handlePang p q s) = routeState s" "routeState (handleInstanceConnect b s) = routeState s"
  "routeState (clearReadinessTimer s) = routeState s"
  by (simp_all add: stop_def stopAcknowledged_def stopDelayed_def initReject_def initResolve_def instanceSettles_def instanceRejects_def
      instanceError_def instanceExited_def mainEnds_def killWatchEnds_def deadlineMissed_def stoppedResult_def completionCallback_def
      stoppedUnresponsive_def pingHandshake_def handlePing_def handlePang_def handleInstanceConnect_def clearReadinessTimer_def
      Let_def case_prod_beta split: option.split sum.split)

lemma route_initialized: "initialized now s = Some s' \<Longrightarrow> routeState s' = routeState s"
  by (auto simp: initialized_def split: init_state.splits)

text \<open>Only frames, timers and new waiters touch readiness; resumed activations never do.\<close>

lemma route_resume: "resume now c t s = Some s' \<Longrightarrow> routeState s' = routeState s"
  by (cases t) (auto simp: resume_simps case_prod_beta dest: route_initialized
      split: if_splits sum.splits csi_choice.splits, (metis sum.exhaust)+)

lemma route_fire: "fire now i c s = Some s' \<Longrightarrow> routeState s' = routeState s"
  by (auto simp: fire_def dest!: route_resume split: if_splits)

section \<open>A failed start is final\<close>

definition routeDropped :: "csi_output list \<Rightarrow> csi \<Rightarrow> bool" where
  "routeDropped out s \<longleftrightarrow> cs_readiness s = ReadinessErrored \<and> cs_expose s = None \<and> filter routeOutput (cs_log s) = out"

definition route_ok :: "csi \<Rightarrow> bool" where
  "route_ok s \<longleftrightarrow> (cs_readiness s = ReadinessErrored \<longrightarrow> cs_expose s = None) \<and> (\<forall>e. cs_expose s = Some e \<longrightarrow> ex_path e \<noteq> [])"

lemma dropped_cong: "routeState s' = routeState s \<Longrightarrow> routeDropped out s' = routeDropped out s"
  by (auto simp: routeState_def routeDropped_def)

lemma route_ok_cong: "routeState s' = routeState s \<Longrightarrow> route_ok s' = route_ok s"
  by (auto simp: routeState_def route_ok_def)

lemma failReadiness_route:
  "routeState (failReadiness w s) = (case cs_expose s of
     Some e \<Rightarrow> if ex_path e \<noteq> [] then (cs_readiness s, None, filter routeOutput (cs_log s) @ [RpcRevoke (ex_path e)]) else routeState s
   | None \<Rightarrow> routeState s)"
  by (auto simp: failReadiness_def Let_def) (auto simp: routeState_def csiOutput_def split: option.split)

lemma errored_route [simp]: "routeState (readinessErrored s) = (ReadinessErrored, cs_expose s, filter routeOutput (cs_log s))"
  by (simp add: readinessErrored_def) (simp add: routeState_def)

lemma errored_fields [simp]:
  "cs_readiness (clearReadinessTimer s) = cs_readiness s" "cs_expose (clearReadinessTimer s) = cs_expose s"
  "cs_log (clearReadinessTimer s) = cs_log s" "cs_expose (readinessErrored s) = cs_expose s"
  "cs_readiness (readinessErrored s) = ReadinessErrored" "filter routeOutput (cs_log (readinessErrored s)) = filter routeOutput (cs_log s)"
  using errored_route [of s] by (simp_all add: routeState_def clearReadinessTimer_def split: option.split)

definition readinessRequest :: "csi_request \<Rightarrow> bool" where
  "readinessRequest q = (case q of ReqWaitForReady \<Rightarrow> True | ReqReadinessTimer _ \<Rightarrow> True | MsgReady _ \<Rightarrow> True | _ \<Rightarrow> False)"

lemma route_request: "\<not> readinessRequest q \<Longrightarrow> routeState (handleRequest q s) = routeState s"
  by (cases q) (simp_all add: handleRequest_def onMessage_def handleKeepAliveCommand_def handleSequenceCompleted_def
      handleSequenceStopped_def readinessRequest_def)

lemma waitForReady_fields [simp]: "cs_readiness (waitForReady s) = cs_readiness s" "cs_expose (waitForReady s) = cs_expose s"
  by (simp_all add: waitForReady_def Let_def csiOutput_def spawn_def split: option.split readiness_state.split)

lemma waitForReady_errored: "cs_readiness s = ReadinessErrored \<Longrightarrow> routeState (waitForReady s) = routeState s"
  by (simp add: waitForReady_def Let_def split: option.split)

lemma timeout_route:
  assumes "routeDropped out s"
  shows "routeState (readinessTimeout i s) = routeState s"
proof -
  let ?t = "readinessErrored (s\<lparr>cs_timers := removeAll i (cs_timers s)\<rparr>)"
  have "routeState (failReadiness (Some i) ?t) = routeState ?t" using assms by (simp add: failReadiness_route routeDropped_def)
  moreover have "routeState ?t = routeState s" using assms by (simp add: routeDropped_def) (simp add: routeState_def)
  ultimately show ?thesis by (simp add: readinessTimeout_def)
qed

lemma dropped_request: 
  assumes d: "routeDropped out s"
  shows "routeDropped out (handleRequest q s)"
proof -
  have "routeState (handleRequest q s) = routeState s"
  proof (cases "readinessRequest q")
    case True
    have "handleReadinessMessage m s = s" for m using d by (simp add: handleReadinessMessage_def routeDropped_def)
    moreover have "routeState (waitForReady s) = routeState s" using d by (simp add: waitForReady_errored routeDropped_def)
    ultimately show ?thesis using True timeout_route [OF d] by (cases q) (simp_all add: readinessRequest_def handleRequest_def onMessage_def)
  qed (rule route_request)
  then show ?thesis using d dropped_cong by blast
qed

lemma dropped_step: 
  assumes d: "routeDropped out s"
  shows "routeDropped out (csiStep s e)"
proof (cases e)
  case (Fire now i c)
  then show ?thesis using d dropped_cong [OF route_fire] by (cases "fire now i c s") (auto simp: csiStep_def)
qed (simp add: csiStep_def dropped_request [OF d])

interpretation dropped_route: invariant_machine csiStep "routeDropped out" for out
  by unfold_locales (rule dropped_step)

lemma route_ok_fail: "(\<forall>e. cs_expose s = Some e \<longrightarrow> ex_path e \<noteq> []) \<Longrightarrow> route_ok (failReadiness w s)"
  using failReadiness_route [of w s] by (auto simp: routeState_def route_ok_def split: option.splits if_splits)

lemma route_ok_message:
  assumes ok: "route_ok s"
  shows "route_ok (handleReadinessMessage m s)"
proof -
  have same: "route_ok (csiOutput x t) = route_ok t" "route_ok (auditCurrentState t) = route_ok t" "route_ok (clearReadinessTimer t) = route_ok t" for x t
    by (simp_all add: route_ok_def csiOutput_def auditCurrentState_def getWatchReadiness_def)
  consider (barred) "cs_readiness s = ReadinessErrored \<or> cs_endEmitted s" | (ready) "cs_readiness s \<noteq> ReadinessErrored" "\<not> cs_endEmitted s" "rm_state m = Some ReadinessReady"
    | (errored) "cs_readiness s \<noteq> ReadinessErrored" "\<not> cs_endEmitted s" "rm_state m \<noteq> Some ReadinessReady" by blast
  then show ?thesis
  proof cases
    case barred
    then have "handleReadinessMessage m s = s" by (auto simp: handleReadinessMessage_def)
    then show ?thesis using ok by simp
  next
    case ready
    have "route_ok (s\<lparr>cs_readiness := ReadinessReady\<rparr>)" using ok by (simp add: route_ok_def)
    moreover have "route_ok ((csiOutput (RpcExpose p) (s\<lparr>cs_expose := Some \<lparr>ex_path = p, ex_host = h, ex_port = q, ex_rpcUrl = u\<rparr>\<rparr>))
        \<lparr>cs_readiness := ReadinessReady\<rparr>)" if "p \<noteq> []" for p h q u
      using that by (simp add: route_ok_def csiOutput_def)
    ultimately show ?thesis
      using ready by (simp add: handleReadinessMessage_def Let_def same truthyString_def split: option.split)
  next
    case errored
    then show ?thesis
      using ok route_ok_fail [of "clearReadinessTimer (readinessErrored s)"] by (simp add: handleReadinessMessage_def Let_def) (simp add: route_ok_def)
  qed
qed

lemma route_ok_request:
  assumes ok: "route_ok s"
  shows "route_ok (handleRequest q s)"
proof (cases "readinessRequest q")
  case True
  have "route_ok (readinessTimeout i s)" for i
    using ok route_ok_fail [of "readinessErrored (s\<lparr>cs_timers := removeAll i (cs_timers s)\<rparr>)" "Some i"]
    by (simp add: readinessTimeout_def) (simp add: route_ok_def)
  moreover have "route_ok (waitForReady s)" using ok by (simp add: route_ok_def)
  ultimately show ?thesis
    using True ok route_ok_message [OF ok] by (cases q) (simp_all add: readinessRequest_def handleRequest_def onMessage_def)
next
  case False
  then show ?thesis using ok route_ok_cong [OF route_request] by blast
qed

lemma route_ok_step: 
  assumes ok: "route_ok s"
  shows "route_ok (csiStep s e)"
proof (cases e)
  case (Fire now i c)
  then show ?thesis using ok route_ok_cong [OF route_fire] by (cases "fire now i c s") (auto simp: csiStep_def)
qed (simp add: csiStep_def route_ok_request [OF ok])

interpretation csi_route: invariant_machine csiStep route_ok
  by unfold_locales (rule route_ok_step)

lemma route_ok_start: "route_ok (startController entry hasSetRunner delay name inTopic outTopic)"
  by (simp add: startController_def setStatus_def auditCurrentState_def getWatchReadiness_def csiOutput_def spawn_def route_ok_def)

text \<open>C24: A failed start is final. Once the readiness of an instance is errored (its readiness timer elapsed or
  the runner reported an error), the controller holds no exposed route, and whatever frames, requests and
  timers follow it exposes none again and tells no waiter that the instance is ready.\<close>

theorem readiness_failure_final:
  assumes "s = foldl csiStep (startController entry hasSetRunner delay name inTopic outTopic) es"
    and "cs_readiness s = ReadinessErrored" and "s' = foldl csiStep s fs"
  shows "cs_readiness s' = ReadinessErrored \<and> cs_expose s' = None \<and>
    filter routeOutput (cs_log s') = filter routeOutput (cs_log s)"
proof -
  have "route_ok s" unfolding assms(1) by (rule csi_route.inv_run [OF route_ok_start])
  then have "routeDropped (filter routeOutput (cs_log s)) s" using assms(2) by (simp add: routeDropped_def route_ok_def)
  then have "routeDropped (filter routeOutput (cs_log s)) s'" unfolding assms(3) by (rule dropped_route.inv_run)
  then show ?thesis by (simp add: routeDropped_def)
qed

definition readyFrame :: "string \<Rightarrow> readiness_message" where
  "readyFrame p = \<lparr>rm_state = Some ReadinessReady, rm_path = Some p, rm_host = None, rm_port = None, rm_rpcUrl = None\<rparr>"

definition erroredFrame :: readiness_message where
  "erroredFrame = \<lparr>rm_state = Some ReadinessErrored, rm_path = None, rm_host = None, rm_port = None, rm_rpcUrl = None\<rparr>"

lemma readiness_failure_final_witness:
  "\<exists>s s'. cs_readiness s = ReadinessErrored \<and>
     s = foldl csiStep (startController ''main.js'' False 0 None None None) [Request (ReqConnect True), Request (MsgReady erroredFrame)] \<and>
     s' = foldl csiStep s [Request (MsgReady (readyFrame ''/rpc''))] \<and>
     cs_readiness s' = ReadinessErrored \<and> cs_expose s' = None \<and> filter routeOutput (cs_log s') = filter routeOutput (cs_log s)"
proof -
  let ?s = "foldl csiStep (startController ''main.js'' False 0 None None None) [Request (ReqConnect True), Request (MsgReady erroredFrame)]"
  have "cs_readiness ?s = ReadinessErrored" by code_simp
  from readiness_failure_final [OF refl this refl, of "[Request (MsgReady (readyFrame ''/rpc''))]"] this show ?thesis by blast
qed

section \<open>Runs the comments rule out\<close>

text \<open>
  A PING that arrives after the terminal transition has begun (here while \<open>finalize\<close> waits for the lifetime
  extension) puts the status of the ended instance back to running; only READY is guarded.\<close>

definition latePing :: ping_message where
  "latePing = \<lparr>pm_status = None, pm_headersSent = False, pm_created = 0,
    pm_payload = Some \<lparr>pp_instanceName = None, pp_inputTopic = None, pp_outputTopic = None\<rparr>\<rparr>"

lemma late_ping_revives_status:
  "let s = foldl csiStep (startController ''main.js'' False 1000 None None None)
      [Request (ReqConnect True), Request (ReqKill False), Request (ReqRunnerExits (Inr 137)), Fire 1 0 Settles, Fire 1 3 Settles,
       Fire 1 3 Settles, Fire 2 1 Settles, Fire 2 2 Settles, Fire 2 2 Settles] in
   cs_ended s \<noteq> None \<and> EmitTerminated (Some 137) \<in> set (cs_log s) \<and> cs_status s = ERRORED \<and>
   cs_status (csiStep s (Request (MsgPing latePing))) = RUNNING"
  by code_simp

end
