(* ===== verification/StartupConfig.thy ===== *)
theory StartupConfig
  imports JsValue JsText InstanceStore
begin

text \<open>
  The startup manifest of a host: \<open>packages/host/src/lib/startup-config.ts\<close>, the entry check
  \<open>isStartSequenceDTO\<close> of \<open>packages/utility/src/typeguards/dto/sequence-start.ts\<close>, which also normalizes
  the entry in place, and \<open>validateStartupConfigUniqueness\<close> of \<open>packages/host/src/lib/host.ts\<close>.
\<close>

section \<open>An entry\<close>

definition isTruthy :: "jsval \<Rightarrow> bool" where
  "isTruthy v = (case v of JUndefined \<Rightarrow> False | JNull \<Rightarrow> False | JBool b \<Rightarrow> b | JNum n \<Rightarrow> n \<noteq> NInt 0 \<and> n \<noteq> NNaN
     | JStr s \<Rightarrow> s \<noteq> [] | _ \<Rightarrow> True)"

text \<open>\<open>typeof v === "object"\<close>\<close>

definition isObjectType :: "jsval \<Rightarrow> bool" where
  "isObjectType v = (case v of JNull \<Rightarrow> True | JArr _ _ \<Rightarrow> True | JObj _ _ \<Rightarrow> True | _ \<Rightarrow> False)"

definition isBoolean :: "jsval \<Rightarrow> bool" where
  "isBoolean v = (case v of JBool _ \<Rightarrow> True | _ \<Rightarrow> False)"

definition LogLevelStrings :: "string list" where
  "LogLevelStrings = [''FATAL'', ''ERROR'', ''WARN'', ''INFO'', ''DEBUG'', ''TRACE'']"

definition dtoKeys :: "string list" where
  "dtoKeys = [''id'', ''name'', ''sequenceName'', ''instanceName'', ''required'', ''restartLimit'', ''appConfig'', ''args'',
     ''instanceId'', ''logLevel'', ''keepAlive'', ''exposePath'']"

definition objectKeys :: "jsval \<Rightarrow> string list" where
  "objectKeys v = (case v of JObj _ fs \<Rightarrow> remdups (map fst fs) | _ \<Rightarrow> [])"

definition jsTypeOf :: "jsval \<Rightarrow> string" where
  "jsTypeOf v = (case v of JUndefined \<Rightarrow> ''undefined'' | JBool _ \<Rightarrow> ''boolean'' | JNum _ \<Rightarrow> ''number'' | JStr _ \<Rightarrow> ''string''
     | JOpaque \<Rightarrow> ''function'' | _ \<Rightarrow> ''object'')"

text \<open>The checks that throw, in order; \<open>None\<close>: no exception.\<close>

definition failWhen :: "bool \<Rightarrow> string \<Rightarrow> js_error option" where
  "failWhen b m = (if b then Some (PlainError m) else None)"

fun firstError :: "'e option list \<Rightarrow> 'e option" where
  "firstError [] = None"
| "firstError (Some e # es) = Some e"
| "firstError (None # es) = firstError es"

text \<open>A name that is present must be a string that is not blank; it is stored trimmed.\<close>

definition checkName :: "string \<Rightarrow> jsval \<Rightarrow> js_error option" where
  "checkName k v = (case v of
      JUndefined \<Rightarrow> None
    | JStr s \<Rightarrow> failWhen (jsTrim s = []) (''DTO '' @ k @ '' is empty'')
    | _ \<Rightarrow> Some (PlainError (''DTO '' @ k @ '' is not string'')))"

definition storeField :: "string \<Rightarrow> jsval \<Rightarrow> jsval \<Rightarrow> jsval" where
  "storeField k x v = (case v of JObj sh fs \<Rightarrow> JObj sh (jsSet fs k x) | _ \<Rightarrow> v)"

definition normalizeName :: "string \<Rightarrow> jsval \<Rightarrow> jsval \<Rightarrow> jsval" where
  "normalizeName k x v = (case x of JStr s \<Rightarrow> storeField k (JStr (jsTrim s)) v | _ \<Rightarrow> v)"

definition checksBeforeNames :: "jsval \<Rightarrow> js_error option" where
  "checksBeforeNames arg =
    (let p = jsProp arg; args = p ''args''; instanceId = p ''instanceId'' in
     firstError
      [failWhen (\<not> isString (p ''id'')) ''DTO id is not string'',
       failWhen (p ''appConfig'' \<noteq> JUndefined \<and> \<not> isObjectType (p ''appConfig'')) (''DTO appConfig is '' @ jsTypeOf (p ''appConfig'') @ '', not an object''),
       failWhen (isTruthy instanceId \<and> \<not> isString instanceId) ''DTO instanceId is not valid string'',
       failWhen (args \<noteq> JUndefined \<and> \<not> isArray args) ''DTO args are not an array'',
       failWhen (args \<noteq> JUndefined \<and> \<not> list_all isString (elemsOf args)) ''DTO args are all strings'',
       failWhen (isString instanceId \<and> length (strOf instanceId) \<noteq> 36) ''DTO instanceId is not 36 long'',
       failWhen (isTruthy (p ''logLevel'') \<and> p ''logLevel'' \<notin> JStr ` set LogLevelStrings) ''DTO logLevel is not valid'',
       failWhen (p ''keepAlive'' \<noteq> JUndefined \<and> \<not> isBoolean (p ''keepAlive'')) ''DTO keepAlive is not boolean''])"

definition isRestartLimit :: "jsval \<Rightarrow> bool" where
  "isRestartLimit v = (case v of JNum (NInt i) \<Rightarrow> 0 \<le> i | _ \<Rightarrow> False)"

definition checksAfterNames :: "jsval \<Rightarrow> js_error option" where
  "checksAfterNames arg =
    (let p = jsProp arg; rest = filter (\<lambda>k. k \<notin> set dtoKeys) (objectKeys arg) in
     firstError
      [failWhen (p ''required'' \<noteq> JUndefined \<and> \<not> isBoolean (p ''required'')) ''DTO required is not boolean'',
       failWhen (p ''restartLimit'' \<noteq> JUndefined \<and> \<not> isRestartLimit (p ''restartLimit'')) ''DTO restartLimit is not non-negative integer'',
       failWhen (isTruthy (p ''exposePath'') \<and> \<not> isString (p ''exposePath'')) ''DTO exposePath is not string'',
       failWhen (rest \<noteq> []) (''DTO has unknown '' @ joinWith '','' rest @ '' keys'')])"

text \<open>The deprecated \<open>name\<close> counts only where there is no \<open>instanceName\<close>.\<close>

definition aliasName :: "jsval \<Rightarrow> jsval" where
  "aliasName arg = (if jsProp arg ''instanceName'' = JUndefined then jsProp arg ''name'' else JUndefined)"

definition isStartSequenceDTO :: "jsval \<Rightarrow> js_error + jsval" where
  "isStartSequenceDTO arg =
    (if \<not> isObjectType arg then Inl (PlainError ''DTO is not an object'')
     else if arg = JNull then Inl (TypeError ''Cannot destructure null'')
     else (case firstError [checksBeforeNames arg, checkName ''sequenceName'' (jsProp arg ''sequenceName''),
             checkName ''instanceName'' (jsProp arg ''instanceName''), checkName ''name'' (aliasName arg), checksAfterNames arg] of
         Some e \<Rightarrow> Inl e
       | None \<Rightarrow> Inr (normalizeName ''instanceName'' (aliasName arg)
           (normalizeName ''instanceName'' (jsProp arg ''instanceName'')
             (normalizeName ''sequenceName'' (jsProp arg ''sequenceName'') arg)))))"

section \<open>The manifest\<close>

datatype startup_config_error = SEQUENCE_STARTUP_CONFIG_READ_ERROR "string option" | EntryThrows js_error

fun checkEntries :: "jsval list \<Rightarrow> startup_config_error + jsval list" where
  "checkEntries [] = Inr []"
| "checkEntries (x # xs) = (case isStartSequenceDTO x of
      Inl e \<Rightarrow> Inl (EntryThrows e)
    | Inr y \<Rightarrow> (case checkEntries xs of Inl e \<Rightarrow> Inl e | Inr ys \<Rightarrow> Inr (y # ys)))"

text \<open>\<open>file\<close> is what \<open>FileBuilder(path).read()\<close> returns, \<open>None\<close> when it throws.\<close>

definition readStartupConfig :: "jsval option \<Rightarrow> startup_config_error + jsval list" where
  "readStartupConfig file = (case file of
      None \<Rightarrow> Inl (SEQUENCE_STARTUP_CONFIG_READ_ERROR None)
    | Some config \<Rightarrow>
        if \<not> isTruthy config \<or> \<not> isArray (jsProp config ''sequences'')
        then Inl (SEQUENCE_STARTUP_CONFIG_READ_ERROR (Some (''Startup config doesn'' @ [CHR 0x27] @ ''t contain array of sequences'')))
        else checkEntries (elemsOf (jsProp config ''sequences'')))"

record start_config =
  sc_id :: string
  sc_sequenceName :: "string option"
  sc_instanceId :: "string option"
  sc_instanceName :: "string option"
  sc_required :: bool
  sc_restartLimit :: "nat option"

text \<open>What the host reads of an accepted entry.\<close>

definition startConfigOf :: "jsval \<Rightarrow> start_config" where
  "startConfigOf v =
    \<lparr>sc_id = strOf (jsProp v ''id''), sc_sequenceName = stringOption (jsProp v ''sequenceName''),
     sc_instanceId = stringOption (jsProp v ''instanceId''), sc_instanceName = stringOption (jsProp v ''instanceName''),
     sc_required = (jsProp v ''required'' = JBool True),
     sc_restartLimit = (case jsProp v ''restartLimit'' of JNum (NInt i) \<Rightarrow> Some (nat i) | _ \<Rightarrow> None)\<rparr>"

text \<open>\<open>instanceName || instanceId || `required-startup:${id}:${index}`\<close>\<close>

definition requiredKey :: "start_config \<Rightarrow> string \<Rightarrow> nat \<Rightarrow> string" where
  "requiredKey c sequenceId index = (case truthyString (sc_instanceName c) of
      Some n \<Rightarrow> n
    | None \<Rightarrow> (case truthyString (sc_instanceId c) of
        Some i \<Rightarrow> i
      | None \<Rightarrow> ''required-startup:'' @ sequenceId @ '':'' @ decimal (int index)))"

text \<open>The three sets of the loop, and the message of the exception, if any.\<close>

fun validateFrom :: "nat \<Rightarrow> string list \<Rightarrow> string list \<Rightarrow> string list \<Rightarrow> start_config list \<Rightarrow> string option" where
  "validateFrom index ids names keys [] = None"
| "validateFrom index ids names keys (c # cs) =
    (let iid = truthyString (sc_instanceId c); name = truthyString (sc_instanceName c);
         ids' = (case iid of Some i \<Rightarrow> jsAdd ids i | None \<Rightarrow> ids);
         names' = (case name of Some n \<Rightarrow> jsAdd names n | None \<Rightarrow> names);
         key = requiredKey c (sc_id c) index;
         idError = (case iid of
             Some i \<Rightarrow> if i \<in> set names then Some (''Startup config instanceId conflicts with another instanceName: '' @ i)
               else if i \<in> set ids then Some (''Duplicate instanceId in startup config: '' @ i) else None
           | None \<Rightarrow> None);
         nameError = (case name of
             Some n \<Rightarrow> if n \<in> set ids' then Some (''Startup config instanceName conflicts with another instanceId: '' @ n)
               else if n \<in> set names then Some (''Duplicate instanceName in startup config: '' @ n) else None
           | None \<Rightarrow> None);
         keyError = (if sc_required c \<and> key \<in> set keys then Some (''Duplicate required startup entry key: '' @ key) else None)
     in case firstError [idError, nameError, keyError] of
          Some e \<Rightarrow> Some e
        | None \<Rightarrow> validateFrom (Suc index) ids' names' (if sc_required c then jsAdd keys key else keys) cs)"

definition validateStartupConfigUniqueness :: "start_config list \<Rightarrow> string option" where
  "validateStartupConfigUniqueness cs = validateFrom 0 [] [] [] cs"

section \<open>Accepted entries are well typed\<close>



lemma firstError_None [simp]: "firstError es = None \<longleftrightarrow> (\<forall>e \<in> set es. e = None)"
  by (induction es rule: firstError.induct) auto

lemma failWhen_None [simp]: "failWhen b m = None \<longleftrightarrow> \<not> b"
  by (simp add: failWhen_def)






lemma normalize_undefined [simp]: "normalizeName k JUndefined v = v"
  by (simp add: normalizeName_def)











section \<open>Unique ids, names and keys\<close>

definition idsOf :: "start_config list \<Rightarrow> string list" where
  "idsOf cs = List.map_filter (\<lambda>c. truthyString (sc_instanceId c)) cs"

definition namesOf :: "start_config list \<Rightarrow> string list" where
  "namesOf cs = List.map_filter (\<lambda>c. truthyString (sc_instanceName c)) cs"

fun requiredKeys :: "nat \<Rightarrow> start_config list \<Rightarrow> string list" where
  "requiredKeys index [] = []"
| "requiredKeys index (c # cs) = (if sc_required c then [requiredKey c (sc_id c) index] else []) @ requiredKeys (Suc index) cs"

lemma idsOf_simps [simp]: "idsOf [] = []" "idsOf (c # cs) = (case truthyString (sc_instanceId c) of None \<Rightarrow> idsOf cs | Some i \<Rightarrow> i # idsOf cs)"
  by (simp_all add: idsOf_def List.map_filter_simps split: option.split)

lemma namesOf_simps [simp]: "namesOf [] = []" "namesOf (c # cs) = (case truthyString (sc_instanceName c) of None \<Rightarrow> namesOf cs | Some i \<Rightarrow> i # namesOf cs)"
  by (simp_all add: namesOf_def List.map_filter_simps split: option.split)

definition fresh_from :: "string list \<Rightarrow> string list \<Rightarrow> bool" where
  "fresh_from seen new \<longleftrightarrow> distinct new \<and> set seen \<inter> set new = {}"

lemma fresh_from_Nil [simp]: "fresh_from seen []"
  by (simp add: fresh_from_def)

lemma fresh_from_Cons [simp]: "fresh_from seen (x # new) \<longleftrightarrow> x \<notin> set seen \<and> fresh_from (jsAdd seen x) new"
  by (auto simp: fresh_from_def jsAdd_def)

lemma firstError_eq: "(case firstError es of Some e \<Rightarrow> Some e | None \<Rightarrow> r) = None \<longleftrightarrow> firstError es = None \<and> r = None"
  by (cases "firstError es") (simp_all del: firstError_None)

definition opt_add :: "string list \<Rightarrow> string option \<Rightarrow> string list" where
  "opt_add xs x = (case x of Some y \<Rightarrow> jsAdd xs y | None \<Rightarrow> xs)"

lemma validateFrom_Cons_None:
  "validateFrom index ids names keys (c # cs) = None \<longleftrightarrow>
    (\<forall>i. truthyString (sc_instanceId c) = Some i \<longrightarrow> i \<notin> set names \<and> i \<notin> set ids) \<and>
    (\<forall>n. truthyString (sc_instanceName c) = Some n \<longrightarrow> n \<notin> set (opt_add ids (truthyString (sc_instanceId c))) \<and> n \<notin> set names) \<and>
    (sc_required c \<longrightarrow> requiredKey c (sc_id c) index \<notin> set keys) \<and>
    validateFrom (Suc index) (opt_add ids (truthyString (sc_instanceId c))) (opt_add names (truthyString (sc_instanceName c)))
      (if sc_required c then jsAdd keys (requiredKey c (sc_id c) index) else keys) cs = None"
  unfolding validateFrom.simps Let_def firstError_eq firstError_None
  by (cases "truthyString (sc_instanceId c)"; cases "truthyString (sc_instanceName c)") (auto simp: opt_add_def simp del: Cons_eq_appendI append.simps)

declare validateFrom.simps(2) [simp del]

lemma validateFrom_None:
  "set ids \<inter> set names = {} \<Longrightarrow> validateFrom index ids names keys cs = None \<longleftrightarrow>
    fresh_from ids (idsOf cs) \<and> fresh_from names (namesOf cs) \<and> fresh_from keys (requiredKeys index cs) \<and>
    (set ids \<union> set (idsOf cs)) \<inter> (set names \<union> set (namesOf cs)) = {}"
proof (induction cs arbitrary: index ids names keys)
  case Nil
  then show ?case by simp
next
  case (Cons c cs)
  let ?i = "truthyString (sc_instanceId c)" and ?n = "truthyString (sc_instanceName c)"
  show ?case
  proof (cases "set (opt_add ids ?i) \<inter> set (opt_add names ?n) = {}")
    case True
    have step: "validateFrom index ids names keys (c # cs) = None \<longleftrightarrow>
      (\<forall>i. ?i = Some i \<longrightarrow> i \<notin> set names \<and> i \<notin> set ids) \<and> (\<forall>n. ?n = Some n \<longrightarrow> n \<notin> set (opt_add ids ?i) \<and> n \<notin> set names) \<and>
      (sc_required c \<longrightarrow> requiredKey c (sc_id c) index \<notin> set keys) \<and>
      fresh_from (opt_add ids ?i) (idsOf cs) \<and> fresh_from (opt_add names ?n) (namesOf cs) \<and>
      fresh_from (if sc_required c then jsAdd keys (requiredKey c (sc_id c) index) else keys) (requiredKeys (Suc index) cs) \<and>
      (set (opt_add ids ?i) \<union> set (idsOf cs)) \<inter> (set (opt_add names ?n) \<union> set (namesOf cs)) = {}"
      unfolding validateFrom_Cons_None Cons.IH [OF True] ..
    show ?thesis unfolding step using True Cons.prems
      by (cases ?i; cases ?n; cases "sc_required c") (simp_all add: opt_add_def, blast+)
  next
    case False
    then show ?thesis using Cons.prems unfolding validateFrom_Cons_None
      by (cases ?i; cases ?n) (auto simp: opt_add_def)
  qed
qed

text \<open>C26: The host accepts the entries of a startup manifest exactly when the instance ids they ask for are pairwise
  distinct, the instance names are pairwise distinct, no id is another's name (an entry's own included) and no two
  required entries share the key their supervision is filed under; otherwise it throws before starting any.
\<close>
theorem startup_entries_unique:
  "validateStartupConfigUniqueness cs = None \<longleftrightarrow>
    distinct (idsOf cs) \<and> distinct (namesOf cs) \<and> set (idsOf cs) \<inter> set (namesOf cs) = {} \<and> distinct (requiredKeys 0 cs)"
  by (auto simp: validateStartupConfigUniqueness_def validateFrom_None fresh_from_def)

end
