(* ===== verification/CsiDispatcher.thy ===== *)
theory CsiDispatcher
  imports InstanceStore RunnerExit
begin

text \<open>
  \<open>packages/host/src/lib/csi-dispatcher.ts\<close> and the deletion of sequences in
  \<open>packages/host/src/lib/host.ts\<close>: how runners are started, which ids and names a start reserves in the
  instance store and gives back, and what the events of an instance do to the store and to the list of
  instances of its sequence.

  Every call of \<open>startRunner\<close> is a \<open>start_run\<close> of the dispatcher; its \<open>await\<close>s are cut into events, so that
  several starts and the events of the instances interleave. The answers of the adapter, of the runner and
  of \<open>waitForReady\<close> are parts of the events.
\<close>

section \<open>Starting a runner\<close>

definition isAsciiAlnum :: "char \<Rightarrow> bool" where
  "isAsciiAlnum c = (let n = of_char c :: nat in (48 \<le> n \<and> n \<le> 57) \<or> (65 \<le> n \<and> n \<le> 90) \<or> (97 \<le> n \<and> n \<le> 122))"

text \<open>\<open>/^[a-z0-9](?:[a-z0-9-]{0,61}[a-z0-9])?$/i\<close>\<close>

definition RUNNER_CHANNEL_INSTANCE_ID_PATTERN :: "string \<Rightarrow> bool" where
  "RUNNER_CHANNEL_INSTANCE_ID_PATTERN s \<longleftrightarrow>
    s \<noteq> [] \<and> length s \<le> 63 \<and> isAsciiAlnum (hd s) \<and> isAsciiAlnum (last s) \<and> list_all (\<lambda>c. isAsciiAlnum c \<or> c = CHR ''-'') s"

datatype start_error =
    INSTANCE_STARTUP_ERROR
  | INSTANCE_ID_CONFLICT string
  | INSTANCE_NAME_CONFLICT string
  | AdapterInitFailed
  | AdapterFailed
  | RunnerFailed exit_report
  | NotReady

datatype start_result = Started | ExitedEarly exit_report | StartFailed start_error

datatype start_phase = InInit | InDispatch | InConnect | InReady | StartDone start_result

record start_run =
  sr_id :: string
  sr_name :: "string option"
  sr_entrypoint :: string
  sr_phase :: start_phase
  sr_registered :: bool

record dispatcher =
  dp_store :: instances_store
  dp_sequences :: "(string, string list) jsmap"
  dp_runs :: "start_run list"


text \<open>The synchronous head of \<open>startRunner\<close>: checks and reservations, before the adapter is initialized.\<close>

definition reserveStart :: "instances_store \<Rightarrow> string \<Rightarrow> string option \<Rightarrow> instances_store \<times> start_phase" where
  "reserveStart s iid name =
    (if \<not> RUNNER_CHANNEL_INSTANCE_ID_PATTERN iid then (s, StartDone (StartFailed INSTANCE_STARTUP_ERROR))
     else if hasName s iid then (s, StartDone (StartFailed (INSTANCE_ID_CONFLICT ''Instance ID conflicts with an existing instance name'')))
     else (case reserveId s iid of
       (s1, False) \<Rightarrow> (s1, StartDone (StartFailed (INSTANCE_ID_CONFLICT ''Instance ID already taken'')))
     | (s1, True) \<Rightarrow>
        (case truthyString name of
          None \<Rightarrow> (s1, InInit)
        | Some n \<Rightarrow>
           if jsHas (is_map s1) n \<or> hasReservedId s1 n
           then (s1, StartDone (StartFailed (INSTANCE_NAME_CONFLICT ''Instance name conflicts with an existing instance ID'')))
           else (case reserveName s1 n iid of
             (s2, False) \<Rightarrow> (s2, StartDone (StartFailed (INSTANCE_NAME_CONFLICT ''Instance with a given name already exists'')))
           | (s2, True) \<Rightarrow> (s2, InInit)))))"

text \<open>The \<open>catch\<close> of \<open>startRunner\<close>, and the two releases of a runner that exited early.\<close>

definition releaseStart :: "instances_store \<Rightarrow> string \<Rightarrow> string option \<Rightarrow> instances_store" where
  "releaseStart s iid name =
    (let s1 = releaseId s iid in case truthyString name of Some n \<Rightarrow> unregisterName s1 n iid | None \<Rightarrow> s1)"

definition releaseEarly :: "instances_store \<Rightarrow> string \<Rightarrow> string option \<Rightarrow> instances_store" where
  "releaseEarly s iid name =
    releaseId (case truthyString name of Some n \<Rightarrow> unregisterName s n iid | None \<Rightarrow> s) iid"

definition setPhase :: "nat \<Rightarrow> start_phase \<Rightarrow> dispatcher \<Rightarrow> dispatcher" where
  "setPhase k p d = d\<lparr>dp_runs := (dp_runs d)[k := (dp_runs d ! k)\<lparr>sr_phase := p\<rparr>]\<rparr>"

definition failRun :: "nat \<Rightarrow> start_error \<Rightarrow> dispatcher \<Rightarrow> dispatcher" where
  "failRun k e d = (let r = dp_runs d ! k in
     setPhase k (StartDone (StartFailed e)) (d\<lparr>dp_store := releaseStart (dp_store d) (sr_id r) (sr_name r)\<rparr>))"

definition startRunner :: "string \<Rightarrow> string option \<Rightarrow> string \<Rightarrow> dispatcher \<Rightarrow> dispatcher" where
  "startRunner iid name entrypoint d = (case reserveStart (dp_store d) iid name of
     (s, p) \<Rightarrow> d\<lparr>dp_store := s, dp_runs := dp_runs d @ [\<lparr>sr_id = iid, sr_name = name, sr_entrypoint = entrypoint, sr_phase = p, sr_registered = False\<rparr>]\<rparr>)"

text \<open>\<open>instanceAdapter.init()\<close> is awaited outside the \<open>try\<close>: nothing is released when it rejects.\<close>

definition adapterInit :: "nat \<Rightarrow> bool \<Rightarrow> dispatcher \<Rightarrow> dispatcher" where
  "adapterInit k ok d = setPhase k (if ok then InDispatch else StartDone (StartFailed AdapterInitFailed)) d"

text \<open>\<open>createCSIController\<close> ends with the registration of the controller.\<close>

definition createCSIController :: "nat \<Rightarrow> instance_owner \<Rightarrow> dispatcher \<Rightarrow> dispatcher" where
  "createCSIController k owner d = (let r = dp_runs d ! k in
     d\<lparr>dp_store := setInstance (dp_store d) (sr_id r) owner, dp_runs := (dp_runs d)[k := r\<lparr>sr_registered := True\<rparr>]\<rparr>)"

text \<open>
  The result of \<open>dispatch\<close>: an exception, or a code; a code other than 0 is thrown as its report, also
  when the report resolves. With the verser2 transport of the host the controller is created here.\<close>

definition adapterDispatched :: "nat \<Rightarrow> int option \<Rightarrow> instance_owner option \<Rightarrow> dispatcher \<Rightarrow> dispatcher" where
  "adapterDispatched k code owner d = (let r = dp_runs d ! k in
    case code of
      None \<Rightarrow> failRun k AdapterFailed d
    | Some c \<Rightarrow>
        if c \<noteq> 0 then failRun k (RunnerFailed (case mapRunnerExitCode c (sr_entrypoint r) of Inl x \<Rightarrow> x | Inr x \<Rightarrow> x)) d
        else setPhase k InConnect (case owner of Some v \<Rightarrow> createCSIController k v d | None \<Rightarrow> d))"

text \<open>The race of \<open>established\<close> and the exit of the runner, then \<open>waitForReady\<close>.\<close>

definition runnerEstablished :: "nat \<Rightarrow> dispatcher \<Rightarrow> dispatcher" where
  "runnerEstablished k d = setPhase k InReady d"

definition runnerExited :: "nat \<Rightarrow> (unit + int) \<Rightarrow> dispatcher \<Rightarrow> dispatcher" where
  "runnerExited k x d = (let r = dp_runs d ! k in case x of
      Inl _ \<Rightarrow> failRun k AdapterFailed d
    | Inr c \<Rightarrow> (case mapRunnerExitCode c (sr_entrypoint r) of
        Inl e \<Rightarrow> failRun k (RunnerFailed e) d
      | Inr e \<Rightarrow> setPhase k (StartDone (ExitedEarly e)) (d\<lparr>dp_store := releaseEarly (dp_store d) (sr_id r) (sr_name r)\<rparr>)))"

definition runnerReady :: "nat \<Rightarrow> bool \<Rightarrow> dispatcher \<Rightarrow> dispatcher" where
  "runnerReady k ok d = (if ok then setPhase k (StartDone Started) d else failRun k NotReady d)"

section \<open>Events of the instances\<close>

text \<open>\<open>ping\<close>: the instance joins the list of its sequence; a repeated ping joins it again.\<close>

definition onPing :: "bool \<Rightarrow> instance_owner \<Rightarrow> string \<Rightarrow> dispatcher \<Rightarrow> dispatcher \<times> bool" where
  "onPing adapterMatches owner seqId d =
    (if \<not> adapterMatches then (d, False)
     else (case jsGet (dp_sequences d) seqId of
       Some ids \<Rightarrow> (d\<lparr>dp_sequences := jsSet (dp_sequences d) seqId (ids @ [io_id owner])\<rparr>, True)
     | None \<Rightarrow> (d, True)))"

text \<open>\<open>end\<close>: only the controller that is registered under its id takes the id with it.\<close>

definition onEnd :: "instance_owner \<Rightarrow> string \<Rightarrow> dispatcher \<Rightarrow> dispatcher" where
  "onEnd owner seqId d =
    (if jsGet (is_map (dp_store d)) (io_id owner) = Some owner then
       (let d1 = (case jsGet (dp_sequences d) seqId of
            Some ids \<Rightarrow> d\<lparr>dp_sequences := jsSet (dp_sequences d) seqId (filter (\<lambda>i. i \<noteq> io_id owner) ids)\<rparr>
          | None \<Rightarrow> d)
        in d1\<lparr>dp_store := fst (deleteInstance (dp_store d1) (io_id owner))\<rparr>)
     else d)"

text \<open>
  \<open>deleteSequence\<close> up to the removal by the adapter. \<open>isRunning\<close> is what the registered controller of an
  instance answers; \<open>[].every\<close> of \<open>undefined\<close> is falsy. The result: unknown, in use, or the instances to
  kill before the removal.\<close>

datatype delete_decision = UNKNOWN_SEQUENCE | SEQUENCE_IN_USE | RemoveAfterKilling "string list"

definition instanceRuns :: "instances_store \<Rightarrow> (instance_owner \<Rightarrow> bool) \<Rightarrow> string \<Rightarrow> bool" where
  "instanceRuns s isRunning iid = (case jsGet (is_map s) iid of Some v \<Rightarrow> isRunning v | None \<Rightarrow> False)"

definition hostDeleteSequence :: "dispatcher \<Rightarrow> (instance_owner \<Rightarrow> bool) \<Rightarrow> string \<Rightarrow> bool \<Rightarrow> delete_decision" where
  "hostDeleteSequence d isRunning seqId force = (case jsGet (dp_sequences d) seqId of
      None \<Rightarrow> UNKNOWN_SEQUENCE
    | Some ids \<Rightarrow>
        if ids = [] then RemoveAfterKilling []
        else let inUse = list_all (instanceRuns (dp_store d) isRunning) ids in
          if inUse \<and> \<not> force then SEQUENCE_IN_USE
          else RemoveAfterKilling (if inUse then ids else []))"

section \<open>The dispatcher\<close>

datatype dispatch_event =
    StartRunner string "string option" string
  | AdapterInit nat bool
  | AdapterDispatched nat "int option" "instance_owner option"
  | RunnerEstablished nat
  | RunnerExited nat "unit + int"
  | RunnerReady nat bool
  | InstancePing bool instance_owner string
  | InstanceEnd instance_owner string

text \<open>An event of a start counts only in the phase that awaits it.\<close>

definition inPhase :: "dispatcher \<Rightarrow> nat \<Rightarrow> start_phase \<Rightarrow> bool" where
  "inPhase d k p \<longleftrightarrow> k < length (dp_runs d) \<and> sr_phase (dp_runs d ! k) = p"

definition dispatchStep :: "dispatcher \<Rightarrow> dispatch_event \<Rightarrow> dispatcher" where
  "dispatchStep d e = (case e of
      StartRunner iid name entrypoint \<Rightarrow> startRunner iid name entrypoint d
    | AdapterInit k ok \<Rightarrow> if inPhase d k InInit then adapterInit k ok d else d
    | AdapterDispatched k code owner \<Rightarrow> if inPhase d k InDispatch then adapterDispatched k code owner d else d
    | RunnerEstablished k \<Rightarrow> if inPhase d k InConnect then runnerEstablished k d else d
    | RunnerExited k x \<Rightarrow> if inPhase d k InConnect then runnerExited k x d else d
    | RunnerReady k ok \<Rightarrow> if inPhase d k InReady then runnerReady k ok d else d
    | InstancePing adapterMatches owner seqId \<Rightarrow> fst (onPing adapterMatches owner seqId d)
    | InstanceEnd owner seqId \<Rightarrow> onEnd owner seqId d)"

definition newDispatcher :: "(string, string list) jsmap \<Rightarrow> dispatcher" where
  "newDispatcher sequences = \<lparr>dp_store = newInstancesStore True True, dp_sequences = sequences, dp_runs = []\<rparr>"

section \<open>Which reservations exist\<close>





lemma reserved_ops [simp]:
  "is_reserved (unregisterName s n i) = is_reserved s" "is_map (unregisterName s n i) = is_map s"
  "is_reserved (setInstance s i v) = jsRemove (is_reserved s) i" "is_reserved (fst (deleteInstance s i)) = jsRemove (is_reserved s) i"
  "is_map (setInstance s i v) = jsSet (is_map s) i v" "is_map (fst (deleteInstance s i)) = jsDelete (is_map s) i"
  "is_reserved (releaseId s i) = jsRemove (is_reserved s) i"
  by (simp_all add: unregisterName_def setInstance_def deleteInstance_def releaseId_def Let_def split: option.split)

lemma release_reserved [simp]:
  "is_reserved (releaseStart s i n) = jsRemove (is_reserved s) i" "is_reserved (releaseEarly s i n) = jsRemove (is_reserved s) i"
  "is_map (releaseStart s i n) = is_map s" "is_map (releaseEarly s i n) = is_map s"
  by (simp_all add: releaseStart_def releaseEarly_def Let_def split: option.split)











lemma create_runs [simp]:
  "length (dp_runs (createCSIController k owner d)) = length (dp_runs d)"
  "k < length (dp_runs d) \<Longrightarrow> sr_phase (dp_runs (createCSIController k owner d) ! k) = sr_phase (dp_runs d ! k)"
  by (simp_all add: createCSIController_def Let_def)










section \<open>Starts and deletions that go wrong\<close>

definition demoRunnerOwner :: "nat \<Rightarrow> string \<Rightarrow> instance_owner" where
  "demoRunnerOwner n iid = \<lparr>io_ref = n, io_id = iid, io_sequenceId = Some ''seq'', io_config = JObj Plain [], io_sequenceName = None\<rparr>"


text \<open>
  A name that is taken leaves the id of the refused start reserved, and so does an adapter whose \<open>init\<close>
  rejects: the same id can never be started again.\<close>

lemma refused_name_leaks_id:
  "let d = foldl dispatchStep (newDispatcher [])
      [StartRunner ''a'' (Some ''web'') ''main.js'', StartRunner ''b'' (Some ''web'') ''main.js'', StartRunner ''b'' None ''main.js''] in
   map sr_phase (dp_runs d) = [InInit, StartDone (StartFailed (INSTANCE_NAME_CONFLICT ''Instance with a given name already exists'')),
     StartDone (StartFailed (INSTANCE_ID_CONFLICT ''Instance ID already taken''))]"
  by code_simp

lemma failed_init_leaks_id:
  "let d = foldl dispatchStep (newDispatcher [])
      [StartRunner ''a'' (Some ''web'') ''main.js'', AdapterInit 0 False, StartRunner ''a'' None ''main.js'', StartRunner ''b'' (Some ''web'') ''main.js''] in
   map sr_phase (dp_runs d) = [StartDone (StartFailed AdapterInitFailed), StartDone (StartFailed (INSTANCE_ID_CONFLICT ''Instance ID already taken'')),
     StartDone (StartFailed (INSTANCE_NAME_CONFLICT ''Instance with a given name already exists''))]"
  by code_simp

text \<open>
  The readiness failure of an earlier start of the same id arrives after the id was started again: its
  \<open>catch\<close> removes the name of the running replacement.\<close>

lemma late_failure_strips_replacement:
  "let d = foldl dispatchStep (newDispatcher [(''seq'', [])])
      [StartRunner ''a'' (Some ''web'') ''main.js'', AdapterInit 0 True, AdapterDispatched 0 (Some 0) (Some (demoRunnerOwner 1 ''a'')),
       RunnerEstablished 0, InstanceEnd (demoRunnerOwner 1 ''a'') ''seq'',
       StartRunner ''a'' (Some ''web'') ''main.js'', AdapterInit 1 True, AdapterDispatched 1 (Some 0) (Some (demoRunnerOwner 2 ''a'')),
       RunnerEstablished 1, RunnerReady 1 True];
     d' = dispatchStep d (RunnerReady 0 False) in
   map_option io_ref (instanceByName (dp_store d) ''web'') = Some 2 \<and> instanceByName (dp_store d') ''web'' = None \<and>
   jsHas (is_map (dp_store d')) ''a''"
  by code_simp

text \<open>
  A sequence with a running instance is deleted without force when another of its instances is no longer
  running: \<open>every\<close> asks for all instances to run.\<close>

lemma sequence_in_use_deleted:
  assumes "jsGet (dp_sequences d) seqId = Some ids" and "i \<in> set ids" and "instanceRuns (dp_store d) isRunning i"
    and "j \<in> set ids" and "\<not> instanceRuns (dp_store d) isRunning j"
  shows "hostDeleteSequence d isRunning seqId False = RemoveAfterKilling []"
  using assms by (auto simp: hostDeleteSequence_def Let_def list_all_iff)

text \<open>A repeated ping registers the instance twice with its sequence; the end of the instance removes both.\<close>

lemma end_removes_all_pings:
  assumes "jsGet (is_map (dp_store d)) (io_id owner) = Some owner" and "jsGet (dp_sequences d) seqId = Some ids"
  shows "jsGet (dp_sequences (onEnd owner seqId d)) seqId = Some (filter (\<lambda>i. i \<noteq> io_id owner) ids) \<and>
    \<not> jsHas (is_map (dp_store (onEnd owner seqId d))) (io_id owner)"
  using assms by (simp add: onEnd_def Let_def js_simps map_of_delete)

text \<open>The end of a controller whose id belongs to a replacement changes nothing.\<close>

lemma replaced_end_ignored: "jsGet (is_map (dp_store d)) (io_id owner) \<noteq> Some owner \<Longrightarrow> onEnd owner seqId d = d"
  by (simp add: onEnd_def)

end
