(* ===== verification/RequiredStartup.thy ===== *)
theory RequiredStartup
  imports StartupConfig CsiDispatcher
begin

text \<open>
  The supervision of required startup entries in \<open>packages/host/src/lib/host.ts\<close> and the health the hub
  publishes (\<open>packages/host/src/lib/hub-watch-health.ts\<close>): \<open>performStartup\<close>, the launches of required
  entries on the dispatcher, the handlers of the dispatcher's \<open>end\<close> and \<open>terminated\<close>, restarts and fail fast.

  An entry is a shared mutable object of the host; it is named by its declaration index. Every \<open>await\<close> and
  every \<open>setImmediate\<close> cuts a handler into events, so launches, exits and the dispatcher's own steps
  interleave. Reasons of failures are only logged and are left out.
\<close>

section \<open>State\<close>

record startup_entry =
  se_key :: string
  se_sequenceId :: string
  se_config :: start_config
  se_restartAttemptsRemaining :: nat
  se_stableInstanceId :: string
  se_currentInstanceId :: "string option"
  se_launching :: bool

datatype hub_lifecycle = HubStarting | HubRunning | HubStopping | HubFailed | HubStopped
datatype cleanup_phase = NotCleaning | CleaningResources | CleaningConnector | CleanedUp
datatype launch_note = LaunchAttempt nat | LaunchDropped nat | FailFast nat

record startup_env =
  en_config :: "start_config list"
  en_seqName :: "string \<Rightarrow> string option"
  en_entrypoint :: "string \<Rightarrow> string"
  en_generate :: "nat \<Rightarrow> string"

record startup_host =
  hs_dispatch :: dispatcher
  hs_entries :: "(string, nat) jsmap"
  hs_objects :: "(nat, startup_entry) jsmap"
  hs_byInstance :: "(string, string) jsmap"
  hs_declared :: "(nat, string option \<times> string option) jsmap"
  hs_mapped :: "nat list"
  hs_launches :: "(nat \<times> nat \<times> bool) list" \<comment> \<open>entry, awaited run, awaited by \<open>performStartup\<close>\<close>
  hs_starts :: "nat list" \<comment> \<open>runs of entries that are not required\<close>
  hs_immediates :: "nat list"
  hs_exits :: "string list"
  hs_stopTasks :: "int list"
  hs_stopping :: bool
  hs_exitCode :: "int option"
  hs_startupFailed :: bool
  hs_startupReady :: bool
  hs_lifecycle :: hub_lifecycle
  hs_cleanup :: cleanup_phase
  hs_log :: "launch_note list"

definition entryOf :: "startup_host \<Rightarrow> nat \<Rightarrow> startup_entry" where
  "entryOf h i = the (jsGet (hs_objects h) i)"

definition updateEntry :: "nat \<Rightarrow> (startup_entry \<Rightarrow> startup_entry) \<Rightarrow> startup_host \<Rightarrow> startup_host" where
  "updateEntry i f h = h\<lparr>hs_objects := jsSet (hs_objects h) i (f (entryOf h i))\<rparr>"

definition noteLaunch :: "launch_note \<Rightarrow> startup_host \<Rightarrow> startup_host" where
  "noteLaunch x h = h\<lparr>hs_log := hs_log h @ [x]\<rparr>"

text \<open>\<open>declaration.instanceId = x\<close>, if the declaration exists\<close>

definition declareInstance :: "nat \<Rightarrow> string option \<Rightarrow> startup_host \<Rightarrow> startup_host" where
  "declareInstance i x h = (case jsGet (hs_declared h) i of
      Some (sid, _) \<Rightarrow> h\<lparr>hs_declared := jsSet (hs_declared h) i (sid, x)\<rparr>
    | None \<Rightarrow> h)"

definition declareSequence :: "nat \<Rightarrow> string option \<Rightarrow> startup_host \<Rightarrow> startup_host" where
  "declareSequence i x h = (case jsGet (hs_declared h) i of
      Some (_, iid) \<Rightarrow> h\<lparr>hs_declared := jsSet (hs_declared h) i (x, iid)\<rparr>
    | None \<Rightarrow> h)"

section \<open>Tracking\<close>

definition clearRequiredStartupInstanceTracking :: "nat \<Rightarrow> startup_host \<Rightarrow> startup_host" where
  "clearRequiredStartupInstanceTracking i h = (case truthyString (se_currentInstanceId (entryOf h i)) of
      None \<Rightarrow> h
    | Some iid \<Rightarrow> declareInstance i None
        (updateEntry i (se_currentInstanceId_update (\<lambda>_. None)) (h\<lparr>hs_byInstance := jsDelete (hs_byInstance h) iid\<rparr>)))"

definition trackRequiredStartupInstance :: "nat \<Rightarrow> string \<Rightarrow> startup_host \<Rightarrow> startup_host" where
  "trackRequiredStartupInstance i iid h =
    (let h1 = (case truthyString (se_currentInstanceId (entryOf h i)) of
         Some old \<Rightarrow> h\<lparr>hs_byInstance := jsDelete (hs_byInstance h) old\<rparr> | None \<Rightarrow> h);
         h2 = updateEntry i (se_currentInstanceId_update (\<lambda>_. Some iid)) h1
     in declareInstance i (Some iid) (h2\<lparr>hs_byInstance := jsSet (hs_byInstance h2) iid (se_key (entryOf h i))\<rparr>))"

text \<open>The entry the instance belongs to, which it no longer does.\<close>

definition takeRequiredStartupEntryByInstanceId :: "string \<Rightarrow> startup_host \<Rightarrow> startup_host \<times> nat option" where
  "takeRequiredStartupEntryByInstanceId iid h = (case truthyString (jsGet (hs_byInstance h) iid) of
      None \<Rightarrow> (h, None)
    | Some key \<Rightarrow>
       (let h1 = h\<lparr>hs_byInstance := jsDelete (hs_byInstance h) iid\<rparr> in
        case jsGet (hs_entries h) key of
          None \<Rightarrow> (h1, None)
        | Some i \<Rightarrow>
            (if se_currentInstanceId (entryOf h i) = Some iid
             then declareInstance i None (updateEntry i (se_currentInstanceId_update (\<lambda>_. None)) h1) else h1, Some i)))"

section \<open>Failures and launches\<close>

text \<open>\<open>performStop\<close> while the host stops exits the process; otherwise a microtask sets the code and stops.\<close>

definition performStop :: "int \<Rightarrow> startup_host \<Rightarrow> startup_host" where
  "performStop signal h = (if hs_stopping h then h else h\<lparr>hs_stopTasks := hs_stopTasks h @ [signal]\<rparr>)"

definition handleRequiredStartupFailure :: "nat \<Rightarrow> startup_host \<Rightarrow> startup_host" where
  "handleRequiredStartupFailure i h =
    (if hs_stopping h then h
     else if se_restartAttemptsRemaining (entryOf h i) > 0 then
       (let h1 = updateEntry i (se_restartAttemptsRemaining_update (\<lambda>n. n - 1)) h in h1\<lparr>hs_immediates := hs_immediates h1 @ [i]\<rparr>)
     else performStop 1 (noteLaunch (FailFast i) h))"

definition setLaunching :: "bool \<Rightarrow> nat \<Rightarrow> startup_host \<Rightarrow> startup_host" where
  "setLaunching b i h = updateEntry i (se_launching_update (\<lambda>_. b)) h"

text \<open>The \<open>catch\<close> and \<open>finally\<close> of a launch; a runner without an id takes the same way.\<close>

definition launchFailed :: "nat \<Rightarrow> startup_host \<Rightarrow> startup_host" where
  "launchFailed i h = setLaunching False i (handleRequiredStartupFailure i (clearRequiredStartupInstanceTracking i h))"

definition startConfiguredSequence :: "startup_env \<Rightarrow> string \<Rightarrow> string \<Rightarrow> start_config \<Rightarrow> startup_host \<Rightarrow> startup_host \<times> nat" where
  "startConfiguredSequence env sid iid c h =
    (h\<lparr>hs_dispatch := dispatchStep (hs_dispatch h) (StartRunner iid (sc_instanceName c) (en_entrypoint env sid))\<rparr>,
     length (dp_runs (hs_dispatch h)))"

definition nameConflict :: "start_config \<Rightarrow> startup_host \<Rightarrow> bool" where
  "nameConflict c h = (case truthyString (sc_instanceName c) of
      Some n \<Rightarrow> hasName (dp_store (hs_dispatch h)) n \<or> jsHas (is_map (dp_store (hs_dispatch h))) n
    | None \<Rightarrow> False)"

text \<open>A launch up to its \<open>await\<close>.\<close>

definition launchRequiredStartupEntry :: "startup_env \<Rightarrow> bool \<Rightarrow> nat \<Rightarrow> startup_host \<Rightarrow> startup_host" where
  "launchRequiredStartupEntry env initial i h =
    (let e = entryOf h i in
     if hs_stopping h \<or> se_launching e then noteLaunch (LaunchDropped i) h
     else
       (let h1 = trackRequiredStartupInstance i (se_stableInstanceId e) (setLaunching True i (noteLaunch (LaunchAttempt i) h)) in
        if \<not> jsHas (dp_sequences (hs_dispatch h1)) (se_sequenceId e) \<or> nameConflict (se_config e) h1 then launchFailed i h1
        else (case startConfiguredSequence env (se_sequenceId e) (se_stableInstanceId e) (se_config e) h1 of
            (h2, run) \<Rightarrow> h2\<lparr>hs_launches := hs_launches h2 @ [(i, run, initial)]\<rparr>)))"

text \<open>What the awaited \<open>startRunner\<close> settled with; \<open>None\<close> while it has not.\<close>

definition runResult :: "startup_host \<Rightarrow> nat \<Rightarrow> start_result option" where
  "runResult h run = (if run < length (dp_runs (hs_dispatch h))
     then (case sr_phase (dp_runs (hs_dispatch h) ! run) of StartDone r \<Rightarrow> Some r | _ \<Rightarrow> None) else None)"

definition removeNth :: "nat \<Rightarrow> 'a list \<Rightarrow> 'a list" where
  "removeNth n xs = take n xs @ drop (Suc n) xs"

definition resumeLaunch :: "nat \<Rightarrow> startup_host \<Rightarrow> startup_host" where
  "resumeLaunch n h =
    (if n < length (hs_launches h) then
       (case hs_launches h ! n of (i, run, initial) \<Rightarrow>
         (case runResult h run of
            None \<Rightarrow> h
          | Some r \<Rightarrow>
              (let h1 = h\<lparr>hs_launches := removeNth n (hs_launches h)\<rparr> in
               if r = Started then setLaunching False i (trackRequiredStartupInstance i (sr_id (dp_runs (hs_dispatch h) ! run)) h1)
               else launchFailed i h1)))
     else h)"

definition runImmediate :: "startup_env \<Rightarrow> startup_host \<Rightarrow> startup_host" where
  "runImmediate env h = (case hs_immediates h of
      [] \<Rightarrow> h
    | i # is \<Rightarrow> launchRequiredStartupEntry env False i (h\<lparr>hs_immediates := is\<rparr>))"

section \<open>Events of the dispatcher\<close>

definition handleRequiredStartupInstanceExit :: "string \<Rightarrow> startup_host \<Rightarrow> startup_host" where
  "handleRequiredStartupInstanceExit iid h =
    (if hs_stopping h then h
     else (case takeRequiredStartupEntryByInstanceId iid h of
         (h1, None) \<Rightarrow> h1
       | (h1, Some i) \<Rightarrow> handleRequiredStartupFailure i h1))"

definition onStore :: "(instances_store \<Rightarrow> instances_store) \<Rightarrow> startup_host \<Rightarrow> startup_host" where
  "onStore f h = h\<lparr>hs_dispatch := (hs_dispatch h)\<lparr>dp_store := f (dp_store (hs_dispatch h))\<rparr>\<rparr>"

text \<open>\<open>expose\<close> and \<open>name\<close> are what the registered controller holds then.\<close>

definition cleanupRequiredStartupInstance :: "string \<Rightarrow> string option \<Rightarrow> string option \<Rightarrow> startup_host \<Rightarrow> startup_host" where
  "cleanupRequiredStartupInstance iid expose name h =
    (if \<not> jsHas (hs_byInstance h) iid \<or> \<not> jsHas (is_map (dp_store (hs_dispatch h))) iid then h
     else onStore (\<lambda>s.
        let s1 = (case truthyString expose of Some p \<Rightarrow> unregisterRpc s p iid | None \<Rightarrow> s);
            s2 = (case truthyString name of Some n \<Rightarrow> unregisterName s1 n iid | None \<Rightarrow> s1)
        in fst (deleteInstance s2 iid)) h)"

definition registeredOwner :: "instance_owner \<Rightarrow> startup_host \<Rightarrow> bool" where
  "registeredOwner owner h \<longleftrightarrow> jsGet (is_map (dp_store (hs_dispatch h))) (io_id owner) = Some owner"

text \<open>The handler of \<open>end\<close> up to its \<open>await\<close>; the rest is an entry of \<open>hs_exits\<close>.\<close>

definition handleDispatcherEndEvent :: "instance_owner \<Rightarrow> string option \<Rightarrow> string option \<Rightarrow> startup_host \<Rightarrow> startup_host" where
  "handleDispatcherEndEvent owner expose name h =
    (if \<not> registeredOwner owner h then h
     else (let h1 = cleanupRequiredStartupInstance (io_id owner) expose name h in h1\<lparr>hs_exits := hs_exits h1 @ [io_id owner]\<rparr>))"

definition handleDispatcherTerminatedEvent :: "instance_owner \<Rightarrow> string option \<Rightarrow> string option \<Rightarrow> startup_host \<Rightarrow> startup_host" where
  "handleDispatcherTerminatedEvent owner expose name h =
    (if \<not> registeredOwner owner h then h
     else handleRequiredStartupInstanceExit (io_id owner)
       (cleanupRequiredStartupInstance (io_id owner) expose name (onStore (\<lambda>s. fst (removeManifest s owner InstanceEnded)) h)))"

text \<open>The dispatcher emits \<open>end\<close> first and then takes the instance out of its own stores.\<close>

definition instanceEnded :: "instance_owner \<Rightarrow> string \<Rightarrow> string option \<Rightarrow> string option \<Rightarrow> startup_host \<Rightarrow> startup_host" where
  "instanceEnded owner seqId expose name h =
    (let h1 = handleDispatcherEndEvent owner expose name h in h1\<lparr>hs_dispatch := onEnd owner seqId (hs_dispatch h1)\<rparr>)"

definition exitHandled :: "nat \<Rightarrow> startup_host \<Rightarrow> startup_host" where
  "exitHandled n h = (if n < length (hs_exits h)
     then handleRequiredStartupInstanceExit (hs_exits h ! n) (h\<lparr>hs_exits := removeNth n (hs_exits h)\<rparr>) else h)"

section \<open>Startup\<close>

definition sequenceByNameOrId :: "startup_env \<Rightarrow> startup_host \<Rightarrow> string \<Rightarrow> string option" where
  "sequenceByNameOrId env h token =
    (let seqs = dp_sequences (hs_dispatch h) in
     if jsHas seqs token then Some token else List.find (\<lambda>sid. en_seqName env sid = Some token) (map fst seqs))"

definition resolveStartupSequence :: "startup_env \<Rightarrow> start_config \<Rightarrow> startup_host \<Rightarrow> unit + string option" where
  "resolveStartupSequence env c h = (case sequenceByNameOrId env h (sc_id c) of
      None \<Rightarrow> Inr None
    | Some sid \<Rightarrow> (case truthyString (sc_sequenceName c) of
        None \<Rightarrow> Inr (Some sid)
      | Some n \<Rightarrow> (case sequenceByNameOrId env h n of
          None \<Rightarrow> Inl ()
        | Some sid' \<Rightarrow> if sid' \<noteq> sid then Inl () else Inr (Some sid))))"

text \<open>\<open>restartLimit ?? 0\<close>\<close>

definition restartLimitOf :: "start_config \<Rightarrow> nat" where
  "restartLimitOf c = (case sc_restartLimit c of Some n \<Rightarrow> n | None \<Rightarrow> 0)"

definition createRequiredStartupEntry :: "startup_env \<Rightarrow> string \<Rightarrow> start_config \<Rightarrow> nat \<Rightarrow> startup_entry" where
  "createRequiredStartupEntry env sid c index =
    \<lparr>se_key = requiredKey c sid index, se_sequenceId = sid, se_config = c,
     se_restartAttemptsRemaining = restartLimitOf c,
     se_stableInstanceId = orElse (truthyString (sc_instanceId c)) (en_generate env index),
     se_currentInstanceId = None, se_launching = False\<rparr>"

definition failStartup :: "startup_host \<Rightarrow> startup_host" where
  "failStartup h = h\<lparr>hs_startupFailed := True\<rparr>"

text \<open>The mapper of \<open>performStartup\<close> on one entry, up to the \<open>await\<close> of its start.\<close>

definition startEntry :: "startup_env \<Rightarrow> nat \<Rightarrow> startup_host \<Rightarrow> startup_host" where
  "startEntry env i h =
    (let c = en_config env ! i in
     case resolveStartupSequence env c h of
       Inl _ \<Rightarrow> failStartup h
     | Inr found \<Rightarrow>
        (let h1 = (if sc_required c then declareSequence i (case found of Some sid \<Rightarrow> Some sid | None \<Rightarrow>
               (case jsGet (hs_declared h) i of Some (x, _) \<Rightarrow> x | None \<Rightarrow> None)) h else h) in
         case found of
           None \<Rightarrow> h1
         | Some sid \<Rightarrow>
             if nameConflict c h1 then failStartup h1
             else if sc_required c then
               (let e = createRequiredStartupEntry env sid c i;
                    h2 = declareInstance i (Some (se_stableInstanceId e)) h1
                in launchRequiredStartupEntry env True i
                     (h2\<lparr>hs_entries := jsSet (hs_entries h2) (se_key e) i, hs_objects := jsSet (hs_objects h2) i e\<rparr>))
             else (case startConfiguredSequence env sid (orElse (truthyString (sc_instanceId c)) (en_generate env i)) c h1 of
                 (h2, run) \<Rightarrow> h2\<lparr>hs_starts := hs_starts h2 @ [run]\<rparr>)))"

definition mapEntry :: "startup_env \<Rightarrow> nat \<Rightarrow> startup_host \<Rightarrow> startup_host" where
  "mapEntry env i h =
    (if i < length (en_config env) \<and> i \<notin> set (hs_mapped h) then startEntry env i (h\<lparr>hs_mapped := hs_mapped h @ [i]\<rparr>) else h)"

definition resumeStart :: "nat \<Rightarrow> startup_host \<Rightarrow> startup_host" where
  "resumeStart n h =
    (if n < length (hs_starts h) then
       (case runResult h (hs_starts h ! n) of
          None \<Rightarrow> h
        | Some r \<Rightarrow>
            (let h1 = h\<lparr>hs_starts := removeNth n (hs_starts h)\<rparr> in
             case r of StartFailed _ \<Rightarrow> failStartup h1 | _ \<Rightarrow> h1))
     else h)"

text \<open>The end of \<open>performStartup\<close> and of \<open>startOwnedResources\<close>.\<close>

definition finishStartup :: "startup_env \<Rightarrow> startup_host \<Rightarrow> startup_host" where
  "finishStartup env h =
    (if \<not> hs_startupFailed h \<and> set [0..<length (en_config env)] \<subseteq> set (hs_mapped h) \<and> hs_starts h = [] \<and>
        list_all (\<lambda>(_, _, initial). \<not> initial) (hs_launches h)
     then h\<lparr>hs_startupReady := True, hs_lifecycle := HubRunning\<rparr> else h)"

section \<open>Stopping\<close>

definition runStop :: "startup_host \<Rightarrow> startup_host" where
  "runStop h = (case hs_stopTasks h of
      [] \<Rightarrow> h
    | s # ss \<Rightarrow>
       (let h1 = h\<lparr>hs_stopTasks := ss, hs_exitCode := Some s\<rparr> in
        if hs_stopping h1 then h1 else h1\<lparr>hs_stopping := True, hs_lifecycle := HubStopping\<rparr>))"

definition cleanupHost :: "startup_host \<Rightarrow> startup_host" where
  "cleanupHost h = (case hs_cleanup h of
      NotCleaning \<Rightarrow>
        if hs_stopping h \<or> hs_startupFailed h
        then h\<lparr>hs_cleanup := CleaningResources, hs_lifecycle := (if hs_lifecycle h \<noteq> HubStopping then HubFailed else HubStopping)\<rparr> else h
    | CleaningResources \<Rightarrow> h\<lparr>hs_cleanup := CleaningConnector, hs_dispatch := (hs_dispatch h)\<lparr>dp_store := newInstancesStore True True, dp_sequences := []\<rparr>\<rparr>
    | CleaningConnector \<Rightarrow> h\<lparr>hs_cleanup := CleanedUp, hs_lifecycle := HubStopped\<rparr>
    | CleanedUp \<Rightarrow> h)"

datatype host_event =
    MapEntry nat
  | ResumeLaunch nat
  | ResumeStart nat
  | RunImmediate
  | FinishStartup
  | OwnerEnded instance_owner string "string option" "string option"
  | OwnerTerminated instance_owner "string option" "string option"
  | ExitHandled nat
  | StopRequested int
  | RunStop
  | CleanupHost
  | Dispatch dispatch_event

definition hostStep :: "startup_env \<Rightarrow> startup_host \<Rightarrow> host_event \<Rightarrow> startup_host" where
  "hostStep env h ev = (case ev of
      MapEntry i \<Rightarrow> mapEntry env i h
    | ResumeLaunch n \<Rightarrow> resumeLaunch n h
    | ResumeStart n \<Rightarrow> resumeStart n h
    | RunImmediate \<Rightarrow> runImmediate env h
    | FinishStartup \<Rightarrow> finishStartup env h
    | OwnerEnded owner seqId expose name \<Rightarrow> instanceEnded owner seqId expose name h
    | OwnerTerminated owner expose name \<Rightarrow> handleDispatcherTerminatedEvent owner expose name h
    | ExitHandled n \<Rightarrow> exitHandled n h
    | StopRequested signal \<Rightarrow> performStop signal h
    | RunStop \<Rightarrow> runStop h
    | CleanupHost \<Rightarrow> cleanupHost h
    | Dispatch e \<Rightarrow> h\<lparr>hs_dispatch := (case e of InstanceEnd _ _ \<Rightarrow> hs_dispatch h | _ \<Rightarrow> dispatchStep (hs_dispatch h) e)\<rparr>)"

text \<open>The host when \<open>performStartup\<close> has validated the manifest and declared the required entries.\<close>

definition newStartupHost :: "startup_env \<Rightarrow> (string, string list) jsmap \<Rightarrow> startup_host" where
  "newStartupHost env sequences =
    \<lparr>hs_dispatch = newDispatcher sequences, hs_entries = [], hs_objects = [], hs_byInstance = [],
     hs_declared = map (\<lambda>i. (i, (None, None))) (filter (\<lambda>i. sc_required (en_config env ! i)) [0..<length (en_config env)]),
     hs_mapped = [], hs_launches = [], hs_starts = [], hs_immediates = [], hs_exits = [], hs_stopTasks = [],
     hs_stopping = False, hs_exitCode = None, hs_startupFailed = False, hs_startupReady = False,
     hs_lifecycle = HubStarting, hs_cleanup = NotCleaning, hs_log = []\<rparr>"

section \<open>Accounts of restarts\<close>

lemma entryOf_update [simp]: "entryOf (updateEntry j f h) i = (if i = j then f (entryOf h i) else entryOf h i)"
  by (auto simp: entryOf_def updateEntry_def js_simps)

lemma entryOf_fields [simp]:
  "entryOf (h\<lparr>hs_dispatch := a\<rparr>) i = entryOf h i" "entryOf (h\<lparr>hs_byInstance := b\<rparr>) i = entryOf h i"
  "entryOf (h\<lparr>hs_declared := c\<rparr>) i = entryOf h i" "entryOf (h\<lparr>hs_mapped := d\<rparr>) i = entryOf h i"
  "entryOf (h\<lparr>hs_launches := e\<rparr>) i = entryOf h i" "entryOf (h\<lparr>hs_immediates := f\<rparr>) i = entryOf h i"
  "entryOf (h\<lparr>hs_exits := g\<rparr>) i = entryOf h i" "entryOf (h\<lparr>hs_stopTasks := k\<rparr>) i = entryOf h i"
  "entryOf (h\<lparr>hs_log := l\<rparr>) i = entryOf h i" "entryOf (h\<lparr>hs_entries := m\<rparr>) i = entryOf h i"
  "entryOf (h\<lparr>hs_starts := n\<rparr>) i = entryOf h i" "entryOf (h\<lparr>hs_objects := q\<rparr>) i = the (jsGet q i)"
  by (simp_all add: entryOf_def)

text \<open>What a step other than a launch leaves alone.\<close>

definition launchesOf :: "nat \<Rightarrow> startup_host \<Rightarrow> nat" where
  "launchesOf i h = count_list (hs_log h) (LaunchAttempt i)"

definition dropsOf :: "nat \<Rightarrow> startup_host \<Rightarrow> nat" where
  "dropsOf i h = count_list (hs_log h) (LaunchDropped i)"

definition queuedOf :: "nat \<Rightarrow> startup_host \<Rightarrow> nat" where
  "queuedOf i h = count_list (hs_immediates h) i"

definition grantedOf :: "nat \<Rightarrow> startup_host \<Rightarrow> nat" where
  "grantedOf i h = launchesOf i h + dropsOf i h + queuedOf i h + se_restartAttemptsRemaining (entryOf h i)"

definition sameEntry :: "startup_entry \<Rightarrow> startup_entry \<Rightarrow> bool" where
  "sameEntry e f \<longleftrightarrow> se_key e = se_key f \<and> se_config e = se_config f \<and> se_stableInstanceId e = se_stableInstanceId f"

definition failFastOk :: "startup_host \<Rightarrow> bool" where
  "failFastOk h \<longleftrightarrow> (\<forall>i. FailFast i \<in> set (hs_log h) \<longrightarrow> se_restartAttemptsRemaining (entryOf h i) = 0)"

text \<open>From \<open>h\<close> to \<open>h'\<close> the known entries with their granted launches are the same, but for \<open>n\<close> more of entry \<open>j\<close>.\<close>

fun noteEntry :: "launch_note \<Rightarrow> nat" where
  "noteEntry (LaunchAttempt i) = i"
| "noteEntry (LaunchDropped i) = i"
| "noteEntry (FailFast i) = i"

definition grants :: "startup_host \<Rightarrow> startup_host \<Rightarrow> (nat \<Rightarrow> nat) \<Rightarrow> bool" where
  "grants h h' extra \<longleftrightarrow> dom (jsGet (hs_objects h')) = dom (jsGet (hs_objects h)) \<and>
    (\<forall>i. sameEntry (entryOf h' i) (entryOf h i)) \<and> (\<forall>i. grantedOf i h' = grantedOf i h + extra i) \<and>
    hs_entries h' = hs_entries h \<and> hs_mapped h' = hs_mapped h \<and> set (hs_immediates h') \<subseteq> dom (jsGet (hs_objects h)) \<union> set (hs_immediates h) \<and>
    fst ` set (hs_launches h') \<subseteq> dom (jsGet (hs_objects h)) \<union> fst ` set (hs_launches h) \<and>
    noteEntry ` set (hs_log h') \<subseteq> dom (jsGet (hs_objects h)) \<union> noteEntry ` set (hs_log h) \<and>
    (failFastOk h \<longrightarrow> failFastOk h')"

definition keeps_grants :: "startup_host \<Rightarrow> startup_host \<Rightarrow> bool" where
  "keeps_grants h h' \<longleftrightarrow> grants h h' (\<lambda>_. 0)"

lemma keeps_refl [simp]: "keeps_grants h h"
  by (simp add: keeps_grants_def grants_def sameEntry_def)

lemma sameEntry_trans: "sameEntry e f \<Longrightarrow> sameEntry f g \<Longrightarrow> sameEntry e g"
  by (simp add: sameEntry_def)

lemma grantsD:
  assumes "grants h h' extra"
  shows "dom (jsGet (hs_objects h')) = dom (jsGet (hs_objects h))" and "hs_entries h' = hs_entries h" and "hs_mapped h' = hs_mapped h"
    and "set (hs_immediates h') \<subseteq> dom (jsGet (hs_objects h)) \<union> set (hs_immediates h)"
    and "fst ` set (hs_launches h') \<subseteq> dom (jsGet (hs_objects h)) \<union> fst ` set (hs_launches h)"
    and "failFastOk h \<longrightarrow> failFastOk h'"
    and "noteEntry ` set (hs_log h') \<subseteq> dom (jsGet (hs_objects h)) \<union> noteEntry ` set (hs_log h)"
proof -
  note a = assms [unfolded grants_def]
  note b = a [THEN conjunct2, THEN conjunct2, THEN conjunct2]
  note c = b [THEN conjunct2, THEN conjunct2]
  show "dom (jsGet (hs_objects h')) = dom (jsGet (hs_objects h))" by (rule a [THEN conjunct1])
  show "hs_entries h' = hs_entries h" by (rule b [THEN conjunct1])
  show "hs_mapped h' = hs_mapped h" by (rule b [THEN conjunct2, THEN conjunct1])
  show "set (hs_immediates h') \<subseteq> dom (jsGet (hs_objects h)) \<union> set (hs_immediates h)" by (rule c [THEN conjunct1])
  show "fst ` set (hs_launches h') \<subseteq> dom (jsGet (hs_objects h)) \<union> fst ` set (hs_launches h)" by (rule c [THEN conjunct2, THEN conjunct1])
  show "failFastOk h \<longrightarrow> failFastOk h'" by (rule c [THEN conjunct2, THEN conjunct2, THEN conjunct2])
  show "noteEntry ` set (hs_log h') \<subseteq> dom (jsGet (hs_objects h)) \<union> noteEntry ` set (hs_log h)" by (rule c [THEN conjunct2, THEN conjunct2, THEN conjunct1])
qed

lemma grants_trans:
  assumes "grants h h1 m" and "grants h1 h2 n"
  shows "grants h h2 (\<lambda>i. m i + n i)"
  unfolding grants_def
proof (intro conjI allI)
  show "sameEntry (entryOf h2 i) (entryOf h i)" for i
  proof (rule sameEntry_trans)
    show "sameEntry (entryOf h2 i) (entryOf h1 i)" "sameEntry (entryOf h1 i) (entryOf h i)" using assms by (simp_all add: grants_def)
  qed
  show "grantedOf i h2 = grantedOf i h + (m i + n i)" for i
    using assms by (simp add: grants_def)
  note a = grantsD [OF assms(1)] and b = grantsD [OF assms(2)]
  show "dom (jsGet (hs_objects h2)) = dom (jsGet (hs_objects h))" by (rule trans [OF b(1) a(1)])
  show "hs_entries h2 = hs_entries h" by (rule trans [OF b(2) a(2)])
  show "hs_mapped h2 = hs_mapped h" by (rule trans [OF b(3) a(3)])
  show "set (hs_immediates h2) \<subseteq> dom (jsGet (hs_objects h)) \<union> set (hs_immediates h)" by (rule subset_trans [OF b(4)]) (simp add: a(1) a(4))
  show "fst ` set (hs_launches h2) \<subseteq> dom (jsGet (hs_objects h)) \<union> fst ` set (hs_launches h)" by (rule subset_trans [OF b(5)]) (simp add: a(1) a(5))
  show "noteEntry ` set (hs_log h2) \<subseteq> dom (jsGet (hs_objects h)) \<union> noteEntry ` set (hs_log h)"
    by (rule subset_trans [OF b(7)]) (simp add: a(1) a(7))
  show "failFastOk h \<longrightarrow> failFastOk h2" using a(6) b(6) by blast
qed

lemma keeps_then: "keeps_grants h h1 \<Longrightarrow> grants h1 h2 n \<Longrightarrow> grants h h2 n"
  using grants_trans [of h h1 "\<lambda>_. 0" h2 n] by (simp add: keeps_grants_def)

lemma then_keeps: "grants h h1 n \<Longrightarrow> keeps_grants h1 h2 \<Longrightarrow> grants h h2 n"
  using grants_trans [of h h1 n h2 "\<lambda>_. 0"] by (simp add: keeps_grants_def)

lemma keeps_trans [trans]: "keeps_grants h h1 \<Longrightarrow> keeps_grants h1 h2 \<Longrightarrow> keeps_grants h h2"
  unfolding keeps_grants_def [of h h2] by (rule keeps_then) (simp_all add: keeps_grants_def)

lemmas account_defs = grantedOf_def launchesOf_def dropsOf_def queuedOf_def

lemma keeps_fields:
  "keeps_grants h (h\<lparr>hs_dispatch := a\<rparr>)" "keeps_grants h (h\<lparr>hs_byInstance := b\<rparr>)"
  "keeps_grants h (h\<lparr>hs_declared := c\<rparr>)" "keeps_grants h (h\<lparr>hs_exits := g\<rparr>)"
  "keeps_grants h (h\<lparr>hs_stopTasks := k\<rparr>)" "keeps_grants h (h\<lparr>hs_starts := n\<rparr>)"
  "keeps_grants h (h\<lparr>hs_startupFailed := q\<rparr>)"
  by (simp_all add: keeps_grants_def grants_def sameEntry_def account_defs failFastOk_def entryOf_def)

lemma keeps_update:
  assumes "i \<in> dom (jsGet (hs_objects h))" and "sameEntry (f (entryOf h i)) (entryOf h i)"
    and "se_restartAttemptsRemaining (f (entryOf h i)) = se_restartAttemptsRemaining (entryOf h i)"
  shows "keeps_grants h (updateEntry i f h)"
proof -
  have "dom (jsGet (hs_objects (updateEntry i f h))) = dom (jsGet (hs_objects h))"
    using assms(1) by (auto simp: updateEntry_def js_simps split: if_splits)
  moreover have "hs_log (updateEntry i f h) = hs_log h" "hs_immediates (updateEntry i f h) = hs_immediates h" "hs_entries (updateEntry i f h) = hs_entries h"
    "hs_mapped (updateEntry i f h) = hs_mapped h" "hs_launches (updateEntry i f h) = hs_launches h"
    by (simp_all add: updateEntry_def)
  ultimately show ?thesis using assms(2,3) by (simp add: keeps_grants_def grants_def account_defs failFastOk_def sameEntry_def)
qed

lemma keeps_declare: "keeps_grants h (declareInstance i x h)"
  by (auto simp: declareInstance_def keeps_fields split: option.split)

lemma keeps_clear: "i \<in> dom (jsGet (hs_objects h)) \<Longrightarrow> keeps_grants h (clearRequiredStartupInstanceTracking i h)"
proof (cases "truthyString (se_currentInstanceId (entryOf h i))")
  case (Some iid)
  assume i: "i \<in> dom (jsGet (hs_objects h))"
  let ?h = "h\<lparr>hs_byInstance := jsDelete (hs_byInstance h) iid\<rparr>"
  have "keeps_grants h ?h" by (rule keeps_fields)
  also have "keeps_grants ?h (updateEntry i (se_currentInstanceId_update (\<lambda>_. None)) ?h)"
    by (rule keeps_update) (use i in \<open>simp_all add: sameEntry_def\<close>)
  also have "keeps_grants \<dots> (declareInstance i None \<dots>)" by (rule keeps_declare)
  finally show ?thesis by (simp add: clearRequiredStartupInstanceTracking_def Some)
qed (simp add: clearRequiredStartupInstanceTracking_def)

lemma keeps_track:
  assumes i: "i \<in> dom (jsGet (hs_objects h))"
  shows "keeps_grants h (trackRequiredStartupInstance i iid h)"
proof -
  let ?h1 = "case truthyString (se_currentInstanceId (entryOf h i)) of
         Some old \<Rightarrow> h\<lparr>hs_byInstance := jsDelete (hs_byInstance h) old\<rparr> | None \<Rightarrow> h"
  let ?h2 = "updateEntry i (se_currentInstanceId_update (\<lambda>_. Some iid)) ?h1"
  have o: "hs_objects ?h1 = hs_objects h" by (simp split: option.split)
  have "keeps_grants h ?h1" by (auto simp: keeps_fields split: option.split)
  also have "keeps_grants ?h1 ?h2" by (rule keeps_update) (use i in \<open>simp_all add: sameEntry_def o\<close>)
  also have "keeps_grants ?h2 (?h2\<lparr>hs_byInstance := jsSet (hs_byInstance ?h2) iid (se_key (entryOf h i))\<rparr>)" by (rule keeps_fields)
  also have "keeps_grants \<dots> (declareInstance i (Some iid) \<dots>)" by (rule keeps_declare)
  finally show ?thesis by (simp add: trackRequiredStartupInstance_def Let_def)
qed

lemma keeps_launching: "i \<in> dom (jsGet (hs_objects h)) \<Longrightarrow> keeps_grants h (setLaunching b i h)"
  unfolding setLaunching_def by (rule keeps_update) (simp_all add: sameEntry_def)

lemma keeps_stop: "keeps_grants h (performStop s h)"
  by (simp add: performStop_def keeps_fields)

lemma keeps_failure:
  assumes i: "i \<in> dom (jsGet (hs_objects h))"
  shows "keeps_grants h (handleRequiredStartupFailure i h)"
proof -
  let ?d = "se_restartAttemptsRemaining_update (\<lambda>n. n - 1)"
  let ?q = "(updateEntry i ?d h)\<lparr>hs_immediates := hs_immediates (updateEntry i ?d h) @ [i]\<rparr>"
  have "keeps_grants h ?q" if r: "se_restartAttemptsRemaining (entryOf h i) > 0"
  proof -
    have "hs_log ?q = hs_log h" "hs_immediates ?q = hs_immediates h @ [i]" "hs_entries ?q = hs_entries h"
      "hs_mapped ?q = hs_mapped h" "hs_launches ?q = hs_launches h" "dom (jsGet (hs_objects ?q)) = dom (jsGet (hs_objects h))"
      using i by (auto simp: updateEntry_def js_simps split: if_splits)
    then show ?thesis using i r by (auto simp: keeps_grants_def grants_def account_defs failFastOk_def sameEntry_def)
  qed
  moreover have "keeps_grants h (noteLaunch (FailFast i) h)" if "se_restartAttemptsRemaining (entryOf h i) = 0"
    using that i by (auto simp: keeps_grants_def grants_def account_defs failFastOk_def sameEntry_def noteLaunch_def)
  ultimately show ?thesis
    by (auto simp: handleRequiredStartupFailure_def Let_def intro: keeps_trans [OF _ keeps_stop])
qed

lemma keeps_known: "keeps_grants h h1 \<Longrightarrow> dom (jsGet (hs_objects h1)) = dom (jsGet (hs_objects h))"
  by (simp add: keeps_grants_def grants_def)

lemma keeps_failed:
  assumes i: "i \<in> dom (jsGet (hs_objects h))"
  shows "keeps_grants h (launchFailed i h)"
proof -
  note a = keeps_clear [OF i]
  have b: "keeps_grants h (handleRequiredStartupFailure i (clearRequiredStartupInstanceTracking i h))"
    by (rule keeps_trans [OF a keeps_failure]) (use i keeps_known [OF a] in blast)
  show ?thesis unfolding launchFailed_def
    by (rule keeps_trans [OF b keeps_launching]) (use i keeps_known [OF b] in blast)
qed

lemma keeps_take:
  assumes "\<And>key i. jsGet (hs_entries h) key = Some i \<Longrightarrow> i \<in> dom (jsGet (hs_objects h))"
  shows "keeps_grants h (fst (takeRequiredStartupEntryByInstanceId iid h))"
    and "snd (takeRequiredStartupEntryByInstanceId iid h) = Some i \<Longrightarrow> i \<in> dom (jsGet (hs_objects h))"
proof -
  let ?h = "h\<lparr>hs_byInstance := jsDelete (hs_byInstance h) iid\<rparr>"
  have b: "keeps_grants h ?h" by (rule keeps_fields)
  have "keeps_grants h (declareInstance i None (updateEntry i (se_currentInstanceId_update (\<lambda>_. None)) ?h))" if "jsGet (hs_entries h) key = Some i" for key i
    by (rule keeps_trans [OF keeps_trans [OF b keeps_update] keeps_declare]) (use assms [OF that] in \<open>simp_all add: sameEntry_def\<close>)
  then show "keeps_grants h (fst (takeRequiredStartupEntryByInstanceId iid h))"
    using b by (auto simp: takeRequiredStartupEntryByInstanceId_def Let_def split: option.split)
  show "snd (takeRequiredStartupEntryByInstanceId iid h) = Some i \<Longrightarrow> i \<in> dom (jsGet (hs_objects h))"
    using assms by (auto simp: takeRequiredStartupEntryByInstanceId_def Let_def split: option.splits)
qed

lemma keeps_exit:
  assumes "\<And>key i. jsGet (hs_entries h) key = Some i \<Longrightarrow> i \<in> dom (jsGet (hs_objects h))"
  shows "keeps_grants h (handleRequiredStartupInstanceExit iid h)"
proof (cases "takeRequiredStartupEntryByInstanceId iid h")
  case (Pair h1 o')
  note t = keeps_take [where h = h and iid = iid, unfolded Pair, OF assms]
  have "keeps_grants h (handleRequiredStartupFailure i h1)" if "o' = Some i" for i
    by (rule keeps_trans [OF _ keeps_failure]) (use t that keeps_known [of h h1] in auto)
  then show ?thesis using t(1) by (auto simp: handleRequiredStartupInstanceExit_def Pair split: option.split)
qed

lemma note_grants:
  assumes i: "i \<in> dom (jsGet (hs_objects h))" and x: "x = LaunchAttempt i \<or> x = LaunchDropped i"
  shows "grants h (noteLaunch x h) (\<lambda>j. if j = i then 1 else 0)"
  using assms by (auto simp: grants_def account_defs failFastOk_def sameEntry_def noteLaunch_def)

lemma launch_grants:
  assumes i: "i \<in> dom (jsGet (hs_objects h))"
  shows "grants h (launchRequiredStartupEntry env initial i h) (\<lambda>j. if j = i then 1 else 0)"
proof (cases "hs_stopping h \<or> se_launching (entryOf h i)")
  case True
  then show ?thesis using note_grants [OF i] by (simp add: launchRequiredStartupEntry_def)
next
  case False
  let ?e = "entryOf h i"
  let ?h0 = "noteLaunch (LaunchAttempt i) h"
  let ?h1 = "trackRequiredStartupInstance i (se_stableInstanceId ?e) (setLaunching True i ?h0)"
  have g0: "grants h ?h0 (\<lambda>j. if j = i then 1 else 0)" by (rule note_grants [OF i]) simp
  have i0: "i \<in> dom (jsGet (hs_objects ?h0))" using i grantsD(1) [OF g0] by blast
  note g1 = keeps_launching [OF i0, of True]
  have i1: "i \<in> dom (jsGet (hs_objects (setLaunching True i ?h0)))" using i0 keeps_known [OF g1] by blast
  note g2 = keeps_trans [OF g1 keeps_track [OF i1, of "se_stableInstanceId ?e"]]
  have i2: "i \<in> dom (jsGet (hs_objects ?h1))" using i0 keeps_known [OF g2] by blast
  have started: "keeps_grants ?h1 (h2\<lparr>hs_launches := hs_launches h2 @ [(i, run, initial)]\<rparr>)"
    if "startConfiguredSequence env sid iid c ?h1 = (h2, run)" for sid iid c h2 run
  proof -
    have h2: "h2 = ?h1\<lparr>hs_dispatch := dispatchStep (hs_dispatch ?h1) (StartRunner iid (sc_instanceName c) (en_entrypoint env sid))\<rparr>"
      using that by (simp add: startConfiguredSequence_def)
    have o: "hs_objects h2 = hs_objects ?h1" by (simp add: h2)
    have "keeps_grants ?h1 h2" unfolding h2 by (rule keeps_fields)
    also have "keeps_grants h2 (h2\<lparr>hs_launches := hs_launches h2 @ [(i, run, initial)]\<rparr>)"
      using i2 unfolding o [symmetric] by (auto simp: keeps_grants_def grants_def sameEntry_def account_defs failFastOk_def)
    finally show ?thesis .
  qed
  have "keeps_grants ?h1 (launchRequiredStartupEntry env initial i h)"
    using False started keeps_failed [OF i2] by (auto simp: launchRequiredStartupEntry_def Let_def split: prod.split)
  then show ?thesis using then_keeps [OF then_keeps [OF g0 g2]] by blast
qed

lemma count_take_drop: "n < length xs \<Longrightarrow> count_list (removeNth n xs) x = count_list xs x - (if xs ! n = x then 1 else 0)"
  by (subst (2) id_take_nth_drop [of n xs]) (simp_all add: removeNth_def)

lemma set_removeNth: "set (removeNth n xs) \<subseteq> set xs"
  by (auto simp: removeNth_def dest: in_set_takeD in_set_dropD)

text \<open>The invariant; \<open>fresh\<close> is an entry that was created and not launched yet.\<close>

definition restarts_ok :: "startup_env \<Rightarrow> nat option \<Rightarrow> startup_host \<Rightarrow> bool" where
  "restarts_ok env fresh h \<longleftrightarrow>
    (\<forall>key i. jsGet (hs_entries h) key = Some i \<longrightarrow> i \<in> dom (jsGet (hs_objects h))) \<and>
    (\<forall>i \<in> dom (jsGet (hs_objects h)). i \<in> set (hs_mapped h) \<and> se_config (entryOf h i) = en_config env ! i \<and>
      grantedOf i h + (if fresh = Some i then 1 else 0) = Suc (restartLimitOf (en_config env ! i))) \<and>
    set (hs_immediates h) \<subseteq> dom (jsGet (hs_objects h)) \<and> fst ` set (hs_launches h) \<subseteq> dom (jsGet (hs_objects h)) \<and>
    noteEntry ` set (hs_log h) \<subseteq> dom (jsGet (hs_objects h)) \<and> failFastOk h"

lemma restarts_grants:
  assumes ok: "restarts_ok env fresh h" and g: "grants h h' (\<lambda>j. if fresh = Some j then 1 else 0)"
  shows "restarts_ok env None h'"
proof -
  note d = grantsD [OF g]
  have e: "sameEntry (entryOf h' i) (entryOf h i)" "grantedOf i h' = grantedOf i h + (if fresh = Some i then 1 else 0)" for i
    using g by (simp_all add: grants_def)
  have c: "se_config (entryOf h' i) = se_config (entryOf h i)" for i using e(1) by (simp add: sameEntry_def)
  note a = ok [unfolded restarts_ok_def]
  show ?thesis unfolding restarts_ok_def d(1-3) c e(2)
  proof (intro conjI)
    show "failFastOk h'" using a d(6) by simp
    show "set (hs_immediates h') \<subseteq> dom (jsGet (hs_objects h))" by (rule subset_trans [OF d(4)]) (use a in simp)
    show "fst ` set (hs_launches h') \<subseteq> dom (jsGet (hs_objects h))" by (rule subset_trans [OF d(5)]) (use a in simp)
    show "noteEntry ` set (hs_log h') \<subseteq> dom (jsGet (hs_objects h))" by (rule subset_trans [OF d(7)]) (use a in simp)
  qed (use a in auto)
qed

lemma restarts_launch:
  assumes ok: "restarts_ok env (Some i) h" and i: "i \<in> dom (jsGet (hs_objects h))"
  shows "restarts_ok env None (launchRequiredStartupEntry env initial i h)"
proof (rule restarts_grants [OF ok])
  have "(\<lambda>j. if j = i then 1 else 0 :: nat) = (\<lambda>j. if Some i = Some j then 1 else 0)" by (rule ext) simp
  then show "grants h (launchRequiredStartupEntry env initial i h) (\<lambda>j. if Some i = Some j then 1 else 0)"
    using launch_grants [OF i, of env initial] by simp
qed

lemma restarts_entries: "restarts_ok env fresh h \<Longrightarrow> jsGet (hs_entries h) key = Some i \<Longrightarrow> i \<in> dom (jsGet (hs_objects h))"
  unfolding restarts_ok_def by (elim conjE) simp

lemma restarts_keeps: "restarts_ok env None h \<Longrightarrow> keeps_grants h h' \<Longrightarrow> restarts_ok env None h'"
  by (rule restarts_grants [of env None h]) (simp_all add: keeps_grants_def)

lemma keeps_more:
  "keeps_grants h (onStore f h)" "keeps_grants h (runStop h)" "keeps_grants h (cleanupHost h)" "keeps_grants h (finishStartup env h)"
  "keeps_grants h (failStartup h)" "keeps_grants h (declareSequence i x h)"
  "keeps_grants h (h\<lparr>hs_launches := removeNth n (hs_launches h)\<rparr>)"
  using set_removeNth [of n "hs_launches h"]
  by (auto simp: onStore_def runStop_def Let_def cleanupHost_def finishStartup_def failStartup_def declareSequence_def
      keeps_grants_def grants_def sameEntry_def account_defs failFastOk_def entryOf_def split: list.split cleanup_phase.split option.split)

lemma keeps_resume:
  assumes "fst ` set (hs_launches h) \<subseteq> dom (jsGet (hs_objects h))"
  shows "keeps_grants h (resumeLaunch n h)"
proof (cases "n < length (hs_launches h)")
  case True
  obtain i run initial where l: "hs_launches h ! n = (i, run, initial)" by (cases "hs_launches h ! n")
  let ?h = "h\<lparr>hs_launches := removeNth n (hs_launches h)\<rparr>"
  have "(i, run, initial) \<in> set (hs_launches h)" using True l by (metis nth_mem)
  then have i: "i \<in> dom (jsGet (hs_objects ?h))" using assms by force
  note b = keeps_more(7) [of h n]
  have t: "keeps_grants ?h (trackRequiredStartupInstance i iid ?h)" for iid by (rule keeps_track [OF i])
  have "keeps_grants ?h (setLaunching False i (trackRequiredStartupInstance i iid ?h))" for iid
    by (rule keeps_trans [OF t keeps_launching]) (use i keeps_known [OF t [of iid]] in blast)
  then have "keeps_grants h (setLaunching False i (trackRequiredStartupInstance i iid ?h))" for iid
    using keeps_trans [OF b] by blast
  moreover have "keeps_grants h (launchFailed i ?h)" by (rule keeps_trans [OF b keeps_failed [OF i]])
  ultimately show ?thesis using True by (simp add: resumeLaunch_def l Let_def split: option.split)
qed (simp add: resumeLaunch_def)

lemma restarts_immediate:
  assumes ok: "restarts_ok env None h"
  shows "restarts_ok env None (runImmediate env h)"
proof (cases "hs_immediates h")
  case Nil
  then show ?thesis using ok by (simp add: runImmediate_def)
next
  case (Cons i rest)
  let ?h = "h\<lparr>hs_immediates := rest\<rparr>"
  note a = ok [unfolded restarts_ok_def]
  have i: "i \<in> dom (jsGet (hs_objects ?h))" using a by (simp add: Cons)
  have "restarts_ok env (Some i) ?h"
    unfolding restarts_ok_def
  proof (intro conjI ballI)
    fix j assume "j \<in> dom (jsGet (hs_objects ?h))"
    then have "grantedOf j h = Suc (restartLimitOf (en_config env ! j))" using a by simp
    then show "grantedOf j ?h + (if Some i = Some j then 1 else 0) = Suc (restartLimitOf (en_config env ! j))"
      by (auto simp: account_defs Cons)
  qed (use a in \<open>simp_all add: Cons failFastOk_def\<close>)
  then show ?thesis using restarts_launch i by (simp add: runImmediate_def Cons)
qed

lemma keeps_cleanup: "keeps_grants h (cleanupRequiredStartupInstance iid expose name h)"
  by (simp add: cleanupRequiredStartupInstance_def keeps_more)

lemma entries_keeps: "keeps_grants h h' \<Longrightarrow> restarts_ok env None h \<Longrightarrow> jsGet (hs_entries h') key = Some i \<Longrightarrow> i \<in> dom (jsGet (hs_objects h'))"
  by (rule restarts_entries [OF restarts_keeps])

lemma keeps_terminated:
  assumes ok: "restarts_ok env None h"
  shows "keeps_grants h (handleDispatcherTerminatedEvent owner expose name h)"
proof -
  let ?h = "cleanupRequiredStartupInstance (io_id owner) expose name (onStore (\<lambda>s. fst (removeManifest s owner InstanceEnded)) h)"
  have c: "keeps_grants h ?h" by (rule keeps_trans [OF keeps_more(1) keeps_cleanup])
  have "keeps_grants h (handleRequiredStartupInstanceExit (io_id owner) ?h)"
    by (rule keeps_trans [OF c keeps_exit]) (rule entries_keeps [OF c ok])
  then show ?thesis by (simp add: handleDispatcherTerminatedEvent_def)
qed

lemma keeps_ended: "keeps_grants h (instanceEnded owner seqId expose name h)"
proof -
  have "keeps_grants h (handleDispatcherEndEvent owner expose name h)"
    by (simp add: handleDispatcherEndEvent_def Let_def keeps_trans [OF keeps_cleanup keeps_fields(4)])
  then show ?thesis by (simp add: instanceEnded_def Let_def keeps_trans [OF _ keeps_fields(1)])
qed

lemma keeps_exitHandled:
  assumes ok: "restarts_ok env None h"
  shows "keeps_grants h (exitHandled n h)"
proof -
  have c: "keeps_grants h (h\<lparr>hs_exits := removeNth n (hs_exits h)\<rparr>)" by (rule keeps_fields)
  have "keeps_grants h (handleRequiredStartupInstanceExit iid (h\<lparr>hs_exits := removeNth n (hs_exits h)\<rparr>))" for iid
    by (rule keeps_trans [OF c keeps_exit]) (rule entries_keeps [OF c ok])
  then show ?thesis by (simp add: exitHandled_def)
qed

lemma restarts_declared:
  assumes ok: "restarts_ok env None h" and i: "i \<notin> dom (jsGet (hs_objects h))" "i \<in> set (hs_mapped h)"
  shows "restarts_ok env (Some i) (h\<lparr>hs_entries := jsSet (hs_entries h) key i,
    hs_objects := jsSet (hs_objects h) i (createRequiredStartupEntry env sid (en_config env ! i) i)\<rparr>)" (is "restarts_ok env _ ?h")
proof -
  note a = ok [unfolded restarts_ok_def]
  have none: "LaunchAttempt i \<notin> set (hs_log h)" "LaunchDropped i \<notin> set (hs_log h)" "FailFast i \<notin> set (hs_log h)" "i \<notin> set (hs_immediates h)"
    using a i by force+
  have obj: "jsGet (hs_objects ?h) j = (if j = i then Some (createRequiredStartupEntry env sid (en_config env ! i) i) else jsGet (hs_objects h) j)" for j
    by (simp add: js_simps)
  have e: "entryOf ?h j = (if j = i then createRequiredStartupEntry env sid (en_config env ! i) i else entryOf h j)" for j
    by (simp add: entryOf_def js_simps)
  have d: "dom (jsGet (hs_objects ?h)) = insert i (dom (jsGet (hs_objects h)))" by (auto simp: js_simps split: if_splits)
  have "grantedOf i ?h = restartLimitOf (en_config env ! i)"
    using none by (simp add: account_defs js_simps createRequiredStartupEntry_def count_list_0_iff)
  moreover have "grantedOf j ?h = grantedOf j h" if "j \<noteq> i" for j using that by (simp add: account_defs js_simps entryOf_def)
  moreover have "failFastOk ?h" using a none by (auto simp: failFastOk_def js_simps entryOf_def)
  moreover have "j \<in> dom (jsGet (hs_objects ?h))" if "jsGet (hs_entries ?h) k = Some j" for k j
    using that a unfolding d by (cases "k = key") (auto simp: js_simps)
  ultimately show ?thesis unfolding restarts_ok_def using a i(2) unfolding d e
    by (auto simp: createRequiredStartupEntry_def)
qed

lemma restarts_map:
  assumes ok: "restarts_ok env None h"
  shows "restarts_ok env None (mapEntry env i h)"
proof (cases "i < length (en_config env) \<and> i \<notin> set (hs_mapped h)")
  case True
  let ?c = "en_config env ! i" and ?h = "h\<lparr>hs_mapped := hs_mapped h @ [i]\<rparr>"
  have ok0: "restarts_ok env None ?h" using ok by (simp add: restarts_ok_def account_defs failFastOk_def)
  have fresh: "i \<notin> dom (jsGet (hs_objects h))" using ok True unfolding restarts_ok_def by blast
  have after: "restarts_ok env None h'" if "keeps_grants ?h h'" for h' using restarts_keeps [OF ok0 that] .
  have fail: "restarts_ok env None (failStartup h')" if "keeps_grants ?h h'" for h'
    by (rule after [OF keeps_trans [OF that keeps_more(5)]])
  have launch: "restarts_ok env None (launchRequiredStartupEntry env True i
        (h'\<lparr>hs_entries := jsSet (hs_entries h') key i, hs_objects := jsSet (hs_objects h') i (createRequiredStartupEntry env sid ?c i)\<rparr>))"
    if k: "keeps_grants ?h h'" for h' sid key
  proof (rule restarts_launch [OF restarts_declared [OF after [OF k]]])
    show "i \<notin> dom (jsGet (hs_objects h'))" using fresh keeps_known [OF k] by simp
    show "i \<in> set (hs_mapped h')" using k by (simp add: keeps_grants_def grants_def)
  qed (auto simp: js_simps)
  let ?d = "\<lambda>x. if sc_required ?c then declareSequence i x ?h else ?h"
  have d: "keeps_grants ?h (?d x)" for x by (simp add: keeps_more)
  have start: "restarts_ok env None ((fst r)\<lparr>hs_starts := hs_starts (fst r) @ [snd r]\<rparr>)"
    if "r = startConfiguredSequence env sid iid c (?d x)" for r sid iid c x
    using after [OF keeps_trans [OF d keeps_trans [OF keeps_fields(1) keeps_fields(6)]]] that by (simp add: startConfiguredSequence_def)
  show ?thesis
  proof (cases "resolveStartupSequence env ?c ?h")
    case (Inl u)
    then show ?thesis using True fail [OF keeps_refl] by (simp add: mapEntry_def startEntry_def)
  next
    case (Inr found)
    show ?thesis
    proof (cases found)
      case None
      then show ?thesis using True Inr after [OF d] by (simp add: mapEntry_def startEntry_def Let_def)
    next
      case (Some sid)
      let ?h1 = "?d (Some sid)" and ?e = "createRequiredStartupEntry env sid ?c i"
      have l: "restarts_ok env None (launchRequiredStartupEntry env True i (h2\<lparr>hs_entries := jsSet (hs_entries h2) (se_key ?e) i,
          hs_objects := jsSet (hs_objects h2) i ?e\<rparr>))" if "h2 = declareInstance i (Some (se_stableInstanceId ?e)) ?h1" for h2
        using launch [OF keeps_trans [OF d keeps_declare]] that by blast
      show ?thesis
      proof (cases "sc_required ?c")
        case req: True
        then show ?thesis using True Inr Some fail [OF d, of "Some sid"] l [OF refl]
          by (simp add: mapEntry_def startEntry_def Let_def)
      next
        case req: False
        then show ?thesis using True Inr Some fail [OF keeps_refl] start [OF refl]
          by (simp add: mapEntry_def startEntry_def Let_def split_beta)
      qed
    qed
  qed
qed (use ok in \<open>auto simp: mapEntry_def\<close>)

lemma keeps_resumeStart: "keeps_grants h (resumeStart n h)"
proof -
  have a: "keeps_grants h (h\<lparr>hs_starts := removeNth n (hs_starts h)\<rparr>)" by (rule keeps_fields)
  then show ?thesis using keeps_trans [OF a keeps_more(5)]
    by (simp add: resumeStart_def Let_def split: option.split start_result.split)
qed

lemma restarts_step: "restarts_ok env None h \<Longrightarrow> restarts_ok env None (hostStep env h ev)"
proof (cases ev)
  case (ResumeLaunch n)
  assume ok: "restarts_ok env None h"
  have "fst ` set (hs_launches h) \<subseteq> dom (jsGet (hs_objects h))" using ok unfolding restarts_ok_def by (elim conjE)
  then show ?thesis using restarts_keeps [OF ok keeps_resume] by (simp add: hostStep_def ResumeLaunch)
qed (simp_all add: hostStep_def restarts_map restarts_immediate restarts_keeps keeps_more keeps_ended keeps_terminated
    keeps_exitHandled keeps_stop keeps_resumeStart keeps_fields)

interpretation restarts: invariant_machine "hostStep env" "restarts_ok env None" for env
  by unfold_locales (rule restarts_step)

lemma restarts_new: "restarts_ok env None (newStartupHost env sequences)"
  by (simp add: restarts_ok_def newStartupHost_def failFastOk_def)

text \<open>C5: The restarts of a required startup entry are accounted for exactly. Whatever the order of launches,
  exits, adapter answers and stop requests, the launches the host attempted, the launches it dropped because another
  was under way, those still queued and the restarts that remain add up to one more than the entry's restart limit;
  so no entry is ever launched more often than that, and the host fails fast over an entry only when none remains.
\<close>
theorem required_restarts_bounded:
  assumes "h = foldl (hostStep env) (newStartupHost env sequences) es"
  shows "case jsGet (hs_objects h) i of
      None \<Rightarrow> launchesOf i h = 0
    | Some e \<Rightarrow> launchesOf i h + dropsOf i h + queuedOf i h + se_restartAttemptsRemaining e = Suc (restartLimitOf (en_config env ! i)) \<and>
        (FailFast i \<in> set (hs_log h) \<longrightarrow> se_restartAttemptsRemaining e = 0)"
proof -
  have ok: "restarts_ok env None h" unfolding assms by (rule restarts.inv_run [OF restarts_new])
  note a = ok [unfolded restarts_ok_def]
  show ?thesis
  proof (cases "jsGet (hs_objects h) i")
    case None
    then have "i \<notin> noteEntry ` set (hs_log h)" using a by blast
    then have "LaunchAttempt i \<notin> set (hs_log h)" by force
    then show ?thesis using None by (simp add: launchesOf_def count_list_0_iff)
  next
    case (Some e)
    then have e: "entryOf h i = e" "i \<in> dom (jsGet (hs_objects h))" by (auto simp: entryOf_def)
    then have "grantedOf i h = Suc (restartLimitOf (en_config env ! i))" using a by simp
    moreover have "FailFast i \<in> set (hs_log h) \<longrightarrow> se_restartAttemptsRemaining (entryOf h i) = 0"
      using a unfolding failFastOk_def by (elim conjE) blast
    ultimately show ?thesis using Some e by (simp add: grantedOf_def)
  qed
qed

section \<open>Restarts that are lost\<close>

definition demoStartConfig :: start_config where
  "demoStartConfig = \<lparr>sc_id = ''seq'', sc_sequenceName = None, sc_instanceId = Some ''web'', sc_instanceName = None,
     sc_required = True, sc_restartLimit = Some 1\<rparr>"

definition demoStartEnv :: startup_env where
  "demoStartEnv = \<lparr>en_config = [demoStartConfig], en_seqName = (\<lambda>_. None), en_entrypoint = (\<lambda>_. ''main.js''), en_generate = (\<lambda>_. ''gen'')\<rparr>"

text \<open>
  An instance that ends after it connected and before it was ready: its exit and the rejection of \<open>waitForReady\<close>
  both count, so a restart limit of 1 is used up by one attempt and the host stops with a restart still queued.\<close>

definition crashBeforeReady :: "host_event list" where
  "crashBeforeReady = [MapEntry 0, Dispatch (AdapterInit 0 True), Dispatch (AdapterDispatched 0 (Some 0) (Some (demoRunnerOwner 1 ''web''))),
     Dispatch (RunnerEstablished 0), OwnerTerminated (demoRunnerOwner 1 ''web'') None None, Dispatch (RunnerReady 0 False), ResumeLaunch 0]"

lemma crash_before_ready_counts_twice:
  "let h = foldl (hostStep demoStartEnv) (newStartupHost demoStartEnv [(''seq'', [])]) crashBeforeReady in
   hs_log h = [LaunchAttempt 0, FailFast 0] \<and> hs_immediates h = [0] \<and> hs_stopTasks h = [1] \<and> jsHas (hs_objects h) 0"
  by code_simp

lemma required_restarts_bounded_witness:
  "\<exists>h e. h = foldl (hostStep demoStartEnv) (newStartupHost demoStartEnv [(''seq'', [])]) crashBeforeReady \<and>
    jsGet (hs_objects h) 0 = Some e \<and> FailFast 0 \<in> set (hs_log h) \<and> se_restartAttemptsRemaining e = 0"
proof -
  let ?h = "foldl (hostStep demoStartEnv) (newStartupHost demoStartEnv [(''seq'', [])]) crashBeforeReady"
  have log: "hs_log ?h = [LaunchAttempt 0, FailFast 0]" and "jsHas (hs_objects ?h) 0"
    using crash_before_ready_counts_twice by (simp_all add: Let_def)
  then obtain e where e: "jsGet (hs_objects ?h) 0 = Some e" by blast
  have "se_restartAttemptsRemaining e = 0"
    using required_restarts_bounded [where i = 0 and env = demoStartEnv and sequences = "[(''seq'', [])]" and es = crashBeforeReady, OF refl] log by (simp add: e)
  then show ?thesis using e log by auto
qed

text \<open>
  An adapter whose \<open>init\<close> rejects once leaves the stable id reserved: the restart fails although the
  adapter works again, and the host stops.\<close>

lemma failed_init_wastes_restarts:
  "let h = foldl (hostStep demoStartEnv) (newStartupHost demoStartEnv [(''seq'', [])])
      [MapEntry 0, Dispatch (AdapterInit 0 False), ResumeLaunch 0, RunImmediate, ResumeLaunch 0] in
   hs_log h = [LaunchAttempt 0, LaunchAttempt 0, FailFast 0] \<and> hs_stopTasks h = [1] \<and>
   map sr_phase (dp_runs (hs_dispatch h)) = [StartDone (StartFailed AdapterInitFailed), StartDone (StartFailed (INSTANCE_ID_CONFLICT ''Instance ID already taken''))]"
  by code_simp

text \<open>
  The host takes a terminated required instance out of the store before the dispatcher's own \<open>end\<close>
  handler runs; that handler then finds no such instance and the sequence keeps its id.\<close>

lemma required_end_keeps_sequence_instance:
  "let h = foldl (hostStep demoStartEnv) (newStartupHost demoStartEnv [(''seq'', [])])
      [MapEntry 0, Dispatch (AdapterInit 0 True), Dispatch (AdapterDispatched 0 (Some 0) (Some (demoRunnerOwner 1 ''web''))),
       Dispatch (InstancePing True (demoRunnerOwner 1 ''web'') ''seq''), Dispatch (RunnerEstablished 0), Dispatch (RunnerReady 0 True), ResumeLaunch 0,
       OwnerTerminated (demoRunnerOwner 1 ''web'') None None, OwnerEnded (demoRunnerOwner 1 ''web'') ''seq'' None None] in
   \<not> jsHas (is_map (dp_store (hs_dispatch h))) ''web'' \<and> dp_sequences (hs_dispatch h) = [(''seq'', [''web''])] \<and> hs_immediates h = [0]"
  by code_simp

text \<open>A host that is told to stop while it starts is running again when the startup ends.\<close>

lemma startup_revives_stopping_host:
  "let h = foldl (hostStep demoStartEnv) (newStartupHost demoStartEnv [])
      [MapEntry 0, StopRequested 15, RunStop, FinishStartup] in
   hs_stopping h \<and> hs_lifecycle h = HubRunning \<and> hs_startupReady h"
  by code_simp

end
