(* ===== verification/HubHealth.thy ===== *)
theory HubHealth
  imports RequiredStartup CsiController
begin

text \<open>
  The health of a hub: \<open>projectHubWatchHealth\<close> of \<open>packages/host/src/lib/hub-watch-health.ts\<close>, and its
  projection from the supervision of required entries, the instance store and the instance controllers in
  \<open>packages/host/src/lib/host.ts\<close>. A controller is read through \<open>view\<close>, the state of its lifecycle.
\<close>

section \<open>Projection\<close>

datatype required_readiness = RequiredPending | RequiredReady | RequiredErrored | RequiredMissing

record required_health =
  rh_index :: nat
  rh_sequenceId :: "string option"
  rh_instanceId :: "string option"
  rh_status :: "instance_status option"
  rh_readiness :: required_readiness
  rh_satisfied :: bool

datatype health_status = HubHealthy | HubDegraded | HubUnhealthy

record hub_health_input =
  hi_lifecycle :: hub_lifecycle
  hi_startupReady :: bool
  hi_cpmConfigured :: bool
  hi_cpmConnected :: bool
  hi_required :: "required_health list"

record hub_health = hub_health_input +
  hh_healthy :: bool
  hh_status :: health_status

definition projectHubWatchHealth :: "hub_health_input \<Rightarrow> hub_health" where
  "projectHubWatchHealth input =
    (let satisfied = list_all rh_satisfied (hi_required input);
         ready = (hi_lifecycle input = HubRunning \<and> hi_startupReady input \<and> satisfied);
         connected = (\<not> hi_cpmConfigured input \<or> hi_cpmConnected input)
     in hub_health_input.extend input
          (hub_health.fields (ready \<and> connected) (if \<not> ready then HubUnhealthy else if connected then HubHealthy else HubDegraded)))"

definition readinessOf :: "readiness_state \<Rightarrow> required_readiness" where
  "readinessOf r = (case r of ReadinessPending \<Rightarrow> RequiredPending | ReadinessReady \<Rightarrow> RequiredReady | ReadinessErrored \<Rightarrow> RequiredErrored)"

definition requiredOwner :: "startup_host \<Rightarrow> string option \<Rightarrow> instance_owner option" where
  "requiredOwner h iid = (case truthyString iid of Some i \<Rightarrow> jsGet (is_map (dp_store (hs_dispatch h))) i | None \<Rightarrow> None)"

definition requiredHealth :: "(instance_owner \<Rightarrow> csi) \<Rightarrow> startup_host \<Rightarrow> nat \<times> string option \<times> string option \<Rightarrow> required_health" where
  "requiredHealth view h decl = (case decl of (index, sid, iid) \<Rightarrow>
    (case requiredOwner h iid of
       None \<Rightarrow> \<lparr>rh_index = index, rh_sequenceId = sid, rh_instanceId = None, rh_status = None, rh_readiness = RequiredMissing, rh_satisfied = False\<rparr>
     | Some owner \<Rightarrow> (case getWatchReadiness (view owner) of (r, terminal) \<Rightarrow>
         \<lparr>rh_index = index, rh_sequenceId = sid, rh_instanceId = iid, rh_status = Some (cs_status (view owner)),
          rh_readiness = (if truthyString sid = None then RequiredMissing else readinessOf r),
          rh_satisfied = (truthyString sid \<noteq> None \<and> r = ReadinessReady \<and> \<not> terminal \<and> cs_status (view owner) = RUNNING)\<rparr>)))"

definition projectCurrentHubHealth :: "bool \<Rightarrow> bool \<Rightarrow> (instance_owner \<Rightarrow> csi) \<Rightarrow> startup_host \<Rightarrow> hub_health" where
  "projectCurrentHubHealth configured connected view h = projectHubWatchHealth
     \<lparr>hi_lifecycle = hs_lifecycle h, hi_startupReady = hs_startupReady h, hi_cpmConfigured = configured, hi_cpmConnected = connected,
      hi_required = map (requiredHealth view h) (hs_declared h)\<rparr>"

text \<open>\<open>auditHubHealth\<close>: the last health, and what was published.\<close>

definition auditHubHealth :: "hub_health \<Rightarrow> hub_health option \<times> hub_health list \<Rightarrow> hub_health option \<times> hub_health list" where
  "auditHubHealth health st = (if fst st = Some health then st else (Some health, snd st @ [health]))"

lemma healthy_iff: "hh_healthy (projectHubWatchHealth input) \<longleftrightarrow>
    hi_lifecycle input = HubRunning \<and> hi_startupReady input \<and> list_all rh_satisfied (hi_required input) \<and> (hi_cpmConfigured input \<longrightarrow> hi_cpmConnected input)"
  by (auto simp: projectHubWatchHealth_def Let_def hub_health_input.defs hub_health.defs)

lemma satisfied_iff: "rh_satisfied (requiredHealth view h (i, sid, iid)) \<longleftrightarrow>
    truthyString sid \<noteq> None \<and> (\<exists>owner. requiredOwner h iid = Some owner \<and> cs_readiness (view owner) = ReadinessReady \<and>
      \<not> snd (getWatchReadiness (view owner)) \<and> cs_status (view owner) = RUNNING)"
  by (auto simp: requiredHealth_def getWatchReadiness_def split: option.split)

section \<open>What is declared is what is tracked\<close>

definition tracked :: "startup_host \<Rightarrow> nat \<Rightarrow> bool" where
  "tracked h i \<longleftrightarrow> (\<forall>sid iid. jsGet (hs_declared h) i = Some (sid, Some iid) \<longrightarrow>
     hs_stopping h \<or> jsGet (hs_objects h) i \<noteq> None \<and> se_currentInstanceId (entryOf h i) = Some iid)"

definition declared_ok :: "startup_env \<Rightarrow> startup_host \<Rightarrow> bool" where
  "declared_ok env h \<longleftrightarrow> (\<forall>i. tracked h i) \<and>
     (\<forall>i. jsGet (hs_declared h) i \<noteq> None \<longleftrightarrow> i < length (en_config env) \<and> sc_required (en_config env ! i)) \<and>
     (\<forall>i. jsGet (hs_objects h) i \<noteq> None \<longrightarrow> i \<in> set (hs_mapped h))"

text \<open>\<open>h'\<close> has the declarations and entries of \<open>h\<close>, and tracks what \<open>h\<close> tracks.\<close>

definition tracks :: "startup_host \<Rightarrow> startup_host \<Rightarrow> bool" where
  "tracks h h' \<longleftrightarrow> (hs_stopping h \<longrightarrow> hs_stopping h') \<and> hs_mapped h' = hs_mapped h \<and>
     (\<forall>i. jsHas (hs_declared h') i = jsHas (hs_declared h) i) \<and> (\<forall>i. jsHas (hs_objects h') i = jsHas (hs_objects h) i) \<and>
     (\<forall>i. tracked h i \<longrightarrow> tracked h' i)"

lemma tracks_refl [simp]: "tracks h h"
  by (simp add: tracks_def)

lemma tracks_trans [trans]: "tracks h h1 \<Longrightarrow> tracks h1 h2 \<Longrightarrow> tracks h h2"
  by (auto simp: tracks_def)

lemma tracks_known: "tracks h h' \<Longrightarrow> jsHas (hs_objects h') i = jsHas (hs_objects h) i"
  by (simp add: tracks_def)

lemma declareInstance_simps [simp]:
  "jsGet (hs_declared (declareInstance i x h)) j = (if j = i then map_option (\<lambda>(sid, _). (sid, x)) (jsGet (hs_declared h) i) else jsGet (hs_declared h) j)"
  "hs_objects (declareInstance i x h) = hs_objects h" "hs_stopping (declareInstance i x h) = hs_stopping h"
  "hs_mapped (declareInstance i x h) = hs_mapped h" "entryOf (declareInstance i x h) j = entryOf h j"
  by (auto simp: declareInstance_def js_simps entryOf_def split: option.split)

lemma updateEntry_simps [simp]:
  "jsGet (hs_objects (updateEntry i f h)) j = (if j = i then Some (f (entryOf h i)) else jsGet (hs_objects h) j)"
  "hs_declared (updateEntry i f h) = hs_declared h" "hs_stopping (updateEntry i f h) = hs_stopping h" "hs_mapped (updateEntry i f h) = hs_mapped h"
  by (simp_all add: updateEntry_def js_simps)

lemma tracks_fields:
  "tracks h (h\<lparr>hs_dispatch := a\<rparr>)" "tracks h (h\<lparr>hs_byInstance := b\<rparr>)" "tracks h (h\<lparr>hs_launches := e\<rparr>)"
  "tracks h (h\<lparr>hs_immediates := f\<rparr>)" "tracks h (h\<lparr>hs_exits := g\<rparr>)" "tracks h (h\<lparr>hs_stopTasks := k\<rparr>)"
  "tracks h (h\<lparr>hs_log := l\<rparr>)" "tracks h (h\<lparr>hs_starts := n\<rparr>)" "tracks h (h\<lparr>hs_startupFailed := q\<rparr>)"
  by (simp_all add: tracks_def tracked_def entryOf_def)

lemma tracks_update:
  assumes "jsHas (hs_objects h) i" and "se_currentInstanceId (f (entryOf h i)) = se_currentInstanceId (entryOf h i)"
  shows "tracks h (updateEntry i f h)"
  using assms by (auto simp: tracks_def tracked_def)

text \<open>A new current instance and its declaration change together.\<close>

lemma tracks_both:
  assumes "jsHas (hs_objects h) i"
  shows "tracks h (declareInstance i x (updateEntry i (se_currentInstanceId_update (\<lambda>_. x)) h))"
    and "tracked (declareInstance i x (updateEntry i (se_currentInstanceId_update (\<lambda>_. x)) h)) i"
  using assms by (auto simp: tracks_def tracked_def)

lemma tracks_clear: "jsHas (hs_objects h) i \<Longrightarrow> tracks h (clearRequiredStartupInstanceTracking i h)"
  by (auto simp: clearRequiredStartupInstanceTracking_def intro: tracks_trans [OF tracks_fields(2) tracks_both(1)] split: option.split)

lemma track_swap: "declareInstance i x (h\<lparr>hs_byInstance := b\<rparr>) = (declareInstance i x h)\<lparr>hs_byInstance := b\<rparr>"
  by (auto simp: declareInstance_def split: option.split)

lemma tracked_byInstance [simp]: "tracked (h\<lparr>hs_byInstance := b\<rparr>) i = tracked h i"
  by (simp add: tracked_def)

lemma tracks_track:
  assumes i: "jsHas (hs_objects h) i"
  shows "tracks h (trackRequiredStartupInstance i iid h)" and "tracked (trackRequiredStartupInstance i iid h) i"
proof -
  let ?h1 = "case truthyString (se_currentInstanceId (entryOf h i)) of
         Some old \<Rightarrow> h\<lparr>hs_byInstance := jsDelete (hs_byInstance h) old\<rparr> | None \<Rightarrow> h"
  have i1: "jsHas (hs_objects ?h1) i" using i by (simp split: option.split)
  have a: "tracks h ?h1" by (auto simp: tracks_fields split: option.split)
  show "tracks h (trackRequiredStartupInstance i iid h)"
    unfolding trackRequiredStartupInstance_def Let_def track_swap
    by (rule tracks_trans [OF tracks_trans [OF a tracks_both(1) [OF i1]] tracks_fields(2)])
  show "tracked (trackRequiredStartupInstance i iid h) i"
    using tracks_both(2) [OF i1] unfolding trackRequiredStartupInstance_def Let_def track_swap by simp
qed

lemma tracks_launching: "jsHas (hs_objects h) i \<Longrightarrow> tracks h (setLaunching b i h)"
  unfolding setLaunching_def by (rule tracks_update) simp_all

lemma tracks_note: "tracks h (noteLaunch x h)"
  by (simp add: noteLaunch_def tracks_fields)

lemma tracks_stop: "tracks h (performStop s h)"
  by (simp add: performStop_def tracks_fields)

lemma tracks_failure:
  assumes "jsHas (hs_objects h) i"
  shows "tracks h (handleRequiredStartupFailure i h)"
proof -
  have "tracks h (updateEntry i (se_restartAttemptsRemaining_update (\<lambda>n. n - 1)) h)" by (rule tracks_update) (use assms in simp_all)
  then show ?thesis
    by (auto simp: handleRequiredStartupFailure_def Let_def intro: tracks_trans [OF _ tracks_fields(4)] tracks_trans [OF tracks_note tracks_stop])
qed

lemma tracks_failed:
  assumes i: "jsHas (hs_objects h) i"
  shows "tracks h (launchFailed i h)"
proof -
  note a = tracks_clear [OF i]
  have b: "tracks h (handleRequiredStartupFailure i (clearRequiredStartupInstanceTracking i h))"
    by (rule tracks_trans [OF a tracks_failure]) (use i tracks_known [OF a] in blast)
  show ?thesis unfolding launchFailed_def by (rule tracks_trans [OF b tracks_launching]) (use i tracks_known [OF b] in blast)
qed

lemma tracks_take:
  assumes "\<And>key i. jsGet (hs_entries h) key = Some i \<Longrightarrow> jsHas (hs_objects h) i"
  shows "tracks h (fst (takeRequiredStartupEntryByInstanceId iid h))"
proof -
  have "tracks h (declareInstance i None (updateEntry i (se_currentInstanceId_update (\<lambda>_. None)) (h\<lparr>hs_byInstance := jsDelete (hs_byInstance h) iid\<rparr>)))"
    if "jsGet (hs_entries h) key = Some i" for key i
    by (rule tracks_trans [OF tracks_fields(2) tracks_both(1)]) (use assms [OF that] in simp)
  then show ?thesis
    by (auto simp: takeRequiredStartupEntryByInstanceId_def Let_def tracks_fields split: option.split)
qed

lemma take_entry: "snd (takeRequiredStartupEntryByInstanceId iid h) = Some i \<Longrightarrow> \<exists>key. jsGet (hs_entries h) key = Some i"
  by (auto simp: takeRequiredStartupEntryByInstanceId_def Let_def split: option.splits)

lemma tracks_exit:
  assumes "\<And>key i. jsGet (hs_entries h) key = Some i \<Longrightarrow> jsHas (hs_objects h) i"
  shows "tracks h (handleRequiredStartupInstanceExit iid h)"
proof (cases "takeRequiredStartupEntryByInstanceId iid h")
  case (Pair h1 found)
  have t: "tracks h h1" using tracks_take [where h = h and iid = iid, OF assms] by (simp add: Pair)
  have "tracks h (handleRequiredStartupFailure i h1)" if "found = Some i" for i
    by (rule tracks_trans [OF t tracks_failure]) (use take_entry [of iid h i] that assms tracks_known [OF t] in \<open>auto simp: Pair\<close>)
  then show ?thesis using t by (auto simp: handleRequiredStartupInstanceExit_def Pair split: option.split)
qed

text \<open>A launch tracks its entry, also one that was declared and not tracked yet.\<close>

lemma tracks_launch:
  assumes i: "jsHas (hs_objects h) i"
  shows "tracks h (launchRequiredStartupEntry env initial i h)"
    and "\<not> se_launching (entryOf h i) \<Longrightarrow> tracked (launchRequiredStartupEntry env initial i h) i"
proof -
  let ?r = "launchRequiredStartupEntry env initial i h" and ?e = "entryOf h i"
  let ?h0 = "setLaunching True i (noteLaunch (LaunchAttempt i) h)"
  let ?h1 = "trackRequiredStartupInstance i (se_stableInstanceId ?e) ?h0"
  have i': "jsHas (hs_objects (noteLaunch (LaunchAttempt i) h)) i" using i by (simp add: noteLaunch_def)
  have a: "tracks h ?h0" by (rule tracks_trans [OF tracks_note tracks_launching [OF i']])
  have i0: "jsHas (hs_objects ?h0) i" using i tracks_known [OF a] by blast
  note b = tracks_trans [OF a tracks_track(1) [OF i0]]
  have i1: "jsHas (hs_objects ?h1) i" using i tracks_known [OF b] by blast
  have started: "tracks ?h1 (h2\<lparr>hs_launches := l\<rparr>)" if "startConfiguredSequence env sid iid c ?h1 = (h2, run)" for sid iid c h2 run l
    using that by (auto simp: startConfiguredSequence_def intro: tracks_trans [OF tracks_fields(1) tracks_fields(3)])
  have c: "tracks ?h1 ?r" if "\<not> (hs_stopping h \<or> se_launching ?e)"
    using that started tracks_failed [OF i1] by (auto simp: launchRequiredStartupEntry_def Let_def split: prod.split)
  show "tracks h ?r"
    using tracks_trans [OF b c] tracks_note by (cases "hs_stopping h \<or> se_launching ?e") (auto simp: launchRequiredStartupEntry_def)
  show "\<not> se_launching (entryOf h i) \<Longrightarrow> tracked ?r i"
  proof (cases "hs_stopping h")
    case True
    then show ?thesis by (simp add: launchRequiredStartupEntry_def tracked_def noteLaunch_def)
  next
    case False
    moreover assume "\<not> se_launching (entryOf h i)"
    ultimately have "tracks ?h1 ?r" using c by blast
    then show ?thesis using tracks_track(2) [OF i0] unfolding tracks_def by blast
  qed
qed

lemma tracks_more:
  "tracks h (onStore f h)" "tracks h (runStop h)" "tracks h (cleanupHost h)" "tracks h (finishStartup env h)" "tracks h (failStartup h)"
  by (auto simp: onStore_def runStop_def Let_def cleanupHost_def finishStartup_def failStartup_def tracks_def tracked_def entryOf_def
      split: list.split cleanup_phase.split)

lemma tracks_declareSequence: "tracks h (declareSequence i x h)"
  by (auto simp: declareSequence_def tracks_def tracked_def js_simps entryOf_def split: option.split)

lemma tracks_cleanup: "tracks h (cleanupRequiredStartupInstance iid expose name h)"
  by (simp add: cleanupRequiredStartupInstance_def tracks_more)

lemma known_launches: "restarts_ok env fresh h \<Longrightarrow> (i, l) \<in> set (hs_launches h) \<Longrightarrow> jsHas (hs_objects h) i"
  unfolding restarts_ok_def by (elim conjE) force

lemma known_immediates: "restarts_ok env fresh h \<Longrightarrow> i \<in> set (hs_immediates h) \<Longrightarrow> jsHas (hs_objects h) i"
  unfolding restarts_ok_def by (elim conjE) force

lemma known_entries: "restarts_ok env fresh h \<Longrightarrow> jsGet (hs_entries h) key = Some i \<Longrightarrow> jsHas (hs_objects h) i"
  using restarts_entries by blast

lemma tracks_resume:
  assumes ok: "restarts_ok env None h"
  shows "tracks h (resumeLaunch n h)"
proof (cases "n < length (hs_launches h)")
  case True
  obtain i run initial where l: "hs_launches h ! n = (i, run, initial)" by (cases "hs_launches h ! n")
  let ?g = "h\<lparr>hs_launches := removeNth n (hs_launches h)\<rparr>"
  have "(i, run, initial) \<in> set (hs_launches h)" using True l by (metis nth_mem)
  then have i: "jsHas (hs_objects ?g) i" using known_launches [OF ok] by simp
  have b: "tracks h ?g" by (rule tracks_fields)
  have t: "tracks ?g (trackRequiredStartupInstance i iid ?g)" for iid by (rule tracks_track [OF i])
  have "tracks ?g (setLaunching False i (trackRequiredStartupInstance i iid ?g))" for iid
    by (rule tracks_trans [OF t tracks_launching]) (use i tracks_known [OF t [of iid]] in blast)
  then have "tracks h (setLaunching False i (trackRequiredStartupInstance i iid ?g))" for iid
    using tracks_trans [OF b] by blast
  moreover have "tracks h (launchFailed i ?g)" by (rule tracks_trans [OF b tracks_failed [OF i]])
  ultimately show ?thesis using True by (simp add: resumeLaunch_def l Let_def split: option.split)
qed (simp add: resumeLaunch_def)

lemma tracks_immediate: "restarts_ok env None h \<Longrightarrow> tracks h (runImmediate env h)"
proof (cases "hs_immediates h")
  case (Cons i rest)
  assume "restarts_ok env None h"
  then have i: "jsHas (hs_objects h) i" using known_immediates by (simp add: Cons)
  have "tracks h (launchRequiredStartupEntry env False i (h\<lparr>hs_immediates := rest\<rparr>))"
    by (rule tracks_trans [OF tracks_fields(4) tracks_launch(1)]) (use i in simp)
  then show ?thesis by (simp add: runImmediate_def Cons)
qed (simp add: runImmediate_def)

lemma tracks_exits:
  assumes ok: "restarts_ok env None h"
  shows "tracks h (exitHandled n h)" and "tracks h (handleDispatcherTerminatedEvent owner expose name h)"
    and "tracks h (instanceEnded owner seqId expose name h)"
proof -
  have e: "tracks g (handleRequiredStartupInstanceExit iid g)" if "keeps_grants h g" for g iid
    by (rule tracks_exit) (use known_entries [OF restarts_keeps [OF ok that]] in blast)
  show "tracks h (exitHandled n h)"
    using tracks_trans [OF tracks_fields(5) e [OF keeps_fields(4)]] by (simp add: exitHandled_def)
  show "tracks h (handleDispatcherTerminatedEvent owner expose name h)"
    using tracks_trans [OF tracks_trans [OF tracks_more(1) tracks_cleanup] e [OF keeps_trans [OF keeps_more(1) keeps_cleanup]]]
    by (simp add: handleDispatcherTerminatedEvent_def)
  have "tracks h (handleDispatcherEndEvent owner expose name h)"
    using tracks_trans [OF tracks_cleanup tracks_fields(5)] by (simp add: handleDispatcherEndEvent_def Let_def)
  then show "tracks h (instanceEnded owner seqId expose name h)"
    using tracks_trans [OF _ tracks_fields(1)] by (simp add: instanceEnded_def Let_def)
qed

lemma tracks_resumeStart: "tracks h (resumeStart n h)"
  using tracks_trans [OF tracks_fields(8) tracks_more(5)]
  by (simp add: resumeStart_def Let_def tracks_fields split: option.split start_result.split)

lemma declared_keeps: "declared_ok env h \<Longrightarrow> tracks h h' \<Longrightarrow> declared_ok env h'"
  by (auto simp: declared_ok_def tracks_def)

text \<open>A new entry is declared with its stable id before it is launched; the launch tracks it.\<close>

lemma declared_entry:
  assumes ok: "declared_ok env h" and i: "i \<in> set (hs_mapped h)" and e: "\<not> se_launching e"
  shows "declared_ok env (launchRequiredStartupEntry env True i
     ((declareInstance i x h)\<lparr>hs_entries := m, hs_objects := jsSet (hs_objects (declareInstance i x h)) i e\<rparr>))"
    (is "declared_ok env (launchRequiredStartupEntry env True i ?g)")
proof -
  have g: "jsHas (hs_objects ?g) i" by (simp add: js_simps)
  have others: "tracked ?g j" if "j \<noteq> i" for j
    using ok that by (auto simp: declared_ok_def tracked_def js_simps entryOf_def)
  have keys: "jsHas (hs_declared ?g) j = jsHas (hs_declared h) j" for j by simp
  have objs: "jsHas (hs_objects ?g) j \<Longrightarrow> j \<in> set (hs_mapped ?g)" for j
    using ok i by (cases "j = i") (auto simp: declared_ok_def js_simps)
  let ?l = "launchRequiredStartupEntry env True i ?g"
  note t = tracks_launch(1) [OF g, of env True]
  have "tracked ?l i" by (rule tracks_launch(2) [OF g]) (use e in \<open>simp add: js_simps\<close>)
  moreover have "tracked ?l j" if "j \<noteq> i" for j using others [OF that] t by (simp add: tracks_def)
  moreover have "jsHas (hs_declared ?l) j = jsHas (hs_declared h) j" for j using t keys unfolding tracks_def by blast
  moreover have "jsHas (hs_objects ?l) j \<Longrightarrow> j \<in> set (hs_mapped ?l)" for j using t objs unfolding tracks_def by metis
  ultimately show ?thesis using ok unfolding declared_ok_def by metis
qed

lemma declared_map:
  assumes ok: "declared_ok env h"
  shows "declared_ok env (mapEntry env i h)"
proof (cases "i < length (en_config env) \<and> i \<notin> set (hs_mapped h)")
  case True
  let ?c = "en_config env ! i" and ?g = "h\<lparr>hs_mapped := hs_mapped h @ [i]\<rparr>"
  have ok0: "declared_ok env ?g" using ok by (auto simp: declared_ok_def tracked_def)
  let ?d = "\<lambda>x. if sc_required ?c then declareSequence i x ?g else ?g"
  have d: "tracks ?g (?d x)" for x by (simp add: tracks_declareSequence)
  have fail: "declared_ok env (failStartup (?d x))" for x
    by (rule declared_keeps [OF ok0 tracks_trans [OF d tracks_more(5)]])
  have start: "declared_ok env ((fst r)\<lparr>hs_starts := hs_starts (fst r) @ [snd r]\<rparr>)"
    if "r = startConfiguredSequence env sid iid c ?g" for r sid iid c
    using declared_keeps [OF ok0 tracks_trans [OF tracks_fields(1) tracks_fields(8)]] that by (simp add: startConfiguredSequence_def)
  have mapped: "i \<in> set (hs_mapped (?d x))" for x using d [of x] unfolding tracks_def by simp
  have launch: "declared_ok env (launchRequiredStartupEntry env True i ((declareInstance i x (?d (Some sid)))\<lparr>hs_entries := m,
      hs_objects := jsSet (hs_objects (declareInstance i x (?d (Some sid)))) i (createRequiredStartupEntry env sid ?c i)\<rparr>))" for x sid m
    by (rule declared_entry [OF declared_keeps [OF ok0 d] mapped]) (simp add: createRequiredStartupEntry_def)
  show ?thesis
  proof (cases "resolveStartupSequence env ?c ?g")
    case (Inl u)
    then show ?thesis using True declared_keeps [OF ok0 tracks_more(5)] by (simp add: mapEntry_def startEntry_def)
  next
    case (Inr found)
    show ?thesis
    proof (cases found)
      case None
      then show ?thesis using True Inr declared_keeps [OF ok0 d] by (simp add: mapEntry_def startEntry_def Let_def)
    next
      case (Some sid)
      show ?thesis
      proof (cases "sc_required ?c")
        case req: True
        then show ?thesis using True Inr Some fail [of "Some sid"] launch
          by (simp add: mapEntry_def startEntry_def Let_def del: declareInstance_simps)
      next
        case req: False
        then show ?thesis using True Inr Some fail [of "Some sid"] start [OF refl]
          by (simp add: mapEntry_def startEntry_def Let_def split_beta)
      qed
    qed
  qed
qed (use ok in \<open>auto simp: mapEntry_def\<close>)

definition supervised :: "startup_env \<Rightarrow> startup_host \<Rightarrow> bool" where
  "supervised env h \<longleftrightarrow> restarts_ok env None h \<and> declared_ok env h"

lemma tracks_step: "restarts_ok env None h \<Longrightarrow> ev \<notin> range MapEntry \<Longrightarrow> tracks h (hostStep env h ev)"
  by (cases ev) (simp_all add: hostStep_def tracks_resume tracks_resumeStart tracks_immediate tracks_more tracks_exits tracks_stop tracks_fields)

lemma supervised_step:
  assumes "supervised env h"
  shows "supervised env (hostStep env h ev)"
proof -
  have ok: "restarts_ok env None h" "declared_ok env h" using assms by (simp_all add: supervised_def)
  have "declared_ok env (hostStep env h ev)"
  proof (cases "ev \<in> range MapEntry")
    case True
    then show ?thesis using declared_map [OF ok(2)] by (auto simp: hostStep_def)
  next
    case False
    then show ?thesis by (rule declared_keeps [OF ok(2) tracks_step [OF ok(1)]])
  qed
  then show ?thesis by (simp add: supervised_def restarts_step [OF ok(1)])
qed

interpretation supervision: invariant_machine "hostStep env" "supervised env" for env
  by unfold_locales (rule supervised_step)

lemma declared_init: "jsGet (map (\<lambda>i. (i, v)) xs) i = (if i \<in> set xs then Some v else None)"
  by (induction xs) auto

lemma supervised_new: "supervised env (newStartupHost env sequences)"
proof -
  have "declared_ok env (newStartupHost env sequences)" by (auto simp: declared_ok_def tracked_def newStartupHost_def declared_init)
  then show ?thesis by (simp add: supervised_def restarts_new)
qed

text \<open>C6: The health a hub publishes is honest. In every reachable state in which the host is not stopping, a hub
  that calls itself healthy runs, has finished its startup and has its platform connection if one is configured;
  and every entry the startup manifest requires is the current supervision of a registered instance whose controller
  is running, ready and not on its way out.
\<close>
theorem healthy_hub_is_supervised:
  assumes "h = foldl (hostStep env) (newStartupHost env sequences) es" and "\<not> hs_stopping h"
    and "hh_healthy (projectCurrentHubHealth configured connected view h)"
    and "i < length (en_config env)" and "sc_required (en_config env ! i)"
  shows "hs_lifecycle h = HubRunning \<and> hs_startupReady h \<and> (configured \<longrightarrow> connected) \<and>
    (\<exists>e iid owner. jsGet (hs_objects h) i = Some e \<and> se_currentInstanceId e = Some iid \<and>
      jsGet (is_map (dp_store (hs_dispatch h))) iid = Some owner \<and> cs_status (view owner) = RUNNING \<and>
      cs_readiness (view owner) = ReadinessReady \<and> cs_ended (view owner) = None \<and> cs_transition (view owner) = None)"
proof -
  have ok: "declared_ok env h" using supervision.inv_run [OF supervised_new] assms(1) by (simp add: supervised_def)
  have "jsHas (hs_declared h) i" using ok assms(4,5) unfolding declared_ok_def by blast
  then obtain sid iid where decl: "jsGet (hs_declared h) i = Some (sid, iid)" by auto
  then have "requiredHealth view h (i, sid, iid) \<in> requiredHealth view h ` set (hs_declared h)"
    by (metis image_eqI map_of_SomeD)
  then have "rh_satisfied (requiredHealth view h (i, sid, iid))" and top: "hs_lifecycle h = HubRunning" "hs_startupReady h" "configured \<longrightarrow> connected"
    using assms(3) by (auto simp: projectCurrentHubHealth_def healthy_iff list_all_iff)
  then obtain owner where o: "requiredOwner h iid = Some owner" "cs_readiness (view owner) = ReadinessReady"
    "\<not> snd (getWatchReadiness (view owner))" "cs_status (view owner) = RUNNING" unfolding satisfied_iff by blast
  then obtain x where x: "iid = Some x" "jsGet (is_map (dp_store (hs_dispatch h))) x = Some owner"
    by (auto simp: requiredOwner_def truthyString_def split: option.splits if_splits)
  have "jsHas (hs_objects h) i" "se_currentInstanceId (entryOf h i) = Some x"
    using ok decl assms(2) unfolding declared_ok_def tracked_def x(1) by blast+
  then show ?thesis using o x top by (auto simp: entryOf_def getWatchReadiness_def)
qed

definition demoController :: csi where
  "demoController = (startController ''main.js'' False 0 None None None)\<lparr>cs_status := RUNNING, cs_readiness := ReadinessReady\<rparr>"

definition establishedRun :: "host_event list" where
  "establishedRun = [MapEntry 0, Dispatch (AdapterInit 0 True), Dispatch (AdapterDispatched 0 (Some 0) (Some (demoRunnerOwner 1 ''web''))),
     Dispatch (RunnerEstablished 0), Dispatch (RunnerReady 0 True), ResumeLaunch 0, FinishStartup]"

lemma healthy_hub_is_supervised_witness:
  "\<exists>h. h = foldl (hostStep demoStartEnv) (newStartupHost demoStartEnv [(''seq'', [])]) establishedRun \<and>
    hs_lifecycle h = HubRunning \<and> (\<exists>e. jsGet (hs_objects h) 0 = Some e \<and> se_currentInstanceId e \<noteq> None)"
proof -
  let ?h = "foldl (hostStep demoStartEnv) (newStartupHost demoStartEnv [(''seq'', [])]) establishedRun"
  have "let h = ?h in \<not> hs_stopping h \<and> hh_healthy (projectCurrentHubHealth True True (\<lambda>_. demoController) h)" by code_simp
  then have "\<not> hs_stopping ?h" "hh_healthy (projectCurrentHubHealth True True (\<lambda>_. demoController) ?h)" by (simp_all add: Let_def)
  moreover have "0 < length (en_config demoStartEnv)" "sc_required (en_config demoStartEnv ! 0)" by code_simp+
  note calculation this
  from healthy_hub_is_supervised [OF refl this] show ?thesis by auto
qed

text \<open>When the instance ends, the hub is unhealthy until the next launch is established.\<close>

lemma terminated_hub_unhealthy:
  "let h = hostStep demoStartEnv (foldl (hostStep demoStartEnv) (newStartupHost demoStartEnv [(''seq'', [])]) establishedRun)
      (OwnerTerminated (demoRunnerOwner 1 ''web'') None None);
     health = projectCurrentHubHealth True True (\<lambda>_. demoController) h in
   hh_status health = HubUnhealthy \<and> map rh_readiness (hi_required health) = [RequiredMissing] \<and> hs_immediates h = [0]"
  by code_simp

end
