(* ===== verification/LocalStorage.thy ===== *)
theory LocalStorage
  imports Prelude
begin

text \<open>
  The storage the instances of a hub share: the agent in a runner
  (\<open>packages/runner/src/local-storage-agent.ts\<close>, the same file in \<open>runner-node\<close>), the handlers of its frames in
  \<open>runner.ts\<close>, the controllers' \<open>applyUpdate\<close> and \<open>broadcastUpdate\<close> in \<open>packages/host/src/lib/csi-controller.ts\<close>, and
  the memory adapter of \<open>packages/host/src/lib/local-storage/adapters/memory-adapter.ts\<close>.

  The links of an instance are queues. A controller's \<open>await\<close> on the adapter is a task; when it settles the
  update is broadcast, or the full state sent.
\<close>

section \<open>The agent of a runner\<close>

definition CLEAR :: string where
  "CLEAR = ''__CLEAR__''"

record storage_agent =
  sa_cache :: "(string, string option) jsmap"
  sa_pending :: "(string, nat \<times> string option) jsmap"
  sa_resolved :: "nat list"
  sa_replaced :: "nat list"
  sa_next :: nat

datatype storage_frame = FullState "(string, string) jsmap" | StorageUpdate string "string option"

definition newStorageAgent :: storage_agent where
  "newStorageAgent = \<lparr>sa_cache = [], sa_pending = [], sa_resolved = [], sa_replaced = [], sa_next = 0\<rparr>"

definition agentGetItem :: "storage_agent \<Rightarrow> string \<Rightarrow> string option" where
  "agentGetItem a k = (case jsGet (sa_cache a) k of Some v \<Rightarrow> v | None \<Rightarrow> None)"

text \<open>
  The promise of the update is filed under its key; the message is the second component. \<open>sa_replaced\<close> only
  records which promises \<open>pendingUpdates.set\<close> removes from the map.
\<close>

definition sendUpdate :: "string \<Rightarrow> string option \<Rightarrow> storage_agent \<Rightarrow> storage_agent \<times> (string \<times> string option)" where
  "sendUpdate k v a =
    (a\<lparr>sa_pending := jsSet (sa_pending a) k (sa_next a, v), sa_next := Suc (sa_next a),
        sa_replaced := (case jsGet (sa_pending a) k of Some (p, expected) \<Rightarrow> sa_replaced a @ [p] | None \<Rightarrow> sa_replaced a)\<rparr>, (k, v))"

definition agentSetItem :: "string \<Rightarrow> string \<Rightarrow> storage_agent \<Rightarrow> storage_agent \<times> (string \<times> string option)" where
  "agentSetItem k v a = sendUpdate k (Some v) a"

definition agentRemoveItem :: "string \<Rightarrow> storage_agent \<Rightarrow> storage_agent \<times> (string \<times> string option)" where
  "agentRemoveItem k a = sendUpdate k None a"

definition agentClear :: "storage_agent \<Rightarrow> storage_agent \<times> (string \<times> string option)" where
  "agentClear a = sendUpdate CLEAR None a"

definition handleBroadcastUpdate :: "string \<Rightarrow> string option \<Rightarrow> storage_agent \<Rightarrow> storage_agent" where
  "handleBroadcastUpdate k v a0 =
    (let a = (if k = CLEAR then a0\<lparr>sa_cache := []\<rparr> else a0\<lparr>sa_cache := jsSet (sa_cache a0) k v\<rparr>) in
     case jsGet (sa_pending a) k of
       Some (p, expected) \<Rightarrow>
         if expected = v then a\<lparr>sa_resolved := sa_resolved a @ [p], sa_pending := jsDelete (sa_pending a) k\<rparr> else a
     | None \<Rightarrow> a)"

definition onStorageMessage :: "(string, string) jsmap \<Rightarrow> storage_agent \<Rightarrow> storage_agent" where
  "onStorageMessage values a = a\<lparr>sa_cache := map (\<lambda>(k, v). (k, Some v)) values\<rparr>"

definition onControlFrame :: "storage_frame \<Rightarrow> storage_agent \<Rightarrow> storage_agent" where
  "onControlFrame f a = (case f of FullState m \<Rightarrow> onStorageMessage m a | StorageUpdate k v \<Rightarrow> handleBroadcastUpdate k v a)"

section \<open>The hub\<close>

datatype storage_task = BroadcastTask string "string option" | SnapshotTask nat "(string, string) jsmap"

record storage_link =
  sl_agent :: storage_agent
  sl_shared :: "(string, string) jsmap"
  sl_up :: "(string \<times> string option) list"
  sl_down :: "storage_frame list"

record storage_hub =
  lh_items :: "(string, string) jsmap"
  lh_links :: "storage_link list"
  lh_tasks :: "storage_task list"

text \<open>One update on a map, as \<open>applyUpdate\<close> makes it on the controller's copy and on the adapter.\<close>

definition applyUpdate :: "string \<Rightarrow> string option \<Rightarrow> (string, string) jsmap \<Rightarrow> (string, string) jsmap" where
  "applyUpdate k v m =
    (if k = CLEAR \<and> v = None then [] else case v of None \<Rightarrow> jsDelete m k | Some x \<Rightarrow> jsSet m k x)"

definition onLink :: "nat \<Rightarrow> (storage_link \<Rightarrow> storage_link) \<Rightarrow> storage_hub \<Rightarrow> storage_hub" where
  "onLink i f h = (if i < length (lh_links h) then h\<lparr>lh_links := (lh_links h)[i := f (lh_links h ! i)]\<rparr> else h)"

text \<open>A controller starts: \<open>getAllItems\<close> is called, its result is sent when it settles.\<close>

definition startStorage :: "storage_hub \<Rightarrow> storage_hub" where
  "startStorage h = h\<lparr>lh_links := lh_links h @ [\<lparr>sl_agent = newStorageAgent, sl_shared = [], sl_up = [], sl_down = []\<rparr>],
     lh_tasks := lh_tasks h @ [SnapshotTask (length (lh_links h)) (lh_items h)]\<rparr>"

definition agentCall :: "(storage_agent \<Rightarrow> storage_agent \<times> (string \<times> string option)) \<Rightarrow> storage_link \<Rightarrow> storage_link" where
  "agentCall f l = (case f (sl_agent l) of (a, m) \<Rightarrow> l\<lparr>sl_agent := a, sl_up := sl_up l @ [m]\<rparr>)"

text \<open>The handler of \<open>STORAGE_UPDATE\<close> up to its \<open>await\<close>.\<close>

definition receiveUpdate :: "nat \<Rightarrow> storage_hub \<Rightarrow> storage_hub" where
  "receiveUpdate i h =
    (if i < length (lh_links h) then
       (case sl_up (lh_links h ! i) of
          [] \<Rightarrow> h
        | (k, v) # rest \<Rightarrow>
           (onLink i (\<lambda>l. l\<lparr>sl_up := rest, sl_shared := applyUpdate k v (sl_shared l)\<rparr>) h)\<lparr>lh_items := applyUpdate k v (lh_items h),
              lh_tasks := lh_tasks h @ [BroadcastTask k v]\<rparr>)
     else h)"

definition sendFrame :: "storage_frame \<Rightarrow> storage_link \<Rightarrow> storage_link" where
  "sendFrame f l = l\<lparr>sl_down := sl_down l @ [f]\<rparr>"

definition broadcastUpdate :: "string \<Rightarrow> string option \<Rightarrow> storage_hub \<Rightarrow> storage_hub" where
  "broadcastUpdate k v h = h\<lparr>lh_links := map (sendFrame (StorageUpdate k v)) (lh_links h)\<rparr>"

definition dropTask :: "nat \<Rightarrow> storage_hub \<Rightarrow> storage_hub" where
  "dropTask n h = h\<lparr>lh_tasks := take n (lh_tasks h) @ drop (Suc n) (lh_tasks h)\<rparr>"

definition taskSettles :: "nat \<Rightarrow> storage_hub \<Rightarrow> storage_hub" where
  "taskSettles n h =
    (if n < length (lh_tasks h) then
       (case lh_tasks h ! n of
          BroadcastTask k v \<Rightarrow> broadcastUpdate k v (dropTask n h)
        | SnapshotTask i m \<Rightarrow> onLink i (\<lambda>l. sendFrame (FullState m) (l\<lparr>sl_shared := m\<rparr>)) (dropTask n h))
     else h)"

text \<open>The adapter rejects: the handler's promise rejects and nothing is broadcast.\<close>

definition taskFails :: "nat \<Rightarrow> storage_hub \<Rightarrow> storage_hub" where
  "taskFails n h = (if n < length (lh_tasks h) then dropTask n h else h)"

definition deliverFrame :: "nat \<Rightarrow> storage_hub \<Rightarrow> storage_hub" where
  "deliverFrame i h = onLink i (\<lambda>l. case sl_down l of [] \<Rightarrow> l | f # fs \<Rightarrow> l\<lparr>sl_agent := onControlFrame f (sl_agent l), sl_down := fs\<rparr>) h"

datatype storage_event =
    StartInstance
  | CallSetItem nat string string
  | CallRemoveItem nat string
  | CallClear nat
  | ReceiveUpdate nat
  | TaskSettles nat
  | TaskFails nat
  | DeliverFrame nat

definition storageStep :: "storage_hub \<Rightarrow> storage_event \<Rightarrow> storage_hub" where
  "storageStep h e = (case e of
      StartInstance \<Rightarrow> startStorage h
    | CallSetItem i k v \<Rightarrow> onLink i (agentCall (agentSetItem k v)) h
    | CallRemoveItem i k \<Rightarrow> onLink i (agentCall (agentRemoveItem k)) h
    | CallClear i \<Rightarrow> onLink i (agentCall agentClear) h
    | ReceiveUpdate i \<Rightarrow> receiveUpdate i h
    | TaskSettles n \<Rightarrow> taskSettles n h
    | TaskFails n \<Rightarrow> taskFails n h
    | DeliverFrame i \<Rightarrow> deliverFrame i h)"

definition newStorageHub :: "(string, string) jsmap \<Rightarrow> storage_hub" where
  "newStorageHub items = \<lparr>lh_items = items, lh_links = [], lh_tasks = []\<rparr>"

section \<open>The replicas agree\<close>














lemma get_sent [simp]: "agentGetItem (fst (sendUpdate k v a)) = agentGetItem a"
  by (rule ext) (simp add: sendUpdate_def agentGetItem_def split: option.split)

lemma onLink_simps [simp]:
  "length (lh_links (onLink i f h)) = length (lh_links h)" "lh_items (onLink i f h) = lh_items h" "lh_tasks (onLink i f h) = lh_tasks h"
  "j < length (lh_links h) \<Longrightarrow> lh_links (onLink i f h) ! j = (if j = i then f (lh_links h ! j) else lh_links h ! j)"
  by (auto simp: onLink_def)

lemma call_links [simp]:
  "agentGetItem (sl_agent (agentCall (\<lambda>a. sendUpdate k v a) l)) = agentGetItem (sl_agent l)" "sl_down (agentCall (\<lambda>a. sendUpdate k v a) l) = sl_down l"
  "sl_up (agentCall (\<lambda>a. sendUpdate k v a) l) = sl_up l @ [(k, v)]"
  by (simp_all add: agentCall_def split_beta) (simp add: sendUpdate_def)

lemma call_defs: "agentSetItem k x = (\<lambda>a. sendUpdate k (Some x) a)" "agentRemoveItem k = (\<lambda>a. sendUpdate k None a)" "agentClear = (\<lambda>a. sendUpdate CLEAR None a)"
  by (simp_all add: fun_eq_iff agentSetItem_def agentRemoveItem_def agentClear_def)










definition twoInstances :: "storage_event list" where
  "twoInstances = [StartInstance, TaskSettles 0, CallSetItem 0 ''a'' ''1'', StartInstance, ReceiveUpdate 0, CallSetItem 1 ''a'' ''2'', ReceiveUpdate 1,
     TaskSettles 0, TaskSettles 0, TaskSettles 0, DeliverFrame 0, DeliverFrame 0, DeliverFrame 0, DeliverFrame 1, DeliverFrame 1, DeliverFrame 1]"


section \<open>Every call settles, but for those that are overwritten\<close>

definition noFailure :: "storage_event \<Rightarrow> bool" where
  "noFailure e = (case e of TaskFails _ \<Rightarrow> False | _ \<Rightarrow> True)"

definition pending_ok :: "storage_hub \<Rightarrow> bool" where
  "pending_ok h \<longleftrightarrow> (\<forall>i < length (lh_links h). \<forall>k p v. jsGet (sa_pending (sl_agent (lh_links h ! i))) k = Some (p, v) \<longrightarrow>
     (k, v) \<in> set (sl_up (lh_links h ! i)) \<or> BroadcastTask k v \<in> set (lh_tasks h) \<or> StorageUpdate k v \<in> set (sl_down (lh_links h ! i)))"

lemma pending_call: "pending_ok h \<Longrightarrow> pending_ok (onLink i (agentCall (\<lambda>a. sendUpdate k v a)) h)"
  by (auto simp: pending_ok_def agentCall_def sendUpdate_def js_simps split: if_splits)

lemma pending_start: "pending_ok h \<Longrightarrow> pending_ok (startStorage h)"
  by (auto simp: pending_ok_def startStorage_def nth_append newStorageAgent_def less_Suc_eq)

lemma pending_receive: "pending_ok h \<Longrightarrow> pending_ok (receiveUpdate i h)"
  by (auto simp: pending_ok_def receiveUpdate_def split: list.split) (metis prod.inject set_ConsD)+

lemma set_dropTask: "n < length (lh_tasks h) \<Longrightarrow> set (lh_tasks h) = insert (lh_tasks h ! n) (set (lh_tasks (dropTask n h)))"
  by (subst id_take_nth_drop [of n]) (auto simp: dropTask_def)

lemma pending_settle: "pending_ok h \<Longrightarrow> pending_ok (taskSettles n h)"
proof (cases "n < length (lh_tasks h)")
  case True
  assume ok: "pending_ok h"
  note t = set_dropTask [OF True]
  have links: "lh_links (dropTask n h) = lh_links h" by (simp add: dropTask_def)
  show ?thesis
  proof (cases "lh_tasks h ! n")
    case (BroadcastTask k v)
    show ?thesis using ok True
      by (auto simp: pending_ok_def taskSettles_def BroadcastTask broadcastUpdate_def links t sendFrame_def)
  next
    case (SnapshotTask j m)
    show ?thesis using ok True
      by (auto simp: pending_ok_def taskSettles_def SnapshotTask links t sendFrame_def)
  qed
qed (simp add: taskSettles_def)

lemma pending_frame:
  assumes "jsGet (sa_pending (onControlFrame f a)) k = Some (p, v)"
  shows "jsGet (sa_pending a) k = Some (p, v) \<and> f \<noteq> StorageUpdate k v"
  using assms
  by (auto simp: onControlFrame_def onStorageMessage_def handleBroadcastUpdate_def Let_def js_simps split: storage_frame.splits option.splits if_splits)

lemma pending_deliver: "pending_ok h \<Longrightarrow> pending_ok (deliverFrame i h)"
  by (fastforce simp: pending_ok_def deliverFrame_def split: list.split dest!: pending_frame)

lemma pending_step: "pending_ok h \<Longrightarrow> noFailure e \<Longrightarrow> pending_ok (storageStep h e)"
  by (cases e) (auto simp: storageStep_def noFailure_def call_defs intro: pending_call pending_start pending_receive pending_settle pending_deliver)

interpretation storage_calls: guarded_machine storageStep noFailure pending_ok
  by unfold_locales (rule pending_step)

text \<open>Every promise an agent has made is settled, replaced, or on file under some key.\<close>

definition agent_promises_ok :: "storage_agent \<Rightarrow> bool" where
  "agent_promises_ok a \<longleftrightarrow> (\<forall>p < sa_next a. p \<in> set (sa_resolved a) \<or> p \<in> set (sa_replaced a) \<or> (\<exists>k v. jsGet (sa_pending a) k = Some (p, v)))"

lemma promises_sent:
  assumes "agent_promises_ok a"
  shows "agent_promises_ok (fst (sendUpdate k v a))"
  unfolding agent_promises_ok_def
proof (intro allI impI)
  fix p let ?b = "fst (sendUpdate k v a)"
  have b: "sa_resolved ?b = sa_resolved a" "set (sa_replaced a) \<subseteq> set (sa_replaced ?b)" "sa_next ?b = Suc (sa_next a)"
    "jsGet (sa_pending ?b) k' = (if k' = k then Some (sa_next a, v) else jsGet (sa_pending a) k')"
    "jsGet (sa_pending a) k = Some (q, w) \<Longrightarrow> q \<in> set (sa_replaced ?b)" for k' q w
    by (auto simp: sendUpdate_def js_simps split: option.split)
  assume "p < sa_next ?b"
  then consider "p = sa_next a" | "p \<in> set (sa_resolved a)" | "p \<in> set (sa_replaced a)" | k' v' where "jsGet (sa_pending a) k' = Some (p, v')"
    using assms unfolding b(3) agent_promises_ok_def less_Suc_eq by blast
  then show "p \<in> set (sa_resolved ?b) \<or> p \<in> set (sa_replaced ?b) \<or> (\<exists>k v. jsGet (sa_pending ?b) k = Some (p, v))"
  proof cases
    case 1
    then have "jsGet (sa_pending ?b) k = Some (p, v)" by (simp add: b)
    then show ?thesis by blast
  next
    case 4
    then show ?thesis using b(4) [of k'] b(5) [of p v'] by (cases "k' = k") auto
  qed (use b in auto)
qed

lemma promises_frame:
  assumes "agent_promises_ok a"
  shows "agent_promises_ok (onControlFrame f a)"
  unfolding agent_promises_ok_def
proof (intro allI impI)
  fix p let ?b = "onControlFrame f a"
  have b: "set (sa_resolved a) \<subseteq> set (sa_resolved ?b)" "sa_replaced ?b = sa_replaced a" "sa_next ?b = sa_next a"
    "jsGet (sa_pending a) k = Some (q, w) \<Longrightarrow> q \<in> set (sa_resolved ?b) \<or> jsGet (sa_pending ?b) k = Some (q, w)" for k q w
    by (auto simp: onControlFrame_def onStorageMessage_def handleBroadcastUpdate_def Let_def js_simps split: storage_frame.split option.split)
  assume "p < sa_next ?b"
  then consider "p \<in> set (sa_resolved a)" | "p \<in> set (sa_replaced a)" | k v where "jsGet (sa_pending a) k = Some (p, v)"
    using assms unfolding b(3) agent_promises_ok_def by blast
  then show "p \<in> set (sa_resolved ?b) \<or> p \<in> set (sa_replaced ?b) \<or> (\<exists>k v. jsGet (sa_pending ?b) k = Some (p, v))"
  proof cases
    case 3
    then show ?thesis using b(4) [of k p v] by auto
  qed (use b in auto)
qed

definition all_promises_ok :: "storage_hub \<Rightarrow> bool" where
  "all_promises_ok h \<longleftrightarrow> list_all (\<lambda>l. agent_promises_ok (sl_agent l)) (lh_links h)"

lemma promises_onLink:
  "all_promises_ok h \<Longrightarrow> (\<And>l. agent_promises_ok (sl_agent l) \<Longrightarrow> agent_promises_ok (sl_agent (f l))) \<Longrightarrow> all_promises_ok (onLink i f h)"
  by (auto simp: all_promises_ok_def onLink_def list_all_length nth_list_update)

lemma promises_tasks [simp]:
  "all_promises_ok (h\<lparr>lh_tasks := ts\<rparr>) = all_promises_ok h" "all_promises_ok (h\<lparr>lh_items := m\<rparr>) = all_promises_ok h"
  "all_promises_ok (dropTask n h) = all_promises_ok h"
  by (simp_all add: all_promises_ok_def dropTask_def)

lemma promises_sendFrame: "sl_agent (sendFrame f l) = sl_agent l"
  by (simp add: sendFrame_def)

lemma promises_step: "all_promises_ok h \<Longrightarrow> all_promises_ok (storageStep h e)"
proof (cases e)
  case StartInstance
  moreover assume "all_promises_ok h"
  ultimately show ?thesis by (simp add: storageStep_def startStorage_def all_promises_ok_def agent_promises_ok_def newStorageAgent_def)
next
  case (TaskSettles n)
  moreover assume "all_promises_ok h"
  ultimately show ?thesis
    by (auto simp: storageStep_def taskSettles_def broadcastUpdate_def promises_sendFrame list_all_iff split: storage_task.split intro!: promises_onLink)
      (auto simp: all_promises_ok_def dropTask_def list_all_iff promises_sendFrame)
qed (auto simp: storageStep_def call_defs agentCall_def split_beta receiveUpdate_def taskFails_def deliverFrame_def promises_sent promises_frame
      split: list.split intro!: promises_onLink)

interpretation storage_promises: invariant_machine storageStep all_promises_ok
  by unfold_locales (rule promises_step)

text \<open>C27: Every write settles, unless the same instance writes the key again before. As long as the adapter rejects nothing,
  in whatever order its calls settle: when the hub has received all an instance wrote and nothing is under way to
  it any more, each promise it made is resolved or was replaced by a later one under its key, and none is left on file.
\<close>
theorem storage_writes_settle:
  assumes "list_all noFailure es" and "h = foldl storageStep (newStorageHub items) es"
    and "i < length (lh_links h)" and "sl_up (lh_links h ! i) = []" and "lh_tasks h = []" and "sl_down (lh_links h ! i) = []"
    and "a = sl_agent (lh_links h ! i)"
  shows "(\<forall>k. jsGet (sa_pending a) k = None) \<and> {..<sa_next a} \<subseteq> set (sa_resolved a) \<union> set (sa_replaced a)"
proof -
  have "pending_ok (newStorageHub items)" "all_promises_ok (newStorageHub items)"
    by (simp_all add: pending_ok_def newStorageHub_def all_promises_ok_def)
  then have "pending_ok h" "all_promises_ok h"
    unfolding assms(2) using storage_calls.guarded_run [OF _ assms(1)] storage_promises.inv_run by blast+
  then have "jsGet (sa_pending a) k = None" "agent_promises_ok a" for k
    using assms(3-7) by (cases "jsGet (sa_pending a) k"; fastforce simp: pending_ok_def all_promises_ok_def list_all_length)+
  then show ?thesis by (auto simp: agent_promises_ok_def)
qed

lemma storage_writes_settle_witness:
  "\<exists>a. a = sl_agent (lh_links (foldl storageStep (newStorageHub []) twoInstances) ! 0) \<and> sa_next a = 1 \<and>
    {..<sa_next a} \<subseteq> set (sa_resolved a) \<union> set (sa_replaced a) \<and> sa_replaced a = []"
proof -
  let ?h = "foldl storageStep (newStorageHub []) twoInstances"
  have "list_all noFailure twoInstances" "0 < length (lh_links ?h)" "sl_up (lh_links ?h ! 0) = []" "lh_tasks ?h = []"
    "sl_down (lh_links ?h ! 0) = []" "sa_next (sl_agent (lh_links ?h ! 0)) = 1 \<and> sa_replaced (sl_agent (lh_links ?h ! 0)) = []" by code_simp+
  then show ?thesis using storage_writes_settle [where items = "[]" and es = twoInstances and i = 0, OF _ refl] by blast
qed

section \<open>Runs that go wrong\<close>

text \<open>A second write of a key before the first is acknowledged takes its place: the first promise never settles.\<close>

lemma overwritten_write_never_settles:
  "let h = foldl storageStep (newStorageHub [])
      [StartInstance, TaskSettles 0, CallSetItem 0 ''a'' ''1'', CallSetItem 0 ''a'' ''2'', ReceiveUpdate 0, ReceiveUpdate 0, TaskSettles 0, TaskSettles 0,
       DeliverFrame 0, DeliverFrame 0, DeliverFrame 0] in
   lh_tasks h = [] \<and> sa_next (sl_agent (lh_links h ! 0)) = 2 \<and> sa_resolved (sl_agent (lh_links h ! 0)) = [1] \<and> sa_replaced (sl_agent (lh_links h ! 0)) = [0] \<and> sa_pending (sl_agent (lh_links h ! 0)) = []"
  by code_simp

text \<open>An item set under the reserved key is stored by the hub and empties the caches of all instances.\<close>

lemma reserved_key_empties_caches:
  "let h = foldl storageStep (newStorageHub [(''a'', ''1'')])
      [StartInstance, TaskSettles 0, CallSetItem 0 CLEAR ''x'', ReceiveUpdate 0, TaskSettles 0, DeliverFrame 0, DeliverFrame 0] in
   lh_items h = [(''a'', ''1''), (CLEAR, ''x'')] \<and> sa_cache (sl_agent (lh_links h ! 0)) = []"
  by code_simp

text \<open>
  With an adapter whose calls settle out of order, an instance that starts keeps the state it asked for before the
  update of another.\<close>

lemma late_snapshot_loses_update:
  "let h = foldl storageStep (newStorageHub [(''a'', ''1'')])
      [StartInstance, TaskSettles 0, DeliverFrame 0, StartInstance, CallSetItem 0 ''a'' ''2'', ReceiveUpdate 0, TaskSettles 1, TaskSettles 0,
       DeliverFrame 0, DeliverFrame 1, DeliverFrame 1] in
   lh_tasks h = [] \<and> jsGet (lh_items h) ''a'' = Some ''2'' \<and> agentGetItem (sl_agent (lh_links h ! 1)) ''a'' = Some ''1''"
  by code_simp

end
