(* ===== verification/CpmConnector.thy ===== *)
theory CpmConnector
  imports Prelude
begin

text \<open>
  The connection of a hub to its manager: \<open>CPMConnector\<close> of \<open>packages/host/src/lib/cpm-connector.ts\<close> with the delay
  generator of \<open>packages/utility/src/exponential-backoff.ts\<close>.

  One attempt at a time goes through broker, guest and registration; one supervisor at a time retries. Every
  function that awaits is a waiter of the attempt or a task; when a promise settles, the continuations of its
  waiters are queued as tasks, so notifications of the streams may come between them.
\<close>

section \<open>Backoff\<close>

record backoff =
  bo_initialDelay :: int
  bo_maxDelay :: int
  bo_attempts :: nat
  bo_pending :: nat

definition createExponentialBackoff :: "int \<Rightarrow> int \<Rightarrow> backoff option" where
  "createExponentialBackoff initialDelay maxDelay =
    (if initialDelay < 0 \<or> maxDelay < initialDelay then None
     else Some \<lparr>bo_initialDelay = initialDelay, bo_maxDelay = maxDelay, bo_attempts = 0, bo_pending = 0\<rparr>)"

definition backoffDelay :: "backoff \<Rightarrow> int" where
  "backoffDelay b = min (bo_initialDelay b * 2 ^ bo_attempts b) (bo_maxDelay b)"

text \<open>A call: the delay and the generator with one more pending promise.\<close>

definition backoffCall :: "backoff \<Rightarrow> int \<times> backoff" where
  "backoffCall b = (backoffDelay b, b\<lparr>bo_attempts := Suc (bo_attempts b), bo_pending := Suc (bo_pending b)\<rparr>)"

definition backoffSettle :: "backoff \<Rightarrow> backoff" where
  "backoffSettle b = b\<lparr>bo_pending := bo_pending b - 1\<rparr>"

definition backoffCancel :: "backoff \<Rightarrow> backoff \<times> nat" where
  "backoffCancel b = (b\<lparr>bo_pending := 0\<rparr>, bo_pending b)"

definition backoffSuccess :: "backoff \<Rightarrow> backoff" where
  "backoffSuccess b = b\<lparr>bo_attempts := 0\<rparr>"

section \<open>The connector\<close>

datatype attempt_phase = AtBroker | AtGuest | AtRegistration nat
datatype attempt_waiter = WaitConnect | WaitSupervisor
datatype cpm_task = ResumeAttempt attempt_waiter bool | ResumeBackoff
datatype cpm_note = Connectivity bool | RetryDelay int | ConnectEvent | CommunicationConflict

record cpm_config =
  cf_reconnectionDelay :: int
  cf_reconnectionMaxDelay :: "int option"
  cf_maxReconnections :: int

record cpm_connector =
  cc_config :: cpm_config
  cc_connected :: bool
  cc_stream :: bool
  cc_communicationGeneration :: nat
  cc_registrationGeneration :: nat
  cc_attempt :: "attempt_phase option"
  cc_waiters :: "attempt_waiter list"
  cc_supervisor :: bool
  cc_isReconnecting :: bool
  cc_backoff :: "backoff option"
  cc_connectionAttempts :: nat
  cc_isAbandoned :: bool
  cc_loadSends :: nat
  cc_loadInterval :: "nat option"
  cc_intervals :: "nat list"
  cc_nextInterval :: nat
  cc_queue :: "cpm_task list"
  cc_notes :: "cpm_note list"

definition cpmNote :: "cpm_note \<Rightarrow> cpm_connector \<Rightarrow> cpm_connector" where
  "cpmNote x s = s\<lparr>cc_notes := cc_notes s @ [x]\<rparr>"

definition cpmDefer :: "cpm_task \<Rightarrow> cpm_connector \<Rightarrow> cpm_connector" where
  "cpmDefer t s = s\<lparr>cc_queue := cc_queue s @ [t]\<rparr>"

definition setConnected :: "bool \<Rightarrow> cpm_connector \<Rightarrow> cpm_connector" where
  "setConnected b s = (if cc_connected s = b then s else cpmNote (Connectivity b) (s\<lparr>cc_connected := b\<rparr>))"

text \<open>The delays of the configuration: never below zero, and never a maximum below the first delay.\<close>

definition newBackoff :: "cpm_config \<Rightarrow> backoff" where
  "newBackoff c =
    (let initialDelay = max 0 (cf_reconnectionDelay c);
         multiplier = max 1 (if cf_maxReconnections c = 0 then 1 else cf_maxReconnections c);
         maxDelay = (case cf_reconnectionMaxDelay c of
             Some m \<Rightarrow> if m \<ge> initialDelay then m else initialDelay * multiplier
           | None \<Rightarrow> initialDelay * multiplier)
     in the (createExponentialBackoff initialDelay maxDelay))"

definition ensureReconnectBackoff :: "cpm_connector \<Rightarrow> cpm_connector \<times> backoff" where
  "ensureReconnectBackoff s = (case cc_backoff s of
      Some b \<Rightarrow> (s, b)
    | None \<Rightarrow> (let b = newBackoff (cc_config s) in (s\<lparr>cc_backoff := Some b\<rparr>, b)))"

text \<open>\<open>reconnectBackoff?.cancel()\<close>: a pending delay resolves.\<close>

definition cancelBackoff :: "cpm_connector \<Rightarrow> cpm_connector" where
  "cancelBackoff s = (case cc_backoff s of
      None \<Rightarrow> s
    | Some b \<Rightarrow> (case backoffCancel b of (b', n) \<Rightarrow>
        s\<lparr>cc_backoff := Some b', cc_queue := cc_queue s @ replicate n ResumeBackoff\<rparr>))"

definition abandonReconnect :: "cpm_connector \<Rightarrow> cpm_connector" where
  "abandonReconnect s = (cancelBackoff s)\<lparr>cc_isReconnecting := False\<rparr>"

definition clearLoadInterval :: "cpm_connector \<Rightarrow> cpm_connector" where
  "clearLoadInterval s = (case cc_loadInterval s of
      Some t \<Rightarrow> s\<lparr>cc_intervals := removeAll t (cc_intervals s), cc_loadInterval := None\<rparr>
    | None \<Rightarrow> s)"

definition handleCommunicationRequestEnd :: "cpm_connector \<Rightarrow> cpm_connector" where
  "handleCommunicationRequestEnd s = (clearLoadInterval s)\<lparr>cc_stream := False\<rparr>"

definition disconnectCpm :: "cpm_connector \<Rightarrow> cpm_connector" where
  "disconnectCpm s = handleCommunicationRequestEnd (setConnected False (abandonReconnect (s\<lparr>cc_isAbandoned := True\<rparr>)))"

text \<open>A drop message of the manager.\<close>

definition handleDrop :: "cpm_connector \<Rightarrow> cpm_connector" where
  "handleDrop s = abandonReconnect (s\<lparr>cc_isAbandoned := True\<rparr>)"

definition handleCommunicationRequest :: "cpm_connector \<Rightarrow> cpm_connector" where
  "handleCommunicationRequest s =
    (if cc_stream s then cpmNote CommunicationConflict s
     else s\<lparr>cc_communicationGeneration := Suc (cc_communicationGeneration s), cc_stream := True, cc_loadSends := Suc (cc_loadSends s)\<rparr>)"

text \<open>\<open>setLoadCheckMessageSender\<close> after its first \<open>sendLoad\<close>.\<close>

definition loadSent :: "cpm_connector \<Rightarrow> cpm_connector" where
  "loadSent s = (case cc_loadSends s of
      0 \<Rightarrow> s
    | Suc n \<Rightarrow> s\<lparr>cc_loadSends := n, cc_intervals := cc_intervals s @ [cc_nextInterval s], cc_loadInterval := Some (cc_nextInterval s),
        cc_nextInterval := Suc (cc_nextInterval s)\<rparr>)"

text \<open>One attempt is shared by all who ask for it.\<close>

definition connectOnce :: "attempt_waiter \<Rightarrow> cpm_connector \<Rightarrow> cpm_connector" where
  "connectOnce w s =
    s\<lparr>cc_attempt := (case cc_attempt s of Some a \<Rightarrow> Some a | None \<Rightarrow> Some AtBroker), cc_waiters := cc_waiters s @ [w]\<rparr>"

definition settleAttempt :: "bool \<Rightarrow> cpm_connector \<Rightarrow> cpm_connector" where
  "settleAttempt ok s = s\<lparr>cc_attempt := None, cc_waiters := [], cc_queue := cc_queue s @ map (\<lambda>w. ResumeAttempt w ok) (cc_waiters s)\<rparr>"

definition brokerConnected :: "bool \<Rightarrow> cpm_connector \<Rightarrow> cpm_connector" where
  "brokerConnected ok s =
    (if cc_attempt s \<noteq> Some AtBroker then s else if \<not> ok then settleAttempt False s
     else if cc_isAbandoned s then settleAttempt True s else s\<lparr>cc_attempt := Some AtGuest\<rparr>)"

definition guestConnected :: "bool \<Rightarrow> cpm_connector \<Rightarrow> cpm_connector" where
  "guestConnected ok s =
    (if cc_attempt s \<noteq> Some AtGuest then s else if \<not> ok then settleAttempt False s
     else if cc_isAbandoned s then settleAttempt True s else s\<lparr>cc_attempt := Some (AtRegistration (cc_registrationGeneration s))\<rparr>)"

definition establishConnection :: "cpm_connector \<Rightarrow> cpm_connector" where
  "establishConnection s =
    (case ensureReconnectBackoff ((setConnected True s)\<lparr>cc_connectionAttempts := 0\<rparr>) of
      (s1, b) \<Rightarrow> cpmNote ConnectEvent (s1\<lparr>cc_backoff := Some (backoffSuccess b)\<rparr>))"

definition managerAnswered :: "bool \<Rightarrow> cpm_connector \<Rightarrow> cpm_connector" where
  "managerAnswered ok s = (case cc_attempt s of
      Some (AtRegistration g) \<Rightarrow>
        if \<not> ok then settleAttempt False s
        else if cc_isAbandoned s then settleAttempt True s
        else if g \<noteq> cc_registrationGeneration s then settleAttempt False s
        else settleAttempt True (establishConnection s)
    | _ \<Rightarrow> s)"

text \<open>One round of the supervisor up to the delay; its end.\<close>

definition retryLater :: "cpm_connector \<Rightarrow> cpm_connector" where
  "retryLater s0 =
    (case ensureReconnectBackoff (s0\<lparr>cc_connectionAttempts := Suc (cc_connectionAttempts s0)\<rparr>) of
      (s, b) \<Rightarrow> (case backoffCall b of (d, b') \<Rightarrow> cpmNote (RetryDelay d) (s\<lparr>cc_backoff := Some b'\<rparr>)))"

definition endSupervisor :: "cpm_connector \<Rightarrow> cpm_connector" where
  "endSupervisor s = cancelBackoff (s\<lparr>cc_isReconnecting := False, cc_supervisor := False\<rparr>)"

definition reconnect :: "cpm_connector \<Rightarrow> cpm_connector" where
  "reconnect s = (if cc_isAbandoned s \<or> cc_supervisor s then s else retryLater (s\<lparr>cc_isReconnecting := True, cc_supervisor := True\<rparr>))"

definition connectCpm :: "cpm_connector \<Rightarrow> cpm_connector" where
  "connectCpm s = (if cc_isAbandoned s \<or> cc_supervisor s then s else connectOnce WaitConnect s)"

definition handleConnectionClose :: "int \<Rightarrow> nat option \<Rightarrow> cpm_connector \<Rightarrow> cpm_connector" where
  "handleConnectionClose code generation s =
    (if generation \<noteq> None \<and> generation \<noteq> Some (cc_communicationGeneration s) then s
     else (let s1 = setConnected False (handleCommunicationRequestEnd (s\<lparr>cc_registrationGeneration := Suc (cc_registrationGeneration s)\<rparr>)) in
       if code = 403 then abandonReconnect (s1\<lparr>cc_isAbandoned := True\<rparr>) else reconnect s1))"

definition runCpmTask :: "cpm_task \<Rightarrow> cpm_connector \<Rightarrow> cpm_connector" where
  "runCpmTask t s = (case t of
      ResumeAttempt WaitConnect ok \<Rightarrow> if cc_connected s then s else reconnect s
    | ResumeAttempt WaitSupervisor ok \<Rightarrow> if ok \<or> cc_isAbandoned s then endSupervisor s else retryLater s
    | ResumeBackoff \<Rightarrow> if cc_isAbandoned s then endSupervisor s else connectOnce WaitSupervisor s)"

definition nextCpmTask :: "cpm_connector \<Rightarrow> cpm_connector" where
  "nextCpmTask s = (case cc_queue s of [] \<Rightarrow> s | t # ts \<Rightarrow> runCpmTask t (s\<lparr>cc_queue := ts\<rparr>))"

definition delayElapsed :: "cpm_connector \<Rightarrow> cpm_connector" where
  "delayElapsed s = (case cc_backoff s of
      Some b \<Rightarrow> if bo_pending b > 0 then cpmDefer ResumeBackoff (s\<lparr>cc_backoff := Some (backoffSettle b)\<rparr>) else s
    | None \<Rightarrow> s)"

datatype cpm_event =
    ConnectCall
  | DisconnectCall
  | BrokerAnswers bool
  | GuestAnswers bool
  | ManagerAnswers bool
  | DelayElapses
  | CommunicationOpens
  | LoadSent
  | DropMessage
  | CommunicationCloses int "nat option"
  | NextTask

definition cpmStep :: "cpm_connector \<Rightarrow> cpm_event \<Rightarrow> cpm_connector" where
  "cpmStep s e = (case e of
      ConnectCall \<Rightarrow> connectCpm s
    | DisconnectCall \<Rightarrow> disconnectCpm s
    | BrokerAnswers ok \<Rightarrow> brokerConnected ok s
    | GuestAnswers ok \<Rightarrow> guestConnected ok s
    | ManagerAnswers ok \<Rightarrow> managerAnswered ok s
    | DelayElapses \<Rightarrow> delayElapsed s
    | CommunicationOpens \<Rightarrow> handleCommunicationRequest s
    | LoadSent \<Rightarrow> loadSent s
    | DropMessage \<Rightarrow> handleDrop s
    | CommunicationCloses code g \<Rightarrow> handleConnectionClose code g s
    | NextTask \<Rightarrow> nextCpmTask s)"

definition newCpmConnector :: "cpm_config \<Rightarrow> cpm_connector" where
  "newCpmConnector c = \<lparr>cc_config = c, cc_connected = False, cc_stream = False, cc_communicationGeneration = 0,
     cc_registrationGeneration = 0, cc_attempt = None, cc_waiters = [], cc_supervisor = False, cc_isReconnecting = False, cc_backoff = None,
     cc_connectionAttempts = 0, cc_isAbandoned = False, cc_loadSends = 0, cc_loadInterval = None, cc_intervals = [], cc_nextInterval = 0,
     cc_queue = [], cc_notes = []\<rparr>"

section \<open>The delays\<close>

lemma newBackoff_shape:
  "bo_initialDelay (newBackoff c) = max 0 (cf_reconnectionDelay c) \<and> bo_initialDelay (newBackoff c) \<le> bo_maxDelay (newBackoff c) \<and>
   bo_attempts (newBackoff c) = 0 \<and> bo_pending (newBackoff c) = 0"
proof -
  define I where "I = max 0 (cf_reconnectionDelay c)"
  define K where "K = max 1 (if cf_maxReconnections c = 0 then 1 else cf_maxReconnections c)"
  have "0 \<le> I" "1 \<le> K" by (auto simp: I_def K_def)
  moreover from this have "I \<le> I * K" using mult_left_mono [of 1 K I] by simp
  ultimately have "bo_initialDelay (newBackoff c) = I \<and> bo_initialDelay (newBackoff c) \<le> bo_maxDelay (newBackoff c) \<and>
     bo_attempts (newBackoff c) = 0 \<and> bo_pending (newBackoff c) = 0"
    by (auto simp: newBackoff_def Let_def createExponentialBackoff_def I_def [symmetric] K_def [symmetric] split: option.split)
  then show ?thesis unfolding I_def .
qed

lemma newBackoff_start [simp]: "bo_attempts (newBackoff c) = 0" "bo_pending (newBackoff c) = 0"
  using newBackoff_shape by simp_all

text \<open>The number of delays since the last connection, and the delays a log of notices must show.\<close>

fun failuresSince :: "cpm_note list \<Rightarrow> nat" where
  "failuresSince [] = 0"
| "failuresSince (x # xs) = (case x of RetryDelay d \<Rightarrow> Suc (failuresSince xs) | ConnectEvent \<Rightarrow> 0 | _ \<Rightarrow> failuresSince xs)"

fun paced :: "int \<Rightarrow> int \<Rightarrow> cpm_note list \<Rightarrow> bool" where
  "paced i m [] = True"
| "paced i m (x # xs) = (paced i m xs \<and> (case x of RetryDelay d \<Rightarrow> d = min (i * 2 ^ failuresSince xs) m | _ \<Rightarrow> True))"

definition paceInv :: "cpm_config \<Rightarrow> cpm_connector \<Rightarrow> bool" where
  "paceInv c s = (cc_config s = c \<and> paced (bo_initialDelay (newBackoff c)) (bo_maxDelay (newBackoff c)) (rev (cc_notes s)) \<and>
     (case cc_backoff s of None \<Rightarrow> failuresSince (rev (cc_notes s)) = 0
      | Some b \<Rightarrow> bo_attempts b = failuresSince (rev (cc_notes s)) \<and> bo_initialDelay b = bo_initialDelay (newBackoff c) \<and>
          bo_maxDelay b = bo_maxDelay (newBackoff c)))"

lemmas cpm_small = cpmNote_def cpmDefer_def setConnected_def cancelBackoff_def backoffCancel_def abandonReconnect_def
  clearLoadInterval_def handleCommunicationRequestEnd_def

lemma pace_keep:
  "paceInv c s \<Longrightarrow> paceInv c (setConnected b s)" "paceInv c s \<Longrightarrow> paceInv c (abandonReconnect s)"
  "paceInv c s \<Longrightarrow> paceInv c (cancelBackoff s)"
  "paceInv c s \<Longrightarrow> paceInv c (handleCommunicationRequestEnd s)" "paceInv c s \<Longrightarrow> paceInv c (cpmDefer t s)"
  "paceInv c s \<Longrightarrow> paceInv c (settleAttempt ok s)" "paceInv c s \<Longrightarrow> paceInv c (connectOnce w s)"
  by (auto simp: paceInv_def cpm_small settleAttempt_def connectOnce_def split: option.splits)

lemma pace_upd [simp]:
  "paceInv c (s\<lparr>cc_isAbandoned := a\<rparr>) = paceInv c s" "paceInv c (s\<lparr>cc_connectionAttempts := n\<rparr>) = paceInv c s"
  "paceInv c (s\<lparr>cc_isReconnecting := a\<rparr>) = paceInv c s" "paceInv c (s\<lparr>cc_supervisor := a\<rparr>) = paceInv c s"
  "paceInv c (s\<lparr>cc_registrationGeneration := n\<rparr>) = paceInv c s" "paceInv c (s\<lparr>cc_queue := q\<rparr>) = paceInv c s"
  "paceInv c (s\<lparr>cc_attempt := at\<rparr>) = paceInv c s"
  by (simp_all add: paceInv_def split: option.split)

lemma pace_retryLater: "paceInv c s \<Longrightarrow> paceInv c (retryLater s)"
  by (auto simp: paceInv_def retryLater_def ensureReconnectBackoff_def backoffCall_def backoffDelay_def cpmNote_def Let_def split: option.splits)

lemma pace_reconnect: "paceInv c s \<Longrightarrow> paceInv c (reconnect s)"
  by (simp add: reconnect_def pace_retryLater)

lemma pace_establish: "paceInv c s \<Longrightarrow> paceInv c (establishConnection s)"
  by (auto simp: paceInv_def establishConnection_def ensureReconnectBackoff_def backoffSuccess_def setConnected_def cpmNote_def Let_def
      split: option.splits)

lemma pace_task: "paceInv c s \<Longrightarrow> paceInv c (runCpmTask t s)"
  by (simp add: runCpmTask_def endSupervisor_def pace_keep pace_retryLater pace_reconnect split: cpm_task.split attempt_waiter.split)

lemma pace_step: "paceInv c s \<Longrightarrow> paceInv c (cpmStep s e)"
proof (cases e)
  case CommunicationOpens
  moreover assume "paceInv c s"
  ultimately show ?thesis
    by (auto simp: cpmStep_def handleCommunicationRequest_def cpmNote_def paceInv_def split: option.splits)
next
  case LoadSent
  moreover assume "paceInv c s"
  ultimately show ?thesis by (simp add: cpmStep_def loadSent_def paceInv_def split: nat.split option.splits)
next
  case DelayElapses
  moreover assume "paceInv c s"
  ultimately show ?thesis
    by (auto simp: cpmStep_def delayElapsed_def cpmDefer_def backoffSettle_def paceInv_def split: option.splits)
qed (simp_all add: cpmStep_def connectCpm_def disconnectCpm_def brokerConnected_def guestConnected_def managerAnswered_def handleDrop_def
      handleConnectionClose_def nextCpmTask_def Let_def pace_keep pace_reconnect pace_establish pace_task
      split: option.split attempt_phase.split list.split)

interpretation cpm_pace: invariant_machine cpmStep "paceInv c" for c
  by unfold_locales (rule pace_step)

lemma pace_new: "paceInv c (newCpmConnector c)"
  by (simp add: paceInv_def newCpmConnector_def)

lemma paced_at: "paced i m (ys @ RetryDelay d # xs) \<Longrightarrow> d = min (i * 2 ^ failuresSince xs) m"
  by (induction ys) auto

text \<open>C28: Every delay between two attempts is exactly the first delay of the configuration doubled once for every delay
  since the last connection, cut at the maximum; so it never is below the first delay nor above the maximum, and a
  connection resets it, whatever happens in between.
\<close>

theorem reconnect_delays_paced:
  assumes "cc_notes (foldl cpmStep (newCpmConnector c) es) = xs @ RetryDelay d # ys"
  shows "d = min (max 0 (cf_reconnectionDelay c) * 2 ^ failuresSince (rev xs)) (bo_maxDelay (newBackoff c)) \<and>
     max 0 (cf_reconnectionDelay c) \<le> d \<and> d \<le> bo_maxDelay (newBackoff c)"
proof -
  let ?i = "max 0 (cf_reconnectionDelay c)"
  have "paced ?i (bo_maxDelay (newBackoff c)) (rev (xs @ RetryDelay d # ys))"
    using cpm_pace.inv_run [OF pace_new [of c], of es] newBackoff_shape [of c] by (simp only: assms paceInv_def)
  then have d: "d = min (?i * 2 ^ failuresSince (rev xs)) (bo_maxDelay (newBackoff c))"
    by (simp only: rev_append rev.simps append_assoc append_Cons append_Nil paced_at)
  have "?i \<le> ?i * 2 ^ failuresSince (rev xs)"
    using mult_left_mono [of 1 "2 ^ failuresSince (rev xs)" ?i] by simp
  then show ?thesis
    using newBackoff_shape [of c] by (simp only: d min_def split: if_splits) (simp del: max.bounded_iff)
qed

section \<open>One supervisor\<close>

definition isSupervisorTask :: "cpm_task \<Rightarrow> bool" where
  "isSupervisorTask t = (case t of ResumeAttempt w ok \<Rightarrow> w = WaitSupervisor | ResumeBackoff \<Rightarrow> True)"

definition pendingDelays :: "cpm_connector \<Rightarrow> nat" where
  "pendingDelays s = (case cc_backoff s of None \<Rightarrow> 0 | Some b \<Rightarrow> bo_pending b)"

text \<open>The places at which a retry loop can be suspended.\<close>

definition positions :: "cpm_connector \<Rightarrow> nat" where
  "positions s = pendingDelays s + length (filter isSupervisorTask (cc_queue s)) + count_list (cc_waiters s) WaitSupervisor"

definition soleSupervisor :: "cpm_connector \<Rightarrow> bool" where
  "soleSupervisor s = (positions s = (if cc_supervisor s then 1 else 0) \<and> (cc_isReconnecting s \<longrightarrow> cc_supervisor s) \<and>
     (cc_waiters s = [] \<longleftrightarrow> cc_attempt s = None))"

lemma supervisor_tasks [simp]: "isSupervisorTask ResumeBackoff" "isSupervisorTask (ResumeAttempt w ok) = (w = WaitSupervisor)"
  by (simp_all add: isSupervisorTask_def)

lemma filter_resumes [simp]:
  "length (filter (isSupervisorTask \<circ> (\<lambda>w. ResumeAttempt w ok)) ws) = count_list ws WaitSupervisor"
  "filter (isSupervisorTask \<circ> (\<lambda>w. ResumeAttempt w ok)) ws = [] \<longleftrightarrow> count_list ws WaitSupervisor = 0"
  by (induction ws) auto

lemma filter_delays [simp]: "filter isSupervisorTask (replicate n ResumeBackoff) = replicate n ResumeBackoff"
  by (induction n) auto

lemmas sole_defs = soleSupervisor_def positions_def pendingDelays_def

lemma sole_keep:
  "soleSupervisor s \<Longrightarrow> soleSupervisor (setConnected b s)" "soleSupervisor s \<Longrightarrow> soleSupervisor (abandonReconnect s)"
  "soleSupervisor s \<Longrightarrow> soleSupervisor (handleCommunicationRequestEnd s)"
  "soleSupervisor s \<Longrightarrow> soleSupervisor (settleAttempt ok s)" "soleSupervisor s \<Longrightarrow> soleSupervisor (connectOnce WaitConnect s)"
  by (auto simp: sole_defs cpm_small settleAttempt_def connectOnce_def split: option.splits)

lemma sole_upd [simp]:
  "soleSupervisor (s\<lparr>cc_isAbandoned := a\<rparr>) = soleSupervisor s" "soleSupervisor (s\<lparr>cc_connectionAttempts := n\<rparr>) = soleSupervisor s"
  "soleSupervisor (s\<lparr>cc_registrationGeneration := n\<rparr>) = soleSupervisor s"
  "cc_attempt s \<noteq> None \<Longrightarrow> soleSupervisor (s\<lparr>cc_attempt := Some at\<rparr>) = soleSupervisor s"
  by (auto simp: sole_defs split: option.splits if_splits)

lemma sole_reconnect: "soleSupervisor s \<Longrightarrow> soleSupervisor (reconnect s)"
  by (auto simp: sole_defs reconnect_def retryLater_def ensureReconnectBackoff_def backoffCall_def cpmNote_def Let_def
      split: option.splits if_splits)

lemma sole_establish: "soleSupervisor s \<Longrightarrow> soleSupervisor (establishConnection s)"
  by (auto simp: sole_defs establishConnection_def ensureReconnectBackoff_def backoffSuccess_def setConnected_def cpmNote_def Let_def
      split: option.splits)

lemma sole_task:
  assumes "soleSupervisor s" and q: "cc_queue s = t # ts"
  shows "soleSupervisor (runCpmTask t (s\<lparr>cc_queue := ts\<rparr>))"
proof (cases "isSupervisorTask t")
  case False
  with assms have "soleSupervisor (s\<lparr>cc_queue := ts\<rparr>)" by (auto simp: sole_defs)
  with False show ?thesis
    by (auto simp: runCpmTask_def sole_reconnect isSupervisorTask_def split: cpm_task.splits attempt_waiter.splits)
next
  case True
  with assms have "cc_supervisor s" "pendingDelays s = 0" "filter isSupervisorTask ts = []" "count_list (cc_waiters s) WaitSupervisor = 0"
    by (auto simp: soleSupervisor_def positions_def split: if_splits)
  with True assms show ?thesis
    by (auto simp: runCpmTask_def isSupervisorTask_def sole_defs endSupervisor_def cancelBackoff_def backoffCancel_def connectOnce_def
        retryLater_def ensureReconnectBackoff_def backoffCall_def cpmNote_def Let_def
        split: cpm_task.splits attempt_waiter.splits option.splits)
qed

lemma sole_step: "soleSupervisor s \<Longrightarrow> soleSupervisor (cpmStep s e)"
proof (cases e)
  case DelayElapses
  moreover assume "soleSupervisor s"
  ultimately show ?thesis
    by (auto simp: cpmStep_def delayElapsed_def cpmDefer_def backoffSettle_def sole_defs split: option.splits if_splits)
next
  case NextTask
  moreover assume "soleSupervisor s"
  ultimately show ?thesis by (simp add: cpmStep_def nextCpmTask_def sole_task split: list.split)
next
  case CommunicationOpens
  moreover assume "soleSupervisor s"
  ultimately show ?thesis by (auto simp: cpmStep_def handleCommunicationRequest_def cpmNote_def sole_defs split: option.splits if_splits)
next
  case LoadSent
  moreover assume "soleSupervisor s"
  ultimately show ?thesis by (auto simp: cpmStep_def loadSent_def sole_defs split: nat.split option.splits if_splits)
qed (simp_all add: cpmStep_def connectCpm_def disconnectCpm_def brokerConnected_def guestConnected_def managerAnswered_def handleDrop_def
      handleConnectionClose_def Let_def sole_keep sole_reconnect sole_establish
      split: option.split attempt_phase.split)

lemma sole_new: "soleSupervisor (newCpmConnector c)"
  by (simp add: sole_defs newCpmConnector_def)

section \<open>Never stranded\<close>

text \<open>
  A stream ends in an event of its own: between two events the continuations of settled promises all run
  (\<open>calm\<close>). Then a successful attempt still counts when those that waited for it go on.
\<close>

definition closeEvent :: "cpm_event \<Rightarrow> bool" where
  "closeEvent e = (case e of CommunicationCloses code g \<Rightarrow> True | _ \<Rightarrow> False)"

definition calm :: "cpm_connector \<Rightarrow> cpm_event \<Rightarrow> bool" where
  "calm s e = (closeEvent e \<longrightarrow> cc_queue s = [])"

definition successCounts :: "cpm_connector \<Rightarrow> bool" where
  "successCounts s = (cc_isAbandoned s \<or> cc_connected s \<or> (\<forall>w. ResumeAttempt w True \<notin> set (cc_queue s)))"

definition alive :: "cpm_connector \<Rightarrow> bool" where
  "alive s = (cc_isAbandoned s \<or> cc_connected s \<or> cc_supervisor s \<or> WaitConnect \<in> set (cc_waiters s) \<or>
     (\<exists>ok. ResumeAttempt WaitConnect ok \<in> set (cc_queue s)))"

lemmas alive_defs = successCounts_def alive_def
lemmas cpm_ops = cpmStep_def connectCpm_def connectOnce_def disconnectCpm_def brokerConnected_def guestConnected_def managerAnswered_def
  handleDrop_def handleConnectionClose_def Let_def settleAttempt_def cpm_small handleCommunicationRequest_def loadSent_def
  delayElapsed_def reconnect_def retryLater_def ensureReconnectBackoff_def backoffCall_def establishConnection_def

lemma success_step:
  assumes "successCounts s" and "calm s e"
  shows "successCounts (cpmStep s e)"
proof (cases e)
  case NextTask
  with assms(1) show ?thesis
    by (auto simp: cpm_ops nextCpmTask_def runCpmTask_def endSupervisor_def successCounts_def
        split: list.splits cpm_task.splits attempt_waiter.splits option.splits)
next
  case (CommunicationCloses code g)
  with assms show ?thesis by (auto simp: cpm_ops successCounts_def calm_def closeEvent_def split: option.splits)
qed (use assms(1) in \<open>auto simp: cpm_ops successCounts_def split: option.splits attempt_phase.splits nat.splits\<close>)

lemma alive_step:
  assumes "alive s" "successCounts s" "soleSupervisor s" and "calm s e"
  shows "alive (cpmStep s e)"
proof (cases e)
  case NextTask
  with assms(1,2) show ?thesis
    by (auto simp: cpm_ops nextCpmTask_def runCpmTask_def endSupervisor_def alive_defs
        split: list.splits cpm_task.splits attempt_waiter.splits option.splits)
next
  case (CommunicationCloses code g)
  with assms(1) show ?thesis by (auto simp: cpm_ops alive_def split: option.splits)
qed (use assms(1) in \<open>auto simp: cpm_ops alive_def split: option.splits attempt_phase.splits nat.splits\<close>)

lemma alive_connect: "alive (connectCpm s)"
  by (simp add: connectCpm_def connectOnce_def alive_def)

definition upright :: "cpm_connector \<Rightarrow> bool" where
  "upright s = (successCounts s \<and> soleSupervisor s)"

interpretation cpm_upright: contract_machine cpmStep calm upright
  by unfold_locales (simp add: upright_def success_step sole_step)

interpretation cpm_alive: contract_machine cpmStep calm "\<lambda>s. upright s \<and> alive s"
  by unfold_locales (simp add: upright_def success_step sole_step alive_step)

lemma upright_new: "upright (newCpmConnector c)"
  using sole_new by (simp add: upright_def successCounts_def) (simp add: newCpmConnector_def)

lemma keeps_calm_append:
  "keeps_contract cpmStep calm s (xs @ ys) = (keeps_contract cpmStep calm s xs \<and> keeps_contract cpmStep calm (foldl cpmStep s xs) ys)"
  by (induction xs arbitrary: s) auto

text \<open>The next event when everyone answers and no stream ends.\<close>

definition cooperate :: "cpm_connector \<Rightarrow> cpm_event" where
  "cooperate s = (if cc_queue s \<noteq> [] then NextTask else case cc_attempt s of
      Some AtBroker \<Rightarrow> BrokerAnswers True
    | Some AtGuest \<Rightarrow> GuestAnswers True
    | Some (AtRegistration g) \<Rightarrow> ManagerAnswers True
    | None \<Rightarrow> DelayElapses)"

definition coopStep :: "cpm_connector \<Rightarrow> cpm_connector" where
  "coopStep s = cpmStep s (cooperate s)"

text \<open>How far the connector is from a connection: the attempt that runs, its phase, what waits.\<close>

definition attemptClass :: "cpm_connector \<Rightarrow> nat" where
  "attemptClass s = (case cc_attempt s of
      None \<Rightarrow> 1 | Some (AtRegistration g) \<Rightarrow> if g = cc_registrationGeneration s then 0 else 2 | _ \<Rightarrow> 0)"

definition phaseRank :: "cpm_connector \<Rightarrow> nat" where
  "phaseRank s = (case cc_attempt s of Some AtBroker \<Rightarrow> 2 | Some AtGuest \<Rightarrow> 1 | _ \<Rightarrow> 0)"

definition taskWeight :: "cpm_task \<Rightarrow> nat" where
  "taskWeight t = (case t of ResumeBackoff \<Rightarrow> 1 | _ \<Rightarrow> 3)"

definition waitWeight :: "cpm_connector \<Rightarrow> nat" where
  "waitWeight s = 2 * pendingDelays s + sum_list (map taskWeight (cc_queue s))"

lemmas rank_defs = attemptClass_def phaseRank_def waitWeight_def taskWeight_def pendingDelays_def

definition onTheWay :: "cpm_connector \<Rightarrow> bool" where
  "onTheWay s = (\<not> cc_isAbandoned s \<and> upright s \<and> alive s)"

lemma way_step: "onTheWay s \<Longrightarrow> onTheWay (coopStep s)"
proof -
  assume w: "onTheWay s"
  have "calm s (cooperate s)"
    by (simp add: calm_def cooperate_def closeEvent_def split: option.split attempt_phase.split)
  moreover have "cc_isAbandoned (coopStep s) = cc_isAbandoned s"
    by (simp add: coopStep_def cooperate_def cpm_ops nextCpmTask_def runCpmTask_def endSupervisor_def
        split: list.split option.split attempt_phase.split cpm_task.split attempt_waiter.split)
  ultimately show ?thesis
    using w cpm_alive.contract_step [of s "cooperate s"] by (simp add: onTheWay_def coopStep_def)
qed

lemma task_progress:
  assumes w: "onTheWay s" and c: "\<not> cc_connected s" and q: "cc_queue s = t # ts"
  shows "(coopStep s, s) \<in> measures [attemptClass, phaseRank, waitWeight]"
proof -
  have co: "coopStep s = runCpmTask t (s\<lparr>cc_queue := ts\<rparr>)"
    using q by (simp add: coopStep_def cooperate_def cpmStep_def nextCpmTask_def)
  show ?thesis
  proof (cases t)
    case ResumeBackoff
    with w q show ?thesis
      unfolding co by (auto simp: runCpmTask_def onTheWay_def upright_def connectOnce_def rank_defs split: option.split attempt_phase.split)
  next
    case (ResumeAttempt x ok)
    with w c q have "\<not> ok" by (auto simp: onTheWay_def upright_def successCounts_def)
    with ResumeAttempt w c q show ?thesis
      unfolding co
      by (auto simp: runCpmTask_def onTheWay_def upright_def reconnect_def retryLater_def ensureReconnectBackoff_def backoffCall_def cpmNote_def
          rank_defs Let_def split: option.split attempt_phase.split attempt_waiter.split)
  qed
qed

lemma delay_pending:
  assumes "onTheWay s" "\<not> cc_connected s" "cc_queue s = []" "cc_attempt s = None"
  shows "\<exists>b. cc_backoff s = Some b \<and> bo_pending b = 1"
  using assms by (auto simp: onTheWay_def upright_def alive_def sole_defs split: option.splits if_splits)

lemma answer_progress:
  assumes w: "onTheWay s" and c: "\<not> cc_connected s" and q: "cc_queue s = []"
  shows "cc_connected (coopStep s) \<or> (coopStep s, s) \<in> measures [attemptClass, phaseRank, waitWeight]"
proof (cases "cc_attempt s")
  case None
  then obtain b where "cc_backoff s = Some b" "bo_pending b = 1" using delay_pending [OF w c q] by blast
  with None q show ?thesis
    by (simp add: coopStep_def cooperate_def cpmStep_def delayElapsed_def cpmDefer_def backoffSettle_def rank_defs)
next
  case (Some p)
  with w q show ?thesis
    by (cases p) (auto simp: coopStep_def cooperate_def cpm_ops onTheWay_def upright_def rank_defs split: option.split)
qed

lemma way_connects: "onTheWay s \<Longrightarrow> \<exists>n. cc_connected ((coopStep ^^ n) s)"
proof (induction s rule: wf_induct_rule [OF wf_measures [of "[attemptClass, phaseRank, waitWeight]"]])
  case (1 s)
  show ?case
  proof (cases "cc_connected s")
    case True
    then have "cc_connected ((coopStep ^^ 0) s)" by simp
    then show ?thesis by blast
  next
    case False
    then have "cc_connected (coopStep s) \<or> (coopStep s, s) \<in> measures [attemptClass, phaseRank, waitWeight]"
      using answer_progress [OF "1.prems"] task_progress [OF "1.prems"] by (cases "cc_queue s") auto
    then obtain n where "cc_connected ((coopStep ^^ n) (coopStep s))"
      using "1.IH" way_step [OF "1.prems"] funpow_0 by metis
    then have "cc_connected ((coopStep ^^ Suc n) s)" by (simp add: funpow_swap1)
    then show ?thesis by blast
  qed
qed

text \<open>C9: A connector that was asked to connect never gets stranded. Whatever its streams, its peers and its callers did
  since (refused or invalidated attempts, lost streams, repeated connects and closes), unless it was abandoned it
  gets connected as soon as the others answer: from the state it is in, finitely many of their positive answers, elapsed
  delays and its own continuations lead to a connection. And never does more than one retry loop run.
\<close>

theorem connector_never_stranded:
  assumes "keeps_contract cpmStep calm (newCpmConnector c) (es @ ConnectCall # fs)"
  shows "let s = foldl cpmStep (newCpmConnector c) (es @ ConnectCall # fs) in
     positions s = (if cc_supervisor s then 1 else 0) \<and>
     (cc_isAbandoned s \<or> (\<exists>n. cc_connected ((coopStep ^^ n) s)))"
proof -
  define s0 where "s0 = foldl cpmStep (newCpmConnector c) es"
  define s1 where "s1 = cpmStep s0 ConnectCall"
  define s where "s = foldl cpmStep s1 fs"
  have r: "keeps_contract cpmStep calm (newCpmConnector c) es" "calm s0 ConnectCall" "keeps_contract cpmStep calm s1 fs"
    using assms by (simp_all add: keeps_calm_append s0_def s1_def)
  have "upright s0" unfolding s0_def by (rule cpm_upright.contract_run [OF upright_new r(1)])
  then have "upright s1 \<and> alive s1"
    using cpm_upright.contract_step [OF _ r(2)] alive_connect by (simp add: s1_def) (simp add: cpmStep_def)
  then have a: "upright s \<and> alive s" unfolding s_def by (rule cpm_alive.contract_run [OF _ r(3)])
  then have "positions s = (if cc_supervisor s then 1 else 0)" by (simp add: upright_def soleSupervisor_def)
  moreover have "cc_isAbandoned s \<or> (\<exists>n. cc_connected ((coopStep ^^ n) s))"
    using way_connects [of s] a by (auto simp: onTheWay_def)
  ultimately show ?thesis by (simp add: s_def s1_def s0_def Let_def)
qed

definition cpmSample :: cpm_config where
  "cpmSample = \<lparr>cf_reconnectionDelay = 100, cf_reconnectionMaxDelay = None, cf_maxReconnections = 3\<rparr>"

text \<open>A first connection, and the loss of its stream.\<close>

definition firstConnection :: "cpm_event list" where
  "firstConnection = [BrokerAnswers True, GuestAnswers True, ManagerAnswers True, NextTask, CommunicationOpens, LoadSent]"

definition lostStream :: "cpm_event list" where
  "lostStream = firstConnection @ [CommunicationCloses 1000 (Some 1), DelayElapses, NextTask, BrokerAnswers False, NextTask]"

lemmas cpm_eval = cpm_ops newCpmConnector_def cpmSample_def firstConnection_def lostStream_def nextCpmTask_def runCpmTask_def endSupervisor_def
  newBackoff_def createExponentialBackoff_def backoffDelay_def backoffSettle_def backoffSuccess_def closeEvent_def

lemma connector_never_stranded_witness:
  "let s = foldl cpmStep (newCpmConnector cpmSample) ([] @ ConnectCall # lostStream) in
     positions s = (if cc_supervisor s then 1 else 0) \<and>
     (cc_isAbandoned s \<or> (\<exists>n. cc_connected ((coopStep ^^ n) s)))"
  by (rule connector_never_stranded) (simp add: cpm_eval calm_def)

lemma reconnect_delays_paced_witness:
  "(200::int) = min (max 0 100 * 2 ^ failuresSince (rev [Connectivity True, ConnectEvent, Connectivity False, RetryDelay 100]))
     (bo_maxDelay (newBackoff cpmSample)) \<and> max 0 100 \<le> (200::int) \<and> 200 \<le> bo_maxDelay (newBackoff cpmSample)"
  using reconnect_delays_paced [of cpmSample "ConnectCall # lostStream" "[Connectivity True, ConnectEvent, Connectivity False, RetryDelay 100]" 200 "[]"]
  by (simp add: cpm_eval)

section \<open>Notifications out of turn\<close>

text \<open>
  The calm run is needed: when a close arrives between the end of a successful attempt and the continuation of the
  retry loop that waits for it, \<open>reconnect\<close> hands out the loop that is about to end, and nothing reconnects any more.
\<close>

lemma close_between_strands:
  "let s = foldl cpmStep (newCpmConnector cpmSample) (ConnectCall # lostStream @ [DelayElapses, NextTask, BrokerAnswers True,
       GuestAnswers True, ManagerAnswers True, CommunicationCloses 1006 None, NextTask]) in
     \<not> cc_connected s \<and> \<not> cc_isAbandoned s \<and> \<not> cc_supervisor s \<and> cc_queue s = [] \<and> cc_attempt s = None"
  by (simp add: cpm_eval)

text \<open>
  The generation only changes when the next stream opens: a second notice of the end of the old stream (its error
  handlers are not behind the guard of the request) disconnects a connector that has registered again.
\<close>

lemma second_close_disconnects:
  "let es = ConnectCall # lostStream @ [DelayElapses, NextTask, BrokerAnswers True, GuestAnswers True, ManagerAnswers True, NextTask] in
     cc_connected (foldl cpmStep (newCpmConnector cpmSample) es) \<and>
     \<not> cc_connected (foldl cpmStep (newCpmConnector cpmSample) (es @ [CommunicationCloses 1006 (Some 1)]))"
  by (simp add: cpm_eval)

text \<open>A stream that ends while its first load message is sent leaves an interval that no one clears.\<close>

lemma load_interval_leaks:
  "let s = foldl cpmStep (newCpmConnector cpmSample)
       [CommunicationOpens, CommunicationCloses 1000 (Some 1), CommunicationOpens, LoadSent, LoadSent, DisconnectCall] in
     cc_intervals s = [0] \<and> cc_loadInterval s = None \<and> cc_isAbandoned s"
  by (simp add: cpm_eval)

end
