(* ===== verification/RoutedHeaders.thy ===== *)
theory RoutedHeaders
  imports ManagerRoutes
begin

text \<open>
  Redirects between hubs, managers and clients: who writes the headers of a routed redirect
  (\<open>manager/src/lib/manager.ts\<close>, \<open>host/src/lib/api/host-api-v1.ts\<close>, \<open>api-router/src/adapters/http.ts\<close>), what a tunnel
  keeps of them (\<open>api-server/src/handlers/routed-forward.ts\<close>) and who reads them
  (\<open>api-router/src/routed-broker.ts\<close>, \<open>api-server/src/handlers/routed-redirect.ts\<close>).
\<close>

section \<open>Headers\<close>

datatype header_value = HText string | HTexts "string list" | HAbsent

type_synonym header_map = "(string \<times> header_value) list"

definition hopByHopNames :: "string list" where
  "hopByHopNames = [''connection'', ''keep-alive'', ''proxy-authenticate'', ''proxy-authorization'', ''te'', ''trailer'', ''transfer-encoding'', ''upgrade'']"

definition hopByHopHeaderSet :: "header_map \<Rightarrow> string list" where
  "hopByHopHeaderSet headers =
    (let connection = (case find (\<lambda>e. toLowerCase (fst e) = ''connection'') headers of
         Some (_, HText v) \<Rightarrow> v
       | Some (_, HTexts vs) \<Rightarrow> joinWith '','' vs
       | _ \<Rightarrow> '''')
     in hopByHopNames @ filter (\<lambda>h. h \<noteq> []) (map (\<lambda>v. toLowerCase (jsTrim v)) (splitOn (CHR '','') connection)))"

definition dropsHeader :: "header_map \<Rightarrow> string \<times> header_value \<Rightarrow> bool" where
  "dropsHeader headers e \<longleftrightarrow> snd e = HAbsent \<or> toLowerCase (fst e) \<in> set (hopByHopHeaderSet headers)"



definition normalizeResponseHeaders :: "header_map \<Rightarrow> header_map" where
  "normalizeResponseHeaders headers = filter (\<lambda>e. \<not> dropsHeader headers e) headers"

section \<open>Reading a redirect\<close>

definition routeDecisionHeader :: string where "routeDecisionHeader = ''x-scramjet-route-decision''"
definition routeDomainHeader :: string where "routeDomainHeader = ''x-scramjet-route-domain''"
definition routeTargetPathHeader :: string where "routeTargetPathHeader = ''x-scramjet-route-target-path''"

definition redirectHeader :: "header_map \<Rightarrow> string \<Rightarrow> string + string" where
  "redirectHeader headers name =
    (case filter (\<lambda>e. toLowerCase (fst e) = name) headers of
       [(_, HText v)] \<Rightarrow> if jsTrim v = [] then Inl (''Missing routed redirect '' @ name @ '' header'') else Inr v
     | [(_, HAbsent)] \<Rightarrow> Inl (''Missing routed redirect '' @ name @ '' header'')
     | _ \<Rightarrow> Inl (''Invalid routed redirect '' @ name @ '' header''))"

definition targetPathAllowed :: "string \<Rightarrow> bool" where
  "targetPathAllowed p \<longleftrightarrow> prefix ''/'' p \<and> \<not> prefix ''//'' p \<and> \<not> strIncludes p ''://'' \<and> \<not> strIncludes p [CHR 0x5C]"

definition parseRoutedBrokerRedirect :: "nat \<Rightarrow> header_map \<Rightarrow> string + (string \<times> string) option" where
  "parseRoutedBrokerRedirect status headers =
    (if status \<noteq> 308 then Inr None
     else bindR (redirectHeader headers routeDecisionHeader) (\<lambda>decision.
          bindR (redirectHeader headers routeDomainHeader) (\<lambda>routeDomain.
          bindR (redirectHeader headers routeTargetPathHeader) (\<lambda>targetPath.
            if decision \<noteq> ''redirect'' \<and> decision \<noteq> ''follow'' then Inl ''Invalid routed redirect decision''
            else if \<not> targetPathAllowed targetPath then Inl ''Invalid routed redirect target path''
            else Inr (Some (routeDomain, targetPath))))))"

text \<open>The parser of the API server.\<close>

datatype routed_redirect = NoRedirect | InvalidRedirect string | RoutedRedirect "string option" string string

definition readRedirectHeader :: "header_map \<Rightarrow> string \<Rightarrow> string option" where
  "readRedirectHeader headers name =
    (let value = (case jsGet headers name of Some HAbsent \<Rightarrow> jsGet headers (toLowerCase name) | None \<Rightarrow> jsGet headers (toLowerCase name) | v \<Rightarrow> v)
     in case value of
          Some (HTexts vs) \<Rightarrow> (case vs of [] \<Rightarrow> None | v # _ \<Rightarrow> Some v)
        | Some (HText v) \<Rightarrow> Some v
        | _ \<Rightarrow> None)"

definition parseRoutedRedirect :: "nat \<Rightarrow> header_map \<Rightarrow> routed_redirect" where
  "parseRoutedRedirect status headers =
    (if status \<noteq> 308 then NoRedirect
     else (let decision = readRedirectHeader headers routeDecisionHeader;
               routeDomain = orElse (readRedirectHeader headers routeDomainHeader) '''';
               targetPath = orElse (readRedirectHeader headers routeTargetPathHeader) '''';
               location = readRedirectHeader headers ''location''
           in if decision \<noteq> Some ''redirect'' \<and> decision \<noteq> Some ''follow'' then InvalidRedirect ''unknown-decision''
              else if routeDomain = [] then InvalidRedirect ''missing-route-domain''
              else if targetPath = [] then InvalidRedirect ''missing-target-path''
              else RoutedRedirect location routeDomain targetPath))"

section \<open>Writing a redirect\<close>

definition redirectHeaders :: "string \<Rightarrow> string \<Rightarrow> string \<Rightarrow> string \<Rightarrow> header_map" where
  "redirectHeaders decision location routeDomain targetPath =
    [(''location'', HText location), (routeDecisionHeader, HText decision), (routeDomainHeader, HText routeDomain),
     (routeTargetPathHeader, HText targetPath)]"


text \<open>The redirect of a resolver, with the headers of the target after the others.\<close>

definition writeVerser2Redirect :: "string option \<Rightarrow> string \<Rightarrow> string \<Rightarrow> header_map \<Rightarrow> header_map" where
  "writeVerser2Redirect location routeDomain target headers =
    (let targetPath = (if prefix ''/'' target then target else CHR ''/'' # target) in
     foldl (\<lambda>hs e. jsSet hs (fst e) (snd e))
       (redirectHeaders ''redirect'' (orElse location (''http://'' @ routeDomain @ targetPath)) routeDomain targetPath) headers)"

text \<open>The hub sends requests for its manager back with a redirect: \<open>spaceMiddleware\<close>.\<close>

fun replaceFirst :: "string \<Rightarrow> string \<Rightarrow> string \<Rightarrow> string" where
  "replaceFirst pat new [] = (if pat = [] then new else [])"
| "replaceFirst pat new (c # s) = (if prefix pat (c # s) then new @ drop (length pat) (c # s) else c # replaceFirst pat new s)"

definition versionedForManager :: "string \<Rightarrow> string" where
  "versionedForManager reqPath =
    (let path = dropWhile (\<lambda>c. c = CHR ''/'') reqPath; rest = drop 6 path in
     if (prefix ''api/v1'' path \<or> prefix ''api/v2'' path) \<and> (rest = [] \<or> hd rest = CHR ''/'') then path else ''api/v1/'' @ path)"

definition getCpmRouteMetadata :: "string \<Rightarrow> string \<Rightarrow> string \<times> string" where
  "getCpmRouteMetadata targetDomain reqPath = (targetDomain, CHR ''/'' # versionedForManager reqPath)"

definition spaceMiddleware :: "string \<Rightarrow> string \<Rightarrow> string \<Rightarrow> nat \<times> header_map" where
  "spaceMiddleware targetDomain apiBase reqUrl =
    (case getCpmRouteMetadata targetDomain (replaceFirst (apiBase @ ''/cpm/'') '''' reqUrl) of
       (d, p) \<Rightarrow> (308, redirectHeaders ''follow'' (''http://'' @ d @ p) d p))"

section \<open>The manager answers a request for a hub\<close>









section \<open>Facts\<close>








lemma redirectHeader_tunnel:
  assumes "name \<notin> set (hopByHopHeaderSet hs)" and "\<forall>e \<in> set hs. snd e \<noteq> HAbsent"
  shows "redirectHeader (normalizeResponseHeaders hs) name = redirectHeader hs name"
proof -
  have "filter (\<lambda>e. toLowerCase (fst e) = name) (normalizeResponseHeaders hs) = filter (\<lambda>e. toLowerCase (fst e) = name) hs"
    unfolding normalizeResponseHeaders_def filter_filter by (rule filter_cong [OF refl]) (use assms in \<open>auto simp: dropsHeader_def\<close>)
  then show ?thesis by (simp add: redirectHeader_def)
qed









text \<open>The two readers of a redirect agree. What the routed client follows, from any response with lower-case header
  names, the API server's parser reads as a redirect to the same domain and path.
\<close>
theorem redirect_readers_agree:
  assumes "parseRoutedBrokerRedirect status hs = Inr (Some (d, p))" and "\<forall>e \<in> set hs. toLowerCase (fst e) = fst e"
  shows "\<exists>location. parseRoutedRedirect status hs = RoutedRedirect location d p"
proof -
  have one: "jsGet hs name = Some (HText v) \<and> v \<noteq> []" if rh: "redirectHeader hs name = Inr v" for name v
  proof -
    have f: "filter (\<lambda>e. toLowerCase (fst e) = name) hs = filter (\<lambda>e. fst e = name) hs"
      using assms(2) by (intro filter_cong) auto
    obtain k where "filter (\<lambda>e. fst e = name) hs = [(k, HText v)]" "jsTrim v \<noteq> []"
      using rh unfolding redirectHeader_def f
      by (auto split: list.split_asm prod.split_asm header_value.split_asm if_split_asm)
    moreover from this have "(k, HText v) \<in> {e \<in> set hs. fst e = name}" by (metis list.set_intros(1) set_filter)
    moreover have "map_of (filter (\<lambda>e. fst e = name) hs) name = map_of hs name" by (induction hs) auto
    ultimately show ?thesis by (auto simp: jsTrim_def)
  qed
  obtain dec where "status = 308" "redirectHeader hs routeDecisionHeader = Inr dec" "redirectHeader hs routeDomainHeader = Inr d"
      "redirectHeader hs routeTargetPathHeader = Inr p" "dec = ''redirect'' \<or> dec = ''follow''"
    using assms(1) by (auto simp: parseRoutedBrokerRedirect_def bindR_eq_Inr split: if_splits)
  then show ?thesis
    using one [of routeDecisionHeader dec] one [of routeDomainHeader d] one [of routeTargetPathHeader p]
    by (auto simp: parseRoutedRedirect_def readRedirectHeader_def orElse_def Let_def)
qed

lemma redirect_readers_agree_witness:
  "\<exists>location. parseRoutedRedirect 308 (snd (spaceMiddleware ''manager.m'' ''/api/v1'' ''/api/v1/cpm/topics?x=1'')) =
     RoutedRedirect location ''manager.m'' ''/api/v1/topics?x=1''"
  by (rule redirect_readers_agree; code_simp)

end
