(* ===== verification/RoutedClient.thy ===== *)
theory RoutedClient
  imports RoutedHeaders
begin

text \<open>
  One request of the routed client: \<open>createVerser2ClientTransport\<close> in \<open>api-router/src/client-transports.ts\<close> up to the
  response it hands over, with the route lookup of \<open>api-router/src/routed-broker.ts\<close>. What the call waits for (a route,
  a response, the release of a redirect's response) is its phase; the deadline, the caller's abort signal, the
  answers of the broker and the changes of its routes are events.
\<close>

section \<open>Routes\<close>

datatype broker_error =
    RouteUnavailable string
  | DuplicateRoute string
  | TimeoutError string
  | BrokerRequestError string
  | CancelledError string
  | ResponseLimit nat
  | RedirectError string

type_synonym broker_route = "string \<times> string"

definition resolveRoutedBrokerDomain :: "broker_route list \<Rightarrow> string \<Rightarrow> broker_error + broker_route option" where
  "resolveRoutedBrokerDomain table domain =
    (if domain = [] then Inl (RouteUnavailable domain)
     else (case filter (\<lambda>r. fst r = domain) table of [] \<Rightarrow> Inr None | [r] \<Rightarrow> Inr (Some r) | _ \<Rightarrow> Inl (DuplicateRoute domain)))"

definition assertRoutedBrokerDomain :: "broker_route list \<Rightarrow> string \<Rightarrow> broker_error + broker_route" where
  "assertRoutedBrokerDomain table domain =
    bindR (resolveRoutedBrokerDomain table domain) (\<lambda>r. case r of None \<Rightarrow> Inl (RouteUnavailable domain) | Some x \<Rightarrow> Inr x)"

section \<open>The body of an answer that is no stream\<close>

text \<open>\<open>Inl\<close> as soon as the bytes exceed the limit; the chunks read are at most those before.\<close>

fun readUnary :: "nat \<Rightarrow> string \<Rightarrow> string list \<Rightarrow> broker_error + string" where
  "readUnary limit got [] = Inr got"
| "readUnary limit got (c # cs) =
    (if length got + length c > limit then Inl (ResponseLimit limit) else readUnary limit (got @ c) cs)"

section \<open>The call\<close>

datatype dispose_next = FollowTo string string | FailWith broker_error

datatype call_phase = WaitRoute bool | WaitResponse | Dispose dispose_next | CallDone "broker_error + nat"

record routed_call =
  rc_table :: "broker_route list"
  rc_ready :: "string list"
  rc_streamBody :: bool
  rc_hasDeadline :: bool
  rc_expired :: bool
  rc_aborted :: bool
  rc_domain :: string
  rc_path :: string
  rc_redirects :: nat
  rc_phase :: call_phase
  rc_bodyDestroyed :: bool
  rc_sent :: "(string \<times> string) list"
  rc_open :: nat
  rc_cleaned :: nat
  rc_late :: nat

definition failCall :: "broker_error \<Rightarrow> routed_call \<Rightarrow> routed_call" where
  "failCall e c = c\<lparr>rc_phase := CallDone (Inl e)\<rparr>"

text \<open>The errors of the wait for a route, before the first request and after a redirect.\<close>

definition failWait :: "bool \<Rightarrow> broker_error \<Rightarrow> routed_call \<Rightarrow> routed_call" where
  "failWait first e c =
    (if first then
       failCall (if rc_aborted c then CancelledError (rc_domain c)
         else if rc_hasDeadline c \<and> rc_expired c then TimeoutError (rc_domain c) else e) c
     else failCall (case e of RouteUnavailable d \<Rightarrow> BrokerRequestError d | DuplicateRoute d \<Rightarrow> BrokerRequestError d | _ \<Rightarrow> e) c)"

text \<open>\<open>requestWithTimeout\<close>: \<open>remaining()\<close> may throw, then the signal is read, then the broker is asked.\<close>

definition dispatchRequest :: "routed_call \<Rightarrow> routed_call" where
  "dispatchRequest c =
    (if rc_hasDeadline c \<and> rc_expired c then failCall (TimeoutError (rc_domain c)) c
     else if rc_aborted c then failCall (CancelledError (rc_domain c)) c
     else c\<lparr>rc_phase := WaitResponse, rc_sent := rc_sent c @ [(rc_domain c, rc_path c)]\<rparr>)"

definition waitForRoutedBrokerDomain :: "bool \<Rightarrow> routed_call \<Rightarrow> routed_call" where
  "waitForRoutedBrokerDomain first c =
    (if rc_hasDeadline c \<and> rc_expired c then failWait first (TimeoutError (rc_domain c)) c
     else if rc_aborted c then failWait first (CancelledError (rc_domain c)) c
     else (case resolveRoutedBrokerDomain (rc_table c) (rc_domain c) of
         Inl e \<Rightarrow> failWait first e c
       | Inr (Some r) \<Rightarrow> if rc_domain c \<in> set (rc_ready c) then dispatchRequest c else c\<lparr>rc_phase := WaitRoute first\<rparr>
       | Inr None \<Rightarrow> c\<lparr>rc_phase := WaitRoute first\<rparr>))"

definition startCall :: "routed_call \<Rightarrow> routed_call" where
  "startCall c = (if rc_aborted c then failCall (CancelledError (rc_domain c)) c else waitForRoutedBrokerDomain True c)"

text \<open>The broker's wait ends; the table may have changed meanwhile.\<close>

definition routeSettles :: "bool \<Rightarrow> routed_call \<Rightarrow> routed_call" where
  "routeSettles ok c = (case rc_phase c of
      WaitRoute first \<Rightarrow>
        if ok then (case assertRoutedBrokerDomain (rc_table c) (rc_domain c) of Inl e \<Rightarrow> failWait first e c | Inr r \<Rightarrow> dispatchRequest c)
        else failWait first (BrokerRequestError (rc_domain c)) c
    | _ \<Rightarrow> c)"

definition disposeRedirect :: "dispose_next \<Rightarrow> routed_call \<Rightarrow> routed_call" where
  "disposeRedirect nxt c = c\<lparr>rc_phase := Dispose nxt, rc_bodyDestroyed := rc_bodyDestroyed c \<or> rc_streamBody c,
     rc_open := rc_open c - 1, rc_cleaned := Suc (rc_cleaned c)\<rparr>"

definition responseArrives :: "nat \<Rightarrow> header_map \<Rightarrow> routed_call \<Rightarrow> routed_call" where
  "responseArrives status headers c0 = (if rc_phase c0 \<noteq> WaitResponse then c0
     else (let c = c0\<lparr>rc_open := Suc (rc_open c0)\<rparr> in
       case parseRoutedBrokerRedirect status headers of
         Inl e \<Rightarrow> disposeRedirect (FailWith (RedirectError e)) c
       | Inr None \<Rightarrow> c\<lparr>rc_phase := CallDone (Inr status)\<rparr>
       | Inr (Some (d, p)) \<Rightarrow>
           if rc_streamBody c then
             disposeRedirect (FailWith (RedirectError ''Cannot follow routed redirect with a non-replayable readable request body'')) c
           else if rc_redirects c \<ge> 4 then disposeRedirect (FailWith (RedirectError ''Too many routed redirects'')) c
           else disposeRedirect (FollowTo d p) c))"

definition requestFails :: "routed_call \<Rightarrow> routed_call" where
  "requestFails c = (if rc_phase c \<noteq> WaitResponse then c else failCall (BrokerRequestError (rc_domain c)) c)"

definition disposeSettles :: "bool \<Rightarrow> routed_call \<Rightarrow> routed_call" where
  "disposeSettles ok c = (case rc_phase c of
      Dispose (FailWith e) \<Rightarrow> failCall e c
    | Dispose (FollowTo d p) \<Rightarrow>
        if \<not> ok then failCall (BrokerRequestError (rc_domain c)) c
        else if rc_aborted c then failCall (CancelledError (rc_domain c)) c
        else waitForRoutedBrokerDomain False (c\<lparr>rc_domain := d, rc_path := p, rc_redirects := Suc (rc_redirects c)\<rparr>)
    | _ \<Rightarrow> c)"

text \<open>An interruption ends every wait; a response that still comes then is released when it does.\<close>

definition interruptCall :: "broker_error \<Rightarrow> routed_call \<Rightarrow> routed_call" where
  "interruptCall e c = (case rc_phase c of
      WaitResponse \<Rightarrow> failCall e (c\<lparr>rc_late := Suc (rc_late c)\<rparr>)
    | Dispose (FollowTo d p) \<Rightarrow> failCall e c
    | Dispose (FailWith f) \<Rightarrow> failCall f c
    | _ \<Rightarrow> c)"

definition abortCall :: "routed_call \<Rightarrow> routed_call" where
  "abortCall c0 = (let c = c0\<lparr>rc_aborted := True\<rparr> in
     case rc_phase c of
       WaitRoute first \<Rightarrow> failWait first (CancelledError (rc_domain c)) c
     | _ \<Rightarrow> interruptCall (CancelledError (rc_domain c)) c)"

definition deadlinePasses :: "routed_call \<Rightarrow> routed_call" where
  "deadlinePasses c = (if rc_hasDeadline c then interruptCall (TimeoutError (rc_domain c)) (c\<lparr>rc_expired := True\<rparr>) else c)"

definition lateResponse :: "routed_call \<Rightarrow> routed_call" where
  "lateResponse c = (if rc_late c = 0 then c else c\<lparr>rc_late := rc_late c - 1, rc_cleaned := Suc (rc_cleaned c)\<rparr>)"

datatype call_event =
    RoutesChange "broker_route list" "string list"
  | RouteSettles bool
  | ResponseArrives nat header_map
  | RequestFails
  | DisposeSettles bool
  | CallAborts
  | DeadlinePasses
  | LateResponse

definition callStep :: "routed_call \<Rightarrow> call_event \<Rightarrow> routed_call" where
  "callStep c e = (case e of
      RoutesChange table ready \<Rightarrow> c\<lparr>rc_table := table, rc_ready := ready\<rparr>
    | RouteSettles ok \<Rightarrow> routeSettles ok c
    | ResponseArrives status headers \<Rightarrow> responseArrives status headers c
    | RequestFails \<Rightarrow> requestFails c
    | DisposeSettles ok \<Rightarrow> disposeSettles ok c
    | CallAborts \<Rightarrow> abortCall c
    | DeadlinePasses \<Rightarrow> deadlinePasses c
    | LateResponse \<Rightarrow> lateResponse c)"

definition newRoutedCall :: "broker_route list \<Rightarrow> string list \<Rightarrow> bool \<Rightarrow> bool \<Rightarrow> bool \<Rightarrow> string \<Rightarrow> string \<Rightarrow> routed_call" where
  "newRoutedCall table ready streamBody hasDeadline aborted domain path =
     startCall \<lparr>rc_table = table, rc_ready = ready, rc_streamBody = streamBody, rc_hasDeadline = hasDeadline, rc_expired = False,
       rc_aborted = aborted, rc_domain = domain, rc_path = path, rc_redirects = 0, rc_phase = WaitRoute True, rc_bodyDestroyed = False,
       rc_sent = [], rc_open = 0, rc_cleaned = 0, rc_late = 0\<rparr>"

section \<open>The invariant\<close>

definition call_ok :: "routed_call \<Rightarrow> bool" where
  "call_ok c \<longleftrightarrow> rc_redirects c \<le> 4 \<and> (rc_streamBody c \<longrightarrow> rc_redirects c = 0) \<and>
     (rc_redirects c > 0 \<longrightarrow> targetPathAllowed (rc_path c)) \<and>
     (case rc_phase c of
        WaitRoute first \<Rightarrow> length (rc_sent c) = rc_redirects c \<and> rc_open c = 0 \<and> rc_cleaned c = rc_redirects c \<and> rc_late c = 0
      | WaitResponse \<Rightarrow> length (rc_sent c) = Suc (rc_redirects c) \<and> rc_open c = 0 \<and> rc_cleaned c = rc_redirects c \<and> rc_late c = 0
      | Dispose nxt \<Rightarrow> length (rc_sent c) = Suc (rc_redirects c) \<and> rc_open c = 0 \<and> rc_cleaned c = Suc (rc_redirects c) \<and> rc_late c = 0 \<and>
          (case nxt of FollowTo d p \<Rightarrow> rc_redirects c < 4 \<and> \<not> rc_streamBody c \<and> targetPathAllowed p | FailWith e \<Rightarrow> True)
      | CallDone (Inr status) \<Rightarrow> status \<noteq> 308 \<and> length (rc_sent c) = Suc (rc_redirects c) \<and> rc_open c = 1 \<and> rc_cleaned c = rc_redirects c \<and> rc_late c = 0
      | CallDone (Inl e) \<Rightarrow> length (rc_sent c) \<le> Suc (rc_redirects c) \<and> rc_open c = 0 \<and> rc_cleaned c + rc_late c \<le> length (rc_sent c))"

lemma parse_allowed: "parseRoutedBrokerRedirect status hs = Inr (Some (d, p)) \<Longrightarrow> targetPathAllowed p"
  by (auto simp: parseRoutedBrokerRedirect_def bindR_eq_Inr split: if_splits)

lemma parse_final: "parseRoutedBrokerRedirect status hs = Inr None \<longleftrightarrow> status \<noteq> 308"
  by (auto simp: parseRoutedBrokerRedirect_def bindR_eq_Inr split: if_splits)

lemma assert_route: "assertRoutedBrokerDomain table d = Inr r \<Longrightarrow> resolveRoutedBrokerDomain table d = Inr (Some r)"
  by (auto simp: assertRoutedBrokerDomain_def bindR_eq_Inr split: option.splits)

text \<open>Between two requests: as many were sent and released as redirects were followed.\<close>

definition resting :: "routed_call \<Rightarrow> bool" where
  "resting c \<longleftrightarrow> rc_redirects c \<le> 4 \<and> (rc_streamBody c \<longrightarrow> rc_redirects c = 0) \<and> (rc_redirects c > 0 \<longrightarrow> targetPathAllowed (rc_path c)) \<and>
     length (rc_sent c) = rc_redirects c \<and> rc_open c = 0 \<and> rc_cleaned c = rc_redirects c \<and> rc_late c = 0"

lemma resting_ok: "rc_phase c = WaitRoute first \<Longrightarrow> call_ok c = resting c"
  by (auto simp: call_ok_def resting_def)

lemma ok_fail: "resting c \<Longrightarrow> call_ok (failCall e c)"
  by (simp add: call_ok_def resting_def failCall_def)

lemma ok_failWait: "resting c \<Longrightarrow> call_ok (failWait first e c)"
  by (simp add: failWait_def ok_fail)

lemma ok_dispatch: "resting c \<Longrightarrow> call_ok (dispatchRequest c)"
  by (simp add: dispatchRequest_def ok_fail) (simp add: call_ok_def resting_def)

lemma ok_await: "resting c \<Longrightarrow> call_ok (c\<lparr>rc_phase := WaitRoute first\<rparr>)"
  by (simp add: call_ok_def resting_def)

lemma ok_wait: "resting c \<Longrightarrow> call_ok (waitForRoutedBrokerDomain first c)"
  by (simp add: waitForRoutedBrokerDomain_def ok_failWait ok_dispatch ok_await split: sum.split option.split)

lemma ok_route: "call_ok c \<Longrightarrow> call_ok (routeSettles ok c)"
  by (cases "rc_phase c") (simp_all add: routeSettles_def resting_ok ok_failWait ok_dispatch split: sum.split)

lemma ok_response:
  assumes ok: "call_ok c"
  shows "call_ok (responseArrives status hs c)"
proof (cases "rc_phase c = WaitResponse \<and> status = 308")
  case True
  then have "parseRoutedBrokerRedirect status hs \<noteq> Inr None" using parse_final [of status hs] by simp
  moreover have "rc_redirects c \<le> 4" using ok by (simp add: call_ok_def)
  ultimately show ?thesis using ok True
    by (auto simp: responseArrives_def call_ok_def disposeRedirect_def Let_def dest: parse_allowed split: sum.split option.split)
next
  case False
  then show ?thesis using ok
    by (auto simp: responseArrives_def call_ok_def parseRoutedBrokerRedirect_def Let_def)
qed

lemma ok_dispose:
  assumes ok: "call_ok c"
  shows "call_ok (disposeSettles b c)"
proof (cases "\<exists>nxt. rc_phase c = Dispose nxt")
  case True
  then obtain nxt where nxt: "rc_phase c = Dispose nxt" by blast
  show ?thesis
  proof (cases nxt)
    case (FollowTo d p)
    with ok nxt have "resting (c\<lparr>rc_domain := d, rc_path := p, rc_redirects := Suc (rc_redirects c)\<rparr>)"
      by (simp add: call_ok_def resting_def)
    then show ?thesis using ok nxt FollowTo
      by (simp add: disposeSettles_def ok_wait) (simp add: call_ok_def failCall_def)
  qed (use ok nxt in \<open>simp add: disposeSettles_def call_ok_def failCall_def\<close>)
next
  case False
  then show ?thesis using ok by (cases "rc_phase c") (simp_all add: disposeSettles_def)
qed

lemma ok_interrupt: "call_ok c \<Longrightarrow> call_ok (interruptCall e c)"
  by (auto simp: interruptCall_def call_ok_def failCall_def split: call_phase.splits dispose_next.splits)

lemma ok_flags [simp]: "call_ok (c\<lparr>rc_aborted := a\<rparr>) = call_ok c" "call_ok (c\<lparr>rc_expired := a\<rparr>) = call_ok c"
  "call_ok (c\<lparr>rc_table := t, rc_ready := r\<rparr>) = call_ok c"
  by (simp_all add: call_ok_def split: call_phase.split sum.split dispose_next.split)

lemma ok_abort: "call_ok c \<Longrightarrow> call_ok (abortCall c)"
proof (cases "rc_phase c")
  case (WaitRoute first)
  moreover assume "call_ok c"
  ultimately have "resting (c\<lparr>rc_aborted := True\<rparr>)" by (simp add: resting_ok resting_def)
  with WaitRoute show ?thesis by (simp add: abortCall_def ok_failWait)
qed (use ok_interrupt [of "c\<lparr>rc_aborted := True\<rparr>"] in \<open>simp_all add: abortCall_def Let_def\<close>)

lemma call_ok_step: "call_ok c \<Longrightarrow> call_ok (callStep c e)"
proof (cases e)
  case LateResponse
  moreover assume "call_ok c"
  ultimately show ?thesis by (auto simp: callStep_def lateResponse_def call_ok_def split: call_phase.splits sum.splits)
next
  case RequestFails
  moreover assume "call_ok c"
  ultimately show ?thesis by (auto simp: callStep_def requestFails_def call_ok_def failCall_def)
qed (simp_all add: callStep_def deadlinePasses_def ok_route ok_response ok_dispose ok_abort ok_interrupt)

interpretation routed_calls: invariant_machine callStep call_ok
  by unfold_locales (rule call_ok_step)

lemma call_ok_new: "call_ok (newRoutedCall table ready streamBody hasDeadline aborted domain path)"
  unfolding newRoutedCall_def startCall_def by (simp add: ok_fail ok_wait resting_def)

text \<open>The outcome of a call stays.\<close>

definition callOutcome :: "routed_call \<Rightarrow> (broker_error + nat) option" where
  "callOutcome c = (case rc_phase c of CallDone r \<Rightarrow> Some r | _ \<Rightarrow> None)"

interpretation routed_outcome: latch_machine callStep callOutcome
  by unfold_locales
    (auto simp: callOutcome_def callStep_def routeSettles_def responseArrives_def requestFails_def disposeSettles_def abortCall_def
      deadlinePasses_def interruptCall_def lateResponse_def Let_def split: call_phase.splits call_event.split)

text \<open>A request goes out only to the current target, over its only route, before deadline and abort.\<close>

definition sends :: "routed_call \<Rightarrow> routed_call \<Rightarrow> bool" where
  "sends c c' \<longleftrightarrow> rc_sent c' = rc_sent c @ [(rc_domain c', rc_path c')] \<and>
     (\<exists>r. resolveRoutedBrokerDomain (rc_table c') (rc_domain c') = Inr (Some r)) \<and> \<not> rc_aborted c' \<and> \<not> (rc_hasDeadline c' \<and> rc_expired c')"

lemma dispatch_sends:
  "resolveRoutedBrokerDomain (rc_table c) (rc_domain c) = Inr (Some r) \<Longrightarrow>
   rc_sent (dispatchRequest c) = rc_sent c \<or> sends c (dispatchRequest c)"
  by (auto simp: dispatchRequest_def failCall_def sends_def)

lemma wait_sends: "rc_sent (waitForRoutedBrokerDomain first c) = rc_sent c \<or> sends c (waitForRoutedBrokerDomain first c)"
  using dispatch_sends [of c]
  by (auto simp: waitForRoutedBrokerDomain_def failWait_def failCall_def split: sum.split option.split)

lemma step_sends: "rc_sent (callStep c e) = rc_sent c \<or> sends c (callStep c e)"
proof (cases e)
  case (RouteSettles ok)
  then show ?thesis using dispatch_sends [of c]
    by (auto simp: callStep_def routeSettles_def failWait_def failCall_def dest: assert_route split: call_phase.split sum.split)
next
  case (DisposeSettles ok)
  have w: "sends (c\<lparr>rc_domain := d, rc_path := p, rc_redirects := n\<rparr>) c' = sends c c'" for d p n c' by (simp add: sends_def)
  show ?thesis
    using DisposeSettles wait_sends [of False "c\<lparr>rc_domain := _, rc_path := _, rc_redirects := _\<rparr>", unfolded w]
    by (auto simp: callStep_def disposeSettles_def failCall_def split: call_phase.split dispose_next.split)
qed (auto simp: callStep_def responseArrives_def requestFails_def abortCall_def deadlinePasses_def interruptCall_def lateResponse_def
      failCall_def failWait_def disposeRedirect_def Let_def split: call_phase.split sum.split option.split dispose_next.split)

text \<open>C11: A routed request is safe in every interleaving of answers, route changes, its deadline and its abort: it follows at
  most four redirects, so at most five requests go out, and a request with a streamed body goes out at most once; each goes
  to a domain with exactly one route then, after a redirect only along an allowed path, and never after deadline or
  abort; the answer it ends with is no redirect; and no response is leaked: when the call ends, the only response that was
  not released is the one it hands over, and what else is still on its way is awaited to be released.
\<close>
theorem routed_call_safe:
  assumes "c = foldl callStep (newRoutedCall table ready streamBody hasDeadline aborted domain path) es"
  shows "length (rc_sent c) \<le> 5 \<and> (rc_streamBody c \<longrightarrow> length (rc_sent c) \<le> 1) \<and>
    (rc_sent (callStep c e) = rc_sent c \<or> sends c (callStep c e) \<and> (rc_redirects (callStep c e) > 0 \<longrightarrow> targetPathAllowed (rc_path (callStep c e)))) \<and>
    (\<forall>status. callOutcome c = Some (Inr status) \<longrightarrow> status \<noteq> 308 \<and> rc_open c = 1) \<and>
    (\<forall>err. callOutcome c = Some (Inl err) \<longrightarrow> rc_open c = 0 \<and> rc_cleaned c + rc_late c \<le> length (rc_sent c))"
proof -
  have ok: "call_ok c" unfolding assms by (rule routed_calls.inv_run [OF call_ok_new])
  have "rc_redirects (callStep c e) > 0 \<longrightarrow> targetPathAllowed (rc_path (callStep c e))"
    using call_ok_step [OF ok, of e] by (simp add: call_ok_def)
  moreover have "length (rc_sent c) \<le> Suc (rc_redirects c)" "rc_redirects c \<le> 4" "rc_streamBody c \<longrightarrow> rc_redirects c = 0"
    using ok by (auto simp: call_ok_def split: call_phase.splits sum.splits)
  ultimately show ?thesis
    using step_sends [of c e] ok by (auto simp: callOutcome_def call_ok_def split: call_phase.splits)
qed

text \<open>A redirect of a manager, followed.\<close>

definition followedCall :: "call_event list" where
  "followedCall = [RouteSettles True, ResponseArrives 308 (snd (spaceMiddleware ''manager.m'' ''/api/v1'' ''/api/v1/cpm/topics'')),
     DisposeSettles True, RoutesChange [(''hub'', ''h''), (''manager.m'', ''m'')] [''manager.m''], RouteSettles True, ResponseArrives 200 []]"

lemma routed_call_safe_witness:
  "\<exists>c. c = foldl callStep (newRoutedCall [(''hub'', ''h'')] [] False True False ''hub'' ''/api/v1/cpm/topics'') followedCall \<and>
    rc_sent c = [(''hub'', ''/api/v1/cpm/topics''), (''manager.m'', ''/api/v1/topics'')] \<and> callOutcome c = Some (Inr 200) \<and> rc_open c = 1"
proof -
  let ?c = "foldl callStep (newRoutedCall [(''hub'', ''h'')] [] False True False ''hub'' ''/api/v1/cpm/topics'') followedCall"
  have "rc_sent ?c = [(''hub'', ''/api/v1/cpm/topics''), (''manager.m'', ''/api/v1/topics'')] \<and> callOutcome ?c = Some (Inr 200)" by code_simp
  then show ?thesis using routed_call_safe [of ?c, OF refl, of CallAborts] by blast
qed

text \<open>An answer read whole is the chunks in their order, and never more than the limit; a larger one is an error.\<close>

lemma readUnary_exact:
  "readUnary limit got cs = (if cs \<noteq> [] \<and> length (got @ concat cs) > limit then Inl (ResponseLimit limit) else Inr (got @ concat cs))"
  by (induction cs arbitrary: got) auto

end
