(* ===== verification/RoutedForward.thy ===== *)
theory RoutedForward
  imports JsText
begin

text \<open>
  A request tunnelled to another node: \<open>forwardRoutedRequest\<close> of \<open>packages/api-server/src/handlers/routed-forward.ts\<close>.
  The client's response and request, the abort controller, the timer and the upstream body are fields; their events and
  the answers of the transport come in any order. What the promises make of an abort happens with it.
\<close>

section \<open>One forwarded request\<close>

datatype forward_phase = FwRoute | FwResponse | FwStreaming | FwEnded

record forward =
  fw_phase :: forward_phase
  fw_aborted :: bool
  fw_hasTimeout :: bool
  fw_timer :: bool
  fw_cleanedUp :: bool
  fw_heads :: "nat list"
  fw_resEnded :: bool
  fw_resDestroyed :: bool
  fw_inFlight :: bool
  fw_received :: nat
  fw_piping :: bool
  fw_destroyed :: nat
  fw_completed :: nat

definition cleanupForward :: "forward \<Rightarrow> forward" where
  "cleanupForward f = (if fw_cleanedUp f then f else f\<lparr>fw_cleanedUp := True, fw_timer := False\<rparr>)"

text \<open>The \<open>catch\<close> clause, with the \<open>finally\<close> after it.\<close>

definition forwardFails :: "forward \<Rightarrow> forward" where
  "forwardFails f =
    (cleanupForward (f\<lparr>fw_heads := (if fw_heads f = [] then [503] else fw_heads f), fw_resEnded := True, fw_phase := FwEnded\<rparr>))\<lparr>fw_timer := False\<rparr>"

text \<open>The \<open>connection\<close> header and whether there is an \<open>upgrade\<close> header.\<close>

definition isUnsupportedRequest :: "string option \<Rightarrow> string option \<Rightarrow> bool \<Rightarrow> bool" where
  "isUnsupportedRequest method connection hasUpgrade \<longleftrightarrow>
     toUpperCase (orElse method ''GET'') = ''CONNECT'' \<or> hasUpgrade \<or>
     ''upgrade'' \<in> set (map jsTrim (splitOn (CHR '','') (toLowerCase (orElse connection ''''))))"

definition newForward :: "string option \<Rightarrow> string option \<Rightarrow> bool \<Rightarrow> bool \<Rightarrow> forward" where
  "newForward method connection hasUpgrade hasTimeout =
    (let f = \<lparr>fw_phase = FwRoute, fw_aborted = False, fw_hasTimeout = hasTimeout, fw_timer = hasTimeout, fw_cleanedUp = False, fw_heads = [],
         fw_resEnded = False, fw_resDestroyed = False, fw_inFlight = False, fw_received = 0, fw_piping = False, fw_destroyed = 0, fw_completed = 0\<rparr> in
     if isUnsupportedRequest method connection hasUpgrade
     then f\<lparr>fw_phase := FwEnded, fw_heads := [501], fw_resEnded := True, fw_timer := False, fw_cleanedUp := True\<rparr> else f)"

definition dropBody :: "forward \<Rightarrow> forward" where
  "dropBody f = (if fw_piping f then f\<lparr>fw_piping := False, fw_destroyed := Suc (fw_destroyed f)\<rparr> else f)"

text \<open>The controller aborts: what waits rejects.\<close>

definition abortSignalled :: "forward \<Rightarrow> forward" where
  "abortSignalled f0 = (let f = f0\<lparr>fw_aborted := True\<rparr> in
     if fw_phase f = FwRoute \<or> fw_phase f = FwResponse then forwardFails f else f)"

definition abortRequest :: "forward \<Rightarrow> forward" where
  "abortRequest f = (if fw_resEnded f then f
     else (let g = cleanupForward (dropBody (abortSignalled f)) in if fw_phase g = FwStreaming then g\<lparr>fw_phase := FwEnded\<rparr> else g))"

definition responseCloses :: "forward \<Rightarrow> forward" where
  "responseCloses f = (if fw_cleanedUp f then f else abortRequest f)"

definition requestCloses :: "bool \<Rightarrow> forward \<Rightarrow> forward" where
  "requestCloses complete f = (if fw_cleanedUp f \<or> complete then f else abortRequest f)"

definition timerFires :: "forward \<Rightarrow> forward" where
  "timerFires f = (if fw_timer f then abortSignalled (f\<lparr>fw_timer := False\<rparr>) else f)"

definition routeAnswers :: "bool \<Rightarrow> forward \<Rightarrow> forward" where
  "routeAnswers ok f = (if fw_phase f \<noteq> FwRoute then f
     else if ok then f\<lparr>fw_phase := FwResponse, fw_inFlight := True\<rparr> else forwardFails f)"

text \<open>\<open>headOk\<close>: \<open>writeHead\<close> accepts the status and the headers.\<close>

definition upstreamResponds :: "nat \<Rightarrow> bool \<Rightarrow> forward \<Rightarrow> forward" where
  "upstreamResponds status headOk f0 = (if \<not> fw_inFlight f0 then f0
     else (let f = f0\<lparr>fw_inFlight := False, fw_received := Suc (fw_received f0)\<rparr> in
       if fw_aborted f then f\<lparr>fw_destroyed := Suc (fw_destroyed f)\<rparr>
       else if 100 \<le> status \<and> status < 200 then forwardFails (f\<lparr>fw_timer := False, fw_destroyed := Suc (fw_destroyed f)\<rparr>)
       else if headOk then f\<lparr>fw_timer := False, fw_phase := FwStreaming, fw_heads := fw_heads f @ [status], fw_piping := True\<rparr>
       else forwardFails (f\<lparr>fw_timer := False\<rparr>)))"

definition upstreamFails :: "forward \<Rightarrow> forward" where
  "upstreamFails f0 = (if \<not> fw_inFlight f0 then f0
     else (let f = f0\<lparr>fw_inFlight := False\<rparr> in if fw_phase f = FwResponse then forwardFails f else f))"

definition bodyEnds :: "forward \<Rightarrow> forward" where
  "bodyEnds f = (if fw_piping f then
     (cleanupForward f)\<lparr>fw_piping := False, fw_completed := Suc (fw_completed f), fw_resEnded := True, fw_phase := FwEnded\<rparr> else f)"

definition bodyErrors :: "forward \<Rightarrow> forward" where
  "bodyErrors f = (if fw_piping f then abortRequest (if fw_resEnded f then f else f\<lparr>fw_resDestroyed := True\<rparr>) else f)"

datatype forward_event =
    RouteAnswers bool
  | UpstreamResponds nat bool
  | UpstreamFails
  | TimerFires
  | ResponseCloses
  | RequestCloses bool
  | BodyEnds
  | BodyErrors

definition forwardStep :: "forward \<Rightarrow> forward_event \<Rightarrow> forward" where
  "forwardStep f e = (case e of
      RouteAnswers ok \<Rightarrow> routeAnswers ok f
    | UpstreamResponds status headOk \<Rightarrow> upstreamResponds status headOk f
    | UpstreamFails \<Rightarrow> upstreamFails f
    | TimerFires \<Rightarrow> timerFires f
    | ResponseCloses \<Rightarrow> responseCloses f
    | RequestCloses complete \<Rightarrow> requestCloses complete f
    | BodyEnds \<Rightarrow> bodyEnds f
    | BodyErrors \<Rightarrow> bodyErrors f)"

section \<open>The invariant\<close>












text \<open>When \<open>writeHead\<close> throws on the upstream's headers, the client gets 503 and the upstream body is never released.\<close>

lemma refused_head_leaks_body:
  "let f = foldl forwardStep (newForward None None False True) [RouteAnswers True, UpstreamResponds 200 False] in
   fw_phase f = FwEnded \<and> fw_heads f = [503] \<and> fw_received f = 1 \<and> fw_destroyed f = 0 \<and> fw_completed f = 0"
  by code_simp

end
