(* ===== verification/Spec2Isabelle.thy ===== *)
theory Spec2Isabelle
  imports HubReplica HubWatchPipeline InstanceStore ShutdownControl ManagerRoutes HubRegister HostDiscovery ManagerTopics CsrEnrollment LifecycleObserver RunnerExit CsiTermination CsiReadiness HubHealth LocalStorage CpmConnector RoutedClient RoutedForward
begin

text \<open>
  The Scramjet Transform Hub: the hub (package \<open>host\<close>) runs sequences as instances, each behind a runner
  (package \<open>runner\<close>); a manager (package \<open>manager\<close>) joins hubs to a space. This library models the parts that
  keep the state of that system and decide what the parties see of it, and proves them correct. Package paths
  below are under \<open>packages/\<close>.

  \<^bold>\<open>How the parts interact.\<close> The instance store and the topics map of a hub tell the auditor every change. The
  auditor numbers the changes (hub id, epoch, position) and writes them with checkpoints of the whole
  inventory. A hub-state store, at the hub or at the manager, rebuilds the inventory from these records alone
  and hands each subscriber a snapshot and the changes after it. A watch stream is such a subscription as a
  response body, one JSON frame a line; a watch client reads the body and yields the events. The manager keeps
  a register of its hubs, classifies the requests it gets, forwards those for a hub, and joins the hubs' topics.
  A runner reports its life over standard output and a control stream, and the hub gives it a grace window.
  The host starts runners through its dispatcher, which reserves their ids and names in the instance store; a controller
  for each instance runs its life, kills, stops and removes it; the host restarts the entries its startup
  manifest requires, and what it publishes as its health rests on all three.

  \<^bold>\<open>Theories.\<close>
  \<^item> \<open>Prelude\<close>: insertion-ordered maps (JavaScript \<open>Map\<close>) and sets, strings, results, and the contracts of the state
    machines as locales: \<open>invariant_machine\<close>, \<open>guarded_machine\<close>, \<open>contract_machine\<close>, \<open>latch_machine\<close>. Every machine
    below interprets the one its properties rest on. \<open>JsValue\<close>: values of type \<open>unknown\<close>. \<open>JsText\<close>: numerals,
    \<open>trim\<close>, \<open>split\<close>, \<open>join\<close>, line ends, byte lengths.
  \<^item> \<open>HubStateData\<close>, \<open>HubStateStore\<close>, \<open>HubStateFeed\<close>: \<open>hub-state/src\<close>. The checks and the JSON copy; the class
    \<open>HubStateStore\<close>, one definition per method; its runs, with the invariant \<open>store_ok\<close> and the unbroken chain of
    changes of one subscription. \<open>Auditor\<close>: \<open>host/src/lib/auditor.ts\<close>. \<open>HubReplica\<close>: the abstract inventory and its
    mutations, and the simulation between them and the store that reads the auditor's records.
  \<^item> \<open>HubWatchServer\<close>: \<open>host/src/lib/hub-event-watch.ts\<close>, the queue, the pump, heartbeats and the end of one watch
    stream. \<open>HubWatchClient\<close>, \<open>HubWatchWire\<close>: \<open>rest-api2/src/hub-event-watch.ts\<close> and its helpers, the async iterator
    and the independence from the cutting of the body. \<open>HubWatchPipeline\<close>: store and stream together.
  \<^item> \<open>RuntimeManifest\<close>, \<open>RpcPath\<close>, \<open>InstanceStore\<close>: \<open>rest-api2/src/runtime-manifest.ts\<close>, \<open>host/src/lib/rpc-path.ts\<close> and
    \<open>host/src/lib/instance-store.ts\<close>, the instances with ids, names, paths, manifests and audits.
  \<^item> \<open>HostTopic\<close>, \<open>HostDiscovery\<close>: \<open>host/src/lib/serviceDiscovery\<close>, the topic stream, the audited map of topics and
    the handlers of the topic API.
  \<^item> \<open>ManagerRoutes\<close>, \<open>HubRegister\<close>, \<open>ManagerTopics\<close>: \<open>manager/src/lib\<close>, the classification and forwarding of requests, the
    register of hubs, sequences and instances, and the topic multiplexer as an interleaving of calls, stream
    ends, answers of hubs and turns of its update dispatcher.
  \<^item> \<open>CsrDer\<close>, \<open>CsrEnrollment\<close>: \<open>manager/src/lib/csr-enrollment.ts\<close>, the DER reader and the issuing of client
    certificates to hubs against grants of the operator.
  \<^item> \<open>RunnerExit\<close>, \<open>LifecycleObserver\<close>, \<open>ShutdownControl\<close>: \<open>runner/src/executor\<close>, what a closed child process
    means, what its output says of its life, and the grace window before it is stopped.

  \<^item> \<open>CsiController\<close>, \<open>CsiTermination\<close>, \<open>CsiReadiness\<close>: \<open>host/src/lib/csi-controller.ts\<close>, the life of an instance as
    an event loop. Every suspended \<open>async\<close> function is a task; \<open>resume\<close> is what one does when its promise settles.
    The invariant \<open>lifecycle_ok\<close> with the protocol of removal and end, the measure \<open>csiWork\<close>, and the routes.
  \<^item> \<open>CsiDispatcher\<close>: \<open>host/src/lib/csi-dispatcher.ts\<close>, the phases of a start and the events of the instances.
  \<^item> \<open>StartupConfig\<close>: \<open>host/src/lib/startup-config.ts\<close> and the entry check of \<open>utility/src/typeguards/dto\<close>.
    \<open>RequiredStartup\<close>, \<open>HubHealth\<close>: \<open>host/src/lib/host.ts\<close> and \<open>hub-watch-health.ts\<close>, the supervision of the entries
    a hub must run, on top of the dispatcher, and the health it publishes, read from stores and controllers.
  \<^item> \<open>LocalStorage\<close>: \<open>runner/src/local-storage-agent.ts\<close> and the hub's side in \<open>csi-controller.ts\<close>, the storage the
    instances of a hub share. \<open>CpmConnector\<close>: \<open>host/src/lib/cpm-connector.ts\<close> with \<open>utility/src/exponential-backoff.ts\<close>,
    the attempts, the retry loop and the communication streams of a hub's connection to its manager.
  \<^item> \<open>RoutedHeaders\<close>: the redirects of hubs and managers, \<open>manager/src/lib/manager.ts\<close> (requests for a hub),
    \<open>host/src/lib/api/host-api-v1.ts\<close> (requests for the manager) and their readers in \<open>api-router\<close> and \<open>api-server\<close>.
    \<open>RoutedClient\<close>: \<open>api-router/src/client-transports.ts\<close>, a request that follows them. \<open>RoutedForward\<close>:
    \<open>api-server/src/handlers/routed-forward.ts\<close>, a request tunnelled to another node.

  \<^bold>\<open>State and steps.\<close> A class is a record with one field per member, a method a function of it that returns the new
  record; what an outside party sees (frames written, callbacks called, audits, messages) is a list in
  the record or in the result. An asynchronous component is a function of the state and an event, and an
  event is what the code does between two \<open>await\<close>s, so a list of events is an interleaving; the theorems
  quantify over all of them. Errors are values (\<open>Inl\<close>).

  \<^bold>\<open>What the properties show.\<close> Replication: the store holds what the mutations specify (\<open>hub_replication\<close>), rejects any
  record that does not continue its cursor (\<open>consume_discontinuity\<close>), and every subscription and every watch
  body is a gap-free chain that the client accepts and yields in order (\<open>subscription_feed\<close>,
  \<open>watch_stream_protocol\<close>, \<open>watch_end_to_end\<close>). The audits of instances and topics replay to the live ones. Names and
  ids are one to one. The manager's views agree along every run, requests go only to the hub they name. Topics: every write is answered
  once, a first chunk is not lost, no update of the dispatcher is lost, only providers are piped, and only
  to consumers of their topic. No
  hub's certificate is authorized without the operator's approval or after its revocation. The grace window
  and the lifecycle report depend on the frames and not on their
  cutting into chunks, and what the observers hold is bounded. An instance is removed before it ends, once, in every
  interleaving of requests and messages (\<open>csi_lifecycle_protocol\<close>), an immediate kill brings it there, and a failed
  start never gets a route. Reserved ids belong to a start, restarts of required entries are counted exactly, and a
  hub calls itself healthy only when every required instance is registered, running and ready. The caches of the shared
  storage agree with it and its writes settle; a connector never stays without connection and retry loop. A request for a hub
  has one target, tunnelled or redirected; a client follows a bounded number of redirects and leaks no response.

  \<^bold>\<open>Bounds and termination.\<close> The watch queues hold 256 changes, the constant of the code; the control frame and line
  limits are the code's. The controller resumes at most 11 + 19 n times for n requests (\<open>csi_runs_terminate\<close>). No fuel is used: the pump and the line loop terminate by measures on the frames and characters
  left. Positions and times are unbounded integers, as exact as the doubles of the code up to
  \<open>Number.MAX_SAFE_INTEGER\<close>, which the cursor check enforces.

  \<^bold>\<open>Parameters.\<close> Schemas of the validation library, \<open>JSON.parse\<close> and \<open>JSON.stringify\<close> where a text is read or written,
  the random revision of a manifest, generated ids, the answers of adapters and runners, the acceptance of a write by a stream, clocks and timers, hashing, OpenSSL and the parsing of certificates. A text is a
  list of characters below 256.

  \<^bold>\<open>Not modelled.\<close> Process and container adapters, the HTTP and verser servers and clients, the command line, loggers,
  object storage and the test suites: input and output around the modelled state. The classes that only
  wire the modelled parts together (\<open>Host\<close>, \<open>Manager\<close>, \<open>Runner\<close>) are left out or modelled in
  part; the manifest lists them.
\<close>

section \<open>A small hub, for the witnesses\<close>

definition demoCursor :: "int \<Rightarrow> jsval" where
  "demoCursor p = JObj Plain [(''hubId'', JStr ''hub''), (''epoch'', JStr ''e1''), (''position'', JNum (NInt p))]"

definition demoSequence :: jsval where
  "demoSequence = JObj Plain [(''id'', JStr ''seq-1''), (''instances'', JArr Plain [])]"

definition demoInventory :: jsval where
  "demoInventory = JObj Plain
     [(''sequences'', JArr Plain [JObj Plain [(''id'', JStr ''seq-1''), (''instances'', JArr Plain []), (''manifests'', JArr Plain [])]]),
      (''instances'', JArr Plain []), (''topics'', JArr Plain []), (''health'', JObj Plain [(''healthy'', JBool True)])]"

definition demoCheckpoint :: jsval where
  "demoCheckpoint = JObj Plain [(''type'', JStr ''checkpoint''), (''cursor'', demoCursor 0), (''inventory'', demoInventory)]"

definition demoCalls :: "store_call list" where
  "demoCalls = [Consume (\<lambda>_ _. False) demoCheckpoint]"

definition demoChange :: jsval where
  "demoChange = JObj Plain [(''type'', JStr ''change''), (''cursor'', demoCursor 1), (''previousCursor'', demoCursor 0),
     (''mutation'', JObj Plain [(''kind'', JStr ''health''), (''action'', JStr ''upsert''),
        (''value'', JObj Plain [(''healthy'', JBool False)])])]"

definition demoEnv :: pump_env where
  "demoEnv = \<lparr>pe_valid = frame_valid, pe_gate = (\<lambda>_. True), pe_accept = (\<lambda>_. True), pe_source = None\<rparr>"

definition demoEvents :: "link_event list" where
  "demoEvents = [FromStream demoEnv ReadPull, FromStream demoEnv HeartbeatTick,
     FromStore demoEnv (Consume (\<lambda>_ _. False) demoChange), FromStream demoEnv HeartbeatTick]"

definition demoLink :: watch_link where
  "demoLink = (case createHubEventWatchStream (foldl storeStep newHubStateStore demoCalls) ''health'' of
     Inr l \<Rightarrow> l | Inl e \<Rightarrow> undefined)"

lemma demo_opens: "createHubEventWatchStream (foldl storeStep newHubStateStore demoCalls) ''health'' = Inr demoLink"
proof -
  have "\<not> (case createHubEventWatchStream (foldl storeStep newHubStateStore demoCalls) ''health'' of Inl e \<Rightarrow> True | Inr l \<Rightarrow> False)"
    by code_simp
  then show ?thesis by (auto simp: demoLink_def split: sum.splits)
qed

lemma demo_events_ok: "list_all (event_ok (wl_id demoLink)) demoEvents"
  by (simp add: demoEvents_def event_ok_def leaves_def demoEnv_def)

section \<open>The watch protocol\<close>

text \<open>C1: Whatever audit records the store receives and however they interleave with reads,
  heartbeats, backpressure, disconnects and shutdown, the frames a watch stream writes satisfy the
  client's acceptance rules: one snapshot first, then changes linked without a gap, heartbeats that
  repeat the delivered cursor and never run behind it, nothing after an error frame; every frame has
  the requested kind, and the queue stays within its capacity.\<close>

theorem watch_stream_protocol:
  assumes "createHubEventWatchStream (foldl storeStep newHubStateStore cs) kind = Inr l"
    and "list_all (event_ok (wl_id l)) es"
  shows "wireOk None (ws_out (wl_server (foldl linkStep l es))) \<and>
    list_all (\<lambda>f. frameKind f = JStr kind \<and> frame_valid f) (ws_out (wl_server (foldl linkStep l es))) \<and>
    list_all (\<lambda>f. \<not> isErrorFrame f) (butlast (ws_out (wl_server (foldl linkStep l es)))) \<and>
    length (ws_live (wl_server (foldl linkStep l es))) \<le> HUB_WATCH_QUEUE_CAPACITY"
proof -
  have "link_frames_ok kind (foldl linkStep l es)"
    using createHubEventWatchStream_frames [OF store_runs.inv_run [OF store_ok_new] assms(1)] assms(2)
    by (rule linkRun_frames)
  then show ?thesis
    by (auto simp: link_frames_ok_def link_ok_def server_ok_def frames_ok_def list_all_iff)
qed

lemma watch_stream_protocol_witness:
  "wireOk None (ws_out (wl_server (foldl linkStep demoLink demoEvents)))"
  using watch_stream_protocol [OF demo_opens demo_events_ok] by blast


definition demoOut :: "watch_frame list" where
  "demoOut = ws_out (wl_server (foldl linkStep demoLink demoEvents))"

definition demoRender :: "watch_frame \<Rightarrow> string" where
  "demoRender f = (case f of SnapshotFrame v \<Rightarrow> ''s'' | ChangeFrame c \<Rightarrow> ''c''
     | HeartbeatFrame k c d \<Rightarrow> (if positionOf c = 0 then ''h0'' else ''h1'') | ErrorFrame k code msg c b \<Rightarrow> ''e'')"

definition demoReader :: client_env where
  "demoReader = \<lparr>ce_parse = (\<lambda>line. case find (\<lambda>f. demoRender f = line) demoOut of Some f \<Rightarrow> Parsed f | None \<Rightarrow> BadFrame),
     ce_now = 0, ce_closes = (\<lambda>_. False)\<rparr>"

lemma demo_out: "length demoOut = 4"
  by code_simp



text \<open>C3: Replication. A host that resets its state identity, audits a checkpoint of its inventory
  and then one record per change hands every listener a record sequence from which a fresh store
  rebuilds exactly the inventory the changes specify, at the auditor's cursor.\<close>

theorem hub_replication:
  assumes "distinct (au_listeners a)" and "listener \<in> set (au_listeners a)" and "recordsFor listener a = []"
    and "wfInventory inventory" and "list_all wfMutation ms"
    and "hub \<noteq> []" and "ep \<noteq> []" and "int (length ms) \<le> 9007199254740991"
  shows "\<exists>b. hostAudits stringifies now a hub ep inventory ms = Inr b \<and>
    inSync (consumeAll throws newHubStateStore (recordsFor listener b))
      \<lparr>si_hubId = hub, si_epoch = ep, si_position = int (length ms)\<rparr> \<and>
    viewOf (consumeAll throws newHubStateStore (recordsFor listener b)) = fold specApply ms (inventoryView inventory)"
proof -
  let ?i = "\<lparr>si_hubId = hub, si_epoch = ep, si_position = 0\<rparr>"
  have i: "identity_ok ?i" using assms(6,7) by (simp add: identity_ok_def)
  obtain b where b: "hostAudits stringifies now a hub ep inventory ms = Inr b"
    "recordsFor listener b = checkpointAudit ?i inventory # changeAudits ?i ms"
    using hostAudits_records [OF assms(1,2), of stringifies now hub ep inventory ms] assms(3) by auto
  let ?t = "fst (consume throws newHubStateStore (checkpointAudit ?i inventory))"
  have t: "inSync ?t ?i" "viewOf ?t = inventoryView inventory"
    using consume_first_checkpoint [OF assms(4) i, of throws] by auto
  show ?thesis
    using b consumeAll_tracks [OF t(1) _ i, of ms throws] t(2) assms(5,8) by (simp add: list_all_iff)
qed

definition demoAuditor :: auditor where
  "demoAuditor = \<lparr>au_identity = None, au_listeners = [0], au_delivered = [], au_stream = []\<rparr>"

lemma hub_replication_witness:
  "\<exists>b. hostAudits (\<lambda>_. True) 0 demoAuditor ''hub'' ''e1'' demoInventory [SequenceRemove ''seq-1''] = Inr b \<and>
    viewOf (consumeAll (\<lambda>_ _. False) newHubStateStore (recordsFor 0 b)) = specApply (SequenceRemove ''seq-1'') (inventoryView demoInventory)"
proof -
  have "wfInventory demoInventory" by code_simp
  moreover have "recordsFor 0 demoAuditor = []" by (simp add: recordsFor_def demoAuditor_def)
  ultimately show ?thesis
    using hub_replication [of demoAuditor 0 demoInventory "[SequenceRemove ''seq-1'']" "''hub''" "''e1''" "\<lambda>_. True" 0 "\<lambda>_ _. False"]
    by (auto simp: demoAuditor_def)
qed

text \<open>C16: The hub-state store keeps its invariant along every run: its cursor is well formed, an
  unavailable store is empty, its maps hold JSON under unique keys, subscriber identities are distinct
  and no subscriber is ahead of the store's cursor.\<close>

theorem store_invariant: "store_ok (foldl storeStep newHubStateStore cs)"
  by (rule store_runs.inv_run) (rule store_ok_new)

text \<open>C17: Every subscription receives, after its snapshot, an unbroken chain of changes: each names
  the previous one's cursor and moves strictly forward within one hub identity, whatever changes of
  other kinds lie between them.\<close>

theorem subscription_feed:
  assumes "subscribe (foldl storeStep newHubStateStore cs) kind = Inr (t, i, snap)"
  shows "linked (cursorView (jsProp snap ''cursor'')) (framesFor i (storeEvents t ds))"
proof -
  have ok: "store_ok (foldl storeStep newHubStateStore cs)" by (rule store_runs.inv_run) (rule store_ok_new)
  obtain b c where t: "store_ok t" "hs_subscribers t = hs_subscribers (foldl storeStep newHubStateStore cs) @ [b]"
    "sb_id b = i" "sb_prev b = c" "snap = makeSnapshot (foldl storeStep newHubStateStore cs) kind c"
    "hs_cursor (foldl storeStep newHubStateStore cs) = Some c"
    using subscribe_ok [OF ok assms] by blast
  have "isJson c" using ok t(6) by (simp add: store_ok_def)
  then have "present t i (cursorView (jsProp snap ''cursor''))"
    using t by (auto simp: present_def makeSnapshot_def)
  then show ?thesis by (rule feed_linked [OF t(1)])
qed

lemma subscription_feed_witness:
  "\<exists>t i snap. subscribe (foldl storeStep newHubStateStore demoCalls) ''health'' = Inr (t, i, snap) \<and>
    linked (cursorView (jsProp snap ''cursor'')) (framesFor i (storeEvents t [Consume (\<lambda>_ _. False) demoChange]))"
proof -
  obtain t i snap where sub: "subscribe (foldl storeStep newHubStateStore demoCalls) ''health'' = Inr (t, i, snap)"
    using demo_opens by (auto simp: createHubEventWatchStream_def split: sum.splits)
  from subscription_feed [OF sub, of "[Consume (\<lambda>_ _. False) demoChange]"] sub show ?thesis by blast
qed

text \<open>C18: A record that does not continue the store's cursor (a gap, a regression, another hub
  identity) makes the store unavailable: every map is emptied, every subscriber is told once with a
  GAP error and dropped, and later snapshots fail.\<close>

theorem consume_discontinuity:
  assumes "\<not> hs_closed s" and "isObject audit" and "jsProp audit ''type'' = JStr ''change''" and "\<not> continues s audit"
  shows "contents_empty (fst (consume throws s audit)) \<and> \<not> assertAvailable (fst (consume throws s audit)) \<and>
    (\<exists>msg. fst (snd (consume throws s audit)) = map (\<lambda>b. Fail (sb_id b) (HubStateSourceError GAP msg)) (hs_subscribers s)) \<and>
    snapshot (fst (consume throws s audit)) kind = Inl unavailableError"
proof -
  have "\<exists>msg. consume throws s audit = invalidated s msg"
    using assms by (auto simp: consume_def isObject_def)
  then obtain msg where "consume throws s audit = invalidated s msg" by blast
  then show ?thesis
    by (auto simp: invalidated_def invalidate_def contents_empty_def assertAvailable_def snapshot_def split: option.splits)
qed

lemma consume_discontinuity_witness:
  "contents_empty (fst (consume (\<lambda>_ _. False) newHubStateStore demoChange))"
proof -
  have "\<not> hs_closed newHubStateStore" "isObject demoChange" "jsProp demoChange ''type'' = JStr ''change''"
    "\<not> continues newHubStateStore demoChange"
    by code_simp+
  from consume_discontinuity [OF this, of "\<lambda>_ _. False"] show ?thesis by blast
qed

section \<open>The watch client\<close>

text \<open>C29: For every run of the watch client, whatever the order of chunks, timers and calls: the i-th
  promise returned by the iterator is settled i-th, the events it yields are a prefix of what the
  stream delivered, and that is one snapshot followed by changes without a gap; the buffer stays
  within its capacity.\<close>

theorem watch_iterator_order:
  "map fst (wc_settled (foldl clientStep (createHubEventWatch kind aborted now) es)) @
      wc_pending (foldl clientStep (createHubEventWatch kind aborted now) es) =
      [0..<wc_nextId (foldl clientStep (createHubEventWatch kind aborted now) es)] \<and>
    prefix (yieldsOf (wc_settled (foldl clientStep (createHubEventWatch kind aborted now) es)))
      (wc_accepted (foldl clientStep (createHubEventWatch kind aborted now) es)) \<and>
    chainFrom (wc_accepted (foldl clientStep (createHubEventWatch kind aborted now) es)) \<and>
    length (wc_queue (foldl clientStep (createHubEventWatch kind aborted now) es)) \<le> HUB_WATCH_QUEUE_CAPACITY"
  using client_runs.inv_run [OF client_ok_new, of kind aborted now es]
  by (auto simp: client_ok_defs split: if_splits)

text \<open>C30: Once the client has ended, no promise is left waiting: every call of \<open>next\<close> made so far is
  settled, every timer is disarmed and the request has been aborted.\<close>

theorem watch_terminal_settles:
  assumes "wc_terminal (foldl clientStep (createHubEventWatch kind aborted now) es) = Some t"
  shows "map fst (wc_settled (foldl clientStep (createHubEventWatch kind aborted now) es)) =
      [0..<wc_nextId (foldl clientStep (createHubEventWatch kind aborted now) es)] \<and>
    wc_silence (foldl clientStep (createHubEventWatch kind aborted now) es) = None \<and>
    \<not> wc_openTimer (foldl clientStep (createHubEventWatch kind aborted now) es) \<and>
    wc_aborted (foldl clientStep (createHubEventWatch kind aborted now) es)"
  using client_runs.inv_run [OF client_ok_new, of kind aborted now es] assms
  by (auto simp: client_ok_defs)

lemma watch_terminal_settles_witness:
  "map fst (wc_settled (foldl clientStep (createHubEventWatch ''topic'' False 0) [NextCall, NextCall, CloseCall])) = [0, 1]"
proof -
  have t: "wc_terminal (foldl clientStep (createHubEventWatch ''topic'' False 0) [NextCall, NextCall, CloseCall]) = Some Closed"
    "wc_nextId (foldl clientStep (createHubEventWatch ''topic'' False 0) [NextCall, NextCall, CloseCall]) = 2"
    by code_simp+
  from watch_terminal_settles [OF t(1)] t(2) show ?thesis by (simp add: upt_rec)
qed

text \<open>The outcome of a watch (closed, aborted or lost, with its error) is chosen once: no later
  chunk, timer, signal or call changes it.\<close>

theorem watch_outcome_latched:
  assumes "clientOutcome (foldl clientStep s es) = Some r"
  shows "clientOutcome (foldl clientStep s (es @ fs)) = Some r"
  using assms by (rule client_latch.outcome_prefix)

lemma watch_outcome_latched_witness:
  "clientOutcome (foldl clientStep (createHubEventWatch ''topic'' False 0) ([AbortSignal] @ [CloseCall, OpenTimer, ReadFailed])) =
    Some (Aborted, Some AbortError)"
proof -
  have "clientOutcome (foldl clientStep (createHubEventWatch ''topic'' False 0) [AbortSignal]) = Some (Aborted, Some AbortError)"
    by code_simp
  then show ?thesis by (rule watch_outcome_latched)
qed

text \<open>How the body is cut into chunks does not matter: two chunks leave the client in the same
  state as their concatenation, up to the text buffer.\<close>

theorem watch_chunk_boundaries:
  assumes "wc_phase s = Reading" and "wc_terminal s = None"
  shows "(chunkStep env (chunkStep env s a) b)\<lparr>wc_text := []\<rparr> = (chunkStep env s (a @ b))\<lparr>wc_text := []\<rparr>"
  using assms by (rule chunk_boundaries)

lemma watch_chunk_boundaries_witness:
  "(chunkStep demoReader (chunkStep demoReader ((createHubEventWatch ''topic'' False 0)\<lparr>wc_phase := Reading\<rparr>) ''s'') ''e'')\<lparr>wc_text := []\<rparr> =
    (chunkStep demoReader ((createHubEventWatch ''topic'' False 0)\<lparr>wc_phase := Reading\<rparr>) ''se'')\<lparr>wc_text := []\<rparr>"
  using watch_chunk_boundaries [of "(createHubEventWatch ''topic'' False 0)\<lparr>wc_phase := Reading\<rparr>" demoReader "''s''" "''e''"]
  by (simp add: createHubEventWatch_def Let_def)

text \<open>The client accepts a well-formed frame of its kind exactly when the acceptance rules of the
  wire allow it, and then holds the cursor they name; otherwise it ends with a gap, restart or
  protocol error. The one exception is its own full queue.\<close>

theorem client_accepts_exactly:
  assumes "reader_ok s" and "frameKind f = JStr (wc_kind s)" and "frame_valid f" and "quietEnv env" and "\<not> isErrorFrame f"
  shows "if wireAccepts (clientView s) f
    then (reader_ok (frameStep env s f) \<and> clientView (frameStep env s f) = wireNext (clientView s) f) \<or> overflowed (frameStep env s f)
    else rejected (frameStep env s f)"
  using assms by (rule frame_accepts)

lemma client_accepts_exactly_witness:
  "rejected (frameStep demoReader (createHubEventWatch ''topic'' False 0) (HeartbeatFrame ''topic'' (demoCursor 0) (demoCursor 0)))"
proof -
  have "reader_ok (createHubEventWatch ''topic'' False 0)"
    using client_ok_new [of "''topic''" False 0] by (simp add: reader_ok_def) (simp add: createHubEventWatch_def Let_def)
  moreover have "wc_kind (createHubEventWatch ''topic'' False 0) = ''topic''" "clientView (createHubEventWatch ''topic'' False 0) = None"
    by (simp_all add: createHubEventWatch_def Let_def clientView_def)
  moreover have "frame_valid (HeartbeatFrame ''topic'' (demoCursor 0) (demoCursor 0))" by code_simp
  ultimately show ?thesis
    using client_accepts_exactly [of "createHubEventWatch ''topic'' False 0" "HeartbeatFrame ''topic'' (demoCursor 0) (demoCursor 0)" demoReader]
    by (simp add: frameKind_def quietEnv_def demoReader_def isErrorFrame_def)
qed

section \<open>Audit records\<close>

text \<open>A non-zero audit code of an API request can be decoded: two requests with the same code
  have the same object type, method and operation as far as the code's tables know them.\<close>

theorem getOpCode_decodes:
  assumes "getOpCode p = getOpCode q" and "getOpCode p \<noteq> 0"
  shows "indexOfOpt objectTypes (rq_type p) = indexOfOpt objectTypes (rq_type q) \<and>
    indexOf auditMethods (toLowerCase (rq_method p)) = indexOf auditMethods (toLowerCase (rq_method q)) \<and>
    indexOfOpt auditOps (rq_op p) = indexOfOpt auditOps (rq_op q)"
  using getOpCode_digits [of p] getOpCode_digits [of q] assms by simp

definition demoRequest :: "string \<Rightarrow> audited_request" where
  "demoRequest meth = \<lparr>rq_method = meth, rq_type = Some ''instance'', rq_op = Some ''stdin'', rq_id = None,
     rq_audit = \<lparr>ad_id = ''1'', ad_rx = 0, ad_tx = 0, ad_requestorId = ''system''\<rparr>\<rparr>"

lemma getOpCode_decodes_witness: "getOpCode (demoRequest ''POST'') = getOpCode (demoRequest ''post'') \<and>
    indexOf auditMethods (toLowerCase (rq_method (demoRequest ''POST''))) = indexOf auditMethods (toLowerCase (rq_method (demoRequest ''post'')))"
proof -
  have c: "getOpCode (demoRequest ''POST'') = getOpCode (demoRequest ''post'')" "getOpCode (demoRequest ''POST'') \<noteq> 0"
    by code_simp+
  from getOpCode_decodes [OF c] c show ?thesis by blast
qed

end
